(* ===== verification/Prelude.thy ===== *)
theory Prelude
  imports Main "HOL-Library.Word" "HOL-Library.Multiset"
begin

text \<open>
  Shared vocabulary of the development: the errors the services throw, the
  sum-type plumbing of transactions, decimal strings (BIGINT columns travel as
  digit strings), tables as insertion-ordered lists with the four SQL shapes the
  services use (SELECT, UPDATE ... WHERE, INSERT, DELETE), and the generic lemmas
  on all of these that the component theories share.
\<close>

section \<open>Errors\<close>

text \<open>
  One constructor per API error code of src/errors.js the model can raise, plus the
  plain JavaScript errors and the PostgreSQL refusals (unique and check
  violations) that can surface.  Constructors carry the details a caller acts on;
  the human-readable messages are not modelled.
\<close>

datatype bill_status = BillOpen | BillClosed | BillVoid

datatype payment_status =
    Pending | In_Doubt | Ambiguous | Succeeded | Failed | Cancelled
  | Partially_Refunded | Refunded

datatype split_status = Split_Active | Split_Stale | Split_Void

datatype bill_error =
    Bill_Not_Found | Bill_Not_Open bill_status | Bill_Not_Itemised int | Bill_Item_Not_Found
  | Bill_Has_Payments | Bill_Already_Served | Open_Bill_Exists "nat option" | Open_Bill_Not_Found
  | Total_Below_Amount_Paid int int | Product_Not_Found | Product_Inactive
  | Menu_Currency_Mismatch | Guest_Order_Not_Found

datatype payment_error =
    Payment_Exceeds_Balance int | Payment_Not_Found
  | Payment_State_Invalid payment_status payment_status
  | Payment_Claim_Not_Found | Payment_Claim_Not_Pending payment_status
  | Payment_Reference_Already_Used | Payment_Provider_Misconfigured
  | Payment_Resolution_Unavailable
  | Bank_Movement_Already_Used | Webhook_Payment_Unresolved

datatype webhook_error =
    Webhook_Provider_Unknown | Webhook_Signature_Missing | Webhook_Body_Unverifiable
  | Webhook_Timestamp_Out_Of_Tolerance | Webhook_Signature_Invalid | Webhook_Already_Processed
  | Webhook_Replay_Protection_Unavailable

datatype split_error =
    Split_Participants_Invalid | Split_Not_Itemised
  | Split_Claim_Unknown "nat list" "string list" | Split_Claims_Incomplete "nat list"
  | Split_Units_Mismatch nat int int
  | Split_Amount_Mismatch int int | Split_Nothing_Outstanding
  | Split_Not_Found | Split_Not_Active split_status | Split_Is_Stale "int option"
  | Split_Share_Not_Found | Split_Share_Overpaid int
  | Split_Has_Payments | Split_In_Flight nat | Split_Already_Exists

datatype fiscal_error =
    Fiscal_Rif_Malformed | Fiscal_Rif_Missing | Fiscal_Rif_Locked
  | Fiscal_Series_Missing | Fiscal_Series_Locked | Fiscal_Range_Exhausted int int
  | Fiscal_Request_Not_Found | Fiscal_Draft_Missing | Fiscal_Nothing_To_Declare
  | Fiscal_Already_Requested | Fiscal_Provider_Not_Configured

datatype account_error =
    Staff_Not_Found | Staff_Outranked | Staff_Role_Too_High | Staff_Self_Forbidden
  | Staff_Last_Owner | Staff_Email_Taken | Forbidden_Role
  | Invitation_Invalid | Invitation_Email_In_Use | Staff_Invitation_Not_Found
  | Auth_Token_Invalid | Invalid_Credentials | Mfa_Code_Invalid | Mfa_Not_Enabled
  | Mfa_Already_Enabled | Mfa_Not_Enrolled | Guest_Session_Missing | Guest_Session_Invalid | Password_Unchanged
  | Operator_Email_Taken | Operator_Not_Found | Operator_Setup_Invalid | Operator_Bootstrap_Unavailable
  | Onboarding_Token_Invalid | Email_Already_Registered | Rif_Already_Registered | Qr_Invalid

datatype plan_error =
    Plan_Upgrade_Required | Plan_Downgrade_Blocked | Subscription_Suspended
  | Subscription_Charge_Not_Found | Subscription_Charge_Closed
  | Subscription_Charge_Exists | Subscription_Price_Missing
  | Subscription_Notice_Duplicate | Subscription_Notice_Not_Found | Subscription_Notice_Closed

datatype menu_error =
    Category_Not_Found | Category_Name_Taken | Product_Name_Taken | Product_Tax_Conflict | Table_Name_Taken
  | Product_Image_Not_Found | Product_Image_Unsupported_Media | Branding_Not_Found | Menu_Pdf_Not_Found

datatype bank_error =
    Bank_Connection_Not_Found | Bank_Connection_Kind_Mismatch | Bank_Connection_Rif_Taken | Bank_Inbound_Unauthorized

datatype general_error =
    Plain_Error | Invalid_Monetary_Value | Fx_Unavailable | Invalid_Amount | Validation_Failed
  | Not_Found | Restaurant_Not_Found | Table_Not_Found
  | Idempotency_Key_Reused | Idempotency_In_Flight | Rate_Limited | Rate_Limiter_Unavailable
  | Db_Unique string | Db_Check string | Db_Not_Null string

datatype error =
    General general_error | Bill_E bill_error | Pay_E payment_error | Split_E split_error
  | Hook_E webhook_error | Fiscal_E fiscal_error | Account_E account_error | Plan_E plan_error
  | Menu_E menu_error | Bank_E bank_error

section \<open>Results\<close>

text \<open>A throw is \<open>Inl\<close>; \<open>and_then\<close> sequences two fallible computations.\<close>

fun and_then :: "'e + 'a \<Rightarrow> ('a \<Rightarrow> 'e + 'b) \<Rightarrow> 'e + 'b" where
  "and_then (Inl e) f = Inl e"
| "and_then (Inr x) f = f x"

definition require :: "bool \<Rightarrow> 'e \<Rightarrow> 'e + unit" where
  "require b e = (if b then Inr () else Inl e)"

fun map_ok :: "('a \<Rightarrow> 'e + 'b) \<Rightarrow> 'a list \<Rightarrow> 'e + 'b list" where
  "map_ok f [] = Inr []"
| "map_ok f (x # xs) = and_then (f x) (\<lambda>y. and_then (map_ok f xs) (\<lambda>ys. Inr (y # ys)))"

fun fold_ok :: "('x \<Rightarrow> 's \<Rightarrow> 'e + 's) \<Rightarrow> 'x list \<Rightarrow> 's \<Rightarrow> 'e + 's" where
  "fold_ok f [] s = Inr s"
| "fold_ok f (x # xs) s = and_then (f x s) (fold_ok f xs)"

named_theorems result_simps "unfolding of fallible computations"

lemma and_then_Inr_iff [result_simps]:
  "and_then m f = Inr y \<longleftrightarrow> (\<exists>x. m = Inr x \<and> f x = Inr y)"
  by (cases m) auto

lemma and_then_Inl_iff [result_simps]:
  "and_then m f = Inl e \<longleftrightarrow> m = Inl e \<or> (\<exists>x. m = Inr x \<and> f x = Inl e)"
  by (cases m) auto

lemma require_Inr_iff [result_simps]: "require b e = Inr u \<longleftrightarrow> b"
  by (simp add: require_def)

lemma require_Inl_iff [result_simps]: "require b e = Inl e' \<longleftrightarrow> \<not> b \<and> e' = e"
  by (auto simp: require_def)

lemma require_True [simp]: "require True e = Inr ()"
  and require_False [simp]: "require False e = Inl e"
  by (simp_all add: require_def)

lemma map_ok_Inr_length: "map_ok f xs = Inr ys \<Longrightarrow> length ys = length xs"
  by (induction xs arbitrary: ys) (auto simp: result_simps)

lemma map_ok_Inr_nth:
  assumes "map_ok f xs = Inr ys" "i < length xs"
  shows "f (xs ! i) = Inr (ys ! i)"
  using assms
  by (induction xs arbitrary: ys i) (auto simp: result_simps nth_Cons split: nat.split)

lemma map_ok_pure: "(\<And>x. x \<in> set xs \<Longrightarrow> f x = Inr (g x)) \<Longrightarrow> map_ok f xs = Inr (map g xs)"
  by (induction xs) auto

lemma map_ok_InrD: "map_ok f xs = Inr ys \<Longrightarrow> x \<in> set xs \<Longrightarrow> \<exists>y \<in> set ys. f x = Inr y"
  by (induction xs arbitrary: ys) (auto simp: result_simps)

lemma fold_ok_invariant:
  assumes "fold_ok f xs s = Inr s'" "P s" "\<And>x s s'. x \<in> set xs \<Longrightarrow> P s \<Longrightarrow> f x s = Inr s' \<Longrightarrow> P s'"
  shows "P s'"
  using assms by (induction xs arbitrary: s) (auto simp: result_simps)

lemma fold_ok_returns:
  assumes "P s" "\<And>x s. x \<in> set xs \<Longrightarrow> P s \<Longrightarrow> \<exists>s'. f x s = Inr s' \<and> P s'"
  shows "\<exists>s'. fold_ok f xs s = Inr s' \<and> P s'"
  using assms
proof (induction xs arbitrary: s)
  case (Cons x xs)
  then obtain s1 where "f x s = Inr s1" "P s1" by fastforce
  thus ?case using Cons.IH[of s1] Cons.prems(2) by simp
qed simp

lemma fold_ok_append: "fold_ok f (xs @ ys) s = and_then (fold_ok f xs s) (fold_ok f ys)"
proof (induction xs arbitrary: s)
  case (Cons x xs)
  show ?case by (cases "f x s") (simp_all add: Cons)
qed simp

section \<open>Decimal strings\<close>

definition is_digit :: "char \<Rightarrow> bool" where
  "is_digit c = (48 \<le> (of_char c :: nat) \<and> (of_char c :: nat) \<le> 57)"

definition digit_val :: "char \<Rightarrow> nat" where
  "digit_val c = of_char c - 48"

definition digit_char :: "nat \<Rightarrow> char" where
  "digit_char d = char_of (d + 48)"

fun show_nat :: "nat \<Rightarrow> string" where
  "show_nat n = (if n < 10 then [digit_char n] else show_nat (n div 10) @ [digit_char (n mod 10)])"

declare show_nat.simps [simp del]

definition read_nat :: "string \<Rightarrow> nat" where
  "read_nat s = foldl (\<lambda>acc c. 10 * acc + digit_val c) 0 s"

definition show_int :: "int \<Rightarrow> string" where
  "show_int i = (if i < 0 then CHR ''-'' # show_nat (nat (- i)) else show_nat (nat i))"

definition digits_only :: "string \<Rightarrow> bool" where
  "digits_only s = (s \<noteq> [] \<and> list_all is_digit s)"

text \<open>The pattern \<open>^-?\d+$\<close> that \<open>toMinor\<close> tests, and \<open>BigInt\<close> of such a string.\<close>

fun integer_literal :: "string \<Rightarrow> bool" where
  "integer_literal [] = False"
| "integer_literal (c # cs) = (if c = CHR ''-'' then digits_only cs else digits_only (c # cs))"

fun read_int :: "string \<Rightarrow> int" where
  "read_int [] = 0"
| "read_int (c # cs) = (if c = CHR ''-'' then - int (read_nat cs) else int (read_nat (c # cs)))"

text \<open>\<open>String.prototype.trim\<close> on the 8-bit characters of the model.\<close>

definition is_space :: "char \<Rightarrow> bool" where
  "is_space c = ((of_char c :: nat) \<in> {9, 10, 11, 12, 13, 32, 160})"

definition trim :: "string \<Rightarrow> string" where
  "trim s = rev (dropWhile is_space (rev (dropWhile is_space s)))"

text \<open>\<open>toLowerCase\<close> and \<open>toUpperCase\<close>, character by character, on ASCII letters.\<close>

definition lower :: "char \<Rightarrow> char" where
  "lower c = (let n = (of_char c :: nat) in if 65 \<le> n \<and> n \<le> 90 then char_of (n + 32) else c)"

definition upper :: "char \<Rightarrow> char" where
  "upper c = (let n = (of_char c :: nat) in if 97 \<le> n \<and> n \<le> 122 then char_of (n - 32) else c)"

lemma digit_char_simps [simp]:
  assumes "d < 10"
  shows "is_digit (digit_char d)" "digit_val (digit_char d) = d" "digit_char d \<noteq> CHR ''-''"
    "\<not> is_space (digit_char d)"
proof -
  have c: "(of_char (digit_char d) :: nat) = d + 48"
    using assms by (simp add: digit_char_def of_char_of take_bit_eq_mod)
  show "is_digit (digit_char d)" "digit_val (digit_char d) = d"
    using assms by (simp_all add: is_digit_def digit_val_def c)
  have "(of_char (CHR ''-'') :: nat) = 45" by simp
  thus "digit_char d \<noteq> CHR ''-''" using c by auto
  show "\<not> is_space (digit_char d)" using assms by (auto simp: is_space_def c)
qed

lemma show_nat_not_Nil [simp]: "show_nat n \<noteq> []"
  by (subst show_nat.simps) simp

lemma show_nat_digits [simp]: "list_all is_digit (show_nat n)"
proof (induction n rule: show_nat.induct)
  case (1 n)
  show ?case by (subst show_nat.simps) (use 1 in auto)
qed

lemma read_nat_append: "read_nat (xs @ [c]) = 10 * read_nat xs + digit_val c"
  by (simp add: read_nat_def)

lemma read_show_nat [simp]: "read_nat (show_nat n) = n"
proof (induction n rule: show_nat.induct)
  case (1 n)
  show ?case
    by (subst show_nat.simps) (use 1 in \<open>auto simp: read_nat_append read_nat_def\<close>)
qed

lemma digits_only_show_nat [simp]: "digits_only (show_nat n)"
  by (simp add: digits_only_def)

lemma digit_not_space: "is_digit c \<Longrightarrow> \<not> is_space c"
  by (auto simp: is_digit_def is_space_def)

lemma digit_not_minus: "is_digit c \<Longrightarrow> c \<noteq> CHR ''-''"
  by (auto simp: is_digit_def)

lemma dropWhile_none: "list_all (\<lambda>x. \<not> P x) xs \<Longrightarrow> dropWhile P xs = xs"
  by (cases xs) auto

lemma trim_id: "list_all (\<lambda>c. \<not> is_space c) s \<Longrightarrow> trim s = s"
  by (simp add: trim_def dropWhile_none)

lemma trim_empty [simp]: "trim [] = []"
  by (simp add: trim_def)

lemma trim_idem [simp]: "trim (trim s) = trim s"
proof -
  have d: "dropWhile P (dropWhile P xs) = dropWhile P xs" for P and xs :: "char list"
    by (induction xs) auto
  define t where "t = dropWhile is_space s"
  have t: "dropWhile is_space t = t" by (simp add: t_def d)
  define u where "u = dropWhile is_space (rev t)"
  have u: "dropWhile is_space (rev u) = rev u"
  proof (cases "rev u")
    case (Cons c cs)
    have "t = rev u @ rev (takeWhile is_space (rev t))"
      unfolding u_def by (metis rev_append rev_rev_ident takeWhile_dropWhile_id)
    hence tc: "t = c # cs @ rev (takeWhile is_space (rev t))" using Cons by simp
    have "\<not> is_space c"
    proof
      assume "is_space c"
      hence "dropWhile is_space t = dropWhile is_space (cs @ rev (takeWhile is_space (rev t)))"
        by (subst tc) simp
      hence "length t \<le> length (cs @ rev (takeWhile is_space (rev t)))"
        using t length_dropWhile_le[of is_space "cs @ rev (takeWhile is_space (rev t))"] by simp
      thus False by (subst (asm) tc) simp
    qed
    thus ?thesis using Cons by simp
  qed simp
  show ?thesis using u d[of is_space "rev t"] unfolding trim_def t_def[symmetric] u_def
    by simp
qed

lemma show_int_literal [simp]: "integer_literal (show_int i)"
proof (cases "i < 0")
  case False
  obtain c cs where s: "show_nat (nat i) = c # cs" by (cases "show_nat (nat i)") auto
  have "list_all is_digit (c # cs)" using show_nat_digits[of "nat i"] s by simp
  thus ?thesis using False s by (auto simp: show_int_def digits_only_def dest: digit_not_minus)
qed (simp add: show_int_def)

lemma read_show_int [simp]: "read_int (show_int i) = i"
proof (cases "i < 0")
  case False
  obtain c cs where s: "show_nat (nat i) = c # cs" by (cases "show_nat (nat i)") auto
  have "c \<noteq> CHR ''-''" using show_nat_digits[of "nat i"] s digit_not_minus by auto
  thus ?thesis using False s read_show_nat[of "nat i"] by (simp add: show_int_def)
qed (simp add: show_int_def)

lemma trim_show_int [simp]: "trim (show_int i) = show_int i"
proof -
  have n: "list_all (\<lambda>c. \<not> is_space c) (show_nat k)" for k
    using show_nat_digits[of k] by (auto simp: list_all_iff dest: digit_not_space)
  have "\<not> is_space (CHR ''-'')" by (simp add: is_space_def)
  thus ?thesis by (intro trim_id) (simp add: show_int_def n)
qed

section \<open>Tables\<close>

text \<open>
  A table is the list of its rows in insertion order.  \<open>find_by\<close> is a SELECT by a
  key, \<open>update_where\<close> an UPDATE ... WHERE, \<open>insert_row\<close> an INSERT and
  \<open>delete_where\<close> a DELETE.
\<close>

type_synonym 'r table = "'r list"

definition select :: "('r \<Rightarrow> bool) \<Rightarrow> 'r table \<Rightarrow> 'r list" where
  "select P t = filter P t"

definition find_by :: "('r \<Rightarrow> bool) \<Rightarrow> 'r table \<Rightarrow> 'r option" where
  "find_by P t = List.find P t"

definition update_where :: "('r \<Rightarrow> bool) \<Rightarrow> ('r \<Rightarrow> 'r) \<Rightarrow> 'r table \<Rightarrow> 'r table" where
  "update_where P f t = map (\<lambda>r. if P r then f r else r) t"

definition insert_row :: "'r \<Rightarrow> 'r table \<Rightarrow> 'r table" where
  "insert_row r t = t @ [r]"

definition delete_where :: "('r \<Rightarrow> bool) \<Rightarrow> 'r table \<Rightarrow> 'r table" where
  "delete_where P t = filter (\<lambda>r. \<not> P r) t"

definition sum_over :: "('r \<Rightarrow> bool) \<Rightarrow> ('r \<Rightarrow> int) \<Rightarrow> 'r table \<Rightarrow> int" where
  "sum_over P f t = sum_list (map f (filter P t))"

named_theorems table_simps "rewriting of table operations"

lemma find_by_SomeD: "find_by P t = Some r \<Longrightarrow> r \<in> set t \<and> P r"
  by (auto simp: find_by_def find_Some_iff)

lemma find_by_None: "find_by P t = None \<longleftrightarrow> (\<forall>r \<in> set t. \<not> P r)"
  by (auto simp: find_by_def find_None_iff)

lemma find_by_insert [table_simps]:
  "find_by P (insert_row r t) = (case find_by P t of Some x \<Rightarrow> Some x | None \<Rightarrow> if P r then Some r else None)"
  by (induction t) (auto simp: find_by_def insert_row_def)

lemma set_insert_row [simp]: "set (insert_row r t) = insert r (set t)"
  by (auto simp: insert_row_def)

lemma set_select [simp]: "set (select P t) = {r \<in> set t. P r}"
  by (auto simp: select_def)

lemma set_delete_where [simp]: "set (delete_where P t) = {r \<in> set t. \<not> P r}"
  by (auto simp: delete_where_def)

lemma set_update_where: "set (update_where P f t) = (\<lambda>r. if P r then f r else r) ` set t"
  by (simp add: update_where_def)

lemma update_where_Nil [simp]: "update_where P f [] = []"
  and update_where_Cons [simp]:
    "update_where P f (r # t) = (if P r then f r else r) # update_where P f t"
  by (simp_all add: update_where_def)

lemma ex_update_where:
  assumes "\<exists>p \<in> set t. Q p" "\<And>p. p \<in> set t \<Longrightarrow> Q p \<Longrightarrow> P p \<Longrightarrow> Q (f p)"
  shows "\<exists>p \<in> set (update_where P f t). Q p"
proof -
  obtain p where p: "p \<in> set t" "Q p" using assms(1) by blast
  have "(if P p then f p else p) \<in> set (update_where P f t)" using p(1) by (auto simp: set_update_where)
  moreover have "Q (if P p then f p else p)" using p assms(2) by simp
  ultimately show ?thesis by blast
qed

lemma sum_over_Nil [simp]: "sum_over P f [] = 0"
  and sum_over_Cons [simp]: "sum_over P f (r # t) = (if P r then f r else 0) + sum_over P f t"
  by (simp_all add: sum_over_def)

lemma sum_over_insert [table_simps]:
  "sum_over P f (insert_row r t) = sum_over P f t + (if P r then f r else 0)"
  by (simp add: sum_over_def insert_row_def)

lemma sum_over_cong: "(\<And>r. r \<in> set t \<Longrightarrow> P r = Q r) \<Longrightarrow> (\<And>r. r \<in> set t \<Longrightarrow> P r \<Longrightarrow> f r = g r)
    \<Longrightarrow> sum_over P f t = sum_over Q g t"
  by (induction t) auto

lemma sum_over_zero: "(\<And>r. r \<in> set t \<Longrightarrow> \<not> P r) \<Longrightarrow> sum_over P f t = 0"
  by (induction t) auto

lemma sum_over_nonneg: "(\<And>r. r \<in> set t \<Longrightarrow> P r \<Longrightarrow> 0 \<le> f r) \<Longrightarrow> 0 \<le> sum_over P f t"
  by (induction t) (auto simp: add_nonneg_nonneg)

lemma sum_over_member_le:
  assumes "r \<in> set t" "P r" "\<And>r. r \<in> set t \<Longrightarrow> P r \<Longrightarrow> 0 \<le> f r"
  shows "f r \<le> sum_over P f t"
  using assms
proof (induction t)
  case (Cons x t)
  have nn: "0 \<le> sum_over P f t" by (rule sum_over_nonneg) (use Cons.prems in auto)
  have "r = x \<or> r \<in> set t" using Cons.prems by auto
  thus ?case
  proof
    assume "r \<in> set t"
    hence "f r \<le> sum_over P f t" using Cons by auto
    moreover have "0 \<le> (if P x then f x else 0)" using Cons.prems by auto
    ultimately show ?thesis by simp
  qed (use nn Cons.prems in simp)
qed simp

text \<open>
  Tables keyed by a column: at most one row per key.  An update that keeps the
  key keeps the table keyed, and changes a sum by the change of the one row.
\<close>

definition keyed :: "('r \<Rightarrow> 'k) \<Rightarrow> 'r table \<Rightarrow> bool" where
  "keyed k t = distinct (map k t)"

lemma keyed_Nil [simp]: "keyed k []"
  by (simp add: keyed_def)

lemma keyed_insert: "keyed k t \<Longrightarrow> k r \<notin> k ` set t \<Longrightarrow> keyed k (insert_row r t)"
  by (simp add: keyed_def insert_row_def)

lemma keyed_delete: "keyed k t \<Longrightarrow> keyed k (delete_where P t)"
  by (induction t) (auto simp: keyed_def delete_where_def)

lemma keyed_update: "keyed k t \<Longrightarrow> (\<And>r. k (f r) = k r) \<Longrightarrow> keyed k (update_where P f t)"
proof -
  assume a: "keyed k t" "\<And>r. k (f r) = k r"
  have "map k (update_where P f t) = map k t" using a(2) by (simp add: update_where_def)
  thus ?thesis using a(1) by (simp add: keyed_def)
qed

lemma keyed_unique: "keyed k t \<Longrightarrow> x \<in> set t \<Longrightarrow> y \<in> set t \<Longrightarrow> k x = k y \<Longrightarrow> x = y"
  by (auto simp: keyed_def distinct_map inj_on_def)

lemma find_by_keyed:
  assumes "keyed k t" "r \<in> set t" "P r" "\<And>x. P x \<Longrightarrow> k x = k r"
  shows "find_by P t = Some r"
proof (cases "find_by P t")
  case None
  thus ?thesis using assms by (auto simp: find_by_None)
next
  case (Some x)
  hence x: "x \<in> set t" "P x" using find_by_SomeD[OF Some] by simp_all
  have "x = r" by (rule keyed_unique[OF assms(1) x(1) assms(2)]) (rule assms(4)[OF x(2)])
  thus ?thesis using Some by simp
qed

lemma sum_over_update_key:
  assumes "keyed k t" "r \<in> set t" "k r = i" "\<And>x. Q x \<longleftrightarrow> k x = i"
  shows "sum_over P g (update_where Q f t)
       = sum_over P g t - (if P r then g r else 0) + (if P (f r) then g (f r) else 0)"
  using assms
proof (induction t)
  case (Cons x t)
  show ?case
  proof (cases "x = r")
    case True
    hence nq: "\<not> Q y" if "y \<in> set t" for y
      using that Cons.prems by (auto simp: keyed_def image_iff)
    hence "update_where Q f t = t" by (simp add: update_where_def map_idI)
    moreover have "Q x" "x = r" using True Cons.prems by auto
    ultimately show ?thesis by simp
  next
    case False
    hence "r \<in> set t" "keyed k t" using Cons.prems by (auto simp: keyed_def)
    moreover have "\<not> Q x" using Cons.prems False by (auto simp: keyed_def image_iff)
    ultimately show ?thesis using Cons by simp
  qed
qed simp

lemma sum_over_update_same:
  assumes "\<And>x. x \<in> set t \<Longrightarrow> Q x \<Longrightarrow> P (f x) = P x \<and> (P x \<longrightarrow> g (f x) = g x)"
  shows "sum_over P g (update_where Q f t) = sum_over P g t"
  using assms by (induction t) auto

lemma sum_list_map_nonneg: "(\<And>x. x \<in> set xs \<Longrightarrow> 0 \<le> (f x :: int)) \<Longrightarrow> 0 \<le> sum_list (map f xs)"
  by (induction xs) (auto simp: add_nonneg_nonneg)

definition isr :: "'e + 'a \<Rightarrow> bool" where
  "isr r = (case r of Inl e \<Rightarrow> False | Inr x \<Rightarrow> True)"

lemma isr_E: "isr r \<Longrightarrow> (\<And>x. r = Inr x \<Longrightarrow> thesis) \<Longrightarrow> thesis"
  by (cases r) (auto simp: isr_def)

lemma isr_pair: "isr r \<Longrightarrow> \<exists>x y. r = Inr (x, y)"
  by (cases r) (auto simp: isr_def)

lemma find_by_update:
  assumes "\<And>x. P (f x) = P x"
  shows "find_by P (update_where Q f t) = map_option (\<lambda>x. if Q x then f x else x) (find_by P t)"
  using assms by (induction t) (auto simp: find_by_def)

lemma map_update_where: "(\<And>x. g (f x) = g x) \<Longrightarrow> map g (update_where P f t) = map g t"
  by (induction t) auto

lemma find_by_hit:
  assumes "find_by P t = Some x" "\<And>y. P (f y)"
  shows "find_by P (update_where P f t) = Some (f x)"
  using assms by (induction t) (auto simp: find_by_def split: if_splits)

end
