(* ===== verification/Money.thy ===== *)
theory Money
  imports Prelude
begin

text \<open>
  Exact monetary arithmetic of src/services/money.js: amounts are integers of
  minor units, exchange rates are integers scaled by ten to the eight, and every
  rounding is \<open>divideRound\<close>.  A JavaScript argument is a \<open>js_value\<close>: which of the
  runtime types it has decides the branch \<open>toMinor\<close> and \<open>parseRate\<close> take.
\<close>

section \<open>Definitions\<close>

text \<open>
  \<open>JFrac s\<close> is a Number that is not an integer (with its \<open>String\<close> rendering \<open>s\<close>),
  \<open>JInt\<close> an integral Number, \<open>JBigInt\<close> a BigInt.
\<close>

datatype js_value =
    JBigInt int | JInt int | JFrac string | JString string | JNull | JUndefined | JOther

definition RATE_SCALE_DECIMALS :: nat where "RATE_SCALE_DECIMALS = 8"

definition RATE_SCALE :: int where "RATE_SCALE = 10 ^ RATE_SCALE_DECIMALS"

definition BIGINT_MAX :: int where "BIGINT_MAX = 9223372036854775807"

definition BIGINT_MIN :: int where "BIGINT_MIN = -9223372036854775808"

definition max_safe_integer :: int where "max_safe_integer = 9007199254740991"

definition is_safe_integer :: "int \<Rightarrow> bool" where
  "is_safe_integer n = (- max_safe_integer \<le> n \<and> n \<le> max_safe_integer)"

fun toMinor :: "js_value \<Rightarrow> error + int" where
  "toMinor (JBigInt n) = Inr n"
| "toMinor (JInt n) = (if is_safe_integer n then Inr n else Inl (General Invalid_Monetary_Value))"
| "toMinor (JString s) =
     (if integer_literal (trim s) then Inr (read_int (trim s)) else Inl (General Invalid_Monetary_Value))"
| "toMinor _ = Inl (General Invalid_Monetary_Value)"

definition assertInRange :: "int \<Rightarrow> error + int" where
  "assertInRange v = (if v > BIGINT_MAX \<or> v < BIGINT_MIN then Inl (General Invalid_Monetary_Value) else Inr v)"

text \<open>\<open>String(value)\<close> of the values the rate can arrive as; integral Numbers from
  ten to the 21 on print with an exponent, which is no decimal literal.\<close>

fun js_string :: "js_value \<Rightarrow> string" where
  "js_string (JBigInt n) = show_int n"
| "js_string (JInt n) = (if \<bar>n\<bar> < 10 ^ 21 then show_int n else ''1e+21'')"
| "js_string (JFrac s) = s"
| "js_string (JString s) = s"
| "js_string JNull = ''null''"
| "js_string JUndefined = ''undefined''"
| "js_string JOther = ''[object Object]''"

text \<open>\<open>text.split('.')\<close> for a text with at most one point: the two halves.\<close>

definition split_point :: "string \<Rightarrow> string \<times> string" where
  "split_point s = (takeWhile (\<lambda>c. c \<noteq> CHR ''.'') s, drop 1 (dropWhile (\<lambda>c. c \<noteq> CHR ''.'') s))"

text \<open>The pattern \<open>^\d+(\.\d+)?$\<close>.\<close>

definition decimal_literal :: "string \<Rightarrow> bool" where
  "decimal_literal s = (let (w, f) = split_point s in
     digits_only w \<and> (CHR ''.'' \<notin> set s \<or> digits_only f))"

definition pad_fraction :: "string \<Rightarrow> string" where
  "pad_fraction f = take RATE_SCALE_DECIMALS (f @ replicate RATE_SCALE_DECIMALS (CHR ''0''))"

definition parse_rate_text :: "string \<Rightarrow> error + int" where
  "parse_rate_text s =
     (if \<not> decimal_literal s then Inl (General Fx_Unavailable)
      else let (whole, fraction) = split_point s;
               scaled = int (read_nat whole) * RATE_SCALE + int (read_nat (pad_fraction fraction))
           in if scaled \<le> 0 then Inl (General Fx_Unavailable) else Inr scaled)"

fun parseRate :: "js_value \<Rightarrow> error + int" where
  "parseRate (JBigInt n) = Inr (n * RATE_SCALE)"
| "parseRate v = parse_rate_text (trim (js_string v))"

definition divideRound :: "int \<Rightarrow> int \<Rightarrow> error + int" where
  "divideRound n d =
     (if d \<le> 0 then Inl (General Invalid_Monetary_Value)
      else if n \<ge> 0 then Inr ((n + d div 2) div d)
      else Inr (- ((- n + d div 2) div d)))"

definition applyRate :: "js_value \<Rightarrow> int \<Rightarrow> error + int" where
  "applyRate minorUnits scaledRate =
     and_then (toMinor minorUnits) (\<lambda>m.
     and_then (divideRound (m * scaledRate) RATE_SCALE) assertInRange)"

definition divideByRate :: "js_value \<Rightarrow> int \<Rightarrow> error + int" where
  "divideByRate vesMinorUnits scaledRate =
     and_then (toMinor vesMinorUnits) (\<lambda>m.
     and_then (divideRound (m * RATE_SCALE) scaledRate) assertInRange)"

definition applyBps :: "js_value \<Rightarrow> js_value \<Rightarrow> error + int" where
  "applyBps minorUnits rateBps =
     and_then (toMinor rateBps) (\<lambda>bps.
     if bps < 0 then Inl (General Invalid_Monetary_Value)
     else and_then (toMinor minorUnits) (\<lambda>m.
          and_then (divideRound (m * bps) 10000) assertInRange))"

section \<open>The nearest integer\<close>

text \<open>The rounding as a total function, for positive denominators.\<close>

definition nearest :: "int \<Rightarrow> int \<Rightarrow> int" where
  "nearest n d = (if n \<ge> 0 then (n + d div 2) div d else - ((- n + d div 2) div d))"

lemma divideRound_nearest: "0 < d \<Longrightarrow> divideRound n d = Inr (nearest n d)"
  by (simp add: divideRound_def nearest_def)

lemma div_half_bounds:
  fixes n d :: int
  assumes "0 < d" "0 \<le> n"
  shows "2 * n - d \<le> 2 * d * ((n + d div 2) div d)"
    and "2 * d * ((n + d div 2) div d) \<le> 2 * n + d"
    and "2 * n - d < 2 * d * ((n + d div 2) div d)"
proof -
  let ?q = "(n + d div 2) div d"
  have "d * ?q + (n + d div 2) mod d = n + d div 2" by simp
  moreover have "0 \<le> (n + d div 2) mod d" "(n + d div 2) mod d < d"
    using assms by simp_all
  moreover have "2 * (d div 2) \<le> d" "d \<le> 2 * (d div 2) + 1" by presburger+
  ultimately have "2 * n - d < 2 * (d * ?q)" "2 * (d * ?q) \<le> 2 * n + d" by linarith+
  thus "2 * n - d \<le> 2 * d * ?q" "2 * d * ?q \<le> 2 * n + d" "2 * n - d < 2 * d * ?q"
    by (simp_all only: mult.assoc)
qed

lemma nearest_bounds:
  assumes "0 < d"
  shows "\<bar>2 * d * nearest n d - 2 * n\<bar> \<le> d"
  using div_half_bounds[of d n] div_half_bounds[of d "- n"] assms
  by (cases "0 \<le> n") (auto simp: nearest_def)

lemma nearest_nonneg: "0 < d \<Longrightarrow> 0 \<le> n \<Longrightarrow> 0 \<le> nearest n d"
  by (simp add: nearest_def pos_imp_zdiv_nonneg_iff)

lemma nearest_neg: "0 < d \<Longrightarrow> nearest (- n) d = - nearest n d"
  by (auto simp: nearest_def)

lemma nearest_mono: "0 < d \<Longrightarrow> n \<le> m \<Longrightarrow> nearest n d \<le> nearest m d"
proof -
  assume d: "0 < d" and le: "n \<le> m"
  show ?thesis
  proof (cases "0 \<le> n \<or> m < 0")
    case True
    thus ?thesis using d le by (auto simp: nearest_def intro!: zdiv_mono1)
  next
    case False
    hence "nearest n d \<le> 0" "0 \<le> nearest m d"
      using d nearest_nonneg[of d "- n"] nearest_nonneg[of d m] nearest_neg[of d n] by auto
    thus ?thesis by simp
  qed
qed

lemma nearest_exact: "0 < d \<Longrightarrow> nearest (k * d) d = k"
proof -
  assume d: "0 < d"
  have "\<bar>2 * d * nearest (k * d) d - 2 * (k * d)\<bar> \<le> d" by (rule nearest_bounds[OF d])
  hence "\<bar>2 * d * (nearest (k * d) d - k)\<bar> \<le> d" by (simp add: algebra_simps)
  hence "2 * d * \<bar>nearest (k * d) d - k\<bar> \<le> d * 1" using d by (simp add: abs_mult)
  hence "2 * \<bar>nearest (k * d) d - k\<bar> \<le> 1"
    using d by (simp only: mult.assoc mult.left_commute[of 2] mult_le_cancel_left_pos)
  moreover have "2 * \<bar>y\<bar> \<le> 1 \<Longrightarrow> y = 0" for y :: int by arith
  ultimately show ?thesis using eq_iff_diff_eq_0 by blast
qed

section \<open>Lemmas on the operations\<close>

lemma RATE_SCALE_pos [simp]: "0 < RATE_SCALE"
  by (simp add: RATE_SCALE_def)

lemma applyRate_Inr_iff:
  "applyRate (JBigInt m) r = Inr v \<longleftrightarrow>
     v = nearest (m * r) RATE_SCALE \<and> BIGINT_MIN \<le> v \<and> v \<le> BIGINT_MAX"
  by (auto simp: applyRate_def divideRound_nearest assertInRange_def)

lemma applyBps_Inr_iff:
  "applyBps (JBigInt m) (JBigInt b) = Inr v \<longleftrightarrow>
     0 \<le> b \<and> v = nearest (m * b) 10000 \<and> BIGINT_MIN \<le> v \<and> v \<le> BIGINT_MAX"
  by (auto simp: applyBps_def divideRound_nearest assertInRange_def)

lemma applyBps_nonneg:
  "applyBps (JBigInt m) (JBigInt b) = Inr v \<Longrightarrow> 0 \<le> m \<Longrightarrow> 0 \<le> v"
  by (simp add: applyBps_Inr_iff nearest_nonneg)

lemma applyRate_nonneg:
  "applyRate (JBigInt m) r = Inr v \<Longrightarrow> 0 \<le> m \<Longrightarrow> 0 \<le> r \<Longrightarrow> 0 \<le> v"
  by (simp add: applyRate_Inr_iff nearest_nonneg)

lemma toMinor_string [simp]: "toMinor (JString (show_int n)) = Inr n"
  by simp

lemma parse_rate_text_pos: "parse_rate_text s = Inr r \<Longrightarrow> 0 < r"
  by (auto simp: parse_rate_text_def Let_def split: if_splits prod.splits)

lemma parseRate_text_pos: "parseRate (JString s) = Inr r \<Longrightarrow> 0 < r"
  by (auto dest: parse_rate_text_pos)

section \<open>A conversion comes back\<close>

lemma nearest_unique:
  assumes "0 < d" "2 * \<bar>n - m * d\<bar> < d"
  shows "nearest n d = m"
proof -
  have b: "\<bar>2 * d * nearest n d - 2 * n\<bar> \<le> d" by (rule nearest_bounds[OF assms(1)])
  have "\<bar>2 * d * nearest n d - 2 * d * m\<bar> \<le> \<bar>2 * d * nearest n d - 2 * n\<bar> + 2 * \<bar>n - m * d\<bar>"
    by (simp add: algebra_simps abs_if)
  hence "\<bar>2 * d * nearest n d - 2 * d * m\<bar> < 2 * d" using b assms(2) by linarith
  hence "\<bar>2 * d * (nearest n d - m)\<bar> < 2 * d" by (simp add: algebra_simps)
  hence "2 * d * \<bar>nearest n d - m\<bar> < 2 * d * 1" using assms(1) by (simp add: abs_mult)
  hence "\<bar>nearest n d - m\<bar> < 1" using assms(1) by (simp only: mult_less_cancel_left)
  thus ?thesis by simp
qed

lemma rate_round_trip:
  assumes "RATE_SCALE \<le> r" "applyRate (JBigInt m) r = Inr v" "BIGINT_MIN \<le> m" "m \<le> BIGINT_MAX"
  shows "divideByRate (JBigInt v) r = Inr m \<and> \<bar>2 * RATE_SCALE * v - 2 * (m * r)\<bar> \<le> RATE_SCALE"
proof -
  have rpos: "0 < r" using assms(1) RATE_SCALE_pos by linarith
  have v: "v = nearest (m * r) RATE_SCALE" using assms(2) by (simp add: applyRate_Inr_iff)
  have b: "\<bar>2 * RATE_SCALE * v - 2 * (m * r)\<bar> \<le> RATE_SCALE"
    unfolding v by (rule nearest_bounds) simp
  have "nearest (v * RATE_SCALE) r = m"
  proof (cases "r = RATE_SCALE")
    case True
    hence "v = m" using v by (simp add: nearest_exact)
    thus ?thesis using True by (simp add: nearest_exact)
  next
    case False
    hence "2 * \<bar>v * RATE_SCALE - m * r\<bar> < r" using b assms(1) by (simp add: algebra_simps abs_if split: if_splits)
    thus ?thesis by (rule nearest_unique[OF rpos])
  qed
  thus ?thesis using b assms(3,4) rpos by (simp add: divideByRate_def divideRound_nearest assertInRange_def)
qed

lemma rate_round_trip_witness:
  "divideByRate (JBigInt 36471) 3647118934 = Inr 1000
    \<and> \<bar>2 * RATE_SCALE * 36471 - 2 * (1000 * 3647118934)\<bar> \<le> RATE_SCALE"
  by (rule rate_round_trip)
    (simp_all add: applyRate_Inr_iff nearest_def RATE_SCALE_def RATE_SCALE_DECIMALS_def BIGINT_MIN_def BIGINT_MAX_def)

end
