(* ===== verification/Allocate.thy ===== *)
theory Allocate
  imports Money
begin

text \<open>
  The largest-remainder division of src/services/split.js and its zero-tolerant
  variant of src/services/splitEngine.js.  \<open>exact_division\<close> is the interface the
  rest of the program divides money through: parts that are non-negative, as many
  as the weights, and sum to the tot; the two-stage and grouped divisions the
  clients perform are proved exact once, from that interface.
\<close>

section \<open>allocate\<close>

definition weight_sum :: "int list \<Rightarrow> int" where
  "weight_sum ws = foldl (+) 0 ws"

definition quotas :: "int \<Rightarrow> int list \<Rightarrow> int list" where
  "quotas tot ws = map (\<lambda>w. (tot * w) div weight_sum ws) ws"

definition remainders :: "int \<Rightarrow> int list \<Rightarrow> (nat \<times> int) list" where
  "remainders tot ws = enumerate 0 (map (\<lambda>w. (tot * w) mod weight_sum ws) ws)"

text \<open>\<open>remainders.sort(...)\<close>: by descending remainder, ties by ascending index
  (the list starts in index order and the sort is stable).\<close>

definition handout_order :: "(nat \<times> int) list \<Rightarrow> nat list" where
  "handout_order rs = map fst (sort_key (\<lambda>p. - snd p) rs)"

text \<open>\<open>for (let i = 0; leftover > 0; i++, leftover--) parts[order[i % n]] += 1n\<close>.\<close>

fun hand_out :: "nat list \<Rightarrow> nat \<Rightarrow> nat \<Rightarrow> int list \<Rightarrow> int list" where
  "hand_out order i 0 parts = parts"
| "hand_out order i (Suc k) parts =
     (let j = order ! (i mod length order)
      in hand_out order (Suc i) k (parts[j := parts ! j + 1]))"

definition leftover :: "int \<Rightarrow> int list \<Rightarrow> int" where
  "leftover tot ws = tot - foldl (+) 0 (quotas tot ws)"

definition allocate :: "int \<Rightarrow> int list \<Rightarrow> error + int list" where
  "allocate tot ws =
     (if tot < 0 then Inl (General Plain_Error)
      else if ws = [] then Inl (General Plain_Error)
      else if list_ex (\<lambda>w. w \<le> 0) ws then Inl (General Plain_Error)
      else Inr (hand_out (handout_order (remainders tot ws)) 0
                 (nat (leftover tot ws)) (quotas tot ws)))"

definition splitEvenly :: "int \<Rightarrow> int \<Rightarrow> error + int list" where
  "splitEvenly tot diners =
     (if diners < 1 then Inl (General Plain_Error)
      else allocate tot (replicate (nat diners) 1))"

section \<open>allocateWithZeros\<close>

definition contributing :: "int list \<Rightarrow> nat list" where
  "contributing ws = filter (\<lambda>i. ws ! i > 0) [0..<length ws]"

definition scatter :: "nat \<Rightarrow> nat list \<Rightarrow> int list \<Rightarrow> int list" where
  "scatter n idx parts = fold (\<lambda>(i, p) r. r[i := p]) (zip idx parts) (replicate n 0)"

definition allocateWithZeros :: "int \<Rightarrow> int list \<Rightarrow> error + int list" where
  "allocateWithZeros tot ws =
     (let idx = contributing ws in
      if idx = [] then
        (if tot > 0 then Inl (Split_E Split_Participants_Invalid)
         else Inr (replicate (length ws) 0))
      else and_then (allocate tot (map (\<lambda>i. ws ! i) idx))
             (\<lambda>parts. Inr (scatter (length ws) idx parts)))"

section \<open>The shape of the division\<close>

lemma foldl_plus_sum: "foldl (+) (a::int) xs = a + sum_list xs"
  by (induction xs arbitrary: a) auto

lemma weight_sum_sum [simp]: "weight_sum ws = sum_list ws"
  by (simp add: weight_sum_def foldl_plus_sum)

lemma sum_list_pos: "xs \<noteq> [] \<Longrightarrow> (\<And>x. x \<in> set xs \<Longrightarrow> (0::int) < x) \<Longrightarrow> 0 < sum_list xs"
  by (induction xs rule: list_nonempty_induct) (auto intro: add_pos_pos)

lemma sum_list_div_mod:
  fixes f :: "'a \<Rightarrow> int"
  shows "d * sum_list (map (\<lambda>x. f x div d) xs) + sum_list (map (\<lambda>x. f x mod d) xs)
       = sum_list (map f xs)"
proof (induction xs)
  case (Cons x xs)
  have "d * (f x div d) + f x mod d = f x" by simp
  thus ?case using Cons by (simp add: distrib_left)
qed simp

lemma member_le_sum_list_int:
  assumes "\<And>x. x \<in> set xs \<Longrightarrow> (0::int) \<le> x" "p \<in> set xs"
  shows "p \<le> sum_list xs"
  using assms
proof (induction xs)
  case (Cons x xs)
  have "0 \<le> sum_list xs" using Cons.prems(1) sum_list_map_nonneg[of xs "\<lambda>x. x"] by simp
  thus ?case using Cons by (cases "p = x") fastforce+
qed simp

lemma sum_list_less_count:
  fixes f :: "'a \<Rightarrow> int"
  assumes "xs \<noteq> []" "\<And>x. x \<in> set xs \<Longrightarrow> f x < d"
  shows "sum_list (map f xs) < int (length xs) * d"
  using assms
proof (induction xs rule: list_nonempty_induct)
  case (cons x xs)
  have "f x < d" using cons.prems by simp
  moreover have "sum_list (map f xs) < int (length xs) * d" using cons by simp
  ultimately show ?case by (simp add: algebra_simps)
qed simp

lemma leftover_bounds:
  assumes "ws \<noteq> []" "\<And>w. w \<in> set ws \<Longrightarrow> 0 < w"
  shows "0 \<le> leftover tot ws" "leftover tot ws < int (length ws)"
proof -
  let ?W = "sum_list ws" and ?r = "sum_list (map (\<lambda>w. (tot * w) mod sum_list ws) ws)"
  have W: "0 < ?W" using assms by (rule sum_list_pos)
  have "?W * leftover tot ws = ?W * tot - (?W * sum_list (quotas tot ws))"
    by (simp add: leftover_def foldl_plus_sum algebra_simps)
  also have "\<dots> = ?r"
    using sum_list_div_mod[of ?W "\<lambda>w. tot * w" ws] sum_list_const_mult[of tot "\<lambda>w. w" ws]
    by (simp add: quotas_def mult.commute[of _ tot])
  finally have eq: "?W * leftover tot ws = ?r" .
  have "0 \<le> ?r" by (rule sum_list_map_nonneg) (use W in simp)
  thus "0 \<le> leftover tot ws" using eq W by (metis mult_less_0_iff not_le)
  have "?r < int (length ws) * ?W" by (rule sum_list_less_count) (use assms W in auto)
  hence "?W * leftover tot ws < ?W * int (length ws)" using eq by (simp add: mult.commute)
  thus "leftover tot ws < int (length ws)" using W by simp
qed

lemma length_quotas [simp]: "length (quotas tot ws) = length ws"
  by (simp add: quotas_def)

lemma length_hand_out [simp]: "length (hand_out order i k parts) = length parts"
  by (induction order i k parts rule: hand_out.induct) (auto simp: Let_def)

lemma sum_list_update_int:
  "j < length xs \<Longrightarrow> sum_list (xs[j := v]) = sum_list xs + v - (xs ! j :: int)"
  by (induction xs arbitrary: j) (auto split: nat.split)

lemma sum_list_update_plus: "j < length xs \<Longrightarrow> sum_list (xs[j := xs ! j + 1]) = sum_list xs + (1::int)"
  by (simp add: sum_list_update_int)

lemma sum_hand_out:
  assumes "order \<noteq> []" "\<And>j. j \<in> set order \<Longrightarrow> j < length parts"
  shows "sum_list (hand_out order i k parts) = sum_list parts + int k"
  using assms
proof (induction order i k parts rule: hand_out.induct)
  case (2 order i k parts)
  have "order ! (i mod length order) < length parts" using 2(2,3) by simp
  thus ?case using 2 by (simp add: Let_def sum_list_update_plus)
qed simp

lemma hand_out_nth:
  assumes "distinct order" "\<And>j. j \<in> set order \<Longrightarrow> j < length parts" "i + k \<le> length order"
    and "m < length parts"
  shows "hand_out order i k parts ! m
       = parts ! m + (if m \<in> set (take k (drop i order)) then 1 else 0)"
  using assms
proof (induction order i k parts rule: hand_out.induct)
  case (2 order i k parts)
  have i: "i < length order" using 2(4) by simp
  let ?j = "order ! i"
  have j: "?j < length parts" using 2(3) i by simp
  have dr: "drop i order = ?j # drop (Suc i) order" using i by (simp add: Cons_nth_drop_Suc)
  have "?j \<notin> set (drop (Suc i) order)"
    using 2(2) dr by (metis distinct.simps(2) distinct_drop)
  hence ni: "?j \<notin> set (take k (drop (Suc i) order))" by (meson in_set_takeD)
  have "hand_out order i (Suc k) parts ! m
      = parts[?j := parts ! ?j + 1] ! m + (if m \<in> set (take k (drop (Suc i) order)) then 1 else 0)"
    using 2(1)[OF _ 2(2)] 2(3,4,5) i by (simp add: Let_def)
  thus ?case using ni dr j 2(5) by (auto simp: nth_list_update)
qed simp

lemma set_handout_order: "set (handout_order (enumerate 0 xs)) = {0..<length xs}"
  by (simp add: handout_order_def) (simp flip: set_map)

lemma distinct_handout_order: "distinct (handout_order (enumerate 0 xs))"
proof -
  have "mset (handout_order (enumerate 0 xs)) = mset (map fst (enumerate 0 xs))"
    by (simp only: handout_order_def mset_map mset_sort)
  hence "distinct (handout_order (enumerate 0 xs)) = distinct (map fst (enumerate 0 xs))"
    by (rule mset_eq_imp_distinct_iff)
  thus ?thesis by simp
qed

lemma length_handout_order [simp]: "length (handout_order rs) = length rs"
  by (simp add: handout_order_def)

text \<open>The indices that receive an extra unit, as a set.\<close>

definition favoured :: "int \<Rightarrow> int list \<Rightarrow> nat set" where
  "favoured tot ws = set (take (nat (leftover tot ws)) (handout_order (remainders tot ws)))"

lemma allocate_InrD:
  assumes "allocate tot ws = Inr ps"
  shows "0 \<le> tot" "ws \<noteq> []" "\<And>w. w \<in> set ws \<Longrightarrow> 0 < w"
    "ps = hand_out (handout_order (remainders tot ws)) 0 (nat (leftover tot ws)) (quotas tot ws)"
  using assms by (auto simp: allocate_def list_ex_iff not_le split: if_splits)

lemma allocate_total:
  "0 \<le> tot \<Longrightarrow> ws \<noteq> [] \<Longrightarrow> (\<And>w. w \<in> set ws \<Longrightarrow> 0 < w) \<Longrightarrow> \<exists>ps. allocate tot ws = Inr ps"
  by (auto simp: allocate_def list_ex_iff not_le)

lemma allocate_length: "allocate tot ws = Inr ps \<Longrightarrow> length ps = length ws"
  by (drule allocate_InrD(4)) simp

lemma allocate_nth:
  assumes "allocate tot ws = Inr ps" "m < length ws"
  shows "ps ! m = (tot * ws ! m) div sum_list ws + (if m \<in> favoured tot ws then 1 else 0)"
proof -
  note D = allocate_InrD[OF assms(1)]
  have "nat (leftover tot ws) \<le> length ws"
    using leftover_bounds(2)[OF D(2,3), of tot] by (simp add: nat_le_iff)
  thus ?thesis
    using D(4) assms(2) distinct_handout_order
      hand_out_nth[of "handout_order (remainders tot ws)" "quotas tot ws" 0
        "nat (leftover tot ws)" m]
    by (simp add: remainders_def set_handout_order quotas_def favoured_def)
qed

lemma allocate_sum:
  assumes "allocate tot ws = Inr ps"
  shows "sum_list ps = tot"
proof -
  note D = allocate_InrD[OF assms]
  have ne: "handout_order (remainders tot ws) \<noteq> []"
    using D(2) by (metis length_0_conv length_handout_order remainders_def length_enumerate length_map)
  have "sum_list ps = sum_list (quotas tot ws) + int (nat (leftover tot ws))"
    unfolding D(4) by (rule sum_hand_out[OF ne]) (simp add: remainders_def set_handout_order)
  thus ?thesis using leftover_bounds[OF D(2,3)] by (simp add: leftover_def foldl_plus_sum)
qed

lemma allocate_nonneg:
  assumes "allocate tot ws = Inr ps" "p \<in> set ps"
  shows "0 \<le> p"
proof -
  note D = allocate_InrD[OF assms(1)]
  obtain m where m: "m < length ws" "p = ps ! m"
    using assms(2) allocate_length[OF assms(1)] by (auto simp: in_set_conv_nth)
  have "0 < sum_list ws" using D(2,3) by (rule sum_list_pos)
  moreover have "0 \<le> tot * ws ! m" using D(1) D(3)[of "ws ! m"] m by simp
  ultimately have "0 \<le> (tot * ws ! m) div sum_list ws" by (simp add: pos_imp_zdiv_nonneg_iff)
  thus ?thesis using allocate_nth[OF assms(1) m(1)] m(2) by simp
qed

section \<open>Fairness\<close>

text \<open>The extra units go to the largest remainders: nobody with a smaller remainder
  is favoured over somebody with a larger one.\<close>

lemma favoured_largest:
  assumes "i < length ws" "j < length ws" "i \<in> favoured tot ws" "j \<notin> favoured tot ws"
  shows "(tot * ws ! j) mod sum_list ws \<le> (tot * ws ! i) mod sum_list ws"
proof -
  let ?rs = "remainders tot ws" and ?k = "nat (leftover tot ws)"
  let ?s = "sort_key (\<lambda>p. - snd p) ?rs"
  have nth: "(m, r) \<in> set ?rs \<Longrightarrow> m < length ws \<and> r = (tot * ws ! m) mod sum_list ws" for m r
    by (auto simp: remainders_def in_set_enumerate_eq)
  have fi: "i \<in> fst ` set (take ?k ?s)"
    using assms(3) by (simp add: favoured_def handout_order_def take_map)
  have "j \<in> fst ` set ?s"
  proof -
    have "set (map fst ?rs) = {0..<length ws}" by (simp add: remainders_def)
    thus ?thesis using assms(2) by simp
  qed
  moreover have "j \<notin> fst ` set (take ?k ?s)"
    using assms(4) by (simp add: favoured_def handout_order_def take_map)
  ultimately have fj: "j \<in> fst ` set (drop ?k ?s)"
    by (metis UnE append_take_drop_id image_Un set_append)
  obtain ri where ri: "(i, ri) \<in> set (take ?k ?s)" using fi by force
  obtain rj where rj: "(j, rj) \<in> set (drop ?k ?s)" using fj by force
  have "sorted (map (\<lambda>p. - snd p) (take ?k ?s @ drop ?k ?s))" by simp
  hence "- ri \<le> - rj" using ri rj by (force simp: sorted_append simp del: append_take_drop_id)
  moreover have "ri = (tot * ws ! i) mod sum_list ws" "rj = (tot * ws ! j) mod sum_list ws"
    using nth[of i ri] nth[of j rj] in_set_takeD[OF ri] in_set_dropD[OF rj] by simp_all
  ultimately show ?thesis by simp
qed

lemma allocate_quota:
  assumes "allocate tot ws = Inr ps" "m < length ws"
  shows "sum_list ws * (ps ! m - 1) \<le> tot * ws ! m \<and> tot * ws ! m < sum_list ws * (ps ! m + 1)"
proof -
  have W: "0 < sum_list ws" using allocate_InrD[OF assms(1)] by (intro sum_list_pos)
  let ?W = "sum_list ws" let ?q = "(tot * ws ! m) div ?W" and ?r = "(tot * ws ! m) mod ?W"
  have dm: "?W * ?q + ?r = tot * ws ! m" by simp
  have r: "0 \<le> ?r" "?r < ?W" using W by simp_all
  have "?W * (ps ! m - 1) = ?W * ps ! m - ?W" "?W * (ps ! m + 1) = ?W * ps ! m + ?W"
    by (simp_all add: algebra_simps)
  moreover have "?W * ps ! m = ?W * ?q \<or> ?W * ps ! m = ?W * ?q + ?W"
    unfolding allocate_nth[OF assms] by (simp add: distrib_left)
  moreover have "y - w \<le> t \<and> t < y + w"
    if "x + r = t" "0 \<le> r" "r < w" "y = x \<or> y = x + w" for x r t w y :: int
    using that by auto
  ultimately show ?thesis using dm r by metis
qed

lemma allocate_monotone:
  assumes "allocate tot ws = Inr ps" "i < length ws" "j < length ws" "ws ! j < ws ! i"
  shows "ps ! j \<le> ps ! i"
proof -
  note D = allocate_InrD[OF assms(1)]
  let ?W = "sum_list ws"
  let ?q = "\<lambda>m. (tot * ws ! m) div ?W" and ?r = "\<lambda>m. (tot * ws ! m) mod ?W"
  have W: "0 < ?W" using D by (intro sum_list_pos)
  have le: "tot * ws ! j \<le> tot * ws ! i" using D(1) assms(4) by (simp add: mult_left_mono)
  hence q: "?q j \<le> ?q i" using W by (rule zdiv_mono1)
  have pi: "ps ! i = ?q i + (if i \<in> favoured tot ws then 1 else 0)"
    and pj: "ps ! j = ?q j + (if j \<in> favoured tot ws then 1 else 0)"
    using allocate_nth[OF assms(1)] assms(2,3) by simp_all
  show ?thesis
  proof (cases "?q j < ?q i \<or> j \<notin> favoured tot ws \<or> i \<in> favoured tot ws")
    case True
    thus ?thesis using pi pj q by auto
  next
    case False
    hence eq: "?q j = ?q i" and f: "j \<in> favoured tot ws" "i \<notin> favoured tot ws" using q by auto
    have "?W * ?q j + ?r j = tot * ws ! j" "?W * ?q i + ?r i = tot * ws ! i" by simp_all
    moreover have "?r i \<le> ?r j" using favoured_largest[OF assms(3,2) f] .
    ultimately have "tot * ws ! i = tot * ws ! j" using le unfolding eq by linarith
    hence "tot = 0" using assms(4) by simp
    hence "leftover tot ws = 0" by (simp add: leftover_def foldl_plus_sum quotas_def)
    thus ?thesis using f(1) by (simp add: favoured_def)
  qed
qed

section \<open>Scattering the contributing shares\<close>

lemma fold_update_notin:
  "m \<notin> set idx \<Longrightarrow> fold (\<lambda>(i, p) r. r[i := p]) (zip idx ps) r ! m = r ! m"
proof (induction idx arbitrary: ps r)
  case (Cons i idx)
  thus ?case by (cases ps) auto
qed simp

lemma fold_update_length: "length (fold (\<lambda>(i, p) r. r[i := p]) ips r) = length r"
  by (induction ips arbitrary: r) auto

lemma fold_update_sum:
  fixes ps :: "int list"
  assumes "distinct idx" "length ps = length idx" "\<And>i. i \<in> set idx \<Longrightarrow> i < length r \<and> r ! i = 0"
  shows "sum_list (fold (\<lambda>(i, p) r. r[i := p]) (zip idx ps) r) = sum_list r + sum_list ps"
  using assms
proof (induction idx arbitrary: ps r)
  case (Cons i idx)
  then obtain p qs where ps: "ps = p # qs" by (cases ps) auto
  have i: "i < length r" "r ! i = 0" using Cons.prems(3) by auto
  have "sum_list (r[i := p]) = sum_list r + p"
    using i by (simp add: sum_list_update_int)
  moreover have "sum_list (fold (\<lambda>(i, p) r. r[i := p]) (zip idx qs) (r[i := p]))
      = sum_list (r[i := p]) + sum_list qs"
    by (rule Cons.IH) (use Cons.prems ps in \<open>auto simp: nth_list_update\<close>)
  ultimately show ?case using ps by simp
qed simp

lemma scatter_sum:
  assumes "distinct idx" "length ps = length idx" "\<And>i. i \<in> set idx \<Longrightarrow> i < n"
  shows "sum_list (scatter n idx ps) = sum_list ps"
  unfolding scatter_def
  by (subst fold_update_sum) (use assms in \<open>auto simp: sum_list_replicate\<close>)

lemma length_scatter [simp]: "length (scatter n idx ps) = n"
  by (simp add: scatter_def fold_update_length)

lemma scatter_notin: "m \<notin> set idx \<Longrightarrow> m < n \<Longrightarrow> scatter n idx ps ! m = 0"
  by (simp add: scatter_def fold_update_notin)

lemma fold_update_set:
  "set (fold (\<lambda>(i, p) r. r[i := p]) (zip idx ps) r) \<subseteq> set ps \<union> set r"
proof (induction idx arbitrary: ps r)
  case (Cons i idx)
  show ?case
  proof (cases ps)
    case (Cons p qs)
    have "set (fold (\<lambda>(i, p) r. r[i := p]) (zip idx qs) (r[i := p])) \<subseteq> set qs \<union> set (r[i := p])"
      by (rule Cons.IH)
    thus ?thesis using Cons set_update_subset_insert[of r i p] by auto
  qed simp
qed simp

lemma set_contributing [simp]: "set (contributing ws) = {i. i < length ws \<and> 0 < ws ! i}"
  by (auto simp: contributing_def)

lemma distinct_contributing [simp]: "distinct (contributing ws)"
  by (simp add: contributing_def)

lemma allocateWithZeros_cases:
  assumes "allocateWithZeros tot ws = Inr ps"
  obtains (none) "contributing ws = []" "tot \<le> 0" "ps = replicate (length ws) 0"
  | (some) qs where "contributing ws \<noteq> []"
      "allocate tot (map (\<lambda>i. ws ! i) (contributing ws)) = Inr qs"
      "ps = scatter (length ws) (contributing ws) qs"
  using assms
  by (auto simp: allocateWithZeros_def Let_def result_simps split: if_splits)

lemma allocateWithZeros_length: "allocateWithZeros tot ws = Inr ps \<Longrightarrow> length ps = length ws"
  by (erule allocateWithZeros_cases) auto

lemma allocateWithZeros_sum:
  assumes "allocateWithZeros tot ws = Inr ps" "0 \<le> tot"
  shows "sum_list ps = tot"
  using assms(1)
proof (cases rule: allocateWithZeros_cases)
  case none
  thus ?thesis using assms(2) by (simp add: sum_list_replicate)
next
  case (some qs)
  have "sum_list ps = sum_list qs"
    unfolding some(3) by (rule scatter_sum) (use allocate_length[OF some(2)] in auto)
  thus ?thesis using allocate_sum[OF some(2)] by simp
qed

lemma allocateWithZeros_nonneg:
  assumes "allocateWithZeros tot ws = Inr ps" "p \<in> set ps"
  shows "0 \<le> p"
  using assms(1)
proof (cases rule: allocateWithZeros_cases)
  case none
  thus ?thesis using assms(2) by auto
next
  case (some qs)
  hence "p \<in> set qs \<union> {0}"
    using assms(2) fold_update_set[of "contributing ws" qs "replicate (length ws) 0"]
    by (auto simp: scatter_def)
  thus ?thesis using allocate_nonneg[OF some(2)] by auto
qed

lemma allocateWithZeros_zero:
  assumes "allocateWithZeros tot ws = Inr ps" "m < length ws" "ws ! m \<le> 0"
  shows "ps ! m = 0"
  using assms(1)
  by (cases rule: allocateWithZeros_cases) (use assms(2,3) in \<open>auto simp: scatter_notin\<close>)

lemma allocateWithZeros_returns:
  assumes "0 \<le> tot" "tot = 0 \<or> (\<exists>w \<in> set ws. 0 < w)"
  shows "\<exists>ps. allocateWithZeros tot ws = Inr ps"
proof (cases "contributing ws = []")
  case True
  hence "set (contributing ws) = {}" by simp
  hence "{i. i < length ws \<and> 0 < ws ! i} = {}" by (simp only: set_contributing)
  hence "\<not> (\<exists>w \<in> set ws. 0 < w)" by (auto simp: in_set_conv_nth)
  thus ?thesis using assms True by (auto simp: allocateWithZeros_def)
next
  case False
  have "\<exists>qs. allocate tot (map (\<lambda>i. ws ! i) (contributing ws)) = Inr qs"
    by (rule allocate_total) (use False assms(1) in auto)
  thus ?thesis using False by (auto simp: allocateWithZeros_def)
qed

section \<open>The interface money is divided through\<close>

locale exact_division =
  fixes divide :: "int \<Rightarrow> int list \<Rightarrow> error + int list"
  assumes divide_length: "divide tot ws = Inr ps \<Longrightarrow> length ps = length ws"
    and divide_sum: "divide tot ws = Inr ps \<Longrightarrow> 0 \<le> tot \<Longrightarrow> sum_list ps = tot"
    and divide_nonneg: "divide tot ws = Inr ps \<Longrightarrow> p \<in> set ps \<Longrightarrow> 0 \<le> p"
begin

text \<open>Dividing a total and then handing each part to a step that moves a measure by
  exactly that part moves the measure by exactly the total.\<close>

lemma staged:
  assumes "divide tot ws = Inr ps" "0 \<le> tot" "length xs = length ws"
    and "fold_ok (\<lambda>(x, p) s. step x p s) (zip xs ps) s = Inr s'"
    and "\<And>x p s s'. x \<in> set xs \<Longrightarrow> p \<in> set ps \<Longrightarrow> 0 \<le> p \<Longrightarrow> I s \<Longrightarrow> step x p s = Inr s'
           \<Longrightarrow> I s' \<and> m s' = m s + (p::int)" and "I s"
  shows "I s' \<and> m s' = m s + tot"
proof -
  have len: "length xs = length ps" using divide_length[OF assms(1)] assms(3) by simp
  have "I s' \<and> m s' = m s + sum_list qs"
    if "length ys = length qs" "set ys \<subseteq> set xs" "set qs \<subseteq> set ps"
      "fold_ok (\<lambda>(x, p) s. step x p s) (zip ys qs) s = Inr s'" "I s" for ys qs s
    using that
  proof (induction ys qs arbitrary: s rule: list_induct2)
    case (Cons y ys q qs)
    then obtain s1 where s1: "step y q s = Inr s1"
        "fold_ok (\<lambda>(x, p) s. step x p s) (zip ys qs) s1 = Inr s'"
      by (auto simp: result_simps)
    have "0 \<le> q" using divide_nonneg[OF assms(1)] Cons.prems(2) by simp
    hence "I s1 \<and> m s1 = m s + q" using assms(5)[OF _ _ _ Cons.prems(4) s1(1)] Cons.prems by simp
    thus ?case using Cons.IH[OF _ _ s1(2)] Cons.prems by simp
  qed simp
  from this[OF len subset_refl subset_refl assms(4,6)] show ?thesis
    using divide_sum[OF assms(1,2)] by simp
qed

lemma part_le_total:
  assumes "divide tot ws = Inr ps" "0 \<le> tot" "p \<in> set ps"
  shows "p \<le> tot"
  using divide_sum[OF assms(1,2)] divide_nonneg[OF assms(1)] assms(3)
    member_le_sum_list_int[of ps p] by simp

end

interpretation hare: exact_division allocate
  by unfold_locales (rule allocate_length allocate_sum allocate_nonneg; assumption)+

interpretation hare0: exact_division allocateWithZeros
  by unfold_locales (rule allocateWithZeros_length allocateWithZeros_sum allocateWithZeros_nonneg; assumption)+

section \<open>What an allocation promises\<close>

text \<open>C31: Largest-remainder allocation loses no unit, gives every part its exact quota or one
  unit more, is never negative, and is monotone in the weights up to the one unit handed
  out.\<close>

lemma allocate_is_fair:
  assumes "allocate total_ves ws = Inr ps"
  shows "length ps = length ws \<and> sum_list ps = total_ves \<and> (\<forall>p \<in> set ps. 0 \<le> p)
     \<and> (\<forall>i < length ws. ps ! i - (total_ves * ws ! i) div sum_list ws \<in> {0, 1})
     \<and> (\<forall>i < length ws. \<forall>j < length ws. ws ! i \<le> ws ! j \<longrightarrow> ps ! i \<le> ps ! j + 1)
     \<and> (\<forall>i < length ws. \<forall>j < length ws. ws ! i < ws ! j \<longrightarrow> ps ! i \<le> ps ! j)"
proof -
  have q: "ps ! i - (total_ves * ws ! i) div sum_list ws \<in> {0, 1}" if "i < length ws" for i
    using allocate_nth[OF assms that] by simp
  have near: "ps ! i \<le> ps ! j + 1" if "i < length ws" "j < length ws" "ws ! i \<le> ws ! j" for i j
  proof (cases "ws ! i = ws ! j")
    case True
    thus ?thesis using allocate_nth[OF assms that(1)] allocate_nth[OF assms that(2)] by simp
  next
    case False
    thus ?thesis using allocate_monotone[OF assms that(2,1)] that(3) by simp
  qed
  show ?thesis
    using allocate_length[OF assms] allocate_sum[OF assms] allocate_nonneg[OF assms] q near
      allocate_monotone[OF assms] by blast
qed

lemma allocate_is_fair_witness:
  "\<exists>ps. allocate 100 [1, 1, 1] = Inr ps \<and> sum_list ps = 100 \<and> ps ! 0 - 33 \<in> {0, 1} \<and> ps ! 2 \<le> ps ! 0 + 1"
proof -
  have r: "allocate 100 [1, 1, 1] = Inr [34, 33, 33]" by code_simp
  from allocate_is_fair[OF r] show ?thesis by (intro exI[of _ "[34, 33, 33]"] conjI r) auto
qed

lemma allocate_refuses:
  "(\<exists>e. allocate total_ves ws = Inl e) \<longleftrightarrow> total_ves < 0 \<or> ws = [] \<or> (\<exists>w \<in> set ws. w \<le> 0)"
  by (auto simp: allocate_def list_ex_iff)

end
