(* ===== verification/Store.thy ===== *)
theory Store
  imports Allocate
begin

text \<open>
  The rows the bill, split, payment and bank services share, the tables they live
  in, and the integrity rules PostgreSQL keeps on them (the CHECKs, partial unique
  indexes and foreign keys of src/migrations that the services rely on), as the
  guards of the write operations.  Identifiers are natural numbers drawn from
  \<open>next_id\<close>, which stands for \<open>gen_random_uuid()\<close>; BIGINT columns are integers;
  times are integers (milliseconds).  The views \<open>payment_ledger_drift\<close> and
  \<open>bill_split_share_drift\<close> are definitions, and the invariant of the store is that
  they are empty and every CHECK holds.
\<close>

section \<open>Rows\<close>

datatype tax_category = TAXABLE | EXEMPT | EXONERATED | NON_TAXABLE

datatype split_mode = FULL | EQUAL | ITEMS | CUSTOM

datatype staff_role = OWNER | MANAGER | CASHIER | WAITER

datatype actor_type = STAFF | GUEST | SYSTEM | PROVIDER

datatype payment_method = CASH | CARD | TRANSFER | PAGO_MOVIL | SPLITE | C2P | OTHER_METHOD

record product =
  prod_id :: nat
  prod_restaurant :: nat
  prod_name :: string
  price_minor_units :: int
  prod_currency :: string
  prod_active :: bool
  prod_tax_category :: "tax_category option"
  prod_vat_bps :: "int option"

record bill =
  bill_id :: nat
  bill_restaurant :: nat
  bill_table :: nat
  bill_state :: bill_status
  bill_currency :: string
  total_due :: int
  subtotal_minor :: int
  vat_minor :: int
  service_charge_minor :: int
  bill_vat_bps :: "int option"
  service_charge_bps :: "int option"
  total_due_ves :: int
  amount_paid_ves :: int
  fx_rate_ves_per_unit :: "string option"
  served_by :: "nat option"

record bill_item =
  item_id :: nat
  item_restaurant :: nat
  item_bill :: nat
  item_product :: nat
  name_snapshot :: string
  unit_price_minor :: int
  item_currency :: string
  quantity :: int
  item_tax_category :: tax_category
  item_vat_bps :: "int option"
  item_guest_order :: "nat option"

text \<open>The generated column \<open>subtotal_minor\<close> of \<open>bill_items\<close>.\<close>

definition item_subtotal :: "bill_item \<Rightarrow> int" where
  "item_subtotal i = unit_price_minor i * quantity i"

record payment =
  pay_id :: nat
  pay_restaurant :: nat
  pay_bill :: nat
  amount_ves :: int
  tip_ves :: int
  pay_status :: payment_status
  pay_method :: payment_method
  pay_provider :: "string option"
  provider_payment_id :: "string option"
  declared_reference :: "string option"
  pay_key :: "string option"
  payer_type :: actor_type
  payer_id :: "nat option"
  split_participant_id :: "nat option"
  phone_origin :: "string option"
  bank_origin :: "string option"
  id_origin :: "string option"
  pay_created_at :: int

record transition =
  tr_payment :: nat
  tr_restaurant :: nat
  tr_from :: "payment_status option"
  tr_to :: payment_status
  tr_actor :: actor_type

record bill_split =
  split_id :: nat
  split_restaurant :: nat
  split_bill :: nat
  split_mode :: split_mode
  basis_ves :: int
  split_state :: split_status
  created_by_type :: actor_type

record share =
  share_id :: nat
  share_restaurant :: nat
  share_split :: nat
  ext_ref :: string
  share_name :: "string option"
  share_amount_ves :: int
  share_paid_ves :: int

record split_item =
  si_split :: nat
  si_item :: nat
  si_participant :: nat

record bank_movement =
  mv_id :: nat
  mv_restaurant :: nat
  mv_connection :: nat
  mv_reference :: string
  mv_amount_minor :: int
  mv_bank_code :: "string option"
  mv_phone_origin :: "string option"
  mv_id_origin :: "string option"
  mv_received_at :: int
  matched_payment_id :: "nat option"

record bank_connection =
  bc_id :: nat
  bc_restaurant :: nat
  bc_active :: bool
  bc_auto_confirm :: bool

datatype match_outcome = Matched | Mismatch | Ambiguous_Match | Not_Found_Match

datatype disagreement = D_Amount | D_Bank | D_Phone | D_Id

record bank_match =
  bm_payment :: nat
  bm_restaurant :: nat
  bm_outcome :: match_outcome
  bm_movement :: "nat option"
  bm_disagreements :: "disagreement list"
  bm_auto_confirmed :: bool

record c2p_charge =
  cc_payment :: nat
  cc_restaurant :: nat
  cc_invoice :: string
  cc_bank_code :: string
  cc_phone_last4 :: string
  cc_last_resolution :: "int option"

datatype attempt_outcome =
    A_Matched | A_Ambiguous | A_No_Match | A_Pending_Window | A_Window_Expired
  | A_Already_Resolved | A_Unappliable

record c2p_attempt =
  at_payment :: nat
  at_restaurant :: nat
  at_outcome :: attempt_outcome
  at_candidates :: "string option list"

datatype webhook_kind = W_Settled | W_Failed | W_Ignored | W_Duplicate | W_Provider_Mismatch

record webhook_event =
  we_provider :: string
  we_event :: string
  we_payment :: nat
  we_outcome :: webhook_kind

datatype delivery_outcome =
    DL_Kind webhook_kind | DL_Unparseable | DL_Payment_Unresolved | DL_Processing_Failed
  | DL_Signature_Invalid | DL_Timestamp_Out_Of_Tolerance | DL_Replayed | DL_Replay_Store_Down

record webhook_delivery =
  wl_provider :: string
  wl_event :: "string option"
  wl_payment :: "nat option"
  wl_outcome :: delivery_outcome

record guest_order =
  go_id :: nat
  go_restaurant :: nat
  go_table :: nat
  go_bill :: nat
  go_line_count :: int
  go_created_at :: int
  go_acknowledged :: "(int \<times> nat) option"

datatype adjustment_reason = DISCOUNT | COMP | WRITE_OFF

record adjustment =
  adj_restaurant :: nat
  adj_bill :: nat
  adj_amount_ves :: int
  adj_reason :: adjustment_reason
  adj_by :: nat

datatype issue_outcome = No_Provider | Issued | Not_Issued string | Issue_Failed error

datatype intent_status = INTENT_WAITING | INTENT_ISSUED | INTENT_FAILED | INTENT_SKIPPED

record invoice_intent =
  ii_payment :: nat
  ii_restaurant :: nat
  ii_email :: string
  ii_name :: "string option"
  ii_tax_id :: "string option"
  ii_status :: intent_status
  ii_note :: "issue_outcome option"

record dining_table =
  tb_id :: nat
  tb_restaurant :: nat
  tb_active :: bool

datatype subscription_status = Sub_Trial | Sub_Active | Sub_Suspended | Sub_Cancelled

record restaurant =
  rs_id :: nat
  rs_menu_currency :: string
  rs_vat_bps :: int
  rs_service_bps :: int
  rs_subscription :: "subscription_status option"

record store =
  bills :: "bill table"
  items :: "bill_item table"
  products :: "product table"
  payments :: "payment table"
  transitions :: "transition table"
  splits :: "bill_split table"
  shares :: "share table"
  split_items :: "split_item table"
  movements :: "bank_movement table"
  connections :: "bank_connection table"
  bank_matches :: "bank_match table"
  c2p_charges :: "c2p_charge table"
  c2p_attempts :: "c2p_attempt table"
  webhook_events :: "webhook_event table"
  deliveries :: "webhook_delivery table"
  guest_orders :: "guest_order table"
  adjustments :: "adjustment table"
  invoice_intents :: "invoice_intent table"
  dining_tables :: "dining_table table"
  restaurants :: "restaurant table"
  next_id :: nat

text \<open>A transaction: an error rolls back (the caller keeps its store), a result
  commits the new store.\<close>

type_synonym 'a tx = "store \<Rightarrow> error + 'a \<times> store"

section \<open>Reads\<close>

definition get_bill :: "nat \<Rightarrow> nat \<Rightarrow> store \<Rightarrow> bill option" where
  "get_bill rid bid st = find_by (\<lambda>b. bill_id b = bid \<and> bill_restaurant b = rid) (bills st)"

definition get_payment :: "nat \<Rightarrow> nat \<Rightarrow> store \<Rightarrow> payment option" where
  "get_payment rid pid st = find_by (\<lambda>p. pay_id p = pid \<and> pay_restaurant p = rid) (payments st)"

definition get_share :: "nat \<Rightarrow> nat \<Rightarrow> store \<Rightarrow> share option" where
  "get_share rid sid st = find_by (\<lambda>s. share_id s = sid \<and> share_restaurant s = rid) (shares st)"

definition get_split :: "nat \<Rightarrow> nat \<Rightarrow> store \<Rightarrow> bill_split option" where
  "get_split rid sid st = find_by (\<lambda>s. split_id s = sid \<and> split_restaurant s = rid) (splits st)"

section \<open>Integrity rules and guarded writes\<close>

definition bill_checks :: "bill \<Rightarrow> bool" where
  "bill_checks b \<longleftrightarrow> 0 \<le> amount_paid_ves b \<and> amount_paid_ves b \<le> total_due_ves b
     \<and> 0 \<le> subtotal_minor b \<and> 0 \<le> vat_minor b \<and> 0 \<le> service_charge_minor b
     \<and> total_due b = subtotal_minor b + service_charge_minor b + vat_minor b"

definition update_bill :: "nat \<Rightarrow> (bill \<Rightarrow> bill) \<Rightarrow> store \<Rightarrow> error + store" where
  "update_bill bid f st =
     (if list_all (\<lambda>b. bill_id b = bid \<longrightarrow> bill_checks (f b)) (bills st)
      then Inr (st\<lparr>bills := update_where (\<lambda>b. bill_id b = bid) f (bills st)\<rparr>)
      else Inl (General (Db_Check ''bills'')))"

definition blank_payment :: "nat \<Rightarrow> nat \<Rightarrow> int \<Rightarrow> int \<Rightarrow> payment_status \<Rightarrow> payment_method \<Rightarrow> payment" where
  "blank_payment rid bid amount tip status method =
     \<lparr>pay_id = 0, pay_restaurant = rid, pay_bill = bid, amount_ves = amount, tip_ves = tip,
      pay_status = status, pay_method = method, pay_provider = None, provider_payment_id = None,
      declared_reference = None, pay_key = None, payer_type = STAFF, payer_id = None,
      split_participant_id = None, phone_origin = None, bank_origin = None, id_origin = None,
      pay_created_at = 0\<rparr>"

definition payment_checks :: "payment \<Rightarrow> bool" where
  "payment_checks p \<longleftrightarrow> 0 < amount_ves p \<and> 0 \<le> tip_ves p
     \<and> (provider_payment_id p \<noteq> None \<longrightarrow> pay_provider p \<noteq> None)"

text \<open>The partial unique indexes on \<open>payments\<close>.\<close>

definition key_taken :: "payment \<Rightarrow> payment \<Rightarrow> bool" where
  "key_taken p q \<longleftrightarrow> pay_key p \<noteq> None \<and> pay_restaurant q = pay_restaurant p \<and> pay_key q = pay_key p"

definition reference_taken :: "payment \<Rightarrow> payment \<Rightarrow> bool" where
  "reference_taken p q \<longleftrightarrow> provider_payment_id p \<noteq> None
     \<and> pay_provider q = pay_provider p \<and> provider_payment_id q = provider_payment_id p"

definition declared_taken :: "payment \<Rightarrow> payment \<Rightarrow> bool" where
  "declared_taken p q \<longleftrightarrow> declared_reference p \<noteq> None
     \<and> pay_status p \<notin> {Failed, Cancelled} \<and> pay_status q \<notin> {Failed, Cancelled}
     \<and> pay_restaurant q = pay_restaurant p \<and> declared_reference q = declared_reference p"

definition insert_payment :: "payment \<Rightarrow> store \<Rightarrow> error + store" where
  "insert_payment p st =
     (if \<not> payment_checks p then Inl (General (Db_Check ''payments''))
      else if list_ex (key_taken p) (payments st) then Inl (General (Db_Unique ''payments_idempotency''))
      else if list_ex (reference_taken p) (payments st)
        then Inl (General (Db_Unique ''payments_provider_reference''))
      else if list_ex (declared_taken p) (payments st)
        then Inl (General (Db_Unique ''payments_declared_reference''))
      else if get_bill (pay_restaurant p) (pay_bill p) st = None
        then Inl (General (Db_Check ''payments_bill_same_restaurant_fk''))
      else if (case split_participant_id p of None \<Rightarrow> False
               | Some s \<Rightarrow> get_share (pay_restaurant p) s st = None)
        then Inl (General (Db_Check ''payments_split_participant_same_restaurant_fk''))
      else Inr (st\<lparr>payments := insert_row p (payments st)\<rparr>))"

definition put_payment :: "nat \<Rightarrow> (payment \<Rightarrow> payment) \<Rightarrow> store \<Rightarrow> store" where
  "put_payment pid f st = st\<lparr>payments := update_where (\<lambda>p. pay_id p = pid) f (payments st)\<rparr>"

text \<open>\<open>UPDATE payments SET provider_payment_id = ... WHERE id AND restaurant_id\<close>, under
  the unique index on (provider, provider_payment_id) and the check that a reference has a
  provider.  Writing NULL is never refused.\<close>

definition spend_reference :: "nat \<Rightarrow> nat \<Rightarrow> string option \<Rightarrow> store \<Rightarrow> error + store" where
  "spend_reference rid pid ref st =
     (case get_payment rid pid st of
        None \<Rightarrow> Inr st
      | Some p \<Rightarrow>
          if ref \<noteq> None \<and> pay_provider p = None then Inl (General (Db_Check ''payments_provider_pair''))
          else if ref \<noteq> None \<and> list_ex (\<lambda>q. pay_id q \<noteq> pid \<and> pay_provider q = pay_provider p
                                           \<and> provider_payment_id q = ref) (payments st)
          then Inl (General (Db_Unique ''payments_provider_reference''))
          else Inr (put_payment pid (\<lambda>x. x\<lparr>provider_payment_id := ref\<rparr>) st))"

definition share_checks :: "share \<Rightarrow> bool" where
  "share_checks s \<longleftrightarrow> 0 \<le> share_amount_ves s \<and> 0 \<le> share_paid_ves s \<and> share_paid_ves s \<le> share_amount_ves s"

definition set_split_state :: "(bill_split \<Rightarrow> bool) \<Rightarrow> split_status \<Rightarrow> store \<Rightarrow> store" where
  "set_split_state P s st = st\<lparr>splits := update_where P (\<lambda>x. x\<lparr>split_state := s\<rparr>) (splits st)\<rparr>"

section \<open>Derived figures and the drift views\<close>

definition counted :: "payment_status \<Rightarrow> bool" where
  "counted s \<longleftrightarrow> s = Succeeded \<or> s = Partially_Refunded"

definition ledger_total :: "nat \<Rightarrow> store \<Rightarrow> int" where
  "ledger_total bid st = sum_over (\<lambda>p. pay_bill p = bid \<and> counted (pay_status p)) amount_ves (payments st)"

definition share_credit :: "nat \<Rightarrow> store \<Rightarrow> int" where
  "share_credit sid st =
     sum_over (\<lambda>p. split_participant_id p = Some sid \<and> counted (pay_status p)) amount_ves (payments st)"

definition share_total :: "nat \<Rightarrow> store \<Rightarrow> int" where
  "share_total spid st = sum_over (\<lambda>s. share_split s = spid) share_amount_ves (shares st)"

definition share_paid_total :: "nat \<Rightarrow> store \<Rightarrow> int" where
  "share_paid_total spid st = sum_over (\<lambda>s. share_split s = spid) share_paid_ves (shares st)"

definition payment_ledger_drift :: "store \<Rightarrow> bill list" where
  "payment_ledger_drift st = filter (\<lambda>b. amount_paid_ves b \<noteq> ledger_total (bill_id b) st) (bills st)"

definition bill_split_share_drift :: "store \<Rightarrow> share list" where
  "bill_split_share_drift st = filter (\<lambda>s. share_paid_ves s \<noteq> share_credit (share_id s) st) (shares st)"

section \<open>The invariant\<close>

text \<open>Keys are unique and every identifier in use is below \<open>next_id\<close>.\<close>

definition inv_keys :: "store \<Rightarrow> bool" where
  "inv_keys st \<longleftrightarrow> keyed bill_id (bills st) \<and> keyed pay_id (payments st)
     \<and> keyed split_id (splits st) \<and> keyed share_id (shares st)
     \<and> (\<forall>b \<in> set (bills st). bill_id b < next_id st)
     \<and> (\<forall>p \<in> set (payments st). pay_id p < next_id st \<and> pay_bill p < next_id st)
     \<and> (\<forall>s \<in> set (splits st). split_id s < next_id st)
     \<and> (\<forall>s \<in> set (shares st). share_id s < next_id st \<and> share_split s < next_id st)
     \<and> (\<forall>p \<in> set (payments st). \<forall>s. split_participant_id p = Some s \<longrightarrow> s < next_id st)"

definition inv_bills :: "store \<Rightarrow> bool" where
  "inv_bills st \<longleftrightarrow> (\<forall>b \<in> set (bills st). bill_checks b \<and> (bill_state b = BillVoid \<longrightarrow> amount_paid_ves b = 0))"

definition inv_payments :: "store \<Rightarrow> bool" where
  "inv_payments st \<longleftrightarrow> (\<forall>p \<in> set (payments st). payment_checks p)"

definition inv_ledger :: "store \<Rightarrow> bool" where
  "inv_ledger st \<longleftrightarrow> payment_ledger_drift st = []"

definition inv_shares :: "store \<Rightarrow> bool" where
  "inv_shares st \<longleftrightarrow> bill_split_share_drift st = [] \<and> (\<forall>s \<in> set (shares st). share_checks s)"

definition one_active :: "store \<Rightarrow> bool" where
  "one_active st \<longleftrightarrow> keyed split_bill (filter (\<lambda>s. split_state s = Split_Active) (splits st))"

definition inv_splits :: "store \<Rightarrow> bool" where
  "inv_splits st \<longleftrightarrow> one_active st
     \<and> (\<forall>s \<in> set (splits st). share_total (split_id s) st = basis_ves s)
     \<and> (\<forall>s \<in> set (splits st). split_state s = Split_Void \<longrightarrow> share_paid_total (split_id s) st = 0)"

text \<open>The composite foreign keys: a share belongs to a split of its own restaurant, a
  payment to a bill of its own.\<close>

definition inv_fk :: "store \<Rightarrow> bool" where
  "inv_fk st \<longleftrightarrow>
     (\<forall>s \<in> set (shares st). \<exists>p \<in> set (splits st). split_id p = share_split s \<and> split_restaurant p = share_restaurant s)
   \<and> (\<forall>p \<in> set (payments st). \<exists>b \<in> set (bills st). bill_id b = pay_bill p \<and> bill_restaurant b = pay_restaurant p)"

definition store_inv :: "store \<Rightarrow> bool" where
  "store_inv st \<longleftrightarrow> inv_keys st \<and> inv_fk st \<and> inv_bills st \<and> inv_payments st \<and> inv_ledger st \<and> inv_shares st \<and> inv_splits st"

lemmas inv_parts = inv_keys_def inv_fk_def inv_bills_def inv_payments_def inv_ledger_def inv_shares_def inv_splits_def

lemma inv_ledger_iff:
  "inv_ledger st \<longleftrightarrow> (\<forall>b \<in> set (bills st). amount_paid_ves b = ledger_total (bill_id b) st)"
  by (auto simp: inv_ledger_def payment_ledger_drift_def filter_empty_conv)

lemma share_drift_iff:
  "bill_split_share_drift st = [] \<longleftrightarrow> (\<forall>s \<in> set (shares st). share_paid_ves s = share_credit (share_id s) st)"
  by (auto simp: bill_split_share_drift_def filter_empty_conv)

lemma get_bill_SomeD: "get_bill rid bid st = Some b \<Longrightarrow> b \<in> set (bills st) \<and> bill_id b = bid \<and> bill_restaurant b = rid"
  by (auto simp: get_bill_def dest: find_by_SomeD)

lemma get_payment_SomeD:
  "get_payment rid pid st = Some p \<Longrightarrow> p \<in> set (payments st) \<and> pay_id p = pid \<and> pay_restaurant p = rid"
  by (auto simp: get_payment_def dest: find_by_SomeD)

lemma get_share_SomeD:
  "get_share rid sid st = Some s \<Longrightarrow> s \<in> set (shares st) \<and> share_id s = sid \<and> share_restaurant s = rid"
  by (auto simp: get_share_def dest: find_by_SomeD)

lemma get_split_SomeD:
  "get_split rid sid st = Some s \<Longrightarrow> s \<in> set (splits st) \<and> split_id s = sid \<and> split_restaurant s = rid"
  by (auto simp: get_split_def dest: find_by_SomeD)

lemma keyed_filter: "keyed k t \<Longrightarrow> keyed k (filter P t)"
  by (simp add: keyed_def distinct_map_filter)

text \<open>An update that leaves everything the invariant reads alone.\<close>

lemma inv_cong:
  assumes "bills st' = bills st" "payments st' = payments st" "splits st' = splits st"
    "shares st' = shares st" "next_id st \<le> next_id st'"
  shows "store_inv st \<Longrightarrow> store_inv st'"
  using assms
  by (auto simp: store_inv_def inv_parts payment_ledger_drift_def bill_split_share_drift_def ledger_total_def
      share_credit_def share_total_def share_paid_total_def one_active_def intro: less_le_trans)

section \<open>What the elementary writes keep\<close>

lemma ledger_total_update_bill [simp]:
  "ledger_total bid (st\<lparr>bills := b\<rparr>) = ledger_total bid st"
  "share_credit sid (st\<lparr>bills := b\<rparr>) = share_credit sid st"
  "share_total spid (st\<lparr>bills := b\<rparr>) = share_total spid st"
  "share_paid_total spid (st\<lparr>bills := b\<rparr>) = share_paid_total spid st"
  "ledger_total bid (st\<lparr>splits := sp\<rparr>) = ledger_total bid st"
  "share_credit sid (st\<lparr>splits := sp\<rparr>) = share_credit sid st"
  "share_total spid (st\<lparr>splits := sp\<rparr>) = share_total spid st"
  "share_paid_total spid (st\<lparr>splits := sp\<rparr>) = share_paid_total spid st"
  by (simp_all add: ledger_total_def share_credit_def share_total_def share_paid_total_def)

lemma update_bill_InrD:
  "update_bill bid f st = Inr st' \<Longrightarrow>
     st' = st\<lparr>bills := update_where (\<lambda>b. bill_id b = bid) f (bills st)\<rparr>
     \<and> (\<forall>b \<in> set (bills st). bill_id b = bid \<longrightarrow> bill_checks (f b))"
  by (auto simp: update_bill_def list_all_iff split: if_splits)

lemma inv_update_bill:
  assumes "store_inv st" "update_bill bid f st = Inr st'"
    and "\<And>b. b \<in> set (bills st) \<Longrightarrow> bill_id b = bid \<Longrightarrow> bill_id (f b) = bid
          \<and> bill_restaurant (f b) = bill_restaurant b
          \<and> amount_paid_ves (f b) = amount_paid_ves b
          \<and> (bill_state (f b) = BillVoid \<longrightarrow> amount_paid_ves b = 0)"
  shows "store_inv st'"
proof -
  have st': "st' = st\<lparr>bills := update_where (\<lambda>b. bill_id b = bid) f (bills st)\<rparr>"
    and ok: "\<And>b. b \<in> set (bills st) \<Longrightarrow> bill_id b = bid \<Longrightarrow> bill_checks (f b)"
    using update_bill_InrD[OF assms(2)] by auto
  let ?bs = "update_where (\<lambda>b. bill_id b = bid) f (bills st)"
  have ids: "map bill_id ?bs = map bill_id (bills st)" using assms(3) by (simp add: update_where_def)
  have k: "keyed bill_id ?bs" using assms(1) ids by (simp add: store_inv_def inv_keys_def keyed_def)
  have mem: "\<exists>b0 \<in> set (bills st). b = (if bill_id b0 = bid then f b0 else b0)" if "b \<in> set ?bs" for b
    using that by (auto simp: set_update_where)
  have "inv_keys st'"
    using assms(1,3) k by (fastforce simp: store_inv_def inv_keys_def st' dest: mem split: if_splits)
  moreover have "inv_fk st'"
    using assms(1,3) unfolding store_inv_def inv_fk_def st' by (auto intro!: ex_update_where)
  moreover have "inv_bills st'"
    using assms(1,3) ok by (fastforce simp: store_inv_def inv_bills_def st' dest: mem split: if_splits)
  moreover have "inv_ledger st'"
    using assms(1,3) by (fastforce simp: store_inv_def inv_ledger_iff st' dest: mem split: if_splits)
  ultimately show ?thesis
    using assms(1) by (auto simp: store_inv_def st' inv_payments_def inv_shares_def share_drift_iff
        inv_splits_def one_active_def)
qed

lemma set_split_state_simps [simp]:
  "bills (set_split_state P s st) = bills st" "payments (set_split_state P s st) = payments st"
  "shares (set_split_state P s st) = shares st" "next_id (set_split_state P s st) = next_id st"
  "items (set_split_state P s st) = items st" "transitions (set_split_state P s st) = transitions st"
  by (simp_all add: set_split_state_def)

lemma keyed_active_update:
  assumes "s \<noteq> Split_Active" "keyed split_bill (filter (\<lambda>x. split_state x = Split_Active) t)"
  shows "keyed split_bill (filter (\<lambda>x. split_state x = Split_Active)
           (update_where P (\<lambda>x. x\<lparr>split_state := s\<rparr>) t))"
  using assms(2)
proof (induction t)
  case (Cons x t)
  have "split_bill ` set (filter (\<lambda>x. split_state x = Split_Active) (update_where P (\<lambda>x. x\<lparr>split_state := s\<rparr>) t))
      \<subseteq> split_bill ` set (filter (\<lambda>x. split_state x = Split_Active) t)"
    using assms(1) by (auto simp: set_update_where)
  thus ?case using Cons assms(1) by (auto simp: keyed_def split: if_splits)
qed simp

lemma inv_set_split_state:
  assumes "store_inv st" "s \<noteq> Split_Active"
    and "s = Split_Void \<Longrightarrow> \<forall>x \<in> set (splits st). P x \<longrightarrow> share_paid_total (split_id x) st = 0"
  shows "store_inv (set_split_state P s st)"
proof -
  let ?t = "update_where P (\<lambda>x. x\<lparr>split_state := s\<rparr>) (splits st)"
  have ids: "map split_id ?t = map split_id (splits st)" by (simp add: update_where_def)
  have "one_active (set_split_state P s st)"
    using keyed_active_update[OF assms(2), of "splits st" P] assms(1)
    by (simp add: one_active_def set_split_state_def store_inv_def inv_splits_def)
  moreover have "keyed split_id ?t" using assms(1) ids by (simp add: store_inv_def inv_keys_def keyed_def)
  moreover have "inv_fk (set_split_state P s st)"
    using assms(1) unfolding store_inv_def inv_fk_def set_split_state_def by (auto intro!: ex_update_where)
  moreover have "inv_keys (set_split_state P s st)"
    using assms(1) calculation(2) by (auto simp: store_inv_def inv_keys_def set_split_state_def set_update_where)
  ultimately show ?thesis
    using assms unfolding store_inv_def inv_bills_def inv_payments_def inv_ledger_iff inv_shares_def
      share_drift_iff inv_splits_def set_split_state_def
    by (auto simp: set_update_where split: if_splits)
qed

definition empty_store :: store where
  "empty_store = \<lparr>bills = [], items = [], products = [], payments = [], transitions = [],
     splits = [], shares = [], split_items = [], movements = [], connections = [],
     bank_matches = [], c2p_charges = [], c2p_attempts = [], webhook_events = [], deliveries = [],
     guest_orders = [], adjustments = [], invoice_intents = [], dining_tables = [], restaurants = [], next_id = 0\<rparr>"

lemma inv_empty: "store_inv empty_store"
  by (simp add: empty_store_def store_inv_def inv_parts payment_ledger_drift_def
      bill_split_share_drift_def one_active_def)

section \<open>A restaurant at dinner\<close>

text \<open>Rows on which the witnesses of the development are evaluated: one table with an open
  bill of 1000 cents of a bolivar over two lines, one product, one tracked bank account.\<close>

definition dinner_bill :: bill where
  "dinner_bill = \<lparr>bill_id = 1, bill_restaurant = 7, bill_table = 3, bill_state = BillOpen, bill_currency = ''VES'',
     total_due = 1000, subtotal_minor = 1000, vat_minor = 0, service_charge_minor = 0, bill_vat_bps = Some 0,
     service_charge_bps = Some 0, total_due_ves = 1000, amount_paid_ves = 0, fx_rate_ves_per_unit = Some ''1'',
     served_by = None\<rparr>"

definition dinner_line :: "nat \<Rightarrow> int \<Rightarrow> int \<Rightarrow> bill_item" where
  "dinner_line i price qty = \<lparr>item_id = i, item_restaurant = 7, item_bill = 1, item_product = 4, name_snapshot = ''Arepa'',
     unit_price_minor = price, item_currency = ''VES'', quantity = qty, item_tax_category = EXEMPT,
     item_vat_bps = Some 0, item_guest_order = None\<rparr>"

definition arepa :: product where
  "arepa = \<lparr>prod_id = 4, prod_restaurant = 7, prod_name = ''Arepa'', price_minor_units = 250, prod_currency = ''VES'',
     prod_active = True, prod_tax_category = Some EXEMPT, prod_vat_bps = None\<rparr>"

definition dinner_store :: store where
  "dinner_store = empty_store\<lparr>bills := [dinner_bill], items := [dinner_line 10 300 2, dinner_line 11 400 1],
     products := [arepa], connections := [\<lparr>bc_id = 5, bc_restaurant = 7, bc_active = True, bc_auto_confirm = True\<rparr>],
     dining_tables := [\<lparr>tb_id = 3, tb_restaurant = 7, tb_active = True\<rparr>, \<lparr>tb_id = 6, tb_restaurant = 7, tb_active = True\<rparr>],
     restaurants := [\<lparr>rs_id = 7, rs_menu_currency = ''VES'', rs_vat_bps = 0, rs_service_bps = 0,
                      rs_subscription = Some Sub_Active\<rparr>], next_id := 20\<rparr>"

lemma inv_dinner: "store_inv dinner_store"
  by (simp add: dinner_store_def empty_store_def dinner_bill_def store_inv_def inv_parts payment_ledger_drift_def
      bill_split_share_drift_def one_active_def bill_checks_def ledger_total_def keyed_def)

end
