(* ===== verification/Split_Engine.thy ===== *)
theory Split_Engine
  imports Store
begin

text \<open>
  The advisory split engine of src/services/splitEngine.js: who owes what of a
  bill's outstanding balance, in the four modes.  The \<open>Map\<close> of what each
  participant owes is an association list in participant order.  The money is
  divided through the \<open>exact_division\<close> interface, which is why every mode sums to
  the balance and the run-time check at the end of \<open>preview\<close> never fires.
\<close>

section \<open>Requests\<close>

record participant =
  part_id :: string
  part_name :: "string option"
  part_amount :: js_value

record claim =
  claim_item :: nat
  claim_people :: "string list"
  claim_quantity :: "int option"

record split_request =
  req_mode :: split_mode
  req_participants :: "participant list"
  req_claims :: "claim list"

record allocation =
  alloc_participant :: string
  alloc_name :: "string option"
  alloc_amount_ves :: int

record split_preview =
  pv_bill :: nat
  pv_mode :: split_mode
  pv_outstanding_ves :: int
  pv_total_allocated_ves :: int
  pv_allocations :: "allocation list"

section \<open>ITEMS\<close>

type_synonym owed = "(string \<times> int) list"

definition owe :: "string \<Rightarrow> int \<Rightarrow> owed \<Rightarrow> owed" where
  "owe p x m = map (\<lambda>(q, y). if q = p then (q, y + x) else (q, y)) m"

definition owed_by :: "string \<Rightarrow> owed \<Rightarrow> int" where
  "owed_by p m = (case map_of m p of Some x \<Rightarrow> x | None \<Rightarrow> 0)"

definition normaliseParticipants :: "participant list \<Rightarrow> error + participant list" where
  "normaliseParticipants ps =
     (if distinct (map part_id ps) then Inr ps else Inl (Split_E Split_Participants_Invalid))"

text \<open>The innermost loop: one claim's money, evenly across the people on it.\<close>

definition charge_claim :: "claim \<Rightarrow> int \<Rightarrow> owed \<Rightarrow> error + owed" where
  "charge_claim c claimVes m =
     and_then (allocateWithZeros claimVes (map (\<lambda>_. 1) (claim_people c))) (\<lambda>parts.
       fold_ok (\<lambda>(p, x) m. Inr (owe p x m)) (zip (claim_people c) parts) m)"

definition claimed_units :: "int \<Rightarrow> claim \<Rightarrow> int" where
  "claimed_units units c = (case claim_quantity c of None \<Rightarrow> units | Some q \<Rightarrow> q)"

definition claims_on :: "claim list \<Rightarrow> nat \<Rightarrow> claim list" where
  "claims_on claims i = filter (\<lambda>c. claim_people c \<noteq> [] \<and> claim_item c = i) claims"

text \<open>The middle loop: one line's money, by units across the claims on it.\<close>

definition charge_item :: "claim list \<Rightarrow> bill_item \<Rightarrow> int \<Rightarrow> owed \<Rightarrow> error + owed" where
  "charge_item claims i itemVes m =
     (let itemClaims = claims_on claims (item_id i);
          units = quantity i;
          claimed = map (claimed_units units) itemClaims;
          totalClaimed = foldl (+) 0 claimed
      in if itemClaims \<noteq> [] \<and> totalClaimed \<noteq> units
         then Inl (Split_E (Split_Units_Mismatch (item_id i) units totalClaimed))
         else and_then (allocateWithZeros itemVes claimed) (\<lambda>perClaim.
                fold_ok (\<lambda>(c, x) m. charge_claim c x m) (zip itemClaims perClaim) m))"

definition allocateByItems ::
  "int \<Rightarrow> bill_item list \<Rightarrow> participant list \<Rightarrow> claim list \<Rightarrow> error + int list" where
  "allocateByItems outstanding its participants claims =
     (if its = [] then Inl (Split_E Split_Not_Itemised)
      else
       let ids = map part_id participants;
           itemIds = map item_id its;
           unknownItems = remdups (filter (\<lambda>i. i \<notin> set itemIds) (map claim_item claims));
           unknownPeople = remdups (filter (\<lambda>p. p \<notin> set ids) (concat (map claim_people claims)));
           claimedItems = map claim_item (filter (\<lambda>c. claim_people c \<noteq> []) claims);
           unclaimed = filter (\<lambda>i. i \<notin> set claimedItems) itemIds
       in if unknownItems \<noteq> [] \<or> unknownPeople \<noteq> []
          then Inl (Split_E (Split_Claim_Unknown unknownItems unknownPeople))
          else if unclaimed \<noteq> [] then Inl (Split_E (Split_Claims_Incomplete unclaimed))
          else and_then (allocateWithZeros outstanding (map item_subtotal its)) (\<lambda>perItem.
               and_then (fold_ok (\<lambda>(i, x) m. charge_item claims i x m) (zip its perItem)
                          (map (\<lambda>p. (p, 0)) ids)) (\<lambda>m.
               Inr (map (\<lambda>p. owed_by p m) ids))))"

section \<open>CUSTOM and preview\<close>

text \<open>\<open>toMinor(p.amountVes ?? '0')\<close>.\<close>

definition custom_amount :: "participant \<Rightarrow> error + int" where
  "custom_amount p =
     and_then (toMinor (case part_amount p of JNull \<Rightarrow> JString ''0'' | JUndefined \<Rightarrow> JString ''0'' | v \<Rightarrow> v))
       (\<lambda>a. if a < 0 then Inl (Split_E Split_Participants_Invalid) else Inr a)"

definition allocateCustom :: "int \<Rightarrow> participant list \<Rightarrow> error + int list" where
  "allocateCustom outstanding participants =
     and_then (map_ok custom_amount participants) (\<lambda>amounts.
       let submitted = foldl (+) 0 amounts in
       if submitted \<noteq> outstanding then Inl (Split_E (Split_Amount_Mismatch outstanding submitted))
       else Inr amounts)"

definition mode_amounts :: "int \<Rightarrow> bill_item list \<Rightarrow> split_request \<Rightarrow> participant list \<Rightarrow> error + int list" where
  "mode_amounts outstanding its req participants =
     (case req_mode req of
        FULL \<Rightarrow> Inr [outstanding]
      | EQUAL \<Rightarrow> allocate outstanding (map (\<lambda>_. 1) participants)
      | ITEMS \<Rightarrow> allocateByItems outstanding its participants (req_claims req)
      | CUSTOM \<Rightarrow> allocateCustom outstanding participants)"

definition preview :: "bill \<Rightarrow> bill_item list \<Rightarrow> split_request \<Rightarrow> error + split_preview" where
  "preview b its req =
     and_then (normaliseParticipants (req_participants req)) (\<lambda>participants.
       let outstanding = total_due_ves b - amount_paid_ves b in
       if outstanding \<le> 0 then Inl (Split_E Split_Nothing_Outstanding)
       else if req_mode req = FULL \<and> length participants \<noteq> 1
       then Inl (Split_E Split_Participants_Invalid)
       else and_then (mode_amounts outstanding its req participants) (\<lambda>amounts.
         let totalAllocated = foldl (+) 0 amounts in
         if totalAllocated \<noteq> outstanding then Inl (General Plain_Error)
         else Inr \<lparr>pv_bill = bill_id b, pv_mode = req_mode req,
                   pv_outstanding_ves = outstanding, pv_total_allocated_ves = totalAllocated,
                   pv_allocations = map (\<lambda>(p, a). \<lparr>alloc_participant = part_id p,
                       alloc_name = part_name p, alloc_amount_ves = a\<rparr>) (zip participants amounts)\<rparr>))"

section \<open>What everybody owes adds up\<close>

definition owed_total :: "owed \<Rightarrow> int" where
  "owed_total m = sum_list (map snd m)"

lemma owe_keys [simp]: "map fst (owe p x m) = map fst m"
  by (induction m) (auto simp: owe_def)

lemma owed_total_owe:
  "distinct (map fst m) \<Longrightarrow> p \<in> fst ` set m \<Longrightarrow> owed_total (owe p x m) = owed_total m + x"
proof (induction m)
  case (Cons e m)
  obtain q y where e: "e = (q, y)" by force
  show ?case
  proof (cases "q = p")
    case True
    hence "owe p x m = m" using Cons.prems(1) e
      by (auto simp: owe_def image_iff intro!: map_idI)
    thus ?thesis using True e by (simp add: owe_def owed_total_def)
  next
    case False
    thus ?thesis using Cons e by (auto simp: owe_def owed_total_def)
  qed
qed simp

lemma owed_nonneg_owe:
  "0 \<le> x \<Longrightarrow> (\<And>e. e \<in> set m \<Longrightarrow> 0 \<le> snd e) \<Longrightarrow> e \<in> set (owe p x m) \<Longrightarrow> 0 \<le> snd e"
  by (auto simp: owe_def split: if_splits)

text \<open>The state the loops keep: the participants as keys, nothing negative.\<close>

definition owed_ok :: "string list \<Rightarrow> owed \<Rightarrow> bool" where
  "owed_ok ids m \<longleftrightarrow> map fst m = ids \<and> list_all (\<lambda>e. 0 \<le> snd e) m"

lemma owed_ok_owe:
  "owed_ok ids m \<Longrightarrow> 0 \<le> x \<Longrightarrow> owed_ok ids (owe p x m)"
  using owed_nonneg_owe[of x m _ p] by (auto simp: owed_ok_def list_all_iff)

lemma owed_ok_total:
  "owed_ok ids m \<Longrightarrow> distinct ids \<Longrightarrow> p \<in> set ids \<Longrightarrow> owed_total (owe p x m) = owed_total m + x"
  by (rule owed_total_owe) (auto simp: owed_ok_def simp flip: set_map)

lemma charge_claim_exact:
  assumes "charge_claim c v m = Inr m'" "0 \<le> v" "set (claim_people c) \<subseteq> set ids"
    "distinct ids" "owed_ok ids m"
  shows "owed_ok ids m' \<and> owed_total m' = owed_total m + v"
proof -
  obtain parts where parts: "allocateWithZeros v (map (\<lambda>_. 1) (claim_people c)) = Inr parts"
    "fold_ok (\<lambda>(p, x) m. Inr (owe p x m)) (zip (claim_people c) parts) m = (Inr m' :: error + owed)"
    using assms(1)
    by (cases "allocateWithZeros v (map (\<lambda>_. 1) (claim_people c))") (auto simp: charge_claim_def)
  show ?thesis
    by (rule hare0.staged[OF parts(1) assms(2) _ parts(2), where I = "owed_ok ids" and m = owed_total])
      (use assms owed_ok_owe owed_ok_total in auto)
qed

lemma charge_item_exact:
  assumes "charge_item claims i v m = Inr m'" "0 \<le> v"
    "set (concat (map claim_people claims)) \<subseteq> set ids" "distinct ids" "owed_ok ids m"
  shows "owed_ok ids m' \<and> owed_total m' = owed_total m + v"
proof -
  let ?cs = "claims_on claims (item_id i)"
  obtain per where per: "allocateWithZeros v (map (claimed_units (quantity i)) ?cs) = Inr per"
    "fold_ok (\<lambda>(c, x) m. charge_claim c x m) (zip ?cs per) m = Inr m'"
    using assms(1) by (auto simp: charge_item_def Let_def result_simps split: if_splits)
  have "set (claim_people c) \<subseteq> set ids" if "c \<in> set ?cs" for c
    using that assms(3) by (auto simp: claims_on_def)
  hence "owed_ok ids s' \<and> owed_total s' = owed_total s + p"
    if "c \<in> set ?cs" "0 \<le> p" "owed_ok ids s" "charge_claim c p s = Inr s'" for c p s s'
    using charge_claim_exact[OF that(4,2) _ assms(4) that(3)] that(1) by blast
  thus ?thesis
    by (intro hare0.staged[OF per(1) assms(2) _ per(2), where I = "owed_ok ids" and m = owed_total])
      (simp_all add: assms(5))
qed

lemma owed_values:
  "distinct (map fst m) \<Longrightarrow> map (\<lambda>p. owed_by p m) (map fst m) = map snd m"
proof (induction m)
  case (Cons e m)
  obtain q y where e: "e = (q, y)" by force
  have "map (\<lambda>p. owed_by p (e # m)) (map fst m) = map (\<lambda>p. owed_by p m) (map fst m)"
    using Cons.prems e by (auto simp: owed_by_def)
  thus ?case using Cons e by (simp add: owed_by_def)
qed simp

lemma allocateByItems_exact:
  assumes "allocateByItems v its ps claims = Inr amounts" "0 \<le> v" "distinct (map part_id ps)"
  shows "sum_list amounts = v \<and> length amounts = length ps \<and> list_all (\<lambda>a. 0 \<le> a) amounts"
proof -
  let ?ids = "map part_id ps" and ?m0 = "map (\<lambda>p. (p, 0)) (map part_id ps) :: owed"
  obtain per m where per: "allocateWithZeros v (map item_subtotal its) = Inr per"
    and m: "fold_ok (\<lambda>(i, x) m. charge_item claims i x m) (zip its per) ?m0 = Inr m"
    and am: "amounts = map (\<lambda>p. owed_by p m) ?ids"
    and sub: "remdups (filter (\<lambda>p. p \<notin> set ?ids) (concat (map claim_people claims))) = []"
    using assms(1) by (auto simp: allocateByItems_def Let_def result_simps split: if_splits)
  have people: "set (concat (map claim_people claims)) \<subseteq> set ?ids"
    using sub by (auto simp: filter_empty_conv)
  have ok0: "owed_ok ?ids ?m0" by (auto simp: owed_ok_def list_all_iff comp_def)
  have "owed_ok ?ids m \<and> owed_total m = owed_total ?m0 + v"
    by (rule hare0.staged[OF per assms(2) _ m, where I = "owed_ok ?ids"])
      (use charge_item_exact[OF _ _ people assms(3)] ok0 in auto)
  moreover have "owed_total ?m0 = 0" by (simp add: owed_total_def comp_def)
  moreover have "amounts = map snd m" if "owed_ok ?ids m"
  proof -
    have k: "map fst m = ?ids" using that by (simp add: owed_ok_def)
    show ?thesis unfolding am k[symmetric] by (rule owed_values) (use k assms(3) in simp)
  qed
  ultimately show ?thesis
    by (auto simp: owed_total_def owed_ok_def list_all_iff dest: arg_cong[of _ _ length])
qed

lemma custom_amount_nonneg: "custom_amount p = Inr a \<Longrightarrow> 0 \<le> a"
  by (auto simp: custom_amount_def result_simps split: if_splits)

lemma allocateCustom_exact:
  assumes "allocateCustom v ps = Inr amounts"
  shows "sum_list amounts = v \<and> length amounts = length ps \<and> list_all (\<lambda>a. 0 \<le> a) amounts"
proof -
  have m: "map_ok custom_amount ps = Inr amounts" and "sum_list amounts = v"
    using assms by (auto simp: allocateCustom_def Let_def result_simps foldl_plus_sum split: if_splits)
  moreover have "0 \<le> amounts ! i" if "i < length ps" for i
    using map_ok_Inr_nth[OF m that] custom_amount_nonneg by blast
  ultimately show ?thesis
    using map_ok_Inr_length[OF m] by (simp add: list_all_length)
qed

lemma mode_amounts_exact:
  assumes "mode_amounts v its req ps = Inr amounts" "0 \<le> v" "distinct (map part_id ps)"
    "req_mode req = FULL \<longrightarrow> length ps = 1"
  shows "sum_list amounts = v \<and> length amounts = length ps \<and> list_all (\<lambda>a. 0 \<le> a) amounts"
proof (cases "req_mode req")
  case EQUAL
  hence "allocate v (map (\<lambda>_. 1) ps) = Inr amounts" using assms(1) by (simp add: mode_amounts_def)
  thus ?thesis using allocate_sum allocate_length allocate_nonneg by (force simp: list_all_iff)
next
  case ITEMS
  thus ?thesis using assms allocateByItems_exact by (simp add: mode_amounts_def)
next
  case CUSTOM
  thus ?thesis using assms allocateCustom_exact by (simp add: mode_amounts_def)
qed (use assms in \<open>auto simp: mode_amounts_def\<close>)

lemma preview_InrD:
  assumes "preview b its req = Inr pv"
  shows "0 < total_due_ves b - amount_paid_ves b"
    "pv_outstanding_ves pv = total_due_ves b - amount_paid_ves b"
    "sum_list (map alloc_amount_ves (pv_allocations pv)) = pv_outstanding_ves pv"
    "map alloc_participant (pv_allocations pv) = map part_id (req_participants req)"
    "distinct (map alloc_participant (pv_allocations pv))"
    "\<And>a. a \<in> set (pv_allocations pv) \<Longrightarrow> 0 \<le> alloc_amount_ves a"
    "pv_mode pv = req_mode req" "pv_bill pv = bill_id b"
    "pv_total_allocated_ves pv = pv_outstanding_ves pv"
proof -
  let ?v = "total_due_ves b - amount_paid_ves b" and ?ps = "req_participants req"
  obtain amounts where d: "distinct (map part_id ?ps)" and v: "0 < ?v"
    and m: "mode_amounts ?v its req ?ps = Inr amounts" and f: "req_mode req = FULL \<longrightarrow> length ?ps = 1"
    and pv: "pv = \<lparr>pv_bill = bill_id b, pv_mode = req_mode req, pv_outstanding_ves = ?v,
        pv_total_allocated_ves = foldl (+) 0 amounts, pv_allocations =
          map (\<lambda>(p, a). \<lparr>alloc_participant = part_id p, alloc_name = part_name p, alloc_amount_ves = a\<rparr>)
            (zip ?ps amounts)\<rparr>"
    and t: "foldl (+) 0 amounts = ?v"
    using assms by (auto simp: preview_def normaliseParticipants_def Let_def result_simps split: if_splits)
  have len: "length amounts = length ?ps" and nn: "list_all (\<lambda>a. 0 \<le> a) amounts" and s: "sum_list amounts = ?v"
    using mode_amounts_exact[OF m _ d f] v by auto
  have amts: "map alloc_amount_ves (pv_allocations pv) = amounts"
    and ids: "map alloc_participant (pv_allocations pv) = map part_id ?ps"
    unfolding pv using len by (auto simp: comp_def case_prod_beta map_fst_zip map_snd_zip
        simp flip: map_map intro!: nth_equalityI)
  show "0 < ?v" by (rule v)
  show "pv_outstanding_ves pv = ?v" "pv_mode pv = req_mode req" "pv_bill pv = bill_id b"
    "pv_total_allocated_ves pv = pv_outstanding_ves pv" using pv t by simp_all
  show "sum_list (map alloc_amount_ves (pv_allocations pv)) = pv_outstanding_ves pv"
    using amts s pv by simp
  show "map alloc_participant (pv_allocations pv) = map part_id ?ps" by (rule ids)
  show "distinct (map alloc_participant (pv_allocations pv))" using ids d by simp
  show "0 \<le> alloc_amount_ves a" if "a \<in> set (pv_allocations pv)" for a
    using that nn amts by (metis imageI list_all_iff list.set_map)
qed

section \<open>What a preview promises\<close>

lemma preview_divides_outstanding:
  assumes "preview b its req = Inr pv"
  shows "sum_list (map alloc_amount_ves (pv_allocations pv)) = total_due_ves b - amount_paid_ves b
     \<and> 0 < total_due_ves b - amount_paid_ves b
     \<and> map alloc_participant (pv_allocations pv) = map part_id (req_participants req)
     \<and> distinct (map alloc_participant (pv_allocations pv))
     \<and> (\<forall>a \<in> set (pv_allocations pv). 0 \<le> alloc_amount_ves a)"
  using preview_InrD[OF assms] by simp

definition diner :: "string \<Rightarrow> participant" where
  "diner n = \<lparr>part_id = n, part_name = None, part_amount = JNull\<rparr>"

lemma preview_divides_outstanding_witness:
  "sum_list (map alloc_amount_ves [\<lparr>alloc_participant = ''a'', alloc_name = None, alloc_amount_ves = 334\<rparr>,
      \<lparr>alloc_participant = ''b'', alloc_name = None, alloc_amount_ves = 333\<rparr>,
      \<lparr>alloc_participant = ''c'', alloc_name = None, alloc_amount_ves = 333\<rparr>]) = (1000 :: int)"
proof -
  have "preview dinner_bill [] \<lparr>req_mode = EQUAL, req_participants = [diner ''a'', diner ''b'', diner ''c''], req_claims = []\<rparr>
     = Inr \<lparr>pv_bill = 1, pv_mode = EQUAL, pv_outstanding_ves = 1000, pv_total_allocated_ves = 1000,
        pv_allocations = [\<lparr>alloc_participant = ''a'', alloc_name = None, alloc_amount_ves = 334\<rparr>,
          \<lparr>alloc_participant = ''b'', alloc_name = None, alloc_amount_ves = 333\<rparr>,
          \<lparr>alloc_participant = ''c'', alloc_name = None, alloc_amount_ves = 333\<rparr>]\<rparr>"
    by code_simp
  from preview_divides_outstanding[OF this] show ?thesis by (simp add: dinner_bill_def)
qed

end
