(* ===== verification/Bill_Items.thy ===== *)
theory Bill_Items
  imports Split_Engine
begin

text \<open>
  Bill lines and the totals derived from them: src/services/billItems.js.  Every
  operation locks the open bill, edits \<open>bill_items\<close> and rewrites the bill's totals
  from its lines in the same transaction; a total that moved retires the bill's
  live split.  The lemmas show what a successful edit guarantees of the row it
  leaves (its parts, the rate it was converted at, never below what was paid) and
  that every edit keeps the store's invariant.
\<close>

section \<open>Taxes\<close>

record line_tax =
  lt_category :: tax_category
  lt_vat_bps :: int

definition resolveLineTax :: "product \<Rightarrow> bill \<Rightarrow> line_tax" where
  "resolveLineTax p b =
     (let category = (case prod_tax_category p of None \<Rightarrow> TAXABLE | Some c \<Rightarrow> c) in
      if category \<noteq> TAXABLE then \<lparr>lt_category = category, lt_vat_bps = 0\<rparr>
      else \<lparr>lt_category = category,
            lt_vat_bps = (case prod_vat_bps p of Some v \<Rightarrow> v
                          | None \<Rightarrow> (case bill_vat_bps b of Some v \<Rightarrow> v | None \<Rightarrow> 0))\<rparr>)"

definition lockOpenBill :: "nat \<Rightarrow> nat \<Rightarrow> store \<Rightarrow> error + bill" where
  "lockOpenBill rid bid st =
     (case get_bill rid bid st of
        None \<Rightarrow> Inl (Bill_E Bill_Not_Found)
      | Some b \<Rightarrow> if bill_state b \<noteq> BillOpen then Inl (Bill_E (Bill_Not_Open (bill_state b))) else Inr b)"

text \<open>\<open>TAX_GROUPS_SQL\<close>: the bases of a bill, one row per rate, by ascending rate.\<close>

definition line_vat :: "bill_item \<Rightarrow> int" where
  "line_vat i = (case item_vat_bps i of None \<Rightarrow> 0 | Some v \<Rightarrow> v)"

definition lines_of :: "nat \<Rightarrow> store \<Rightarrow> bill_item list" where
  "lines_of bid st = filter (\<lambda>i. item_bill i = bid) (items st)"

definition tax_group_rows :: "bill_item list \<Rightarrow> (int \<times> int) list" where
  "tax_group_rows ls =
     map (\<lambda>v. (v, sum_over (\<lambda>i. line_vat i = v) item_subtotal ls)) (sort (remdups (map line_vat ls)))"

record tax_group =
  tg_vat_bps :: int
  tg_base_minor :: int
  tg_vat_minor :: int

record tax_summary =
  ts_groups :: "tax_group list"
  ts_subtotal :: int
  ts_vat :: int

definition summarise_row :: "int \<times> int \<Rightarrow> tax_summary \<Rightarrow> error + tax_summary" where
  "summarise_row row s =
     (case row of (vatBps, base) \<Rightarrow>
       and_then (applyBps (JBigInt base) (JInt vatBps)) (\<lambda>vatMinor.
         Inr \<lparr>ts_groups = ts_groups s @ [\<lparr>tg_vat_bps = vatBps, tg_base_minor = base, tg_vat_minor = vatMinor\<rparr>],
              ts_subtotal = ts_subtotal s + base, ts_vat = ts_vat s + vatMinor\<rparr>))"

definition summariseTaxGroups :: "(int \<times> int) list \<Rightarrow> error + tax_summary" where
  "summariseTaxGroups rows = fold_ok summarise_row rows \<lparr>ts_groups = [], ts_subtotal = 0, ts_vat = 0\<rparr>"

section \<open>Totals\<close>

definition markSplitsStale :: "nat \<Rightarrow> store \<Rightarrow> store" where
  "markSplitsStale bid = set_split_state (\<lambda>s. split_bill s = bid \<and> split_state s = Split_Active) Split_Stale"

text \<open>The five totals \<open>recalculateTotals\<close> writes, computed from the lines.\<close>

record totals =
  tot_subtotal :: int
  tot_vat :: int
  tot_service :: int
  tot_total :: int
  tot_ves :: int

definition compute_totals :: "bill \<Rightarrow> bill_item list \<Rightarrow> error + totals" where
  "compute_totals b ls =
     and_then (summariseTaxGroups (tax_group_rows ls)) (\<lambda>s.
     and_then (applyBps (JBigInt (ts_subtotal s))
                (JInt (case service_charge_bps b of None \<Rightarrow> 0 | Some v \<Rightarrow> v))) (\<lambda>service.
     let tot = ts_subtotal s + ts_vat s + service in
     and_then (parseRate (JString (case fx_rate_ves_per_unit b of None \<Rightarrow> ''1'' | Some r \<Rightarrow> r))) (\<lambda>rate.
     and_then (applyRate (JBigInt tot) rate) (\<lambda>ves.
     Inr \<lparr>tot_subtotal = ts_subtotal s, tot_vat = ts_vat s, tot_service = service,
          tot_total = tot, tot_ves = ves\<rparr>))))"

definition write_totals :: "totals \<Rightarrow> bill \<Rightarrow> bill" where
  "write_totals t b = b\<lparr>subtotal_minor := tot_subtotal t, vat_minor := tot_vat t,
     service_charge_minor := tot_service t, total_due := tot_total t, total_due_ves := tot_ves t\<rparr>"

definition recalculateTotals :: "bill \<Rightarrow> store \<Rightarrow> error + bill \<times> store" where
  "recalculateTotals b st =
     and_then (compute_totals b (lines_of (bill_id b) st)) (\<lambda>t.
     if tot_ves t < amount_paid_ves b
     then Inl (Bill_E (Total_Below_Amount_Paid (amount_paid_ves b) (tot_ves t)))
     else and_then (update_bill (bill_id b) (write_totals t) st) (\<lambda>st1.
       Inr (write_totals t b,
            if tot_ves t \<noteq> total_due_ves b then markSplitsStale (bill_id b) st1 else st1)))"

section \<open>Operations\<close>

definition assertItemisable :: "bill \<Rightarrow> nat \<Rightarrow> error + unit" where
  "assertItemisable b itemCount =
     (if itemCount = 0 \<and> total_due b > 0 then Inl (Bill_E (Bill_Not_Itemised (total_due b))) else Inr ())"

definition countItems :: "nat \<Rightarrow> store \<Rightarrow> nat" where
  "countItems bid st = length (lines_of bid st)"

definition listForBill :: "nat \<Rightarrow> nat \<Rightarrow> store \<Rightarrow> bill_item list" where
  "listForBill rid bid st = filter (\<lambda>i. item_bill i = bid \<and> item_restaurant i = rid) (items st)"

text \<open>The CHECKs of \<open>bill_items\<close> (migrations 010 and 038).\<close>

definition item_checks :: "bill_item \<Rightarrow> bool" where
  "item_checks i \<longleftrightarrow> 0 \<le> unit_price_minor i \<and> 0 < quantity i \<and> quantity i \<le> 999
     \<and> (case item_vat_bps i of None \<Rightarrow> True | Some v \<Rightarrow> 0 \<le> v \<and> v \<le> 10000)"

record order_line =
  ol_product :: nat
  ol_quantity :: int

definition get_product :: "nat \<Rightarrow> nat \<Rightarrow> store \<Rightarrow> product option" where
  "get_product rid pid st = find_by (\<lambda>p. prod_id p = pid \<and> prod_restaurant p = rid) (products st)"

text \<open>One line of an order: the product's price and name are snapshotted here.\<close>

definition snapshot_line :: "nat \<Rightarrow> bill \<Rightarrow> nat option \<Rightarrow> order_line \<Rightarrow> store \<Rightarrow> error + bill_item \<times> store" where
  "snapshot_line rid b order l st =
     (case get_product rid (ol_product l) st of
        None \<Rightarrow> Inl (Bill_E Product_Not_Found)
      | Some p \<Rightarrow>
          if \<not> prod_active p then Inl (Bill_E Product_Inactive)
          else if prod_currency p \<noteq> bill_currency b then Inl (Bill_E Menu_Currency_Mismatch)
          else
            let tax = resolveLineTax p b;
                i = \<lparr>item_id = next_id st, item_restaurant = rid, item_bill = bill_id b,
                     item_product = prod_id p, name_snapshot = prod_name p,
                     unit_price_minor = price_minor_units p, item_currency = prod_currency p,
                     quantity = ol_quantity l, item_tax_category = lt_category tax,
                     item_vat_bps = Some (lt_vat_bps tax), item_guest_order = order\<rparr>
            in if item_checks i
               then Inr (i, st\<lparr>items := insert_row i (items st), next_id := next_id st + 1\<rparr>)
               else Inl (General (Db_Check ''bill_items'')))"

definition addItem :: "nat \<Rightarrow> nat \<Rightarrow> nat \<Rightarrow> int \<Rightarrow> (bill_item \<times> bill) tx" where
  "addItem rid bid productId qty st =
     and_then (lockOpenBill rid bid st) (\<lambda>b.
     and_then (assertItemisable b (countItems bid st)) (\<lambda>_.
     and_then (snapshot_line rid b None \<lparr>ol_product = productId, ol_quantity = qty\<rparr> st) (\<lambda>(i, st1).
     and_then (recalculateTotals b st1) (\<lambda>(b', st2). Inr ((i, b'), st2)))))"

fun add_lines :: "nat \<Rightarrow> bill \<Rightarrow> nat option \<Rightarrow> order_line list \<Rightarrow> store \<Rightarrow> error + bill_item list \<times> store" where
  "add_lines rid b order [] st = Inr ([], st)"
| "add_lines rid b order (l # ls) st =
     and_then (snapshot_line rid b order l st) (\<lambda>(i, st1).
     and_then (add_lines rid b order ls st1) (\<lambda>(is, st2). Inr (i # is, st2)))"

definition addItemsInTransaction ::
  "nat \<Rightarrow> bill \<Rightarrow> order_line list \<Rightarrow> nat option \<Rightarrow> (bill_item list \<times> bill) tx" where
  "addItemsInTransaction rid b ls order st =
     and_then (assertItemisable b (countItems (bill_id b) st)) (\<lambda>_.
     and_then (add_lines rid b order ls st) (\<lambda>(added, st1).
     and_then (recalculateTotals b st1) (\<lambda>(b', st2). Inr ((added, b'), st2))))"

definition updateQuantity :: "nat \<Rightarrow> nat \<Rightarrow> nat \<Rightarrow> int \<Rightarrow> bill tx" where
  "updateQuantity rid bid itemId qty st =
     and_then (lockOpenBill rid bid st) (\<lambda>b.
     let hit = (\<lambda>i. item_id i = itemId \<and> item_bill i = bid \<and> item_restaurant i = rid);
         upd = (\<lambda>i. i\<lparr>quantity := qty\<rparr>)
     in if \<not> list_ex hit (items st) then Inl (Bill_E Bill_Item_Not_Found)
        else if list_ex (\<lambda>i. hit i \<and> \<not> item_checks (upd i)) (items st)
        then Inl (General (Db_Check ''bill_items''))
        else recalculateTotals b (st\<lparr>items := update_where hit upd (items st)\<rparr>))"

definition removeItem :: "nat \<Rightarrow> nat \<Rightarrow> nat \<Rightarrow> bill tx" where
  "removeItem rid bid itemId st =
     and_then (lockOpenBill rid bid st) (\<lambda>b.
     let hit = (\<lambda>i. item_id i = itemId \<and> item_bill i = bid \<and> item_restaurant i = rid)
     in if \<not> list_ex hit (items st) then Inl (Bill_E Bill_Item_Not_Found)
        else recalculateTotals b (st\<lparr>items := delete_where hit (items st)\<rparr>))"

section \<open>The tax summary\<close>

definition bps_of :: "int \<Rightarrow> int \<Rightarrow> int" where
  "bps_of base bps = nearest (base * bps) 10000"

lemma applyBps_int_Inr_iff:
  "applyBps (JBigInt m) (JInt b) = Inr v \<longleftrightarrow>
     is_safe_integer b \<and> 0 \<le> b \<and> v = bps_of m b \<and> BIGINT_MIN \<le> v \<and> v \<le> BIGINT_MAX"
  by (auto simp: applyBps_def divideRound_nearest assertInRange_def bps_of_def)

lemma summarise_InrD:
  assumes "fold_ok summarise_row rows s = Inr s'"
  shows "ts_subtotal s' = ts_subtotal s + sum_list (map snd rows)
    \<and> ts_vat s' = ts_vat s + sum_list (map (\<lambda>(v, base). bps_of base v) rows)
    \<and> ts_groups s' = ts_groups s @ map (\<lambda>(v, base).
        \<lparr>tg_vat_bps = v, tg_base_minor = base, tg_vat_minor = bps_of base v\<rparr>) rows
    \<and> (\<forall>(v, base) \<in> set rows. 0 \<le> v)"
  using assms
proof (induction rows arbitrary: s)
  case (Cons r rows)
  obtain v base where r: "r = (v, base)" by force
  obtain s1 where s1: "summarise_row r s = Inr s1" "fold_ok summarise_row rows s1 = Inr s'"
    using Cons.prems by (auto simp: result_simps)
  show ?case using Cons.IH[OF s1(2)] s1(1) r
    by (auto simp: summarise_row_def result_simps applyBps_int_Inr_iff)
qed simp

lemma sum_list_if_none: "x \<notin> set vs \<Longrightarrow> sum_list (map (\<lambda>v. if x = v then c else 0) vs) = (0 :: int)"
  by (induction vs) auto

lemma sum_list_if_one:
  "distinct vs \<Longrightarrow> x \<in> set vs \<Longrightarrow> sum_list (map (\<lambda>v. if x = v then c else 0) vs) = (c :: int)"
proof (induction vs)
  case (Cons v vs)
  thus ?case using sum_list_if_none[of x vs c] by (cases "x = v") auto
qed simp

lemma sum_over_partition:
  assumes "distinct vs" "\<And>i. i \<in> set ls \<Longrightarrow> g i \<in> set vs"
  shows "sum_list (map (\<lambda>v. sum_over (\<lambda>i. g i = v) f ls) vs) = sum_list (map f ls)"
  using assms(2)
proof (induction ls)
  case (Cons i ls)
  have "sum_list (map (\<lambda>v. if g i = v then f i else 0) vs) = f i"
    by (rule sum_list_if_one) (use assms(1) Cons.prems in auto)
  thus ?case using Cons by (simp add: sum_list_addf)
qed simp

lemma tax_group_rows_sum: "sum_list (map snd (tax_group_rows ls)) = sum_list (map item_subtotal ls)"
proof -
  have "sum_list (map (\<lambda>v. sum_over (\<lambda>i. line_vat i = v) item_subtotal ls) (sort (remdups (map line_vat ls))))
      = sum_list (map item_subtotal ls)"
    by (rule sum_over_partition) auto
  thus ?thesis by (simp add: tax_group_rows_def comp_def)
qed

lemma tax_group_rows_nonneg:
  "(\<And>i. i \<in> set ls \<Longrightarrow> 0 \<le> item_subtotal i) \<Longrightarrow> (v, base) \<in> set (tax_group_rows ls) \<Longrightarrow> 0 \<le> base"
  by (auto simp: tax_group_rows_def intro: sum_over_nonneg)

section \<open>What a recalculation leaves\<close>

text \<open>The VAT of a bill: each rate's base taxed once.\<close>

definition vat_total :: "bill_item list \<Rightarrow> int" where
  "vat_total ls = sum_list (map (\<lambda>(v, base). bps_of base v) (tax_group_rows ls))"

lemma bps_of_nonneg: "0 \<le> base \<Longrightarrow> 0 \<le> v \<Longrightarrow> 0 \<le> bps_of base v"
  by (simp add: bps_of_def nearest_nonneg)

lemma compute_totals_InrD:
  assumes "compute_totals b ls = Inr t"
  shows "tot_subtotal t = sum_list (map item_subtotal ls)"
    "tot_vat t = vat_total ls"
    "tot_service t = bps_of (tot_subtotal t) (case service_charge_bps b of None \<Rightarrow> 0 | Some v \<Rightarrow> v)"
    "tot_total t = tot_subtotal t + tot_vat t + tot_service t"
    "0 \<le> (case service_charge_bps b of None \<Rightarrow> 0 | Some v \<Rightarrow> v)"
    "\<And>v base. (v, base) \<in> set (tax_group_rows ls) \<Longrightarrow> 0 \<le> v"
    "\<exists>rate. parseRate (JString (case fx_rate_ves_per_unit b of None \<Rightarrow> ''1'' | Some r \<Rightarrow> r)) = Inr rate
       \<and> tot_ves t = nearest (tot_total t * rate) RATE_SCALE"
proof -
  let ?svc = "case service_charge_bps b of None \<Rightarrow> 0 | Some v \<Rightarrow> v"
  let ?fx = "JString (case fx_rate_ves_per_unit b of None \<Rightarrow> ''1'' | Some r \<Rightarrow> r)"
  obtain s service rate ves where s: "summariseTaxGroups (tax_group_rows ls) = Inr s"
    and service: "applyBps (JBigInt (ts_subtotal s)) (JInt ?svc) = Inr service"
    and rate: "parseRate ?fx = Inr rate"
    and ves: "applyRate (JBigInt (ts_subtotal s + ts_vat s + service)) rate = Inr ves"
    and t: "t = \<lparr>tot_subtotal = ts_subtotal s, tot_vat = ts_vat s, tot_service = service,
          tot_total = ts_subtotal s + ts_vat s + service, tot_ves = ves\<rparr>"
    using assms unfolding compute_totals_def Let_def and_then_Inr_iff by blast
  note D = summarise_InrD[OF s[unfolded summariseTaxGroups_def]]
  show sub: "tot_subtotal t = sum_list (map item_subtotal ls)" "tot_vat t = vat_total ls"
    using D t by (simp_all add: tax_group_rows_sum vat_total_def)
  show "tot_service t = bps_of (tot_subtotal t) ?svc" "0 \<le> ?svc"
    using service t by (simp_all add: applyBps_int_Inr_iff)
  show "tot_total t = tot_subtotal t + tot_vat t + tot_service t" using t by simp
  show "0 \<le> v" if "(v, base) \<in> set (tax_group_rows ls)" for v base using D that by auto
  show "\<exists>rate. parseRate ?fx = Inr rate \<and> tot_ves t = nearest (tot_total t * rate) RATE_SCALE"
    using rate ves t by (auto simp: applyRate_Inr_iff)
qed

text \<open>While everything is taxed at one rate, the per-rate VAT is the rate on the
  subtotal: splitting a line into several never moves the total.\<close>

lemma vat_total_single_rate:
  assumes "\<And>i. i \<in> set ls \<Longrightarrow> line_vat i = r"
  shows "vat_total ls = bps_of (sum_list (map item_subtotal ls)) r"
proof (cases ls)
  case Nil
  thus ?thesis by (simp add: vat_total_def tax_group_rows_def bps_of_def nearest_def)
next
  case (Cons i ls')
  have "set (map line_vat ls) = {r}" using assms Cons by auto
  hence "sort (remdups (map line_vat ls)) = [r]"
    by (intro sorted_distinct_set_unique) simp_all
  moreover have "sum_over (\<lambda>i. line_vat i = r) item_subtotal ls = sum_list (map item_subtotal ls)"
    using assms by (auto simp: sum_over_def intro!: arg_cong[where f = sum_list] filter_True)
  ultimately show ?thesis by (simp add: vat_total_def tax_group_rows_def)
qed

section \<open>The edits keep the invariant\<close>

lemma lockOpenBill_InrD:
  "lockOpenBill rid bid st = Inr b \<Longrightarrow> get_bill rid bid st = Some b \<and> bill_state b = BillOpen"
  by (auto simp: lockOpenBill_def split: option.splits if_splits)

lemma recalculateTotals_InrD:
  assumes "recalculateTotals b st = Inr (b', st')"
  obtains t st1 where "compute_totals b (lines_of (bill_id b) st) = Inr t"
    "amount_paid_ves b \<le> tot_ves t" "update_bill (bill_id b) (write_totals t) st = Inr st1"
    "b' = write_totals t b"
    "st' = (if tot_ves t \<noteq> total_due_ves b then markSplitsStale (bill_id b) st1 else st1)"
  using assms unfolding recalculateTotals_def and_then_Inr_iff
  by (auto simp: result_simps split: if_splits)

lemma inv_recalculate:
  assumes "store_inv st" "recalculateTotals b st = Inr (b', st')"
  shows "store_inv st'"
proof -
  obtain t st1 where w: "update_bill (bill_id b) (write_totals t) st = Inr st1"
    and st': "st' = (if tot_ves t \<noteq> total_due_ves b then markSplitsStale (bill_id b) st1 else st1)"
    using assms(2) by (rule recalculateTotals_InrD)
  have "store_inv st1"
    by (rule inv_update_bill[OF assms(1) w])
      (use assms(1) in \<open>auto simp: write_totals_def store_inv_def inv_bills_def\<close>)
  thus ?thesis using st' by (auto simp: markSplitsStale_def intro: inv_set_split_state)
qed

lemma snapshot_line_InrD:
  assumes "snapshot_line rid b order l st = Inr (i, st')"
  shows "st' = st\<lparr>items := insert_row i (items st), next_id := next_id st + 1\<rparr>"
    "item_checks i" "item_bill i = bill_id b" "quantity i = ol_quantity l" "item_id i = next_id st"
    "\<exists>p. get_product rid (ol_product l) st = Some p \<and> prod_active p
        \<and> unit_price_minor i = price_minor_units p \<and> name_snapshot i = prod_name p
        \<and> item_currency i = bill_currency b \<and> line_vat i = lt_vat_bps (resolveLineTax p b)"
  using assms
  by (auto simp: snapshot_line_def Let_def line_vat_def split: option.splits if_splits)

lemma inv_snapshot_line: "store_inv st \<Longrightarrow> snapshot_line rid b order l st = Inr (i, st') \<Longrightarrow> store_inv st'"
  by (drule snapshot_line_InrD(1)) (auto intro: inv_cong)

lemma inv_add_lines: "store_inv st \<Longrightarrow> add_lines rid b order ls st = Inr (added, st') \<Longrightarrow> store_inv st'"
proof (induction ls arbitrary: st added)
  case (Cons l ls)
  then obtain i st1 added1 where "snapshot_line rid b order l st = Inr (i, st1)"
      "add_lines rid b order ls st1 = Inr (added1, st')"
    by (auto simp: result_simps)
  thus ?case using Cons inv_snapshot_line by blast
qed simp

lemma inv_addItem:
  assumes "store_inv st" "addItem rid bid pid q st = Inr (r, st')"
  shows "store_inv st'"
proof -
  obtain b i st1 b' where "snapshot_line rid b None \<lparr>ol_product = pid, ol_quantity = q\<rparr> st = Inr (i, st1)"
    "recalculateTotals b st1 = Inr (b', st')"
    using assms(2) by (auto simp: addItem_def result_simps)
  thus ?thesis using assms(1) inv_snapshot_line inv_recalculate by blast
qed

lemma inv_addItemsInTransaction:
  assumes "store_inv st" "addItemsInTransaction rid b ls order st = Inr (r, st')"
  shows "store_inv st'"
proof -
  obtain added st1 b' where "add_lines rid b order ls st = Inr (added, st1)"
    "recalculateTotals b st1 = Inr (b', st')"
    using assms(2) by (auto simp: addItemsInTransaction_def result_simps)
  thus ?thesis using assms(1) inv_add_lines inv_recalculate by blast
qed

lemma inv_updateQuantity:
  assumes "store_inv st" "updateQuantity rid bid iid q st = Inr (r, st')"
  shows "store_inv st'"
proof -
  obtain b its where "recalculateTotals b (st\<lparr>items := its\<rparr>) = Inr (r, st')"
    using assms(2) by (auto simp: updateQuantity_def Let_def result_simps split: if_splits)
  moreover have "store_inv (st\<lparr>items := its\<rparr>)" using assms(1) by (auto intro: inv_cong)
  ultimately show ?thesis using inv_recalculate by blast
qed

lemma inv_removeItem:
  assumes "store_inv st" "removeItem rid bid iid st = Inr (r, st')"
  shows "store_inv st'"
proof -
  obtain b its where "recalculateTotals b (st\<lparr>items := its\<rparr>) = Inr (r, st')"
    using assms(2) by (auto simp: removeItem_def Let_def result_simps split: if_splits)
  moreover have "store_inv (st\<lparr>items := its\<rparr>)" using assms(1) by (auto intro: inv_cong)
  ultimately show ?thesis using inv_recalculate by blast
qed

section \<open>Totals agree with the lines\<close>

text \<open>An itemised bill's subtotal is the sum of its lines.  Every edit re-establishes
  it for the edited bill and leaves the other bills alone.\<close>

definition items_agree :: "store \<Rightarrow> bool" where
  "items_agree st \<longleftrightarrow> (\<forall>b \<in> set (bills st). lines_of (bill_id b) st \<noteq> [] \<longrightarrow>
     subtotal_minor b = sum_list (map item_subtotal (lines_of (bill_id b) st)))"

lemma lines_of_simps [simp]:
  "lines_of bid (st\<lparr>bills := bs\<rparr>) = lines_of bid st"
  "lines_of bid (st\<lparr>next_id := n\<rparr>) = lines_of bid st"
  "lines_of bid (set_split_state P s st) = lines_of bid st"
  by (simp_all add: lines_of_def)

lemma recalculate_items_agree:
  assumes "recalculateTotals b st = Inr (b', st')"
    and "\<forall>c \<in> set (bills st). bill_id c \<noteq> bill_id b \<and> lines_of (bill_id c) st \<noteq> [] \<longrightarrow>
           subtotal_minor c = sum_list (map item_subtotal (lines_of (bill_id c) st))"
  shows "items_agree st'"
proof -
  obtain t st1 where t: "compute_totals b (lines_of (bill_id b) st) = Inr t"
    and w: "update_bill (bill_id b) (write_totals t) st = Inr st1"
    and st': "st' = (if tot_ves t \<noteq> total_due_ves b then markSplitsStale (bill_id b) st1 else st1)"
    using assms(1) by (rule recalculateTotals_InrD)
  have b1: "bills st' = update_where (\<lambda>c. bill_id c = bill_id b) (write_totals t) (bills st)"
    and l1: "lines_of k st' = lines_of k st" for k
    using update_bill_InrD[OF w] st' by (auto simp: markSplitsStale_def)
  show ?thesis
    using assms(2) compute_totals_InrD(1)[OF t]
    by (auto simp: items_agree_def b1 l1 set_update_where write_totals_def split: if_splits)
qed

lemma filter_update_other:
  "(\<And>i. i \<in> set t \<Longrightarrow> hit i \<Longrightarrow> \<not> P i \<and> \<not> P (f i)) \<Longrightarrow> filter P (update_where hit f t) = filter P t"
  by (induction t) auto

lemma filter_delete_other:
  "(\<And>i. i \<in> set t \<Longrightarrow> hit i \<Longrightarrow> \<not> P i) \<Longrightarrow> filter P (delete_where hit t) = filter P t"
  by (induction t) (auto simp: delete_where_def)

lemma lines_of_update_other:
  assumes "\<And>i. hit i \<Longrightarrow> item_bill i = bid" "\<And>i. item_bill (f i) = item_bill i" "k \<noteq> bid"
  shows "lines_of k (st\<lparr>items := update_where hit f (items st)\<rparr>) = lines_of k st"
  using filter_update_other[of "items st" hit "\<lambda>i. item_bill i = k" f] assms by (auto simp: lines_of_def)

lemma lines_of_delete_other:
  assumes "\<And>i. hit i \<Longrightarrow> item_bill i = bid" "k \<noteq> bid"
  shows "lines_of k (st\<lparr>items := delete_where hit (items st)\<rparr>) = lines_of k st"
  using filter_delete_other[of "items st" hit "\<lambda>i. item_bill i = k"] assms by (auto simp: lines_of_def)

lemma add_lines_other:
  "add_lines rid b order ls st = Inr (added, st') \<Longrightarrow> k \<noteq> bill_id b \<Longrightarrow>
     lines_of k st' = lines_of k st \<and> bills st' = bills st"
proof (induction ls arbitrary: st added)
  case (Cons l ls)
  then obtain i st1 added1 where s: "snapshot_line rid b order l st = Inr (i, st1)"
      "add_lines rid b order ls st1 = Inr (added1, st')"
    by (auto simp: result_simps)
  show ?case using Cons.IH[OF s(2) Cons.prems(2)] snapshot_line_InrD(1,3)[OF s(1)] Cons.prems(2)
    by (auto simp: lines_of_def insert_row_def)
qed simp

lemma items_agree_addItemsInTransaction:
  assumes "items_agree st" "addItemsInTransaction rid b ls order st = Inr (r, st')"
  shows "items_agree st'"
proof -
  obtain added st1 b' where a: "add_lines rid b order ls st = Inr (added, st1)"
    and rc: "recalculateTotals b st1 = Inr (b', st')"
    using assms(2) by (auto simp: addItemsInTransaction_def result_simps)
  have "bills st1 = bills st"
    using a by (cases "\<exists>k. k \<noteq> bill_id b") (auto dest: add_lines_other[of _ _ _ _ _ _ _ "Suc (bill_id b)"])
  thus ?thesis using assms(1) add_lines_other[OF a]
    by (intro recalculate_items_agree[OF rc]) (auto simp: items_agree_def)
qed

lemma items_agree_updateQuantity:
  assumes "items_agree st" "updateQuantity rid bid iid q st = Inr (r, st')"
  shows "items_agree st'"
proof -
  let ?hit = "\<lambda>i. item_id i = iid \<and> item_bill i = bid \<and> item_restaurant i = rid"
  let ?st1 = "st\<lparr>items := update_where ?hit (\<lambda>i. i\<lparr>quantity := q\<rparr>) (items st)\<rparr>"
  obtain b where b: "lockOpenBill rid bid st = Inr b" "recalculateTotals b ?st1 = Inr (r, st')"
    using assms(2) by (auto simp: updateQuantity_def Let_def result_simps split: if_splits)
  have "bill_id b = bid" using lockOpenBill_InrD[OF b(1)] get_bill_SomeD by blast
  thus ?thesis using assms(1) lines_of_update_other[of ?hit bid "\<lambda>i. i\<lparr>quantity := q\<rparr>" _ st]
    by (intro recalculate_items_agree[OF b(2)]) (auto simp: items_agree_def)
qed

lemma items_agree_removeItem:
  assumes "items_agree st" "removeItem rid bid iid st = Inr (r, st')"
  shows "items_agree st'"
proof -
  let ?hit = "\<lambda>i. item_id i = iid \<and> item_bill i = bid \<and> item_restaurant i = rid"
  let ?st1 = "st\<lparr>items := delete_where ?hit (items st)\<rparr>"
  obtain b where b: "lockOpenBill rid bid st = Inr b" "recalculateTotals b ?st1 = Inr (r, st')"
    using assms(2) by (auto simp: removeItem_def Let_def result_simps split: if_splits)
  have "bill_id b = bid" using lockOpenBill_InrD[OF b(1)] get_bill_SomeD by blast
  thus ?thesis using assms(1) lines_of_delete_other[of ?hit bid _ st]
    by (intro recalculate_items_agree[OF b(2)]) (auto simp: items_agree_def)
qed

lemma addItem_as_order:
  assumes "addItem rid bid pid q st = Inr ((i, b'), st')"
  obtains b where "lockOpenBill rid bid st = Inr b"
    "addItemsInTransaction rid b [\<lparr>ol_product = pid, ol_quantity = q\<rparr>] None st = Inr (([i], b'), st')"
proof -
  obtain b st1 where b: "lockOpenBill rid bid st = Inr b" "assertItemisable b (countItems bid st) = Inr ()"
    "snapshot_line rid b None \<lparr>ol_product = pid, ol_quantity = q\<rparr> st = Inr (i, st1)"
    "recalculateTotals b st1 = Inr (b', st')"
    using assms by (auto simp: addItem_def result_simps)
  have "bill_id b = bid" using lockOpenBill_InrD[OF b(1)] get_bill_SomeD by blast
  thus ?thesis using b that by (auto simp: addItemsInTransaction_def)
qed

lemma items_agree_addItem:
  "items_agree st \<Longrightarrow> addItem rid bid pid q st = Inr (r, st') \<Longrightarrow> items_agree st'"
  by (cases r) (auto elim!: addItem_as_order dest: items_agree_addItemsInTransaction)

section \<open>What a recalculated bill holds\<close>

text \<open>C32: Recalculating a bill leaves its subtotal equal to the sum of its lines, its VAT equal
  to the VAT of its lines per rate, its total equal to subtotal plus VAT plus service, never
  below what was paid, and unchanged while a division of it is active.\<close>

lemma recalculated_bill:
  assumes "recalculateTotals b st = Inr (b', st')" "b \<in> set (bills st)" "keyed bill_id (bills st)"
  shows "b' \<in> set (bills st')
     \<and> subtotal_minor b' = sum_list (map item_subtotal (lines_of (bill_id b) st'))
     \<and> vat_minor b' = vat_total (lines_of (bill_id b) st')
     \<and> total_due b' = subtotal_minor b' + vat_minor b' + service_charge_minor b'
     \<and> amount_paid_ves b \<le> total_due_ves b' \<and> amount_paid_ves b' = amount_paid_ves b
     \<and> ((\<exists>s \<in> set (splits st'). split_bill s = bill_id b \<and> split_state s = Split_Active)
          \<longrightarrow> total_due_ves b' = total_due_ves b)"
proof -
  obtain t st1 where c: "compute_totals b (lines_of (bill_id b) st) = Inr t" "amount_paid_ves b \<le> tot_ves t"
    and w: "update_bill (bill_id b) (write_totals t) st = Inr st1" and b': "b' = write_totals t b"
    and st': "st' = (if tot_ves t \<noteq> total_due_ves b then markSplitsStale (bill_id b) st1 else st1)"
    using assms(1) by (rule recalculateTotals_InrD)
  note U = update_bill_InrD[OF w] and T = compute_totals_InrD[OF c(1)]
  have lines: "lines_of (bill_id b) st' = lines_of (bill_id b) st"
    using U st' by (auto simp: lines_of_def markSplitsStale_def)
  have "b' \<in> set (bills st')"
    using U st' assms(2) b' by (auto simp: set_update_where markSplitsStale_def intro!: image_eqI[of _ _ b])
  moreover have "split_state s \<noteq> Split_Active" if "tot_ves t \<noteq> total_due_ves b" "s \<in> set (splits st')" "split_bill s = bill_id b" for s
    using that st' U by (auto simp: markSplitsStale_def set_split_state_def set_update_where split: if_splits)
  ultimately show ?thesis
    using T(1-4) c(2) lines by (auto simp: b' write_totals_def)
qed


lemma recalculated_bill_witness:
  "\<exists>b' st'. recalculateTotals dinner_bill (dinner_store\<lparr>items := [dinner_line 10 300 2]\<rparr>) = Inr (b', st')
     \<and> total_due b' = subtotal_minor b' + vat_minor b' + service_charge_minor b'
     \<and> subtotal_minor b' = sum_list (map item_subtotal (lines_of (bill_id dinner_bill) st'))
     \<and> total_due_ves b' = 600"
proof -
  let ?st = "dinner_store\<lparr>items := [dinner_line 10 300 2]\<rparr>"
  have k: "dinner_bill \<in> set (bills ?st)" "keyed bill_id (bills ?st)" by code_simp+
  have "(case recalculateTotals dinner_bill ?st of Inl e \<Rightarrow> False | Inr (b', st') \<Rightarrow> total_due_ves b' = 600)"
    by code_simp
  then obtain b' st' where r: "recalculateTotals dinner_bill ?st = Inr (b', st')" "total_due_ves b' = 600"
    by (auto split: sum.splits)
  show ?thesis using recalculated_bill[OF r(1) k] r by blast
qed

lemma single_rate_as_before:
  assumes "compute_totals b ls = Inr t" "\<forall>i \<in> set ls. line_vat i = r"
  shows "tot_vat t = nearest (tot_subtotal t * r) 10000"
proof -
  have "vat_total ls = bps_of (sum_list (map item_subtotal ls)) r"
    by (rule vat_total_single_rate) (use assms(2) in blast)
  thus ?thesis using compute_totals_InrD(1,2)[OF assms(1)] by (simp add: bps_of_def)
qed

lemma single_rate_as_before_witness:
  "\<exists>t. compute_totals dinner_bill [dinner_line 10 300 2, dinner_line 11 400 1] = Inr t
     \<and> tot_vat t = nearest (tot_subtotal t * 0) 10000"
proof -
  have "(case compute_totals dinner_bill [dinner_line 10 300 2, dinner_line 11 400 1] of Inl e \<Rightarrow> False | Inr t \<Rightarrow> True)"
    by code_simp
  then obtain t where t: "compute_totals dinner_bill [dinner_line 10 300 2, dinner_line 11 400 1] = Inr t"
    by (auto split: sum.splits)
  have "\<forall>i \<in> set [dinner_line 10 300 2, dinner_line 11 400 1]. line_vat i = 0" by code_simp
  thus ?thesis using single_rate_as_before[OF t, of 0] t by blast
qed

end
