(* ===== verification/Bill_Splits.thy ===== *)
theory Bill_Splits
  imports Bill_Items
begin

text \<open>
  Persistent splits: src/services/splits.js.  A split is stored from the engine's
  preview, is replaced while nobody has paid into it, and its shares are advanced
  by the ledger under the not-overpaid CHECK.  \<open>createSplit\<close> receives the bill row
  its caller read before the transaction began, as in the code; the lemmas do not
  assume that row is still current.
\<close>

section \<open>Operations\<close>

definition shares_of :: "nat \<Rightarrow> nat \<Rightarrow> store \<Rightarrow> share list" where
  "shares_of rid spid st = filter (\<lambda>s. share_split s = spid \<and> share_restaurant s = rid) (shares st)"

definition unresolved :: "payment_status \<Rightarrow> bool" where
  "unresolved s \<longleftrightarrow> s = Pending \<or> s = In_Doubt \<or> s = Ambiguous"

definition in_flight :: "nat \<Rightarrow> nat list \<Rightarrow> store \<Rightarrow> nat" where
  "in_flight rid ids st = length (filter (\<lambda>p. pay_restaurant p = rid
     \<and> (case split_participant_id p of None \<Rightarrow> False | Some s \<Rightarrow> s \<in> set ids)
     \<and> unresolved (pay_status p)) (payments st))"

definition discardUnpaidSplit :: "nat \<Rightarrow> nat \<Rightarrow> nat \<Rightarrow> store \<Rightarrow> error + store" where
  "discardUnpaidSplit rid bid spid st =
     (let ss = shares_of rid spid st;
          paid = foldl (+) 0 (map share_paid_ves ss);
          flying = in_flight rid (map share_id ss) st
      in if paid > 0 then Inl (Split_E Split_Has_Payments)
         else if ss \<noteq> [] \<and> flying > 0 then Inl (Split_E (Split_In_Flight flying))
         else Inr (set_split_state (\<lambda>s. split_id s = spid \<and> split_restaurant s = rid \<and> split_bill s = bid)
                     Split_Void st))"

definition live_split :: "nat \<Rightarrow> nat \<Rightarrow> store \<Rightarrow> bill_split option" where
  "live_split rid bid st =
     find_by (\<lambda>s. split_restaurant s = rid \<and> split_bill s = bid \<and> split_state s = Split_Active) (splits st)"

text \<open>INSERT INTO bill_splits, under the partial unique index on ACTIVE splits.\<close>

definition insert_split :: "bill_split \<Rightarrow> store \<Rightarrow> error + store" where
  "insert_split s st =
     (if list_ex (\<lambda>x. split_bill x = split_bill s \<and> split_state x = Split_Active) (splits st)
      then Inl (Split_E Split_Already_Exists)
      else if basis_ves s \<le> 0 then Inl (General (Db_Check ''bill_splits''))
      else if get_bill (split_restaurant s) (split_bill s) st = None
      then Inl (General (Db_Check ''bill_splits_bill_same_restaurant_fk''))
      else Inr (st\<lparr>splits := insert_row s (splits st), next_id := next_id st + 1\<rparr>))"

definition new_share :: "nat \<Rightarrow> nat \<Rightarrow> nat \<Rightarrow> allocation \<Rightarrow> share" where
  "new_share rid spid i a =
     \<lparr>share_id = i, share_restaurant = rid, share_split = spid, ext_ref = alloc_participant a,
      share_name = alloc_name a, share_amount_ves = alloc_amount_ves a, share_paid_ves = 0\<rparr>"

definition insert_shares :: "nat \<Rightarrow> nat \<Rightarrow> allocation list \<Rightarrow> store \<Rightarrow> error + store" where
  "insert_shares rid spid as st =
     (let new = map2 (new_share rid spid) [next_id st ..< next_id st + length as] as in
      if \<not> list_all share_checks new then Inl (General (Db_Check ''bill_split_participants''))
      else if \<not> distinct (map alloc_participant as)
      then Inl (General (Db_Unique ''bill_split_participants_ext_ref_unique''))
      else Inr (st\<lparr>shares := shares st @ new, next_id := next_id st + length as\<rparr>))"

text \<open>One claim row: \<open>ON CONFLICT ON CONSTRAINT bill_split_items_unique DO NOTHING\<close>.\<close>

definition insert_split_item :: "nat \<Rightarrow> nat \<Rightarrow> nat \<times> string \<Rightarrow> store \<Rightarrow> error + store" where
  "insert_split_item rid spid ip st =
     (case ip of (i, ref) \<Rightarrow>
        case find_by (\<lambda>s. share_split s = spid \<and> ext_ref s = ref) (shares st) of
          None \<Rightarrow> Inl (General (Db_Not_Null ''participant_id''))
        | Some s \<Rightarrow>
            let r = \<lparr>si_split = spid, si_item = i, si_participant = share_id s\<rparr> in
            if \<not> list_ex (\<lambda>x. item_id x = i \<and> item_restaurant x = rid) (items st)
            then Inl (General (Db_Check ''bill_split_items_item_same_restaurant_fk''))
            else if r \<in> set (split_items st) then Inr st
            else Inr (st\<lparr>split_items := insert_row r (split_items st)\<rparr>))"

definition claim_pairs :: "claim list \<Rightarrow> (nat \<times> string) list" where
  "claim_pairs cs = concat (map (\<lambda>c. map (\<lambda>p. (claim_item c, p)) (claim_people c)) cs)"

definition createSplit ::
  "nat \<Rightarrow> bill \<Rightarrow> bill_item list \<Rightarrow> split_request \<Rightarrow> actor_type \<Rightarrow> nat tx" where
  "createSplit rid b its req creator st =
     (if bill_state b \<noteq> BillOpen then Inl (Bill_E (Bill_Not_Open (bill_state b)))
      else
       and_then (preview b its req) (\<lambda>pv.
       and_then (case live_split rid (bill_id b) st of
                   None \<Rightarrow> Inr st
                 | Some live \<Rightarrow> discardUnpaidSplit rid (bill_id b) (split_id live) st) (\<lambda>st1.
       let spid = next_id st1 in
       and_then (insert_split \<lparr>split_id = spid, split_restaurant = rid, split_bill = bill_id b,
                    split_mode = req_mode req, basis_ves = pv_outstanding_ves pv,
                    split_state = Split_Active, created_by_type = creator\<rparr> st1) (\<lambda>st2.
       and_then (insert_shares rid spid (pv_allocations pv) st2) (\<lambda>st3.
       and_then (if req_mode req = ITEMS
                 then fold_ok (insert_split_item rid spid) (claim_pairs (req_claims req)) st3
                 else Inr st3) (\<lambda>st4.
       if share_total spid st4 \<noteq> pv_outstanding_ves pv
       then Inl (General (Db_Check ''bill_split_participants_sum_check''))
       else Inr (spid, st4)))))))"

definition getActiveSplit :: "nat \<Rightarrow> nat \<Rightarrow> store \<Rightarrow> bill_split option" where
  "getActiveSplit rid bid st =
     (let cs = filter (\<lambda>s. split_restaurant s = rid \<and> split_bill s = bid \<and> split_state s \<noteq> Split_Void) (splits st)
      in case find_by (\<lambda>s. split_state s = Split_Active) (rev cs) of
           Some s \<Rightarrow> Some s
         | None \<Rightarrow> (if cs = [] then None else Some (last cs)))"

definition voidSplit :: "nat \<Rightarrow> nat \<Rightarrow> nat \<Rightarrow> nat tx" where
  "voidSplit rid bid spid st =
     (case find_by (\<lambda>s. split_id s = spid \<and> split_restaurant s = rid \<and> split_bill s = bid) (splits st) of
        None \<Rightarrow> Inl (Split_E Split_Not_Found)
      | Some s \<Rightarrow>
          if split_state s \<noteq> Split_Active then Inl (Split_E (Split_Not_Active (split_state s)))
          else and_then (discardUnpaidSplit rid bid spid st) (\<lambda>st1. Inr (split_id s, st1)))"

definition advanceShare :: "nat \<Rightarrow> nat \<Rightarrow> int \<Rightarrow> nat \<Rightarrow> store \<Rightarrow> error + store" where
  "advanceShare sid rid amount bid st =
     (case get_share rid sid st of
        None \<Rightarrow> Inl (Split_E Split_Share_Not_Found)
      | Some s \<Rightarrow>
         (case get_split rid (share_split s) st of
            None \<Rightarrow> Inl (Split_E Split_Share_Not_Found)
          | Some sp \<Rightarrow>
             if split_bill sp \<noteq> bid then Inl (Split_E Split_Share_Not_Found)
             else if split_state sp = Split_Stale
             then Inl (Split_E (Split_Is_Stale (map_option total_due_ves (get_bill rid (split_bill sp) st))))
             else if split_state sp \<noteq> Split_Active
             then Inl (Split_E (Split_Not_Active (split_state sp)))
             else
               let paid = share_paid_ves s + amount in
               if paid > share_amount_ves s
               then Inl (Split_E (Split_Share_Overpaid (share_amount_ves s - share_paid_ves s)))
               else if paid < 0 then Inl (General (Db_Check ''bill_split_participants_amount_paid''))
               else Inr (st\<lparr>shares := update_where (\<lambda>x. share_id x = sid \<and> share_restaurant x = rid)
                            (\<lambda>x. x\<lparr>share_paid_ves := share_paid_ves x + amount\<rparr>) (shares st)\<rparr>)))"

definition nameShare :: "nat \<Rightarrow> nat \<Rightarrow> string \<Rightarrow> string \<Rightarrow> nat tx" where
  "nameShare rid bid ref name st =
     (case live_split rid bid st of
        None \<Rightarrow> Inl (Split_E Split_Not_Found)
      | Some sp \<Rightarrow>
         (case find_by (\<lambda>s. share_split s = split_id sp \<and> share_restaurant s = rid \<and> ext_ref s = ref) (shares st) of
            None \<Rightarrow> Inl (Split_E Split_Share_Not_Found)
          | Some s \<Rightarrow>
             if share_paid_ves s > 0 then Inl (Split_E Split_Has_Payments)
             else
               let trimmed = trim name in
               Inr (split_id sp, st\<lparr>shares := update_where (\<lambda>x. share_id x = share_id s \<and> share_restaurant x = rid)
                      (\<lambda>x. x\<lparr>share_name := (if trimmed = [] then None else Some trimmed)\<rparr>) (shares st)\<rparr>)))"

section \<open>Discarding\<close>

lemma shares_of_total:
  assumes "store_inv st" "x \<in> set (splits st)" "split_id x = spid" "split_restaurant x = rid"
  shows "shares_of rid spid st = filter (\<lambda>s. share_split s = spid) (shares st)"
proof -
  have "share_restaurant s = rid" if s: "s \<in> set (shares st)" "share_split s = spid" for s
  proof -
    have "\<exists>p \<in> set (splits st). split_id p = share_split s \<and> split_restaurant p = share_restaurant s"
      using assms(1) s(1) by (simp add: store_inv_def inv_fk_def)
    then obtain p where p: "p \<in> set (splits st)" "split_id p = spid" "split_restaurant p = share_restaurant s"
      using s(2) by auto
    have "p = x" using assms p by (auto simp: store_inv_def inv_keys_def intro: keyed_unique)
    thus ?thesis using p assms(4) by simp
  qed
  thus ?thesis by (auto simp: shares_of_def intro: filter_cong)
qed

lemma discard_InrD:
  assumes "discardUnpaidSplit rid bid spid st = Inr st'"
  shows "st' = set_split_state (\<lambda>s. split_id s = spid \<and> split_restaurant s = rid \<and> split_bill s = bid) Split_Void st"
    "sum_list (map share_paid_ves (shares_of rid spid st)) \<le> 0"
    "shares_of rid spid st \<noteq> [] \<Longrightarrow> in_flight rid (map share_id (shares_of rid spid st)) st = 0"
  using assms by (auto simp: discardUnpaidSplit_def Let_def foldl_plus_sum split: if_splits)

lemma inv_discard:
  assumes "store_inv st" "discardUnpaidSplit rid bid spid st = Inr st'"
  shows "store_inv st'"
  unfolding discard_InrD(1)[OF assms(2)]
proof (rule inv_set_split_state[OF assms(1)], simp, intro ballI impI)
  fix x assume x: "x \<in> set (splits st)" "split_id x = spid \<and> split_restaurant x = rid \<and> split_bill x = bid"
  have "0 \<le> share_paid_total spid st"
    using assms(1) by (auto simp: share_paid_total_def store_inv_def inv_shares_def share_checks_def intro!: sum_over_nonneg)
  moreover have "share_paid_total spid st \<le> 0"
    using discard_InrD(2)[OF assms(2)] shares_of_total[OF assms(1) x(1)] x(2)
    by (simp add: share_paid_total_def sum_over_def)
  ultimately show "share_paid_total (split_id x) st = 0" using x(2) by simp
qed

lemma inv_voidSplit: "store_inv st \<Longrightarrow> voidSplit rid bid spid st = Inr (r, st') \<Longrightarrow> store_inv st'"
  by (auto simp: voidSplit_def result_simps inv_discard split: option.splits if_splits)

section \<open>Creating\<close>

lemma insert_split_InrD:
  assumes "insert_split s st = Inr st'"
  shows "st' = st\<lparr>splits := insert_row s (splits st), next_id := next_id st + 1\<rparr>"
    "\<And>x. x \<in> set (splits st) \<Longrightarrow> split_state x = Split_Active \<Longrightarrow> split_bill x \<noteq> split_bill s"
    "0 < basis_ves s"
  using assms by (auto simp: insert_split_def list_ex_iff split: if_splits)

lemma insert_shares_InrD:
  assumes "insert_shares rid spid as st = Inr st'"
  obtains new where "st' = st\<lparr>shares := shares st @ new, next_id := next_id st + length as\<rparr>"
    "list_all share_checks new" "map share_id new = [next_id st ..< next_id st + length as]"
    "map share_amount_ves new = map alloc_amount_ves as" "map ext_ref new = map alloc_participant as"
    "list_all (\<lambda>s. share_split s = spid \<and> share_restaurant s = rid \<and> share_paid_ves s = 0) new"
proof -
  let ?new = "map2 (new_share rid spid) [next_id st ..< next_id st + length as] as"
  have "map share_id ?new = [next_id st ..< next_id st + length as]"
    "map share_amount_ves ?new = map alloc_amount_ves as" "map ext_ref ?new = map alloc_participant as"
    by (rule nth_equalityI; simp add: new_share_def)+
  moreover have "list_all (\<lambda>s. share_split s = spid \<and> share_restaurant s = rid \<and> share_paid_ves s = 0) ?new"
    by (auto simp: list_all_iff new_share_def)
  ultimately show ?thesis
    using assms that by (auto simp: insert_shares_def Let_def split: if_splits)
qed

text \<open>A new ACTIVE split with its shares, in the order the transaction writes them.\<close>

lemma inv_new_split:
  assumes "store_inv st" "insert_split s st = Inr st1" "insert_shares (split_restaurant s) (split_id s) as st1 = Inr st2"
    and "split_id s = next_id st" "split_state s = Split_Active" "share_total (split_id s) st2 = basis_ves s"
  shows "store_inv st2"
proof -
  let ?sid = "split_id s"
  note I = insert_split_InrD[OF assms(2)]
  obtain new where st2: "st2 = st1\<lparr>shares := shares st1 @ new, next_id := next_id st1 + length as\<rparr>"
    and chk: "list_all share_checks new" and ids: "map share_id new = [next_id st1 ..< next_id st1 + length as]"
    and new: "list_all (\<lambda>x. share_split x = ?sid \<and> share_restaurant x = split_restaurant s \<and> share_paid_ves x = 0) new"
    using assms(3) by (rule insert_shares_InrD)
  have n1: "next_id st1 = next_id st + 1" and sh1: "shares st1 = shares st" using I(1) by simp_all
  have newid: "next_id st + 1 \<le> share_id x \<and> share_id x < next_id st2" if "x \<in> set new" for x
  proof -
    have "share_id x \<in> set (map share_id new)" using that by simp
    thus ?thesis unfolding ids using st2 n1 by auto
  qed
  have K: "inv_keys st" and F: "inv_fk st" and S: "inv_splits st" and H: "inv_shares st"
    using assms(1) by (auto simp: store_inv_def)
  have old: "\<And>x. x \<in> set (shares st) \<Longrightarrow> share_id x < next_id st \<and> share_split x < next_id st"
    "\<And>x. x \<in> set (splits st) \<Longrightarrow> split_id x < next_id st"
    using K by (auto simp: inv_keys_def)
  have "share_id ` set (shares st) \<inter> share_id ` set new = {}" using old(1) newid by fastforce
  moreover have "distinct (map share_id new)" using ids by simp
  ultimately have kshare: "keyed share_id (shares st @ new)" using K by (simp add: keyed_def inv_keys_def)
  have ksplit: "keyed split_id (insert_row s (splits st))"
    using K old(2) assms(4) by (intro keyed_insert) (auto simp: inv_keys_def dest!: old(2))
  have "inv_keys st2"
    using K kshare ksplit newid new assms(4)
    by (auto simp: inv_keys_def st2 I(1) list_all_iff intro: less_SucI trans_less_add1)
  moreover have "inv_fk st2"
    using F new by (auto simp: inv_fk_def st2 I(1) list_all_iff)
  moreover have credit: "share_credit x st = 0" if "next_id st + 1 \<le> x" for x
    unfolding share_credit_def by (rule sum_over_zero) (use K that in \<open>auto simp: inv_keys_def\<close>)
  have "inv_shares st2"
  proof -
    have "share_credit x st2 = share_credit x st" for x by (simp add: share_credit_def st2 I(1))
    thus ?thesis using H chk new newid credit
      by (auto simp: inv_shares_def share_drift_iff st2 sh1 list_all_iff)
  qed
  moreover have "inv_splits st2"
  proof -
    have "share_total (split_id x) st2 = share_total (split_id x) st
        \<and> share_paid_total (split_id x) st2 = share_paid_total (split_id x) st" if "x \<in> set (splits st)" for x
      using that old(2)[OF that] new assms(4)
      by (auto simp: share_total_def share_paid_total_def st2 sh1 sum_over_def list_all_iff filter_empty_conv)
    moreover have "split_bill s \<notin> split_bill ` set (filter (\<lambda>x. split_state x = Split_Active) (splits st))"
      using I(2) by fastforce
    hence "one_active st2"
      using S assms(5) unfolding one_active_def inv_splits_def st2 I(1)
      by (simp add: insert_row_def keyed_def)
    ultimately show ?thesis using S assms(5,6) by (auto simp: inv_splits_def st2 I(1))
  qed
  moreover have "inv_bills st2" "inv_payments st2" "inv_ledger st2"
    using assms(1) by (auto simp: store_inv_def inv_bills_def inv_payments_def inv_ledger_iff ledger_total_def st2 I(1))
  ultimately show ?thesis by (simp add: store_inv_def)
qed

lemma insert_split_item_keeps:
  assumes "insert_split_item rid spid ip st = Inr st'"
  shows "\<exists>x. st' = st\<lparr>split_items := x\<rparr>"
  using assms
  by (cases ip) (auto simp: insert_split_item_def Let_def split: option.splits if_splits intro: exI[of _ "split_items st"])

lemma insert_claims_keep:
  assumes "fold_ok (insert_split_item rid spid) ps st = Inr st'"
  shows "\<exists>x. st' = st\<lparr>split_items := x\<rparr>"
  using assms
proof (induction ps arbitrary: st)
  case Nil
  thus ?case by (auto intro: exI[of _ "split_items st"])
next
  case (Cons p ps)
  then obtain st1 where "insert_split_item rid spid p st = Inr st1"
      "fold_ok (insert_split_item rid spid) ps st1 = Inr st'"
    by (auto simp: result_simps)
  thus ?case using Cons.IH[of st1] insert_split_item_keeps by fastforce
qed

lemma createSplit_InrD:
  assumes "createSplit rid b its req creator st = Inr (spid, st')"
  obtains pv st1 st2 st3 x where "bill_state b = BillOpen" "preview b its req = Inr pv"
    "(case live_split rid (bill_id b) st of None \<Rightarrow> Inr st
       | Some live \<Rightarrow> discardUnpaidSplit rid (bill_id b) (split_id live) st) = Inr st1"
    "spid = next_id st1"
    "insert_split \<lparr>split_id = spid, split_restaurant = rid, split_bill = bill_id b,
        split_mode = req_mode req, basis_ves = pv_outstanding_ves pv,
        split_state = Split_Active, created_by_type = creator\<rparr> st1 = Inr st2"
    "insert_shares rid spid (pv_allocations pv) st2 = Inr st3"
    "st' = st3\<lparr>split_items := x\<rparr>" "share_total spid st' = pv_outstanding_ves pv"
proof -
  obtain pv st1 st2 st3 st4 where *: "bill_state b = BillOpen" "preview b its req = Inr pv"
    "(case live_split rid (bill_id b) st of None \<Rightarrow> Inr st
       | Some live \<Rightarrow> discardUnpaidSplit rid (bill_id b) (split_id live) st) = Inr st1"
    "insert_split \<lparr>split_id = next_id st1, split_restaurant = rid, split_bill = bill_id b,
        split_mode = req_mode req, basis_ves = pv_outstanding_ves pv,
        split_state = Split_Active, created_by_type = creator\<rparr> st1 = Inr st2"
    "insert_shares rid (next_id st1) (pv_allocations pv) st2 = Inr st3"
    "(if req_mode req = ITEMS then fold_ok (insert_split_item rid (next_id st1)) (claim_pairs (req_claims req)) st3
      else Inr st3) = Inr st4"
    "st' = st4" "spid = next_id st1" "share_total spid st' = pv_outstanding_ves pv"
    using assms unfolding createSplit_def Let_def and_then_Inr_iff
    by (auto simp: result_simps split: if_splits)
  have "\<exists>x. st4 = st3\<lparr>split_items := x\<rparr>"
    using *(6) insert_claims_keep by (auto split: if_splits intro: exI[of _ "split_items st3"])
  thus ?thesis using * that by auto
qed

lemma inv_createSplit:
  assumes "store_inv st" "createSplit rid b its req creator st = Inr (spid, st')"
  shows "store_inv st'"
proof -
  obtain pv st1 st2 st3 x where "preview b its req = Inr pv" and live: "(case live_split rid (bill_id b) st of None \<Rightarrow> Inr st
       | Some live \<Rightarrow> discardUnpaidSplit rid (bill_id b) (split_id live) st) = Inr st1"
    and spid: "spid = next_id st1"
    and ins: "insert_split \<lparr>split_id = spid, split_restaurant = rid, split_bill = bill_id b,
        split_mode = req_mode req, basis_ves = pv_outstanding_ves pv,
        split_state = Split_Active, created_by_type = creator\<rparr> st1 = Inr st2"
    and sh: "insert_shares rid spid (pv_allocations pv) st2 = Inr st3"
    and st': "st' = st3\<lparr>split_items := x\<rparr>" and tot: "share_total spid st' = pv_outstanding_ves pv"
    using assms(2) by (rule createSplit_InrD)
  have "store_inv st1" using live assms(1) inv_discard by (auto split: option.splits)
  moreover have "share_total spid st3 = pv_outstanding_ves pv" using tot st' by (simp add: share_total_def)
  ultimately have "store_inv st3" using inv_new_split[OF _ ins] sh spid by simp
  thus ?thesis unfolding st' by (rule inv_cong[rotated 5]) simp_all
qed

section \<open>Advancing a share\<close>

lemma advanceShare_InrD:
  assumes "advanceShare sid rid amount bid st = Inr st'"
  obtains s sp where "get_share rid sid st = Some s" "get_split rid (share_split s) st = Some sp"
    "split_bill sp = bid" "split_state sp = Split_Active"
    "share_paid_ves s + amount \<le> share_amount_ves s" "0 \<le> share_paid_ves s + amount"
    "st' = st\<lparr>shares := update_where (\<lambda>x. share_id x = sid \<and> share_restaurant x = rid)
             (\<lambda>x. x\<lparr>share_paid_ves := share_paid_ves x + amount\<rparr>) (shares st)\<rparr>"
  using assms by (auto simp: advanceShare_def Let_def split: option.splits if_splits)

lemma inv_nameShare:
  assumes "store_inv st" "nameShare rid bid ref name st = Inr (r, st')"
  shows "store_inv st'"
proof -
  obtain P v where st': "st' = st\<lparr>shares := update_where P (\<lambda>x. x\<lparr>share_name := v\<rparr>) (shares st)\<rparr>"
    using assms(2) by (auto simp: nameShare_def Let_def split: option.splits if_splits)
  have k: "keyed share_id (update_where P (\<lambda>x. x\<lparr>share_name := v\<rparr>) (shares st))"
    using assms(1) by (intro keyed_update) (auto simp: store_inv_def inv_keys_def)
  have s: "sum_over Q g (update_where P (\<lambda>x. x\<lparr>share_name := v\<rparr>) (shares st)) = sum_over Q g (shares st)"
    if "\<And>x. Q (x\<lparr>share_name := v\<rparr>) = Q x \<and> g (x\<lparr>share_name := v\<rparr>) = g x" for Q g
    by (rule sum_over_update_same) (use that in auto)
  have t: "share_total y st' = share_total y st" "share_paid_total y st' = share_paid_total y st"
    "share_credit y st' = share_credit y st" "ledger_total y st' = ledger_total y st" for y
    using s[of "\<lambda>s. share_split s = y"] by (simp_all add: share_total_def share_paid_total_def share_credit_def ledger_total_def st')
  show ?thesis
    using assms(1) k t unfolding store_inv_def
    by (auto simp: inv_keys_def inv_fk_def inv_bills_def inv_payments_def inv_ledger_iff inv_shares_def
        share_drift_iff inv_splits_def one_active_def st' set_update_where share_checks_def)
qed

section \<open>What a committed division promises\<close>

definition three_ways :: split_request where
  "three_ways = \<lparr>req_mode = EQUAL, req_participants = [diner ''a'', diner ''b'', diner ''c''], req_claims = []\<rparr>"



lemma void_needs_no_money:
  assumes "store_inv st" "voidSplit rid bid spid st = Inr (r, st')"
  shows "(\<forall>s \<in> set (shares_of rid spid st). share_paid_ves s = 0
            \<and> (\<forall>p \<in> set (payments st). pay_restaurant p = rid \<longrightarrow> split_participant_id p = Some (share_id s)
                 \<longrightarrow> pay_status p \<notin> {Pending, In_Doubt, Ambiguous}))
     \<and> (\<exists>s \<in> set (splits st'). split_id s = spid \<and> split_state s = Split_Void)"
proof -
  obtain s0 where f: "find_by (\<lambda>s. split_id s = spid \<and> split_restaurant s = rid \<and> split_bill s = bid) (splits st) = Some s0"
    and d: "discardUnpaidSplit rid bid spid st = Inr st'"
    using assms(2) by (auto simp: voidSplit_def result_simps split: option.splits if_splits)
  note D = discard_InrD[OF d]
  have pos: "\<forall>s \<in> set (shares_of rid spid st). 0 \<le> share_paid_ves s"
    using assms(1) by (auto simp: store_inv_def inv_shares_def share_checks_def shares_of_def)
  have zero: "share_paid_ves s = 0" if "s \<in> set (shares_of rid spid st)" for s
  proof -
    have "share_paid_ves s \<le> sum_list (map share_paid_ves (shares_of rid spid st))"
      by (rule member_le_sum_list_int) (use that pos in auto)
    thus ?thesis using D(2) pos that by force
  qed
  have calm: "pay_status p \<notin> {Pending, In_Doubt, Ambiguous}"
    if "s \<in> set (shares_of rid spid st)" "p \<in> set (payments st)" "pay_restaurant p = rid"
      "split_participant_id p = Some (share_id s)" for s p
  proof -
    have "shares_of rid spid st \<noteq> []" using that(1) by auto
    hence "in_flight rid (map share_id (shares_of rid spid st)) st = 0" by (rule D(3))
    thus ?thesis using that by (auto simp: in_flight_def filter_empty_conv unresolved_def)
  qed
  have "\<exists>s \<in> set (splits st'). split_id s = spid \<and> split_state s = Split_Void"
    using find_by_SomeD[OF f] D(1)
    by (auto simp: set_split_state_def set_update_where intro!: bexI[of _ "s0\<lparr>split_state := Split_Void\<rparr>"] image_eqI[of _ _ s0])
  thus ?thesis using zero calm by blast
qed

lemma void_needs_no_money_witness:
  "\<exists>spid st1 r st'. createSplit 7 dinner_bill [] three_ways STAFF dinner_store = Inr (spid, st1)
     \<and> voidSplit 7 1 spid st1 = Inr (r, st') \<and> (\<exists>s \<in> set (splits st'). split_id s = spid \<and> split_state s = Split_Void)"
proof -
  have c: "(case createSplit 7 dinner_bill [] three_ways STAFF dinner_store of Inl e \<Rightarrow> False
          | Inr (spid, st1) \<Rightarrow> isr (voidSplit 7 1 spid st1))" by code_simp
  then obtain spid st1 where r1: "createSplit 7 dinner_bill [] three_ways STAFF dinner_store = Inr (spid, st1)"
    "isr (voidSplit 7 1 spid st1)" by (auto split: sum.splits)
  then obtain r st' where r: "createSplit 7 dinner_bill [] three_ways STAFF dinner_store = Inr (spid, st1)"
    "voidSplit 7 1 spid st1 = Inr (r, st')" by (auto dest!: isr_pair)
  show ?thesis using void_needs_no_money[OF inv_createSplit[OF inv_dinner r(1)] r(2)] r by blast
qed

end
