(* ===== verification/Payment_Ledger.thy ===== *)
theory Payment_Ledger
  imports Bill_Splits
begin

text \<open>
  The payment ledger: src/services/payments.js.  A payment moves along
  \<open>ALLOWED_TRANSITIONS\<close>, every move is appended to \<open>payment_transitions\<close>, and a
  payment that names a share credits it on the way into SUCCEEDED, in the same
  transaction.  \<open>state_machine\<close> is the interface of a status machine with absorbing
  families of states; it is interpreted on the payment statuses here.
\<close>

section \<open>Status machines\<close>

locale state_machine =
  fixes allowed :: "'s \<Rightarrow> 's list" and family :: "'s \<Rightarrow> bool"
  assumes family_closed: "family s \<Longrightarrow> t \<in> set (allowed s) \<Longrightarrow> family t"
begin

inductive reach :: "'s \<Rightarrow> 's \<Rightarrow> bool" where
  stay: "reach s s"
| move: "reach s t \<Longrightarrow> u \<in> set (allowed t) \<Longrightarrow> reach s u"

lemma family_absorbs: "reach s t \<Longrightarrow> family s \<Longrightarrow> family t"
  by (induction rule: reach.induct) (auto intro: family_closed)

lemma terminal_stays: "reach s t \<Longrightarrow> allowed s = [] \<Longrightarrow> t = s"
  by (induction rule: reach.induct) auto

end

section \<open>Definitions\<close>

fun ALLOWED_TRANSITIONS :: "payment_status \<Rightarrow> payment_status list" where
  "ALLOWED_TRANSITIONS Pending = [In_Doubt, Ambiguous, Succeeded, Failed, Cancelled]"
| "ALLOWED_TRANSITIONS In_Doubt = [Ambiguous, Succeeded, Failed]"
| "ALLOWED_TRANSITIONS Ambiguous = [Succeeded, Failed]"
| "ALLOWED_TRANSITIONS Succeeded = [Partially_Refunded, Refunded]"
| "ALLOWED_TRANSITIONS Partially_Refunded = [Partially_Refunded, Refunded]"
| "ALLOWED_TRANSITIONS Failed = []"
| "ALLOWED_TRANSITIONS Cancelled = []"
| "ALLOWED_TRANSITIONS Refunded = []"

text \<open>\<open>SETTLED_STATUSES\<close>: only the way into SUCCEEDED moves new money.\<close>

definition SETTLED_STATUSES :: "payment_status set" where
  "SETTLED_STATUSES = {Succeeded}"

fun SHARE_REFUSALS :: "error \<Rightarrow> bool" where
  "SHARE_REFUSALS (Split_E (Split_Is_Stale t)) = True"
| "SHARE_REFUSALS (Split_E (Split_Not_Active s)) = True"
| "SHARE_REFUSALS (Split_E (Split_Share_Overpaid r)) = True"
| "SHARE_REFUSALS (Split_E Split_Share_Not_Found) = True"
| "SHARE_REFUSALS _ = False"

datatype on_refusal = THROW | DETACH

record moved =
  mo_payment :: payment
  mo_detached :: "error option"

definition appendTransition ::
  "nat \<Rightarrow> nat \<Rightarrow> payment_status option \<Rightarrow> payment_status \<Rightarrow> actor_type \<Rightarrow> store \<Rightarrow> store" where
  "appendTransition pid rid fromStatus toStatus actor st =
     st\<lparr>transitions := insert_row \<lparr>tr_payment = pid, tr_restaurant = rid, tr_from = fromStatus,
          tr_to = toStatus, tr_actor = actor\<rparr> (transitions st)\<rparr>"

text \<open>\<open>recordPayment\<close>: the argument is the row to write; its identifier is drawn here.\<close>

definition recordPayment :: "payment \<Rightarrow> payment tx" where
  "recordPayment p0 st =
     (let p = p0\<lparr>pay_id := next_id st\<rparr> in
      and_then (insert_payment p (st\<lparr>next_id := next_id st + 1\<rparr>)) (\<lambda>st1.
      let st2 = appendTransition (pay_id p) (pay_restaurant p) None (pay_status p) (payer_type p) st1
      in case split_participant_id p of
           Some sid \<Rightarrow>
             if pay_status p \<in> SETTLED_STATUSES
             then and_then (advanceShare sid (pay_restaurant p) (amount_ves p) (pay_bill p) st2) (\<lambda>st3. Inr (p, st3))
             else Inr (p, st2)
         | None \<Rightarrow> Inr (p, st2)))"

definition transitionPayment ::
  "nat \<Rightarrow> nat \<Rightarrow> payment_status \<Rightarrow> actor_type \<Rightarrow> on_refusal \<Rightarrow> moved tx" where
  "transitionPayment rid pid toStatus actor onShareRefusal st =
     (case get_payment rid pid st of
        None \<Rightarrow> Inl (General Not_Found)
      | Some p \<Rightarrow>
         if pay_status p = toStatus then Inr (\<lparr>mo_payment = p, mo_detached = None\<rparr>, st)
         else if toStatus \<notin> set (ALLOWED_TRANSITIONS (pay_status p))
         then Inl (Pay_E (Payment_State_Invalid (pay_status p) toStatus))
         else
           let p' = p\<lparr>pay_status := toStatus\<rparr>;
               st1 = put_payment pid (\<lambda>x. x\<lparr>pay_status := toStatus\<rparr>) st;
               st2 = appendTransition pid rid (Some (pay_status p)) toStatus actor st1
           in case split_participant_id p of
                Some sid \<Rightarrow>
                  if toStatus \<in> SETTLED_STATUSES then
                    (case advanceShare sid rid (amount_ves p) (pay_bill p) st2 of
                       Inr st3 \<Rightarrow> Inr (\<lparr>mo_payment = p', mo_detached = None\<rparr>, st3)
                     | Inl e \<Rightarrow>
                         if onShareRefusal \<noteq> DETACH \<or> \<not> SHARE_REFUSALS e then Inl e
                         else Inr (\<lparr>mo_payment = p'\<lparr>split_participant_id := None\<rparr>, mo_detached = Some e\<rparr>,
                                   put_payment pid (\<lambda>x. x\<lparr>split_participant_id := None\<rparr>) st2))
                  else Inr (\<lparr>mo_payment = p', mo_detached = None\<rparr>, st2)
              | None \<Rightarrow> Inr (\<lparr>mo_payment = p', mo_detached = None\<rparr>, st2))"

definition listPayments :: "nat \<Rightarrow> nat \<Rightarrow> store \<Rightarrow> payment list" where
  "listPayments rid bid st = filter (\<lambda>p. pay_restaurant p = rid \<and> pay_bill p = bid) (payments st)"

section \<open>The machine of payment statuses\<close>

definition money_moved :: "payment_status \<Rightarrow> bool" where
  "money_moved s \<longleftrightarrow> s = Succeeded \<or> s = Partially_Refunded \<or> s = Refunded"

definition nothing_moved :: "payment_status \<Rightarrow> bool" where
  "nothing_moved s \<longleftrightarrow> s = Failed \<or> s = Cancelled"

interpretation settled: state_machine ALLOWED_TRANSITIONS money_moved
proof
  fix s t assume "money_moved s" "t \<in> set (ALLOWED_TRANSITIONS s)"
  thus "money_moved t" by (cases s) (auto simp: money_moved_def)
qed

interpretation dead: state_machine ALLOWED_TRANSITIONS nothing_moved
proof
  fix s t assume "nothing_moved s" "t \<in> set (ALLOWED_TRANSITIONS s)"
  thus "nothing_moved t" by (cases s) (auto simp: nothing_moved_def)
qed

section \<open>The history of a payment\<close>

definition history :: "nat \<Rightarrow> store \<Rightarrow> transition list" where
  "history pid st = filter (\<lambda>t. tr_payment t = pid) (transitions st)"

text \<open>Replaying a history from its opening row; \<open>None\<close> when a move is not legal or
  does not start where the last one ended.\<close>

fun replay :: "payment_status option \<Rightarrow> transition list \<Rightarrow> payment_status option option" where
  "replay cur [] = Some cur"
| "replay cur (t # ts) =
     (if tr_from t = cur \<and> (case cur of None \<Rightarrow> True | Some s \<Rightarrow> tr_to t \<in> set (ALLOWED_TRANSITIONS s))
      then replay (Some (tr_to t)) ts else None)"

definition inv_log :: "store \<Rightarrow> bool" where
  "inv_log st \<longleftrightarrow> (\<forall>p \<in> set (payments st). replay None (history (pay_id p) st) = Some (Some (pay_status p)))
     \<and> (\<forall>t \<in> set (transitions st). tr_payment t < next_id st)
     \<and> (\<forall>p \<in> set (payments st). \<forall>t \<in> set (history (pay_id p) st). tr_restaurant t = pay_restaurant p)"

lemma replay_append:
  "replay cur (ts @ us) = (case replay cur ts of None \<Rightarrow> None | Some c \<Rightarrow> replay c us)"
  by (induction cur ts rule: replay.induct) auto

lemma replay_reach:
  "replay (Some s) ts = Some (Some t) \<Longrightarrow> settled.reach s t"
proof (induction ts arbitrary: t rule: rev_induct)
  case (snoc u ts)
  then obtain c where c: "replay (Some s) ts = Some c" by (auto simp: replay_append split: option.splits)
  then obtain c' where c': "c = Some c'" by (induction "Some s" ts arbitrary: s rule: replay.induct) (auto split: if_splits)
  show ?case using snoc c c' by (auto simp: replay_append split: if_splits intro: settled.reach.move)
qed (auto intro: settled.reach.stay)

section \<open>Effects of the operations\<close>

lemma put_payment_simps [simp]:
  "bills (put_payment pid f st) = bills st" "shares (put_payment pid f st) = shares st"
  "splits (put_payment pid f st) = splits st" "next_id (put_payment pid f st) = next_id st"
  "transitions (put_payment pid f st) = transitions st" "items (put_payment pid f st) = items st"
  "payments (put_payment pid f st) = update_where (\<lambda>p. pay_id p = pid) f (payments st)"
  by (simp_all add: put_payment_def)

lemma appendTransition_simps [simp]:
  "bills (appendTransition pid rid f t a st) = bills st" "shares (appendTransition pid rid f t a st) = shares st"
  "splits (appendTransition pid rid f t a st) = splits st" "payments (appendTransition pid rid f t a st) = payments st"
  "next_id (appendTransition pid rid f t a st) = next_id st" "items (appendTransition pid rid f t a st) = items st"
  by (simp_all add: appendTransition_def)

lemma insert_payment_InrD:
  assumes "insert_payment p st = Inr st'"
  shows "st' = st\<lparr>payments := insert_row p (payments st)\<rparr>" "payment_checks p"
    "get_bill (pay_restaurant p) (pay_bill p) st \<noteq> None"
    "\<And>s. split_participant_id p = Some s \<Longrightarrow> get_share (pay_restaurant p) s st \<noteq> None"
  using assms by (auto simp: insert_payment_def split: if_splits option.splits)

section \<open>Postings\<close>

text \<open>What one settled payment does to the payment and share tables: the bill \<open>bid\<close>
  is owed \<open>amount\<close> less, the share \<open>so\<close> (when the payment names one that takes it)
  is credited \<open>amount\<close>.  A move that settles nothing posts zero to nobody.\<close>

definition credited :: "nat \<Rightarrow> int \<Rightarrow> store \<Rightarrow> store \<Rightarrow> bool" where
  "credited sid amount st st' \<longleftrightarrow> (\<exists>s sp. s \<in> set (shares st) \<and> share_id s = sid \<and> sp \<in> set (splits st)
     \<and> split_id sp = share_split s \<and> split_state sp = Split_Active
     \<and> 0 \<le> share_paid_ves s + amount \<and> share_paid_ves s + amount \<le> share_amount_ves s
     \<and> shares st' = update_where (\<lambda>x. share_id x = sid \<and> share_restaurant x = share_restaurant s)
                     (\<lambda>x. x\<lparr>share_paid_ves := share_paid_ves x + amount\<rparr>) (shares st))"

definition inv_ledger_side :: "store \<Rightarrow> bool" where
  "inv_ledger_side st \<longleftrightarrow> inv_keys st \<and> inv_fk st \<and> inv_payments st"

definition posted :: "nat option \<Rightarrow> nat \<Rightarrow> int \<Rightarrow> store \<Rightarrow> store \<Rightarrow> bool" where
  "posted so bid amount st st' \<longleftrightarrow> bills st' = bills st \<and> splits st' = splits st \<and> inv_ledger_side st'
     \<and> (\<forall>k. ledger_total k st' = ledger_total k st + (if k = bid then amount else 0))
     \<and> (\<forall>k. share_credit k st' = share_credit k st + (if so = Some k then amount else 0))
     \<and> (case so of None \<Rightarrow> shares st' = shares st | Some sid \<Rightarrow> credited sid amount st st')"

lemma inv_imp_side: "store_inv st \<Longrightarrow> inv_ledger_side st"
  by (simp add: store_inv_def inv_ledger_side_def)

lemma credited_share_rows:
  assumes "credited sid amount st st'" "keyed share_id (shares st)" "\<forall>x \<in> set (shares st). share_checks x"
  shows "\<forall>x \<in> set (shares st'). share_checks x"
    "\<forall>x \<in> set (shares st'). \<exists>y \<in> set (shares st). share_id x = share_id y
       \<and> share_paid_ves x = share_paid_ves y + (if share_id y = sid then amount else 0)"
proof -
  obtain s where s: "s \<in> set (shares st)" "share_id s = sid" "0 \<le> share_paid_ves s + amount"
      "share_paid_ves s + amount \<le> share_amount_ves s"
    and sh: "shares st' = update_where (\<lambda>x. share_id x = sid \<and> share_restaurant x = share_restaurant s)
                     (\<lambda>x. x\<lparr>share_paid_ves := share_paid_ves x + amount\<rparr>) (shares st)"
    using assms(1) by (auto simp: credited_def)
  have u: "x = s" if "x \<in> set (shares st)" "share_id x = sid" for x
    using keyed_unique[OF assms(2) that(1) s(1)] that(2) s(2) by simp
  have row: "\<exists>y \<in> set (shares st). share_id x = share_id y \<and> share_amount_ves x = share_amount_ves y
       \<and> share_paid_ves x = share_paid_ves y + (if share_id y = sid then amount else 0)
       \<and> (share_id y = sid \<longrightarrow> y = s)"
    if x: "x \<in> set (shares st')" for x
  proof -
    obtain y where y: "y \<in> set (shares st)"
      "x = (if share_id y = sid \<and> share_restaurant y = share_restaurant s
            then y\<lparr>share_paid_ves := share_paid_ves y + amount\<rparr> else y)"
      using x by (auto simp: sh set_update_where)
    show ?thesis
    proof (cases "share_id y = sid")
      case True
      hence "y = s" using u y(1) by blast
      thus ?thesis using y s(2) by (intro bexI[of _ y]) auto
    next
      case False
      thus ?thesis using y by (intro bexI[of _ y]) auto
    qed
  qed
  show "\<forall>x \<in> set (shares st'). share_checks x"
  proof
    fix x assume "x \<in> set (shares st')"
    then obtain y where y: "y \<in> set (shares st)" "share_amount_ves x = share_amount_ves y"
        "share_paid_ves x = share_paid_ves y + (if share_id y = sid then amount else 0)"
        "share_id y = sid \<longrightarrow> y = s"
      using row by blast
    have "share_checks y" using assms(3) y(1) by blast
    thus "share_checks x" using y(2-4) s(3,4) by (cases "share_id y = sid") (simp_all add: share_checks_def)
  qed
  show "\<forall>x \<in> set (shares st'). \<exists>y \<in> set (shares st). share_id x = share_id y
       \<and> share_paid_ves x = share_paid_ves y + (if share_id y = sid then amount else 0)"
    using row by blast
qed

lemma credited_totals:
  assumes "credited sid amount st st'" "inv_keys st"
  shows "share_total k st' = share_total k st"
    "sp \<in> set (splits st) \<Longrightarrow> split_state sp \<noteq> Split_Active \<Longrightarrow>
       share_paid_total (split_id sp) st' = share_paid_total (split_id sp) st"
proof -
  obtain s a where s: "s \<in> set (shares st)" "share_id s = sid" "a \<in> set (splits st)"
      "split_id a = share_split s" "split_state a = Split_Active"
    and sh: "shares st' = update_where (\<lambda>x. share_id x = sid \<and> share_restaurant x = share_restaurant s)
                     (\<lambda>x. x\<lparr>share_paid_ves := share_paid_ves x + amount\<rparr>) (shares st)"
    using assms(1) by (auto simp: credited_def)
  show "share_total k st' = share_total k st"
    unfolding share_total_def sh by (rule sum_over_update_same) simp
  assume sp: "sp \<in> set (splits st)" "split_state sp \<noteq> Split_Active"
  have "share_split x \<noteq> split_id sp" if "x \<in> set (shares st)" "share_id x = sid" for x
  proof -
    have "x = s" using assms(2) that s by (auto simp: inv_keys_def intro: keyed_unique)
    thus ?thesis using s sp assms(2) by (auto simp: inv_keys_def dest: keyed_unique[of split_id _ a sp])
  qed
  thus "share_paid_total (split_id sp) st' = share_paid_total (split_id sp) st"
    unfolding share_paid_total_def sh by (intro sum_over_update_same) auto
qed

text \<open>The accounting lemma: a bill advanced by exactly what was posted to it.\<close>

lemma inv_posting:
  assumes "store_inv st" and upd: "update_bill bid f st = Inr st1"
    and f: "\<And>b. b \<in> set (bills st) \<Longrightarrow> bill_id b = bid \<Longrightarrow> bill_id (f b) = bid
          \<and> bill_restaurant (f b) = bill_restaurant b
          \<and> amount_paid_ves (f b) = amount_paid_ves b + amount \<and> bill_state (f b) \<noteq> BillVoid"
    and post: "posted so bid amount st1 st'"
  shows "store_inv st'"
proof -
  have st1: "st1 = st\<lparr>bills := update_where (\<lambda>b. bill_id b = bid) f (bills st)\<rparr>"
    and ok: "\<forall>b \<in> set (bills st). bill_id b = bid \<longrightarrow> bill_checks (f b)"
    using update_bill_InrD[OF upd] by auto
  have side: "inv_keys st'" "inv_fk st'" "inv_payments st'"
    and b': "bills st' = update_where (\<lambda>b. bill_id b = bid) f (bills st)" and sp': "splits st' = splits st"
    and led: "ledger_total k st' = ledger_total k st + (if k = bid then amount else 0)"
    and cr: "share_credit k st' = share_credit k st + (if so = Some k then amount else 0)"
    and sh: "case so of None \<Rightarrow> shares st' = shares st | Some sid \<Rightarrow> credited sid amount st st'" for k
    using post st1 by (auto simp: posted_def inv_ledger_side_def credited_def split: option.splits)
  have K: "inv_keys st" and H: "inv_shares st" and S: "inv_splits st" and B: "inv_bills st" and L: "inv_ledger st"
    using assms(1) by (auto simp: store_inv_def)
  have "inv_bills st'" using B ok f by (auto simp: inv_bills_def b' set_update_where)
  moreover have "inv_ledger st'" using L f by (auto simp: inv_ledger_iff b' led set_update_where)
  moreover have "inv_shares st'"
  proof (cases so)
    case None
    thus ?thesis using sh cr H by (simp add: inv_shares_def share_drift_iff)
  next
    case (Some sid)
    hence c: "credited sid amount st st'" using sh by simp
    have "keyed share_id (shares st)" using K by (simp add: inv_keys_def)
    note R = credited_share_rows[OF c this]
    show ?thesis using R H cr Some unfolding inv_shares_def share_drift_iff by fastforce
  qed
  moreover have "inv_splits st'"
  proof (cases so)
    case None
    thus ?thesis using sh S sp' by (simp add: inv_splits_def one_active_def share_total_def share_paid_total_def)
  next
    case (Some sid)
    thus ?thesis using sh S sp' credited_totals[of sid amount st st'] K
      by (auto simp: inv_splits_def one_active_def)
  qed
  ultimately show ?thesis using side by (simp add: store_inv_def)
qed

lemma inv_unposted:
  assumes "store_inv st" "posted None bid 0 st st'"
  shows "store_inv st'"
  using assms by (auto simp: store_inv_def posted_def inv_ledger_side_def inv_bills_def inv_ledger_iff
      inv_shares_def share_drift_iff inv_splits_def one_active_def share_total_def share_paid_total_def)

section \<open>The ledger operations are postings\<close>

lemma advanceShare_credited:
  assumes "advanceShare sid rid amount bid st = Inr st'"
  shows "credited sid amount st st'" "bills st' = bills st" "splits st' = splits st"
    "payments st' = payments st" "next_id st' = next_id st" "transitions st' = transitions st"
    "items st' = items st"
proof -
  obtain s sp where s: "get_share rid sid st = Some s" "get_split rid (share_split s) st = Some sp"
    "split_state sp = Split_Active" "share_paid_ves s + amount \<le> share_amount_ves s" "0 \<le> share_paid_ves s + amount"
    "st' = st\<lparr>shares := update_where (\<lambda>x. share_id x = sid \<and> share_restaurant x = rid)
             (\<lambda>x. x\<lparr>share_paid_ves := share_paid_ves x + amount\<rparr>) (shares st)\<rparr>"
    using assms by (rule advanceShare_InrD)
  show "credited sid amount st st'"
    unfolding credited_def using s get_share_SomeD[OF s(1)] get_split_SomeD[OF s(2)]
    by (intro exI[of _ s] exI[of _ sp]) auto
qed (use assms in \<open>auto elim!: advanceShare_InrD\<close>)

lemma inv_keys_credited:
  assumes "inv_ledger_side st" "credited sid amount st st'" "splits st' = splits st" "bills st' = bills st"
    "payments st' = payments st" "next_id st' = next_id st"
  shows "inv_ledger_side st'"
proof -
  obtain P where sh: "shares st' = update_where P (\<lambda>x. x\<lparr>share_paid_ves := share_paid_ves x + amount\<rparr>) (shares st)"
    using assms(2) by (auto simp: credited_def)
  have "keyed share_id (shares st')"
    unfolding sh using assms(1) by (intro keyed_update) (auto simp: inv_ledger_side_def inv_keys_def)
  thus ?thesis using assms
    by (auto simp: inv_ledger_side_def inv_keys_def inv_fk_def inv_payments_def sh set_update_where)
qed

lemma ledger_side_append [simp]:
  "inv_ledger_side (appendTransition pid rid f t a st) = inv_ledger_side st"
  "ledger_total k (appendTransition pid rid f t a st) = ledger_total k st"
  "share_credit k (appendTransition pid rid f t a st) = share_credit k st"
  by (simp_all add: inv_ledger_side_def inv_keys_def inv_fk_def inv_payments_def ledger_total_def share_credit_def)

lemma insert_payment_posted:
  assumes "inv_ledger_side st" "insert_payment p (st\<lparr>next_id := next_id st + 1\<rparr>) = Inr st1" "pay_id p = next_id st"
  shows "inv_ledger_side st1" "bills st1 = bills st" "splits st1 = splits st" "shares st1 = shares st"
    "next_id st1 = next_id st + 1" "payments st1 = insert_row p (payments st)" "transitions st1 = transitions st"
    "items st1 = items st"
    "ledger_total k st1 = ledger_total k st + (if pay_bill p = k \<and> counted (pay_status p) then amount_ves p else 0)"
    "share_credit k st1 = share_credit k st
       + (if split_participant_id p = Some k \<and> counted (pay_status p) then amount_ves p else 0)"
proof -
  note I = insert_payment_InrD[OF assms(2)]
  have K: "inv_keys st" "inv_fk st" "inv_payments st" using assms(1) by (simp_all add: inv_ledger_side_def)
  obtain b where b: "b \<in> set (bills st)" "bill_id b = pay_bill p" "bill_restaurant b = pay_restaurant p"
    using I(3) by (auto simp: get_bill_def dest: find_by_SomeD)
  have sh: "s < next_id st" if "split_participant_id p = Some s" for s
    using I(4)[OF that] K(1) by (auto simp: get_share_def inv_keys_def dest!: find_by_SomeD)
  have "keyed pay_id (insert_row p (payments st))"
    using K(1) assms(3) by (intro keyed_insert) (auto simp: inv_keys_def)
  moreover have "pay_bill p < next_id st" using b K(1) by (auto simp: inv_keys_def)
  ultimately show "inv_ledger_side st1"
    using K b sh I(1,2) assms(3)
    by (auto simp: inv_ledger_side_def inv_keys_def inv_fk_def inv_payments_def less_Suc_eq)
qed (use insert_payment_InrD(1)[OF assms(2)] in
      \<open>auto simp: ledger_total_def share_credit_def sum_over_insert\<close>)

lemma recordPayment_posted:
  assumes "inv_ledger_side st" "recordPayment p0 st = Inr (p, st')"
    and "pay_status p0 = Pending \<or> pay_status p0 = Succeeded"
  shows "p = p0\<lparr>pay_id := next_id st\<rparr>"
    "posted (if pay_status p0 = Succeeded then split_participant_id p0 else None) (pay_bill p0)
        (if pay_status p0 = Succeeded then amount_ves p0 else 0) st st'"
    "p \<in> set (payments st')" "next_id st' = next_id st + 1" "items st' = items st"
    "payments st' = insert_row p (payments st)"
proof -
  let ?p = "p0\<lparr>pay_id := next_id st\<rparr>"
  obtain st1 where ins: "insert_payment ?p (st\<lparr>next_id := next_id st + 1\<rparr>) = Inr st1"
    and rest: "(let st2 = appendTransition (pay_id ?p) (pay_restaurant ?p) None (pay_status ?p) (payer_type ?p) st1
      in case split_participant_id ?p of
           Some sid \<Rightarrow>
             if pay_status ?p \<in> SETTLED_STATUSES
             then and_then (advanceShare sid (pay_restaurant ?p) (amount_ves ?p) (pay_bill ?p) st2) (\<lambda>st3. Inr (?p, st3))
             else Inr (?p, st2)
         | None \<Rightarrow> Inr (?p, st2)) = Inr (p, st')"
    using assms(2) unfolding recordPayment_def Let_def and_then_Inr_iff by blast
  note I = insert_payment_posted[OF assms(1) ins]
  let ?st2 = "appendTransition (pay_id ?p) (pay_restaurant ?p) None (pay_status ?p) (payer_type ?p) st1"
  have two: "p = ?p \<and> (st' = ?st2 \<and> (split_participant_id p0 = None \<or> pay_status p0 \<noteq> Succeeded)
      \<or> (\<exists>sid. split_participant_id p0 = Some sid \<and> pay_status p0 = Succeeded
            \<and> advanceShare sid (pay_restaurant p0) (amount_ves p0) (pay_bill p0) ?st2 = Inr st'))"
    using rest by (auto simp: Let_def SETTLED_STATUSES_def result_simps split: option.splits if_splits)
  thus p: "p = ?p" by simp
  consider (plain) "st' = ?st2" "split_participant_id p0 = None \<or> pay_status p0 \<noteq> Succeeded"
    | (share) sid where "split_participant_id p0 = Some sid" "pay_status p0 = Succeeded"
        "advanceShare sid (pay_restaurant p0) (amount_ves p0) (pay_bill p0) ?st2 = Inr st'"
    using two by blast
  hence "posted (if pay_status p0 = Succeeded then split_participant_id p0 else None) (pay_bill p0)
        (if pay_status p0 = Succeeded then amount_ves p0 else 0) st st'
      \<and> p \<in> set (payments st') \<and> next_id st' = next_id st + 1 \<and> items st' = items st
      \<and> payments st' = insert_row p (payments st)"
  proof cases
    case plain
    thus ?thesis using I assms(3) p by (auto simp: posted_def counted_def)
  next
    case share
    note A = advanceShare_credited[OF share(3)]
    have "inv_ledger_side st'"
      by (rule inv_keys_credited[OF _ A(1,3,2,4,5)]) (simp add: I(1))
    thus ?thesis using A I share p
      by (auto simp: posted_def counted_def credited_def ledger_total_def share_credit_def)
  qed
  thus "posted (if pay_status p0 = Succeeded then split_participant_id p0 else None) (pay_bill p0)
        (if pay_status p0 = Succeeded then amount_ves p0 else 0) st st'"
    "p \<in> set (payments st')" "next_id st' = next_id st + 1" "items st' = items st"
    "payments st' = insert_row p (payments st)" by simp_all
qed

lemma put_payment_side:
  assumes "inv_ledger_side st"
    and f: "\<And>p. p \<in> set (payments st) \<Longrightarrow> pay_id p = pid \<Longrightarrow>
          pay_id (f p) = pay_id p \<and> pay_bill (f p) = pay_bill p \<and> pay_restaurant (f p) = pay_restaurant p
          \<and> amount_ves (f p) = amount_ves p
          \<and> (split_participant_id (f p) = split_participant_id p \<or> split_participant_id (f p) = None)
          \<and> (payment_checks p \<longrightarrow> payment_checks (f p))"
  shows "inv_ledger_side (put_payment pid f st)"
proof -
  have "map pay_id (update_where (\<lambda>p. pay_id p = pid) f (payments st)) = map pay_id (payments st)"
    using f by (simp add: update_where_def)
  hence "keyed pay_id (update_where (\<lambda>p. pay_id p = pid) f (payments st))"
    using assms(1) by (simp add: inv_ledger_side_def inv_keys_def keyed_def)
  moreover have "s < next_id st" if "split_participant_id (f p) = Some s" "p \<in> set (payments st)" "pay_id p = pid" for p s
    using that assms(1) f[OF that(2,3)] by (auto simp: inv_ledger_side_def inv_keys_def)
  ultimately show ?thesis
    using assms by (auto simp: inv_ledger_side_def inv_keys_def inv_fk_def inv_payments_def set_update_where)
qed

lemma get_payment_put:
  assumes "\<And>p. pay_id (f p) = pay_id p \<and> pay_restaurant (f p) = pay_restaurant p"
  shows "get_payment r k (put_payment pid f st)
      = map_option (\<lambda>p. if pay_id p = pid then f p else p) (get_payment r k st)"
proof -
  have "find_by (\<lambda>p. pay_id p = k \<and> pay_restaurant p = r) (update_where (\<lambda>p. pay_id p = pid) f t)
      = map_option (\<lambda>p. if pay_id p = pid then f p else p) (find_by (\<lambda>p. pay_id p = k \<and> pay_restaurant p = r) t)" for t
    using assms by (induction t) (auto simp: update_where_def find_by_def)
  thus ?thesis by (simp add: get_payment_def)
qed

lemma put_payment_totals:
  assumes "inv_ledger_side st" "p \<in> set (payments st)" "pay_id p = pid"
  shows "ledger_total k (put_payment pid f st) = ledger_total k st
      - (if pay_bill p = k \<and> counted (pay_status p) then amount_ves p else 0)
      + (if pay_bill (f p) = k \<and> counted (pay_status (f p)) then amount_ves (f p) else 0)"
    "share_credit s (put_payment pid f st) = share_credit s st
      - (if split_participant_id p = Some s \<and> counted (pay_status p) then amount_ves p else 0)
      + (if split_participant_id (f p) = Some s \<and> counted (pay_status (f p)) then amount_ves (f p) else 0)"
  using sum_over_update_key[of pay_id "payments st" p pid "\<lambda>x. pay_id x = pid" _ _ f] assms
  by (auto simp: ledger_total_def share_credit_def inv_ledger_side_def inv_keys_def)

text \<open>The ways a transition can succeed, and the store it leaves.\<close>

lemma transitionPayment_cases:
  assumes "transitionPayment rid pid to_s actor refusal st = Inr (m, st')"
  obtains (same) p where "get_payment rid pid st = Some p" "pay_status p = to_s" "st' = st"
      "m = \<lparr>mo_payment = p, mo_detached = None\<rparr>"
  | (moved) p where "get_payment rid pid st = Some p" "to_s \<in> set (ALLOWED_TRANSITIONS (pay_status p))"
      "pay_status p \<noteq> to_s" "to_s \<noteq> Succeeded \<or> split_participant_id p = None" "mo_detached m = None"
      "st' = appendTransition pid rid (Some (pay_status p)) to_s actor
               (put_payment pid (\<lambda>x. x\<lparr>pay_status := to_s\<rparr>) st)"
  | (shared) p sid where "get_payment rid pid st = Some p" "to_s \<in> set (ALLOWED_TRANSITIONS (pay_status p))"
      "pay_status p \<noteq> to_s" "to_s = Succeeded" "split_participant_id p = Some sid" "mo_detached m = None"
      "advanceShare sid rid (amount_ves p) (pay_bill p)
         (appendTransition pid rid (Some (pay_status p)) to_s actor
               (put_payment pid (\<lambda>x. x\<lparr>pay_status := to_s\<rparr>) st)) = Inr st'"
  | (detached) p sid e where "get_payment rid pid st = Some p" "to_s \<in> set (ALLOWED_TRANSITIONS (pay_status p))"
      "pay_status p \<noteq> to_s" "to_s = Succeeded" "split_participant_id p = Some sid" "mo_detached m = Some e"
      "refusal = DETACH" "SHARE_REFUSALS e"
      "advanceShare sid rid (amount_ves p) (pay_bill p)
         (appendTransition pid rid (Some (pay_status p)) to_s actor
               (put_payment pid (\<lambda>x. x\<lparr>pay_status := to_s\<rparr>) st)) = Inl e"
      "st' = put_payment pid (\<lambda>x. x\<lparr>split_participant_id := None\<rparr>)
         (appendTransition pid rid (Some (pay_status p)) to_s actor
               (put_payment pid (\<lambda>x. x\<lparr>pay_status := to_s\<rparr>) st))"
proof (cases "get_payment rid pid st")
  case None
  thus thesis using assms by (simp add: transitionPayment_def)
next
  case (Some p)
  let ?st2 = "appendTransition pid rid (Some (pay_status p)) to_s actor
               (put_payment pid (\<lambda>x. x\<lparr>pay_status := to_s\<rparr>) st)"
  show thesis
  proof (cases "pay_status p = to_s")
    case True
    hence "st' = st \<and> m = \<lparr>mo_payment = p, mo_detached = None\<rparr>"
      using Some assms by (auto simp: transitionPayment_def)
    thus thesis using same[OF Some True] by blast
  next
    case False
    hence al: "to_s \<in> set (ALLOWED_TRANSITIONS (pay_status p))"
      using Some assms by (simp add: transitionPayment_def split: if_splits)
    show thesis
    proof (cases "split_participant_id p = None \<or> to_s \<noteq> Succeeded")
      case True
      hence "st' = ?st2 \<and> mo_detached m = None"
        using Some assms False al
        by (auto simp: transitionPayment_def Let_def SETTLED_STATUSES_def split: option.splits)
      thus thesis using moved[OF Some al False] True by blast
    next
      case b: False
      then obtain sid where sid: "split_participant_id p = Some sid" "to_s = Succeeded" by auto
      show thesis
      proof (cases "advanceShare sid rid (amount_ves p) (pay_bill p) ?st2")
        case (Inr st3)
        hence "st' = st3 \<and> mo_detached m = None"
          using Some assms False al sid by (auto simp: transitionPayment_def Let_def SETTLED_STATUSES_def)
        thus thesis using shared[OF Some al False sid(2,1)] Inr by blast
      next
        case (Inl e)
        hence "refusal = DETACH \<and> SHARE_REFUSALS e \<and> mo_detached m = Some e
          \<and> st' = put_payment pid (\<lambda>x. x\<lparr>split_participant_id := None\<rparr>) ?st2"
          using Some assms False al sid
          by (auto simp: transitionPayment_def Let_def SETTLED_STATUSES_def split: if_splits)
        thus thesis using detached[OF Some al False sid(2,1)] Inl by blast
      qed
    qed
  qed
qed

lemma put_status_posted:
  assumes "inv_ledger_side st" "get_payment rid pid st = Some p" "\<not> counted (pay_status p)"
  shows "inv_ledger_side (put_payment pid (\<lambda>x. x\<lparr>pay_status := t\<rparr>) st)"
    "ledger_total k (put_payment pid (\<lambda>x. x\<lparr>pay_status := t\<rparr>) st)
       = ledger_total k st + (if k = pay_bill p \<and> counted t then amount_ves p else 0)"
    "share_credit s (put_payment pid (\<lambda>x. x\<lparr>pay_status := t\<rparr>) st)
       = share_credit s st + (if split_participant_id p = Some s \<and> counted t then amount_ves p else 0)"
proof -
  note G = get_payment_SomeD[OF assms(2)]
  show "inv_ledger_side (put_payment pid (\<lambda>x. x\<lparr>pay_status := t\<rparr>) st)"
    by (rule put_payment_side[OF assms(1)]) (simp add: payment_checks_def)
qed (use put_payment_totals[OF assms(1), of p pid] get_payment_SomeD[OF assms(2)] assms(3) in auto)

lemma transition_settles:
  assumes "inv_ledger_side st" "get_payment rid pid st = Some p" "\<not> counted (pay_status p)"
    and "transitionPayment rid pid Succeeded actor refusal st = Inr (m, st')"
  shows "posted (if mo_detached m = None then split_participant_id p else None) (pay_bill p) (amount_ves p) st st'"
    "items st' = items st" "next_id st' = next_id st"
proof -
  have "posted (if mo_detached m = None then split_participant_id p else None) (pay_bill p) (amount_ves p) st st'
      \<and> items st' = items st \<and> next_id st' = next_id st"
    using assms(4)
  proof (cases rule: transitionPayment_cases)
    case (same q)
    thus ?thesis using assms(2,3) by (simp add: counted_def)
  next
    case (moved q)
    hence "q = p" using assms(2) by simp
    thus ?thesis using moved put_status_posted[OF assms(1-3)] by (auto simp: posted_def counted_def)
  next
    case (shared q sid)
    note A = advanceShare_credited[OF shared(7)]
    have q: "q = p" using assms(2) shared(1) by simp
    have "inv_ledger_side st'"
      by (rule inv_keys_credited[OF _ A(1,3,2,4,5)]) (simp add: put_status_posted(1)[OF assms(1-3)])
    moreover have "ledger_total k st' = ledger_total k (put_payment pid (\<lambda>x. x\<lparr>pay_status := Succeeded\<rparr>) st)"
      "share_credit k st' = share_credit k (put_payment pid (\<lambda>x. x\<lparr>pay_status := Succeeded\<rparr>) st)" for k
      using A(4) shared(4) by (simp_all add: ledger_total_def share_credit_def)
    ultimately show ?thesis using shared q A put_status_posted(2,3)[OF assms(1-3)]
      by (auto simp: posted_def counted_def credited_def)
  next
    case (detached q sid e)
    let ?st1 = "put_payment pid (\<lambda>x. x\<lparr>pay_status := Succeeded\<rparr>) st"
    let ?st2 = "appendTransition pid rid (Some (pay_status q)) Succeeded actor ?st1"
    have q: "q = p" using assms(2) detached(1) by simp
    note G = get_payment_SomeD[OF assms(2)]
    have side: "inv_ledger_side ?st2" using put_status_posted(1)[OF assms(1-3)] by simp
    let ?p' = "p\<lparr>pay_status := Succeeded\<rparr>"
    have mem: "?p' \<in> set (payments ?st2)" "pay_id ?p' = pid"
      using G by (auto simp: set_update_where image_iff intro!: bexI[of _ p])
    have "inv_ledger_side (put_payment pid (\<lambda>x. x\<lparr>split_participant_id := None\<rparr>) ?st2)"
      by (rule put_payment_side[OF side]) (simp add: payment_checks_def)
    thus ?thesis
      using detached q put_payment_totals[OF side mem, of _ "\<lambda>x. x\<lparr>split_participant_id := None\<rparr>"]
        put_status_posted(2,3)[OF assms(1-3)]
      by (auto simp: posted_def counted_def)
  qed
  thus "posted (if mo_detached m = None then split_participant_id p else None) (pay_bill p) (amount_ves p) st st'"
    "items st' = items st" "next_id st' = next_id st" by simp_all
qed

lemma transition_moves_nothing:
  assumes "inv_ledger_side st" "transitionPayment rid pid t actor refusal st = Inr (m, st')"
    and "\<not> counted t" "t \<noteq> Refunded"
  shows "posted None bid 0 st st'"
  using assms(2)
proof (cases rule: transitionPayment_cases)
  case (same q)
  thus ?thesis using assms(1) by (auto simp: posted_def)
next
  case (moved q)
  have "\<not> counted (pay_status q)" using moved(2) assms(3,4) by (cases "pay_status q") (auto simp: counted_def)
  thus ?thesis using moved put_status_posted[OF assms(1) moved(1)] assms(3) by (auto simp: posted_def)
qed (use assms(3) in \<open>auto simp: counted_def\<close>)

section \<open>The history stays a legal run\<close>

lemma inv_log_cong:
  "inv_log st \<Longrightarrow> payments st' = payments st \<Longrightarrow> transitions st' = transitions st \<Longrightarrow> next_id st \<le> next_id st'
     \<Longrightarrow> inv_log st'"
  by (auto simp: inv_log_def history_def intro: less_le_trans)

lemma history_append:
  "history k (appendTransition pid rid f t a st)
     = history k st @ (if k = pid then [\<lparr>tr_payment = pid, tr_restaurant = rid, tr_from = f, tr_to = t, tr_actor = a\<rparr>] else [])"
  by (simp add: history_def appendTransition_def insert_row_def)

lemma history_fresh: "inv_log st \<Longrightarrow> history (next_id st) st = []"
  by (auto simp: inv_log_def history_def filter_empty_conv)

lemma inv_log_record:
  assumes "inv_log st" "inv_ledger_side st" "recordPayment p0 st = Inr (p, st')"
    and "pay_status p0 = Pending \<or> pay_status p0 = Succeeded"
  shows "inv_log st'"
proof -
  note R = recordPayment_posted[OF assms(2,3,4)]
  let ?p = "p0\<lparr>pay_id := next_id st\<rparr>"
  let ?t = "\<lparr>tr_payment = next_id st, tr_restaurant = pay_restaurant p0, tr_from = None,
     tr_to = pay_status p0, tr_actor = payer_type p0\<rparr>"
  obtain st1 where ins: "insert_payment ?p (st\<lparr>next_id := next_id st + 1\<rparr>) = Inr st1"
    and rest: "(let st2 = appendTransition (pay_id ?p) (pay_restaurant ?p) None (pay_status ?p) (payer_type ?p) st1
      in case split_participant_id ?p of
           Some sid \<Rightarrow>
             if pay_status ?p \<in> SETTLED_STATUSES
             then and_then (advanceShare sid (pay_restaurant ?p) (amount_ves ?p) (pay_bill ?p) st2) (\<lambda>st3. Inr (?p, st3))
             else Inr (?p, st2)
         | None \<Rightarrow> Inr (?p, st2)) = Inr (p, st')"
    using assms(3) unfolding recordPayment_def Let_def and_then_Inr_iff by blast
  note I = insert_payment_posted[OF assms(2) ins]
  have tr: "transitions st' = transitions st @ [?t]"
    using rest I by (auto simp: Let_def result_simps appendTransition_def insert_row_def
        split: option.splits if_splits dest!: advanceShare_credited(6))
  have h: "history k st' = history k st @ (if k = next_id st then [?t] else [])" for k
    by (simp add: history_def tr)
  have old: "replay None (history (pay_id q) st') = Some (Some (pay_status q))" if "q \<in> set (payments st)" for q
  proof -
    have "replay None (history (pay_id q) st) = Some (Some (pay_status q))"
      using that assms(1) by (simp add: inv_log_def)
    moreover have "pay_id q \<noteq> next_id st" using that assms(2) by (auto simp: inv_ledger_side_def inv_keys_def)
    ultimately show ?thesis by (simp add: h)
  qed
  have new: "replay None (history (pay_id p) st') = Some (Some (pay_status p))"
    using R(1) history_fresh[OF assms(1)] by (simp add: h)
  have "\<forall>q \<in> set (payments st'). replay None (history (pay_id q) st') = Some (Some (pay_status q))"
    using old new by (simp add: R(6))
  moreover have "\<forall>x \<in> set (transitions st'). tr_payment x < next_id st'"
    using assms(1) by (auto simp: inv_log_def tr R(4) intro: less_SucI)
  moreover have "tr_restaurant x = pay_restaurant q" if "q \<in> set (payments st')" "x \<in> set (history (pay_id q) st')" for q x
  proof (cases "q = p")
    case True
    thus ?thesis using that(2) R(1) history_fresh[OF assms(1)] by (simp add: h)
  next
    case False
    hence q: "q \<in> set (payments st)" using that(1) by (simp add: R(6))
    hence "pay_id q \<noteq> next_id st" using assms(2) by (auto simp: inv_ledger_side_def inv_keys_def)
    thus ?thesis using assms(1) q that(2) by (simp add: inv_log_def h)
  qed
  ultimately show ?thesis by (simp add: inv_log_def)
qed

lemma inv_log_move:
  assumes "inv_log st" "keyed pay_id (payments st)" "get_payment rid pid st = Some p"
    "t \<in> set (ALLOWED_TRANSITIONS (pay_status p))" "pid < next_id st"
  shows "inv_log (appendTransition pid rid (Some (pay_status p)) t a (put_payment pid (\<lambda>x. x\<lparr>pay_status := t\<rparr>) st))"
proof -
  note G = get_payment_SomeD[OF assms(3)]
  have u: "q = p" if "q \<in> set (payments st)" "pay_id q = pid" for q
    by (rule keyed_unique[OF assms(2) that(1)]) (use that(2) G in simp_all)
  have h: "history k (put_payment pid (\<lambda>x. x\<lparr>pay_status := t\<rparr>) st) = history k st" for k
    by (simp add: history_def)
  let ?st = "appendTransition pid rid (Some (pay_status p)) t a (put_payment pid (\<lambda>x. x\<lparr>pay_status := t\<rparr>) st)"
  have "replay None (history (pay_id q) ?st) = Some (Some (pay_status q))" if q: "q \<in> set (payments ?st)" for q
  proof -
    obtain q0 where q0: "q0 \<in> set (payments st)" "q = (if pay_id q0 = pid then q0\<lparr>pay_status := t\<rparr> else q0)"
      using q by (auto simp: set_update_where)
    have r: "replay None (history (pay_id q0) st) = Some (Some (pay_status q0))"
      using assms(1) q0(1) by (simp add: inv_log_def)
    show ?thesis
    proof (cases "pay_id q0 = pid")
      case True
      thus ?thesis using u[OF q0(1) True] r q0(2) assms(4) by (simp add: history_append h replay_append)
    next
      case False
      thus ?thesis using r q0(2) by (simp add: history_append h)
    qed
  qed
  moreover have "\<forall>x \<in> set (transitions ?st). tr_payment x < next_id ?st"
    using assms(1,5) by (auto simp: inv_log_def appendTransition_def)
  moreover have "tr_restaurant x = pay_restaurant q" if q: "q \<in> set (payments ?st)" and x: "x \<in> set (history (pay_id q) ?st)" for q x
  proof -
    obtain q0 where q0: "q0 \<in> set (payments st)" "pay_id q = pay_id q0" "pay_restaurant q = pay_restaurant q0"
      using q by (auto simp: set_update_where)
    have old: "\<forall>x \<in> set (history (pay_id q0) st). tr_restaurant x = pay_restaurant q0" using assms(1) q0(1) by (simp add: inv_log_def)
    show ?thesis using x old u[OF q0(1)] G q0(2,3) by (auto simp: history_append h split: if_splits)
  qed
  ultimately show ?thesis by (simp add: inv_log_def)
qed

lemma inv_log_put:
  assumes "\<And>p. pay_id (f p) = pay_id p \<and> pay_status (f p) = pay_status p \<and> pay_restaurant (f p) = pay_restaurant p" "inv_log st"
  shows "inv_log (put_payment pid f st)"
proof -
  have "history k (put_payment pid f st) = history k st" for k by (simp add: history_def)
  thus ?thesis using assms by (auto simp: inv_log_def set_update_where)
qed

lemma inv_log_transition:
  assumes "inv_log st" "inv_ledger_side st" "transitionPayment rid pid t actor refusal st = Inr (m, st')"
  shows "inv_log st'"
proof -
  have k: "keyed pay_id (payments st)" and ids: "\<And>p. p \<in> set (payments st) \<Longrightarrow> pay_id p < next_id st"
    using assms(2) by (auto simp: inv_ledger_side_def inv_keys_def)
  have lt: "pid < next_id st" if "get_payment rid pid st = Some p" for p
    using ids get_payment_SomeD[OF that] by blast
  show ?thesis
    using assms(3)
  proof (cases rule: transitionPayment_cases)
    case (same p)
    thus ?thesis using assms(1) by simp
  next
    case (moved p)
    thus ?thesis using inv_log_move[OF assms(1) k moved(1,2) lt] by simp
  next
    case (shared p sid)
    note A = advanceShare_credited[OF shared(7)]
    show ?thesis
      by (rule inv_log_cong[OF inv_log_move[OF assms(1) k shared(1,2) lt[OF shared(1)]]]) (use A in simp_all)
  next
    case (detached p sid e)
    show ?thesis
      using inv_log_move[OF assms(1) k detached(1,2) lt[OF detached(1)], of actor]
      unfolding detached(10) by (intro inv_log_put) simp_all
  qed
qed

section \<open>The contract of a transaction on the store\<close>

text \<open>Between two commits a bill only moves forward: what was paid never shrinks, a
  bill keeps its table, and one that has left OPEN never changes its state or its
  payments again.\<close>

definition forward :: "bill \<Rightarrow> bill \<Rightarrow> bool" where
  "forward b b' \<longleftrightarrow> bill_id b' = bill_id b \<and> bill_restaurant b' = bill_restaurant b \<and> bill_table b' = bill_table b
     \<and> amount_paid_ves b \<le> amount_paid_ves b'
     \<and> (bill_state b \<noteq> BillOpen \<longrightarrow> bill_state b' = bill_state b \<and> amount_paid_ves b' = amount_paid_ves b)"

definition advances :: "store \<Rightarrow> store \<Rightarrow> bool" where
  "advances st st' \<longleftrightarrow> list_all2 forward (bills st) (bills st')"

definition sound :: "store \<Rightarrow> bool" where
  "sound st \<longleftrightarrow> store_inv st \<and> inv_log st \<and> items_agree st"

lemma forward_refl [simp]: "forward b b"
  by (simp add: forward_def)

lemma forward_trans: "forward a b \<Longrightarrow> forward b c \<Longrightarrow> forward a c"
  by (auto simp: forward_def)

lemma advances_refl [simp]: "advances st st"
  by (simp add: advances_def list_all2_refl)

lemma advances_trans: "advances st st1 \<Longrightarrow> advances st1 st2 \<Longrightarrow> advances st st2"
  unfolding advances_def by (rule list_all2_trans[OF forward_trans])

lemma advances_same_bills: "bills st' = bills st \<Longrightarrow> advances st st'"
  by (simp add: advances_def list_all2_refl)

lemma advances_update:
  assumes "bills st' = update_where (\<lambda>b. bill_id b = bid) f (bills st)"
    "\<And>b. b \<in> set (bills st) \<Longrightarrow> bill_id b = bid \<Longrightarrow> forward b (f b)"
  shows "advances st st'"
  using assms by (simp add: advances_def update_where_def list_all2_map2 list_all2_same)

lemma advances_row:
  assumes "advances st st'" "b \<in> set (bills st)"
  shows "\<exists>b' \<in> set (bills st'). forward b b'"
proof -
  obtain i where "i < length (bills st)" "b = bills st ! i" using assms(2) by (auto simp: in_set_conv_nth)
  thus ?thesis using assms(1) by (auto simp: advances_def list_all2_conv_all_nth intro!: bexI[of _ "bills st' ! i"])
qed

locale rail =
  fixes step :: "'a tx"
  assumes keeps_sound: "sound st \<Longrightarrow> step st = Inr (r, st') \<Longrightarrow> sound st'"
    and only_advances: "sound st \<Longrightarrow> step st = Inr (r, st') \<Longrightarrow> advances st st'"
begin

text \<open>What a client that ignores refusals (a sweep over many payments) leaves.\<close>

definition attempt :: "store \<Rightarrow> store" where
  "attempt st = (case step st of Inl e \<Rightarrow> st | Inr (r, st') \<Rightarrow> st')"

lemma attempt_sound: "sound st \<Longrightarrow> sound (attempt st) \<and> advances st (attempt st)"
  by (cases "step st") (auto simp: attempt_def keeps_sound only_advances split: prod.split)

lemma ledger_agrees:
  assumes "sound st" "step st = Inr (r, st')"
  shows "payment_ledger_drift st' = []" "bill_split_share_drift st' = []"
  using keeps_sound[OF assms] by (simp_all add: sound_def store_inv_def inv_ledger_def inv_shares_def)

end

lemma recalculate_advances:
  assumes "recalculateTotals b st = Inr (b', st')"
  shows "advances st st'" "payments st' = payments st" "transitions st' = transitions st" "next_id st' = next_id st"
proof -
  obtain t st1 where w: "update_bill (bill_id b) (write_totals t) st = Inr st1"
    and st': "st' = (if tot_ves t \<noteq> total_due_ves b then markSplitsStale (bill_id b) st1 else st1)"
    using assms by (rule recalculateTotals_InrD)
  note U = update_bill_InrD[OF w]
  have "bills st' = update_where (\<lambda>c. bill_id c = bill_id b) (write_totals t) (bills st)"
    using U st' by (auto simp: markSplitsStale_def)
  thus "advances st st'" by (rule advances_update) (simp add: write_totals_def forward_def)
  show "payments st' = payments st" "transitions st' = transitions st" "next_id st' = next_id st"
    using U st' by (auto simp: markSplitsStale_def)
qed

lemma add_lines_keeps:
  "add_lines rid b order ls st = Inr (added, st') \<Longrightarrow> bills st' = bills st \<and> payments st' = payments st
     \<and> transitions st' = transitions st \<and> next_id st \<le> next_id st'"
proof (induction ls arbitrary: st added)
  case (Cons l ls)
  then obtain i st1 added1 where s: "snapshot_line rid b order l st = Inr (i, st1)"
      "add_lines rid b order ls st1 = Inr (added1, st')"
    by (auto simp: result_simps)
  show ?case using Cons.IH[OF s(2)] snapshot_line_InrD(1)[OF s(1)] by simp
qed simp

lemma order_rail:
  assumes "sound st" "addItemsInTransaction rid b ls order st = Inr (r, st')"
  shows "sound st' \<and> advances st st'"
proof -
  obtain added st1 b' where a: "add_lines rid b order ls st = Inr (added, st1)"
    and rc: "recalculateTotals b st1 = Inr (b', st')"
    using assms(2) by (auto simp: addItemsInTransaction_def result_simps)
  note A = add_lines_keeps[OF a] and R = recalculate_advances[OF rc]
  have "inv_log st'" by (rule inv_log_cong[of st]) (use assms(1) A R(2-4) in \<open>simp_all add: sound_def\<close>)
  moreover have "advances st st'"
    by (rule advances_trans[OF advances_same_bills R(1)]) (use A in simp)
  moreover have "store_inv st'" "items_agree st'"
    using assms(1) inv_addItemsInTransaction[OF _ assms(2)] items_agree_addItemsInTransaction[OF _ assms(2)]
    by (simp_all add: sound_def)
  ultimately show ?thesis by (simp add: sound_def)
qed

interpretation add_order: rail "addItemsInTransaction rid b ls order" for rid b ls order
  by unfold_locales (use order_rail in blast)+

interpretation add_item: rail "addItem rid bid pid q" for rid bid pid q
proof unfold_locales
  fix st r st' assume *: "sound st" "addItem rid bid pid q st = Inr (r, st')"
  obtain i b' where r: "r = (i, b')" by force
  obtain b where "addItemsInTransaction rid b [\<lparr>ol_product = pid, ol_quantity = q\<rparr>] None st = Inr (([i], b'), st')"
    using *(2) unfolding r by (rule addItem_as_order)
  thus "sound st'" "advances st st'" using order_rail[OF *(1)] by blast+
qed

lemma edit_rail:
  assumes "sound st" "recalculateTotals b (st\<lparr>items := its\<rparr>) = Inr (r, st')" "items_agree st'"
  shows "sound st' \<and> advances st st'"
proof -
  note R = recalculate_advances[OF assms(2)]
  have "store_inv (st\<lparr>items := its\<rparr>)"
    by (rule inv_cong[of _ st]) (use assms(1) in \<open>simp_all add: sound_def\<close>)
  hence "store_inv st'" by (rule inv_recalculate) (rule assms(2))
  moreover have "inv_log st'" by (rule inv_log_cong[of st]) (use assms(1) R(2-4) in \<open>simp_all add: sound_def\<close>)
  moreover have "advances st st'"
    by (rule advances_trans[OF advances_same_bills R(1)]) simp
  ultimately show ?thesis using assms(3) by (simp add: sound_def)
qed

interpretation set_quantity: rail "updateQuantity rid bid iid q" for rid bid iid q
proof unfold_locales
  fix st r st' assume *: "sound st" "updateQuantity rid bid iid q st = Inr (r, st')"
  obtain b its where "recalculateTotals b (st\<lparr>items := its\<rparr>) = Inr (r, st')"
    using *(2) by (auto simp: updateQuantity_def Let_def result_simps split: if_splits)
  thus "sound st'" "advances st st'"
    using edit_rail[OF *(1)] items_agree_updateQuantity[OF _ *(2)] *(1) by (auto simp: sound_def)
qed

interpretation remove_item: rail "removeItem rid bid iid" for rid bid iid
proof unfold_locales
  fix st r st' assume *: "sound st" "removeItem rid bid iid st = Inr (r, st')"
  obtain b its where "recalculateTotals b (st\<lparr>items := its\<rparr>) = Inr (r, st')"
    using *(2) by (auto simp: removeItem_def Let_def result_simps split: if_splits)
  thus "sound st'" "advances st st'"
    using edit_rail[OF *(1)] items_agree_removeItem[OF _ *(2)] *(1) by (auto simp: sound_def)
qed

text \<open>The split operations touch neither bills, lines nor the ledger.\<close>

lemma sound_same_ledger:
  assumes "sound st" "store_inv st'" "bills st' = bills st" "items st' = items st" "payments st' = payments st"
    "transitions st' = transitions st" "next_id st \<le> next_id st'"
  shows "sound st' \<and> advances st st'"
proof -
  have "lines_of k st' = lines_of k st" for k by (simp add: lines_of_def assms(4))
  thus ?thesis using assms inv_log_cong[of st st'] advances_same_bills[of st' st]
    by (auto simp: sound_def items_agree_def)
qed

interpretation void_split: rail "voidSplit rid bid spid" for rid bid spid
proof unfold_locales
  fix st r st' assume *: "sound st" "voidSplit rid bid spid st = Inr (r, st')"
  have "discardUnpaidSplit rid bid spid st = Inr st'"
    using *(2) by (auto simp: voidSplit_def result_simps split: option.splits if_splits)
  note D = discard_InrD(1)[OF this]
  show "sound st'" "advances st st'"
    using sound_same_ledger[OF *(1) inv_voidSplit[OF _ *(2)]] *(1) D by (auto simp: sound_def)
qed

interpretation name_share: rail "nameShare rid bid ref name" for rid bid ref name
proof unfold_locales
  fix st r st' assume *: "sound st" "nameShare rid bid ref name st = Inr (r, st')"
  obtain ss where "st' = st\<lparr>shares := ss\<rparr>"
    using *(2) by (auto simp: nameShare_def Let_def split: option.splits if_splits)
  thus "sound st'" "advances st st'"
    using sound_same_ledger[OF *(1) inv_nameShare[OF _ *(2)]] *(1) by (auto simp: sound_def)
qed

interpretation create_split: rail "createSplit rid b its req creator" for rid b its req creator
proof unfold_locales
  fix st spid st' assume *: "sound st" "createSplit rid b its req creator st = Inr (spid, st')"
  obtain pv st1 st2 st3 x where "preview b its req = Inr pv" and live: "(case live_split rid (bill_id b) st of None \<Rightarrow> Inr st
       | Some live \<Rightarrow> discardUnpaidSplit rid (bill_id b) (split_id live) st) = Inr st1"
    and ins: "insert_split \<lparr>split_id = spid, split_restaurant = rid, split_bill = bill_id b,
        split_mode = req_mode req, basis_ves = pv_outstanding_ves pv,
        split_state = Split_Active, created_by_type = creator\<rparr> st1 = Inr st2"
    and sh: "insert_shares rid spid (pv_allocations pv) st2 = Inr st3"
    and st': "st' = st3\<lparr>split_items := x\<rparr>"
    using *(2) by (rule createSplit_InrD)
  have "bills st1 = bills st \<and> items st1 = items st \<and> payments st1 = payments st
      \<and> transitions st1 = transitions st \<and> next_id st1 = next_id st"
    using live by (auto dest!: discard_InrD(1) split: option.splits)
  moreover have "bills st' = bills st1 \<and> items st' = items st1 \<and> payments st' = payments st1
      \<and> transitions st' = transitions st1 \<and> next_id st1 \<le> next_id st'"
    using insert_split_InrD(1)[OF ins] sh st' by (auto elim!: insert_shares_InrD)
  ultimately show "sound st'" "advances st st'"
    using sound_same_ledger[OF *(1) inv_createSplit[OF _ *(2)]] *(1) by (auto simp: sound_def)
qed

section \<open>What a move does to the payments\<close>

lemma sound_dinner: "sound dinner_store"
  using inv_dinner
  by (simp add: sound_def inv_log_def items_agree_def lines_of_def dinner_store_def empty_store_def dinner_bill_def
      dinner_line_def item_subtotal_def)

lemma get_payment_append [simp]: "get_payment r k (appendTransition pid rid f t a st) = get_payment r k st"
  by (simp add: get_payment_def)

lemma transition_payment:
  assumes "transitionPayment rid pid t actor refusal st = Inr (m, st')"
  shows "\<exists>p q. get_payment rid pid st = Some p \<and> get_payment rid pid st' = Some q \<and> pay_status q = t
      \<and> pay_method q = pay_method p \<and> amount_ves q = amount_ves p \<and> pay_bill q = pay_bill p"
    and "k \<noteq> pid \<Longrightarrow> get_payment r k st' = get_payment r k st"
proof -
  have one: "get_payment rid pid (put_payment pid f st0) = map_option f (get_payment rid pid st0)"
    if "\<And>x. pay_id (f x) = pay_id x \<and> pay_restaurant (f x) = pay_restaurant x" for f st0
    unfolding get_payment_put[OF that] by (rule map_option_cong[OF refl]) (auto simp: get_payment_def dest: find_by_SomeD)
  have other: "get_payment r k (put_payment pid f st0) = get_payment r k st0"
    if "\<And>x. pay_id (f x) = pay_id x \<and> pay_restaurant (f x) = pay_restaurant x" "k \<noteq> pid" for f st0
    unfolding get_payment_put[OF that(1)] using that(2)
    by (cases "get_payment r k st0") (auto dest: get_payment_SomeD)
  from assms have "(\<exists>p q. get_payment rid pid st = Some p \<and> get_payment rid pid st' = Some q \<and> pay_status q = t
      \<and> pay_method q = pay_method p \<and> amount_ves q = amount_ves p \<and> pay_bill q = pay_bill p)
      \<and> (k \<noteq> pid \<longrightarrow> get_payment r k st' = get_payment r k st)"
  proof (cases rule: transitionPayment_cases)
    case (same p)
    thus ?thesis by auto
  next
    case (moved p)
    show ?thesis unfolding moved(6) using moved(1) by (auto simp: one other)
  next
    case (shared p sid)
    note A = advanceShare_credited(4)[OF shared(7)]
    have g: "get_payment rr kk st' = get_payment rr kk (put_payment pid (\<lambda>x. x\<lparr>pay_status := t\<rparr>) st)" for rr kk
      using A by (simp add: get_payment_def)
    show ?thesis unfolding g using shared(1) by (auto simp: one other)
  next
    case (detached p sid e)
    show ?thesis unfolding detached(10) using detached(1) by (auto simp: one other)
  qed
  thus "\<exists>p q. get_payment rid pid st = Some p \<and> get_payment rid pid st' = Some q \<and> pay_status q = t
      \<and> pay_method q = pay_method p \<and> amount_ves q = amount_ves p \<and> pay_bill q = pay_bill p"
    "k \<noteq> pid \<Longrightarrow> get_payment r k st' = get_payment r k st" by blast+
qed

lemma get_payment_same_rows: "payments st' = payments st \<Longrightarrow> get_payment r k st' = get_payment r k st"
  by (simp add: get_payment_def)

definition reference_row :: "payment \<Rightarrow> nat \<times> string option \<times> string option" where
  "reference_row p = (pay_id p, pay_provider p, provider_payment_id p)"

lemma reference_row_simps [simp]:
  "reference_row (p\<lparr>pay_status := t\<rparr>) = reference_row p" "reference_row (p\<lparr>split_participant_id := so\<rparr>) = reference_row p"
  by (simp_all add: reference_row_def)

lemma transition_keeps_references:
  assumes "transitionPayment rid pid t actor refusal st = Inr (m, st')"
  shows "map reference_row (payments st') = map reference_row (payments st)"
  using assms
proof (cases rule: transitionPayment_cases)
  case (shared p sid)
  show ?thesis unfolding advanceShare_credited(4)[OF shared(7)] by (simp add: map_update_where)
next
  case (moved p)
  show ?thesis unfolding moved(6) by (simp add: map_update_where)
next
  case (detached p sid e)
  show ?thesis unfolding detached(10) by (simp add: map_update_where)
qed simp

lemma reference_rows_transfer:
  assumes "map reference_row ps = map reference_row qs" "x \<in> set ps"
  shows "\<exists>y \<in> set qs. pay_id y = pay_id x \<and> pay_provider y = pay_provider x \<and> provider_payment_id y = provider_payment_id x"
proof -
  have "reference_row x \<in> reference_row ` set qs" using assms by (metis image_eqI image_set)
  thus ?thesis by (auto simp: reference_row_def)
qed

end
