(* ===== verification/Settlement.thy ===== *)
theory Settlement
  imports Payment_Ledger
begin

text \<open>
  Applying money to a bill: src/services/locks.js.  \<open>applyToBill\<close> is the one way a
  bill's settled total moves; \<open>processSplitPayment\<close> is the till rail.  The lemmas
  show that a bill closes exactly when the balance reaches zero, is never overpaid,
  and that the till rail is sound (the ledger and the caches agree afterwards).
\<close>

section \<open>Amounts off the wire\<close>

text \<open>\<open>BigInt(value)\<close> for the runtime types an amount arrives as; a string is
  trimmed, may carry a sign, and an empty one is zero.  The radix prefixes
  \<open>0x\<close>, \<open>0o\<close> and \<open>0b\<close> read unsigned digits of that radix.\<close>

definition radix_digit :: "char \<Rightarrow> nat" where
  "radix_digit c =
     (let n = (of_char c :: nat) in
      if 48 \<le> n \<and> n \<le> 57 then n - 48
      else if 97 \<le> n \<and> n \<le> 102 then n - 87
      else if 65 \<le> n \<and> n \<le> 70 then n - 55 else 99)"

definition read_radix :: "nat \<Rightarrow> string \<Rightarrow> int option" where
  "read_radix r s =
     (if s \<noteq> [] \<and> list_all (\<lambda>c. radix_digit c < r) s
      then Some (int (foldl (\<lambda>acc c. r * acc + radix_digit c) 0 s)) else None)"

definition read_signed :: "string \<Rightarrow> int option" where
  "read_signed s =
     (case s of
        [] \<Rightarrow> Some 0
      | c # cs \<Rightarrow>
          if c = CHR ''-'' then (if digits_only cs then Some (- int (read_nat cs)) else None)
          else if c = CHR ''+'' then (if digits_only cs then Some (int (read_nat cs)) else None)
          else if digits_only s then Some (int (read_nat s)) else None)"

definition js_bigint_of_string :: "string \<Rightarrow> int option" where
  "js_bigint_of_string str =
     (let s = trim str in
      case s of
        c # d # ds \<Rightarrow>
          if c = CHR ''0'' \<and> d \<in> {CHR ''x'', CHR ''X''} then read_radix 16 ds
          else if c = CHR ''0'' \<and> d \<in> {CHR ''o'', CHR ''O''} then read_radix 8 ds
          else if c = CHR ''0'' \<and> d \<in> {CHR ''b'', CHR ''B''} then read_radix 2 ds
          else read_signed s
      | _ \<Rightarrow> read_signed s)"

fun js_bigint :: "js_value \<Rightarrow> int option" where
  "js_bigint (JBigInt n) = Some n"
| "js_bigint (JInt n) = Some n"
| "js_bigint (JString s) = js_bigint_of_string s"
| "js_bigint _ = None"

definition unsafe_number :: "js_value \<Rightarrow> bool" where
  "unsafe_number v = (case v of JInt n \<Rightarrow> \<not> is_safe_integer n | JFrac s \<Rightarrow> True | _ \<Rightarrow> False)"

definition toPaymentAmount :: "js_value \<Rightarrow> int option" where
  "toPaymentAmount v =
     (if unsafe_number v then None
      else case js_bigint v of None \<Rightarrow> None | Some a \<Rightarrow> if a > 0 then Some a else None)"

definition toTipAmount :: "js_value \<Rightarrow> int option" where
  "toTipAmount v =
     (if v = JNull \<or> v = JUndefined then Some 0
      else if unsafe_number v then None
      else case js_bigint v of None \<Rightarrow> None | Some a \<Rightarrow> if a \<ge> 0 then Some a else None)"

text \<open>\<open>formatRate\<close>; \<open>fallback\<close> is the double path for texts that are not plain
  decimals (\<open>Number(text).toFixed(8)\<close>, or null).\<close>

definition formatRate :: "(string \<Rightarrow> string option) \<Rightarrow> string option \<Rightarrow> string option" where
  "formatRate fallback v =
     (case v of
        None \<Rightarrow> None
      | Some raw \<Rightarrow>
          let text = trim raw;
              body = (case text of c # cs \<Rightarrow> if c = CHR ''-'' then cs else text | [] \<Rightarrow> []);
              (whole, fraction) = split_point body
          in if digits_only whole \<and> list_all is_digit fraction
             then Some (take (length text - length body) text @ whole @ ''.'' @ pad_fraction fraction)
             else fallback text)"

section \<open>applyToBill\<close>

record applied =
  ap_bill :: bill
  ap_total_due :: int
  ap_new_amount_paid :: int
  ap_new_status :: bill_status

definition applyToBill :: "nat \<Rightarrow> nat \<Rightarrow> int \<Rightarrow> applied tx" where
  "applyToBill rid bid amount st =
     (case get_bill rid bid st of
        None \<Rightarrow> Inl (Bill_E Bill_Not_Found)
      | Some b \<Rightarrow>
         if bill_state b \<noteq> BillOpen then Inl (Bill_E (Bill_Not_Open (bill_state b)))
         else
           let totalDue = total_due_ves b;
               newAmountPaid = amount_paid_ves b + amount
           in if newAmountPaid > totalDue
              then Inl (Pay_E (Payment_Exceeds_Balance (totalDue - amount_paid_ves b)))
              else
                let newStatus = (if newAmountPaid = totalDue then BillClosed else BillOpen) in
                and_then (update_bill bid (\<lambda>x. x\<lparr>amount_paid_ves := newAmountPaid, bill_state := newStatus\<rparr>) st)
                  (\<lambda>st1. Inr (\<lparr>ap_bill = b, ap_total_due = totalDue, ap_new_amount_paid = newAmountPaid,
                             ap_new_status = newStatus\<rparr>, st1)))"

record settlement_view =
  sv_id :: nat
  sv_status :: bill_status
  sv_total_due :: int
  sv_amount_paid :: int
  sv_remaining :: int
  sv_display_currency :: string

definition settlementView :: "applied \<Rightarrow> settlement_view" where
  "settlementView a = \<lparr>sv_id = bill_id (ap_bill a), sv_status = ap_new_status a,
     sv_total_due = ap_total_due a, sv_amount_paid = ap_new_amount_paid a,
     sv_remaining = ap_total_due a - ap_new_amount_paid a,
     sv_display_currency = bill_currency (ap_bill a)\<rparr>"

record receipt =
  rc_view :: settlement_view
  rc_payment :: nat
  rc_tip_ves :: int
  rc_total_charged_ves :: int

text \<open>A payment row with everything a rail does not set left at its default.\<close>

record till_payment =
  tp_bill :: nat
  tp_amount :: js_value
  tp_key :: "string option"
  tp_method :: payment_method
  tp_payer_type :: actor_type
  tp_payer_id :: "nat option"
  tp_share :: "nat option"
  tp_tip :: js_value

definition processSplitPayment :: "nat \<Rightarrow> till_payment \<Rightarrow> receipt tx" where
  "processSplitPayment rid r st =
     (case toPaymentAmount (tp_amount r) of
        None \<Rightarrow> Inl (General Invalid_Amount)
      | Some amount \<Rightarrow>
         (case toTipAmount (tp_tip r) of
            None \<Rightarrow> Inl (General Invalid_Amount)
          | Some tip \<Rightarrow>
             and_then (applyToBill rid (tp_bill r) amount st) (\<lambda>(a, st1).
             and_then (recordPayment ((blank_payment rid (bill_id (ap_bill a)) amount tip Succeeded (tp_method r))
                         \<lparr>pay_key := tp_key r, payer_type := tp_payer_type r, payer_id := tp_payer_id r,
                          split_participant_id := tp_share r\<rparr>) st1) (\<lambda>(p, st2).
             Inr (\<lparr>rc_view = settlementView a, rc_payment = pay_id p, rc_tip_ves = tip_ves p,
                   rc_total_charged_ves = amount + tip_ves p\<rparr>, st2)))))"

section \<open>What applying money guarantees\<close>

lemma toPaymentAmount_pos: "toPaymentAmount v = Some a \<Longrightarrow> 0 < a"
  by (auto simp: toPaymentAmount_def split: if_splits option.splits)

lemma toTipAmount_nonneg: "toTipAmount v = Some a \<Longrightarrow> 0 \<le> a"
  by (auto simp: toTipAmount_def split: if_splits option.splits)

lemma applyToBill_InrD:
  assumes "applyToBill rid bid amount st = Inr (a, st')"
  obtains b where "get_bill rid bid st = Some b" "bill_state b = BillOpen" "ap_bill a = b"
    "ap_total_due a = total_due_ves b" "ap_new_amount_paid a = amount_paid_ves b + amount"
    "amount_paid_ves b + amount \<le> total_due_ves b"
    "ap_new_status a = (if amount_paid_ves b + amount = total_due_ves b then BillClosed else BillOpen)"
    "update_bill bid (\<lambda>x. x\<lparr>amount_paid_ves := amount_paid_ves b + amount, bill_state := ap_new_status a\<rparr>) st = Inr st'"
  using assms by (auto simp: applyToBill_def Let_def result_simps split: option.splits if_splits)

lemma applyToBill_keeps:
  assumes "applyToBill rid bid amount st = Inr (a, st')"
  shows "payments st' = payments st" "shares st' = shares st" "splits st' = splits st" "items st' = items st"
    "transitions st' = transitions st" "next_id st' = next_id st" "bill_id (ap_bill a) = bid"
proof -
  obtain b where b: "get_bill rid bid st = Some b" "ap_bill a = b"
    and "update_bill bid (\<lambda>x. x\<lparr>amount_paid_ves := amount_paid_ves b + amount, bill_state := ap_new_status a\<rparr>) st = Inr st'"
    using assms by (rule applyToBill_InrD)
  note U = update_bill_InrD[OF this(3)]
  show "payments st' = payments st" "shares st' = shares st" "splits st' = splits st" "items st' = items st"
    "transitions st' = transitions st" "next_id st' = next_id st" using U by simp_all
  show "bill_id (ap_bill a) = bid" using b get_bill_SomeD by blast
qed

text \<open>The bill row after money was applied, by its key.\<close>

lemma applied_row:
  assumes "keyed bill_id (bills st)" "applyToBill rid bid amount st = Inr (a, st')" "b' \<in> set (bills st')" "bill_id b' = bid"
  shows "b' = (ap_bill a)\<lparr>amount_paid_ves := ap_new_amount_paid a, bill_state := ap_new_status a\<rparr>"
proof -
  obtain b where b: "get_bill rid bid st = Some b" "ap_bill a = b" "ap_new_amount_paid a = amount_paid_ves b + amount"
    and u: "update_bill bid (\<lambda>x. x\<lparr>amount_paid_ves := amount_paid_ves b + amount, bill_state := ap_new_status a\<rparr>) st = Inr st'"
    using assms(2) by (rule applyToBill_InrD)
  obtain b0 where b0: "b0 \<in> set (bills st)"
    "b' = (if bill_id b0 = bid then b0\<lparr>amount_paid_ves := amount_paid_ves b + amount, bill_state := ap_new_status a\<rparr> else b0)"
    using assms(3) update_bill_InrD[OF u] by (auto simp: set_update_where)
  have "bill_id b0 = bid" using assms(4) b0(2) by (auto split: if_splits)
  moreover have "b0 = b"
    by (rule keyed_unique[OF assms(1) b0(1)]) (use get_bill_SomeD[OF b(1)] \<open>bill_id b0 = bid\<close> in simp_all)
  ultimately show ?thesis using b0 b by simp
qed

lemma apply_and_post:
  assumes "store_inv st" "applyToBill rid bid amount st = Inr (a, st1)" "posted so bid amount st1 st2"
  shows "store_inv st2"
proof -
  obtain b where b: "get_bill rid bid st = Some b" "bill_state b = BillOpen"
      "ap_new_status a = (if amount_paid_ves b + amount = total_due_ves b then BillClosed else BillOpen)"
    and u: "update_bill bid (\<lambda>x. x\<lparr>amount_paid_ves := amount_paid_ves b + amount, bill_state := ap_new_status a\<rparr>) st = Inr st1"
    using assms(2) by (rule applyToBill_InrD)
  have same: "x = b" if "x \<in> set (bills st)" "bill_id x = bid" for x
    by (rule keyed_unique[of bill_id "bills st"])
      (use assms(1) that get_bill_SomeD[OF b(1)] in \<open>simp_all add: store_inv_def inv_keys_def\<close>)
  show ?thesis
  proof (rule inv_posting[OF assms(1) u _ assms(3)])
    fix x assume x: "x \<in> set (bills st)" "bill_id x = bid"
    thus "bill_id (x\<lparr>amount_paid_ves := amount_paid_ves b + amount, bill_state := ap_new_status a\<rparr>) = bid \<and>
          bill_restaurant (x\<lparr>amount_paid_ves := amount_paid_ves b + amount, bill_state := ap_new_status a\<rparr>) = bill_restaurant x \<and>
          amount_paid_ves (x\<lparr>amount_paid_ves := amount_paid_ves b + amount, bill_state := ap_new_status a\<rparr>) = amount_paid_ves x + amount \<and>
          bill_state (x\<lparr>amount_paid_ves := amount_paid_ves b + amount, bill_state := ap_new_status a\<rparr>) \<noteq> BillVoid"
      using same[OF x] b(3) by simp
  qed
qed

lemma apply_advances:
  assumes "store_inv st" "0 \<le> amount" "applyToBill rid bid amount st = Inr (a, st1)"
  shows "advances st st1"
proof -
  obtain b where b: "get_bill rid bid st = Some b" "bill_state b = BillOpen"
    and u: "update_bill bid (\<lambda>x. x\<lparr>amount_paid_ves := amount_paid_ves b + amount, bill_state := ap_new_status a\<rparr>) st = Inr st1"
    using assms(3) by (rule applyToBill_InrD)
  have same: "x = b" if "x \<in> set (bills st)" "bill_id x = bid" for x
    by (rule keyed_unique[of bill_id "bills st"])
      (use assms(1) that get_bill_SomeD[OF b(1)] in \<open>simp_all add: store_inv_def inv_keys_def\<close>)
  have "bills st1 = update_where (\<lambda>b. bill_id b = bid)
      (\<lambda>x. x\<lparr>amount_paid_ves := amount_paid_ves b + amount, bill_state := ap_new_status a\<rparr>) (bills st)"
    using update_bill_InrD[OF u] by simp
  thus ?thesis
  proof (rule advances_update)
    fix x assume x: "x \<in> set (bills st)" "bill_id x = bid"
    show "forward x (x\<lparr>amount_paid_ves := amount_paid_ves b + amount, bill_state := ap_new_status a\<rparr>)"
      using same[OF x] b(2) assms(2) by (simp add: forward_def)
  qed
qed

lemma apply_items_agree:
  assumes "items_agree st" "applyToBill rid bid amount st = Inr (a, st1)"
  shows "items_agree st1"
proof -
  obtain b where "ap_bill a = b" and u: "update_bill bid (\<lambda>x. x\<lparr>amount_paid_ves := amount_paid_ves b + amount, bill_state := ap_new_status a\<rparr>) st = Inr st1"
    using assms(2) by (rule applyToBill_InrD)
  have "bills st1 = update_where (\<lambda>b. bill_id b = bid)
      (\<lambda>x. x\<lparr>amount_paid_ves := amount_paid_ves b + amount, bill_state := ap_new_status a\<rparr>) (bills st)"
    "\<And>k. lines_of k st1 = lines_of k st"
    using update_bill_InrD[OF u] by simp_all
  thus ?thesis using assms(1) by (auto simp: items_agree_def set_update_where)
qed

text \<open>Applying money and posting it in the ledger, together, is sound.\<close>

lemma settle_sound:
  assumes "sound st" "0 \<le> amount" "applyToBill rid bid amount st = Inr (a, st1)" "posted so bid amount st1 st2"
    and "inv_log st2" "items st2 = items st1"
  shows "sound st2 \<and> advances st st2"
proof -
  have b2: "bills st2 = bills st1" using assms(4) by (simp add: posted_def)
  have "store_inv st2" using apply_and_post[OF _ assms(3,4)] assms(1) by (simp add: sound_def)
  moreover have "items_agree st2"
    using apply_items_agree[OF _ assms(3)] assms(1,6) b2 by (simp add: sound_def items_agree_def lines_of_def)
  moreover have "advances st st2"
    using apply_advances[OF _ assms(2,3)] assms(1) b2 by (simp add: sound_def advances_def)
  ultimately show ?thesis using assms(5) by (simp add: sound_def)
qed

lemma side_after_apply:
  assumes "store_inv st" "applyToBill rid bid amount st = Inr (a, st1)"
  shows "inv_ledger_side st1"
proof -
  obtain b where "ap_bill a = b" and u: "update_bill bid (\<lambda>x. x\<lparr>amount_paid_ves := amount_paid_ves b + amount, bill_state := ap_new_status a\<rparr>) st = Inr st1"
    using assms(2) by (rule applyToBill_InrD)
  let ?f = "\<lambda>x. x\<lparr>amount_paid_ves := amount_paid_ves b + amount, bill_state := ap_new_status a\<rparr>"
  have st1: "st1 = st\<lparr>bills := update_where (\<lambda>b. bill_id b = bid) ?f (bills st)\<rparr>"
    using update_bill_InrD[OF u] by simp
  have "keyed bill_id (bills st1)"
    unfolding st1 using assms(1) by (simp add: store_inv_def inv_keys_def keyed_update)
  moreover have "inv_fk st1"
    using assms(1) unfolding store_inv_def inv_fk_def st1 by (auto intro!: ex_update_where)
  ultimately show ?thesis using assms(1) unfolding store_inv_def inv_ledger_side_def
    by (auto simp: st1 inv_keys_def inv_payments_def set_update_where)
qed

lemma log_after_apply: "inv_log st \<Longrightarrow> applyToBill rid bid amount st = Inr (a, st1) \<Longrightarrow> inv_log st1"
  by (rule inv_log_cong[of st]) (simp_all add: applyToBill_keeps)

text \<open>The side tables (intents, movements, matches) are not read by the invariant.\<close>

lemma sound_side_tables:
  assumes "sound st" "bills st' = bills st" "items st' = items st" "payments st' = payments st"
    "shares st' = shares st" "splits st' = splits st" "transitions st' = transitions st" "next_id st' = next_id st"
  shows "sound st' \<and> advances st st'"
  by (rule sound_same_ledger[OF assms(1) inv_cong[of st' st]]) (use assms in \<open>simp_all add: sound_def\<close>)

lemma get_payment_after_apply:
  "applyToBill rid bid amount st = Inr (a, st1) \<Longrightarrow> get_payment r p st1 = get_payment r p st"
  by (simp add: get_payment_def applyToBill_keeps)

text \<open>Settling a payment that waits: apply to its bill, then move it to SUCCEEDED.\<close>

lemma settle_waiting_sound:
  assumes "sound st" "get_payment rid pid st = Some p" "\<not> counted (pay_status p)"
    and "applyToBill rid (pay_bill p) (amount_ves p) st = Inr (a, st1)"
    and "transitionPayment rid pid Succeeded actor refusal st1 = Inr (m, st2)"
  shows "sound st2 \<and> advances st st2"
proof -
  have S: "inv_ledger_side st1" using side_after_apply[OF _ assms(4)] assms(1) by (simp add: sound_def)
  have g: "get_payment rid pid st1 = Some p" using get_payment_after_apply[OF assms(4)] assms(2) by simp
  note T = transition_settles[OF S g assms(3,5)]
  have "0 \<le> amount_ves p"
    using assms(1) get_payment_SomeD[OF assms(2)]
    by (auto simp: sound_def store_inv_def inv_payments_def payment_checks_def)
  moreover have "inv_log st2"
    using inv_log_transition[OF log_after_apply[OF _ assms(4)] S assms(5)] assms(1) by (simp add: sound_def)
  ultimately show ?thesis using settle_sound[OF assms(1) _ assms(4) T(1)] T(2) by simp
qed

lemma move_sound:
  assumes "sound st" "transitionPayment rid pid t actor refusal st = Inr (m, st')" "\<not> counted t" "t \<noteq> Refunded"
  shows "sound st' \<and> advances st st'"
proof -
  have S: "inv_ledger_side st" using assms(1) by (simp add: sound_def inv_imp_side)
  note P = transition_moves_nothing[OF S assms(2-4), of 0]
  have i: "items st' = items st" using assms(2)
    by (cases rule: transitionPayment_cases) (auto simp: counted_def dest: advanceShare_credited(7))
  have "inv_log st'" using inv_log_transition[OF _ S assms(2)] assms(1) by (simp add: sound_def)
  moreover have "store_inv st'" using inv_unposted[OF _ P] assms(1) by (simp add: sound_def)
  ultimately show ?thesis
    using assms(1) P i advances_same_bills[of st' st]
    by (simp add: sound_def items_agree_def lines_of_def posted_def)
qed

lemma processSplitPayment_InrD:
  assumes "processSplitPayment rid r st = Inr (rc, st')"
  obtains amount tip a st1 p where "toPaymentAmount (tp_amount r) = Some amount" "toTipAmount (tp_tip r) = Some tip"
    "applyToBill rid (tp_bill r) amount st = Inr (a, st1)"
    "recordPayment ((blank_payment rid (bill_id (ap_bill a)) amount tip Succeeded (tp_method r))
         \<lparr>pay_key := tp_key r, payer_type := tp_payer_type r, payer_id := tp_payer_id r,
          split_participant_id := tp_share r\<rparr>) st1 = Inr (p, st')"
    "rc = \<lparr>rc_view = settlementView a, rc_payment = pay_id p, rc_tip_ves = tip_ves p,
           rc_total_charged_ves = amount + tip_ves p\<rparr>"
  using assms by (auto simp: processSplitPayment_def result_simps split: option.splits)

lemma till_sound:
  assumes "sound st" "processSplitPayment rid r st = Inr (rc, st')"
  shows "sound st' \<and> advances st st'"
proof -
  obtain amount tip a st1 p where am: "toPaymentAmount (tp_amount r) = Some amount"
    and ap: "applyToBill rid (tp_bill r) amount st = Inr (a, st1)"
    and rp: "recordPayment ((blank_payment rid (bill_id (ap_bill a)) amount tip Succeeded (tp_method r))
         \<lparr>pay_key := tp_key r, payer_type := tp_payer_type r, payer_id := tp_payer_id r,
          split_participant_id := tp_share r\<rparr>) st1 = Inr (p, st')"
    using assms(2) by (rule processSplitPayment_InrD)
  have S: "inv_ledger_side st1" using side_after_apply[OF _ ap] assms(1) by (simp add: sound_def)
  note R = recordPayment_posted[OF S rp]
  have "posted (tp_share r) (tp_bill r) amount st1 st'"
    using R(2) applyToBill_keeps(7)[OF ap] by (simp add: blank_payment_def)
  moreover have "inv_log st'"
    using inv_log_record[OF log_after_apply[OF _ ap] S rp] assms(1) by (simp add: sound_def blank_payment_def)
  moreover have "items st' = items st1" using R(5) by (simp add: blank_payment_def)
  ultimately show ?thesis using settle_sound[OF assms(1) _ ap] toPaymentAmount_pos[OF am] by simp
qed

interpretation till: rail "processSplitPayment rid r" for rid r
  by unfold_locales (use till_sound in blast)+

section \<open>What settling promises\<close>

definition cash :: "int \<Rightarrow> int \<Rightarrow> till_payment" where
  "cash amount tip = \<lparr>tp_bill = 1, tp_amount = JBigInt amount, tp_key = None, tp_method = CASH, tp_payer_type = STAFF,
     tp_payer_id = Some 8, tp_share = None, tp_tip = JBigInt tip\<rparr>"




text \<open>The account of a bill: what it asks, what it has taken and its state; and what a
  payment of an amount does to it.\<close>

record account =
  ac_due :: int
  ac_paid :: int
  ac_state :: bill_status

definition pay_account :: "int \<Rightarrow> account \<Rightarrow> error + account" where
  "pay_account amount ac =
     (if ac_state ac \<noteq> BillOpen then Inl (Bill_E (Bill_Not_Open (ac_state ac)))
      else if amount > ac_due ac - ac_paid ac then Inl (Pay_E (Payment_Exceeds_Balance (ac_due ac - ac_paid ac)))
      else Inr (ac\<lparr>ac_paid := ac_paid ac + amount,
                  ac_state := (if amount = ac_due ac - ac_paid ac then BillClosed else BillOpen)\<rparr>))"

definition account_of :: "nat \<Rightarrow> nat \<Rightarrow> store \<Rightarrow> account option" where
  "account_of rid bid st = map_option (\<lambda>b. \<lparr>ac_due = total_due_ves b, ac_paid = amount_paid_ves b, ac_state = bill_state b\<rparr>)
     (get_bill rid bid st)"

definition account_step :: "nat \<Rightarrow> nat \<Rightarrow> int \<Rightarrow> store \<Rightarrow> error + account" where
  "account_step rid bid amount st =
     (case account_of rid bid st of None \<Rightarrow> Inl (Bill_E Bill_Not_Found) | Some ac \<Rightarrow> pay_account amount ac)"

lemma apply_refines_account:
  assumes "store_inv st" "0 < amount"
  shows "account_step rid bid amount st
       = (case applyToBill rid bid amount st of Inl e \<Rightarrow> Inl e | Inr (a, st') \<Rightarrow> Inr (the (account_of rid bid st')))"
proof (cases "get_bill rid bid st")
  case None
  thus ?thesis by (simp add: account_step_def account_of_def applyToBill_def)
next
  case (Some b)
  note B = get_bill_SomeD[OF Some]
  let ?f = "\<lambda>x. x\<lparr>amount_paid_ves := amount_paid_ves b + amount,
     bill_state := if amount_paid_ves b + amount = total_due_ves b then BillClosed else BillOpen\<rparr>"
  show ?thesis
  proof (cases "bill_state b = BillOpen \<and> amount_paid_ves b + amount \<le> total_due_ves b")
    case True
    have u: "x = b" if "x \<in> set (bills st)" "bill_id x = bid" for x
      using assms(1) that B by (auto simp: store_inv_def inv_keys_def intro: keyed_unique)
    have "bill_checks b" using assms(1) B by (simp add: store_inv_def inv_bills_def)
    hence chk: "bill_checks (?f b)" using True assms(2) by (simp add: bill_checks_def)
    have all: "(\<forall>x \<in> set (bills st). bill_id x = bid \<longrightarrow> bill_checks (?f x)) = True"
      using u chk by blast
    have "update_bill bid ?f st = Inr (st\<lparr>bills := update_where (\<lambda>x. bill_id x = bid) ?f (bills st)\<rparr>)"
      using all by (simp only: update_bill_def list_all_iff if_True)
    hence "\<exists>a. applyToBill rid bid amount st = Inr (a, st\<lparr>bills := update_where (\<lambda>x. bill_id x = bid) ?f (bills st)\<rparr>)"
      using Some True by (simp add: applyToBill_def Let_def)
    moreover have "account_of rid bid (st\<lparr>bills := update_where (\<lambda>x. bill_id x = bid) ?f (bills st)\<rparr>)
        = Some \<lparr>ac_due = total_due_ves b, ac_paid = amount_paid_ves b + amount,
            ac_state = (if amount_paid_ves b + amount = total_due_ves b then BillClosed else BillOpen)\<rparr>"
      using Some B by (simp add: account_of_def get_bill_def find_by_update)
    ultimately show ?thesis
      using Some True by (auto simp: account_step_def account_of_def pay_account_def)
  next
    case False
    thus ?thesis
      using Some by (auto simp: account_step_def account_of_def pay_account_def applyToBill_def Let_def)
  qed
qed

lemma apply_refines_account_witness:
  "account_step 7 1 400 dinner_store = Inr \<lparr>ac_due = 1000, ac_paid = 400, ac_state = BillOpen\<rparr>"
proof -
  have "account_step 7 1 400 dinner_store = (case applyToBill 7 1 400 dinner_store of
      Inl e \<Rightarrow> Inl e | Inr (a, st') \<Rightarrow> Inr (the (account_of 7 1 st')))"
    by (rule apply_refines_account[OF inv_dinner]) simp
  also have "\<dots> = Inr \<lparr>ac_due = 1000, ac_paid = 400, ac_state = BillOpen\<rparr>" by code_simp
  finally show ?thesis .
qed

end
