(* ===== verification/Bank_Match.thy ===== *)
theory Bank_Match
  imports Store
begin

text \<open>
  Bank movements against declared payments: the matcher of
  src/payments/validation/match.js, the pure decision of
  src/services/bankReconciliation.js and the reading of a bank's row in
  src/services/bankMovementNormalizer.js.  The rule is that only an exact, unique
  candidate confirms anything: the lemmas characterise \<open>MATCHED\<close> completely and show
  that no movement is left backing two claims.  The occurrence date of a movement
  decides nothing and is not modelled.
\<close>

section \<open>Digits and text\<close>

text \<open>\<open>String(value ?? '').replace(/\D/g, '')\<close>.\<close>

definition digits :: "string \<Rightarrow> string" where
  "digits s = filter is_digit s"

text \<open>\<open>value.slice(-n)\<close>.\<close>

definition tail :: "string \<Rightarrow> nat \<Rightarrow> string" where
  "tail v n = (if n = 0 then v else drop (length v - n) v)"

definition known :: "string option \<Rightarrow> bool" where
  "known v = (case v of None \<Rightarrow> False | Some s \<Rightarrow> trim s \<noteq> [])"

section \<open>The matcher\<close>

definition MIN_REFERENCE_DIGITS :: nat where "MIN_REFERENCE_DIGITS = 8"

record claim_shape =
  cs_reference :: string
  cs_amount_minor :: int
  cs_bank_code :: "string option"
  cs_phone :: "string option"
  cs_id :: "string option"

record movement_shape =
  ms_id :: nat
  ms_reference :: string
  ms_amount_minor :: int
  ms_bank_code :: "string option"
  ms_phone :: "string option"
  ms_person :: "string option"
  ms_auto_confirm :: bool

definition referenceAgrees :: "string \<Rightarrow> string \<Rightarrow> bool" where
  "referenceAgrees declared reported =
     (let a = digits declared; b = digits reported; n = min (length a) (length b)
      in if n < MIN_REFERENCE_DIGITS then False else tail a n = tail b n)"

definition phoneAgrees :: "string \<Rightarrow> string \<Rightarrow> bool" where
  "phoneAgrees declared reported =
     (let a = digits declared; b = digits reported
      in if length a < 4 \<or> length b < 4 then False else tail a 4 = tail b 4)"

definition disagreements :: "claim_shape \<Rightarrow> movement_shape \<Rightarrow> disagreement list" where
  "disagreements c m =
     (if ms_amount_minor m \<noteq> cs_amount_minor c then [D_Amount] else [])
   @ (if known (ms_bank_code m) \<and> known (cs_bank_code c) \<and> ms_bank_code m \<noteq> cs_bank_code c
      then [D_Bank] else [])
   @ (if known (ms_phone m) \<and> known (cs_phone c) \<and> \<not> phoneAgrees (the (cs_phone c)) (the (ms_phone m))
      then [D_Phone] else [])
   @ (if known (ms_person m) \<and> known (cs_id c) \<and> digits (the (ms_person m)) \<noteq> digits (the (cs_id c))
      then [D_Id] else [])"

record verdict =
  vd_outcome :: match_outcome
  vd_movement :: "movement_shape option"
  vd_disagreements :: "disagreement list"

definition matchClaim :: "claim_shape \<Rightarrow> movement_shape list \<Rightarrow> verdict" where
  "matchClaim c mvs =
     (let candidates = filter (\<lambda>m. referenceAgrees (cs_reference c) (ms_reference m)) mvs in
      if candidates = [] then \<lparr>vd_outcome = Not_Found_Match, vd_movement = None, vd_disagreements = []\<rparr>
      else
        let exact = filter (\<lambda>m. disagreements c m = []) candidates in
        if length exact > 1 then \<lparr>vd_outcome = Ambiguous_Match, vd_movement = None, vd_disagreements = []\<rparr>
        else if length exact = 1
        then \<lparr>vd_outcome = Matched, vd_movement = Some (hd exact), vd_disagreements = []\<rparr>
        else
          let closest = hd (sort_key (\<lambda>x. length (snd x)) (map (\<lambda>m. (m, disagreements c m)) candidates))
          in \<lparr>vd_outcome = Mismatch, vd_movement = Some (fst closest), vd_disagreements = snd closest\<rparr>)"

section \<open>The decision over all pending claims\<close>

definition claimShape :: "payment \<Rightarrow> claim_shape" where
  "claimShape p = \<lparr>cs_reference = (case declared_reference p of None \<Rightarrow> [] | Some r \<Rightarrow> r),
     cs_amount_minor = amount_ves p + tip_ves p, cs_bank_code = bank_origin p,
     cs_phone = phone_origin p, cs_id = id_origin p\<rparr>"

definition movementShape :: "bank_movement \<Rightarrow> bool \<Rightarrow> movement_shape" where
  "movementShape m auto_confirm = \<lparr>ms_id = mv_id m, ms_reference = mv_reference m,
     ms_amount_minor = mv_amount_minor m, ms_bank_code = mv_bank_code m, ms_phone = mv_phone_origin m,
     ms_person = mv_id_origin m, ms_auto_confirm = auto_confirm\<rparr>"

type_synonym decision = "nat \<times> verdict"

definition claims_per_movement :: "decision list \<Rightarrow> nat \<Rightarrow> nat" where
  "claims_per_movement rs mid =
     length (filter (\<lambda>(cid, v). vd_outcome v = Matched \<and> map_option ms_id (vd_movement v) = Some mid) rs)"

definition decide :: "payment list \<Rightarrow> movement_shape list \<Rightarrow> decision list" where
  "decide claims mvs =
     (let results = map (\<lambda>p. (pay_id p, matchClaim (claimShape p) mvs)) claims in
      map (\<lambda>(cid, v).
        if vd_outcome v = Matched
           \<and> (case vd_movement v of None \<Rightarrow> False | Some m \<Rightarrow> claims_per_movement results (ms_id m) > 1)
        then (cid, v\<lparr>vd_outcome := Ambiguous_Match, vd_movement := None, vd_disagreements := []\<rparr>)
        else (cid, v)) results)"

section \<open>Reading a bank's row\<close>

datatype unread = U_Shape | U_Reference | U_Amount | U_Precision | U_Debit

text \<open>\<open>s.replace(/^(bs\.?s?|ves|bs)/i, '')\<close>.\<close>

definition strip_currency :: "string \<Rightarrow> string" where
  "strip_currency s =
     (if map lower (take 2 s) = ''bs'' then
        (let r = drop 2 s;
             r1 = (if take 1 r = ''.'' then drop 1 r else r)
         in if map lower (take 1 r1) = ''s'' then drop 1 r1 else r1)
      else if map lower (take 3 s) = ''ves'' then drop 3 s
      else s)"

fun split_on :: "char \<Rightarrow> string \<Rightarrow> string list" where
  "split_on x [] = [[]]"
| "split_on x (c # cs) =
     (if c = x then [] # split_on x cs
      else case split_on x cs of p # ps \<Rightarrow> (c # p) # ps | [] \<Rightarrow> [[c]])"

definition is_sep :: "char \<Rightarrow> bool" where
  "is_sep c = (c = CHR ''.'' \<or> c = CHR '','')"

text \<open>The part before and after the last character satisfying \<open>P\<close>.\<close>

definition before_last :: "(char \<Rightarrow> bool) \<Rightarrow> string \<Rightarrow> string" where
  "before_last P s = rev (drop 1 (dropWhile (\<lambda>c. \<not> P c) (rev s)))"

definition after_last :: "(char \<Rightarrow> bool) \<Rightarrow> string \<Rightarrow> string" where
  "after_last P s = rev (takeWhile (\<lambda>c. \<not> P c) (rev s))"

text \<open>The sign marks: parentheses, a leading or a trailing minus, a leading plus.\<close>

definition strip_sign :: "string \<Rightarrow> bool \<times> string" where
  "strip_sign s0 =
     (let (n1, s1) = (if length s0 \<ge> 2 \<and> hd s0 = CHR ''('' \<and> last s0 = CHR '')''
                      then (True, butlast (tl s0)) else (False, s0));
          (n2, s2) = (if take 1 s1 = ''-'' then (True, drop 1 s1) else (n1, s1));
          (n3, s3) = (if s2 \<noteq> [] \<and> last s2 = CHR ''-'' then (True, butlast s2) else (n2, s2));
          s4 = (if take 1 s3 = ''+'' then drop 1 s3 else s3)
      in (n3, s4))"

definition split_amount :: "string \<Rightarrow> unread + string \<times> string" where
  "split_amount s =
     (if CHR ''.'' \<in> set s \<and> CHR '','' \<in> set s then
        Inr (filter (\<lambda>c. \<not> is_sep c) (before_last is_sep s), after_last is_sep s)
      else if CHR ''.'' \<in> set s \<or> CHR '','' \<in> set s then
        (let sep = (if CHR ''.'' \<in> set s then CHR ''.'' else CHR '','');
             parts = split_on sep s;
             tailPart = last parts
         in if length parts = 2 \<and> length tailPart \<ge> 1 \<and> length tailPart \<le> 2
            then Inr (hd parts, tailPart)
            else if list_all (\<lambda>p. length p = 3) (tl parts) then Inr (concat parts, [])
            else Inl U_Amount)
      else Inr (s, []))"

definition parseAmount :: "string option \<Rightarrow> unread + int" where
  "parseAmount raw =
     (case raw of
        None \<Rightarrow> Inl U_Amount
      | Some text \<Rightarrow>
          let (negative, s) = strip_sign (strip_currency (filter (\<lambda>c. \<not> is_space c) (trim text))) in
          if s = [] \<or> \<not> list_all (\<lambda>c. is_digit c \<or> is_sep c) s \<or> \<not> list_ex is_digit s then Inl U_Amount
          else
            case split_amount s of
              Inl e \<Rightarrow> Inl e
            | Inr (whole, frac) \<Rightarrow>
                if length frac > 2 then Inl U_Precision
                else if \<not> list_all is_digit whole \<or> \<not> list_all is_digit frac then Inl U_Amount
                else
                  let minor = int (read_nat ((if whole = [] then ''0'' else whole)
                                @ frac @ replicate (2 - length frac) (CHR ''0'')))
                  in if negative then Inl U_Debit
                     else if minor \<le> 0 then Inl U_Amount
                     else Inr minor)"

definition normaliseId :: "string option \<Rightarrow> string option" where
  "normaliseId raw =
     (case raw of
        None \<Rightarrow> None
      | Some text \<Rightarrow>
          let s = filter (\<lambda>c. c \<in> set ''VEJGP'' \<or> is_digit c) (map upper text);
              ds = (if s \<noteq> [] \<and> \<not> is_digit (hd s) then tl s else s)
          in if list_all is_digit ds \<and> 5 \<le> length ds \<and> length ds \<le> 10 then Some s else None)"

record raw_movement =
  rm_reference :: "string option"
  rm_amount_minor :: "string option"
  rm_amount :: "string option"
  rm_phone :: "string option"
  rm_bank :: "string option"
  rm_id :: "string option"
  rm_description :: "string option"

record norm_movement =
  nm_reference :: string
  nm_amount_minor :: int
  nm_phone :: "string option"
  nm_id :: "string option"
  nm_bank :: "string option"
  nm_description :: "string option"

definition text_of :: "string option \<Rightarrow> string" where
  "text_of v = (case v of None \<Rightarrow> [] | Some s \<Rightarrow> s)"

definition normalise :: "raw_movement \<Rightarrow> unread + norm_movement" where
  "normalise input =
     (let reference = digits (text_of (rm_reference input)) in
      if length reference < 4 \<or> length reference > 40 then Inl U_Reference
      else
        case (if rm_amount_minor input \<noteq> None \<and> trim (text_of (rm_amount_minor input)) \<noteq> [] then
                let a = trim (text_of (rm_amount_minor input)) in
                if \<not> (digits_only a \<and> length a \<le> 15) \<or> read_nat a = 0 then Inl U_Amount
                else Inr (int (read_nat a))
              else parseAmount (rm_amount input)) of
          Inl e \<Rightarrow> Inl e
        | Inr amount \<Rightarrow>
            let phone = digits (text_of (rm_phone input));
                bank = digits (text_of (rm_bank input))
            in Inr \<lparr>nm_reference = reference, nm_amount_minor = amount,
                 nm_phone = (if 7 \<le> length phone \<and> length phone \<le> 15 then Some phone else None),
                 nm_id = normaliseId (rm_id input),
                 nm_bank = (if length bank = 4 then Some bank else None),
                 nm_description = (case rm_description input of None \<Rightarrow> None
                   | Some d \<Rightarrow> let t = take 200 (trim d) in if t = [] then None else Some t)\<rparr>)"

section \<open>What a match means\<close>

text \<open>The conditions a person at the till would check.\<close>

definition backs :: "claim_shape \<Rightarrow> movement_shape \<Rightarrow> bool" where
  "backs c m \<longleftrightarrow> referenceAgrees (cs_reference c) (ms_reference m) \<and> disagreements c m = []"

lemma disagreements_Nil:
  "disagreements c m = [] \<longleftrightarrow> ms_amount_minor m = cs_amount_minor c
     \<and> (known (ms_bank_code m) \<longrightarrow> known (cs_bank_code c) \<longrightarrow> ms_bank_code m = cs_bank_code c)
     \<and> (known (ms_phone m) \<longrightarrow> known (cs_phone c) \<longrightarrow> phoneAgrees (the (cs_phone c)) (the (ms_phone m)))
     \<and> (known (ms_person m) \<longrightarrow> known (cs_id c) \<longrightarrow> digits (the (ms_person m)) = digits (the (cs_id c)))"
  by (auto simp: disagreements_def)

lemma exact_candidates:
  "filter (\<lambda>m. disagreements c m = []) (filter (\<lambda>m. referenceAgrees (cs_reference c) (ms_reference m)) ms)
     = filter (backs c) ms"
  by (simp add: backs_def conj_commute cong: filter_cong)

lemma matchClaim_alt:
  "matchClaim c ms =
     (let candidates = filter (\<lambda>m. referenceAgrees (cs_reference c) (ms_reference m)) ms;
          exact = filter (backs c) ms
      in if candidates = [] then \<lparr>vd_outcome = Not_Found_Match, vd_movement = None, vd_disagreements = []\<rparr>
         else if length exact > 1 then \<lparr>vd_outcome = Ambiguous_Match, vd_movement = None, vd_disagreements = []\<rparr>
         else if length exact = 1
         then \<lparr>vd_outcome = Matched, vd_movement = Some (hd exact), vd_disagreements = []\<rparr>
         else
          let closest = hd (sort_key (\<lambda>x. length (snd x)) (map (\<lambda>m. (m, disagreements c m)) candidates))
          in \<lparr>vd_outcome = Mismatch, vd_movement = Some (fst closest), vd_disagreements = snd closest\<rparr>)"
  unfolding matchClaim_def exact_candidates Let_def by simp

lemma backs_candidate:
  "filter (backs c) ms \<noteq> [] \<Longrightarrow> filter (\<lambda>m. referenceAgrees (cs_reference c) (ms_reference m)) ms \<noteq> []"
  by (auto simp: filter_empty_conv backs_def)

lemma matchClaim_Matched:
  "vd_outcome (matchClaim c ms) = Matched \<longleftrightarrow> (\<exists>m. filter (backs c) ms = [m])"
  using backs_candidate[of c ms] by (auto simp: matchClaim_alt Let_def length_Suc_conv)

lemma matchClaim_movement:
  "vd_outcome (matchClaim c ms) = Matched \<Longrightarrow> \<exists>m. vd_movement (matchClaim c ms) = Some m \<and> filter (backs c) ms = [m]"
  by (auto simp: matchClaim_alt Let_def length_Suc_conv split: if_splits)

lemma matchClaim_other: "vd_outcome (matchClaim c ms) = Ambiguous_Match \<Longrightarrow> vd_movement (matchClaim c ms) = None"
  by (auto simp: matchClaim_alt Let_def split: if_splits)

section \<open>No movement backs two claims\<close>

lemma filter_one_unique:
  "length (filter P xs) \<le> 1 \<Longrightarrow> i < length xs \<Longrightarrow> j < length xs \<Longrightarrow> P (xs ! i) \<Longrightarrow> P (xs ! j) \<Longrightarrow> i = j"
proof (induction xs arbitrary: i j)
  case (Cons x xs)
  show ?case
  proof (cases "P x")
    case True
    hence none: "filter P xs = []" using Cons.prems(1) by simp
    have "i = 0" "j = 0" using none Cons.prems by (auto simp: filter_empty_conv nth_Cons split: nat.splits)
    thus ?thesis by simp
  next
    case False
    hence "i \<noteq> 0" "j \<noteq> 0" using Cons.prems by (auto intro: ccontr)
    then obtain i' j' where "i = Suc i'" "j = Suc j'" by (auto simp: gr0_conv_Suc)
    thus ?thesis using Cons False by auto
  qed
qed simp

lemma decide_length [simp]: "length (decide claims ms) = length claims"
  by (simp add: decide_def Let_def)

lemma decide_nth:
  assumes "i < length claims" "vd_outcome (snd (decide claims ms ! i)) = Matched"
  obtains m where "decide claims ms ! i = (pay_id (claims ! i), matchClaim (claimShape (claims ! i)) ms)"
    "vd_movement (matchClaim (claimShape (claims ! i)) ms) = Some m"
    "filter (backs (claimShape (claims ! i))) ms = [m]"
    "claims_per_movement (map (\<lambda>p. (pay_id p, matchClaim (claimShape p) ms)) claims) (ms_id m) \<le> 1"
proof -
  let ?v = "matchClaim (claimShape (claims ! i)) ms"
  have out: "vd_outcome ?v = Matched"
    and eq: "decide claims ms ! i = (pay_id (claims ! i), ?v)"
    and few: "\<not> (case vd_movement ?v of None \<Rightarrow> False
        | Some m \<Rightarrow> claims_per_movement (map (\<lambda>p. (pay_id p, matchClaim (claimShape p) ms)) claims) (ms_id m) > 1)"
    using assms by (auto simp: decide_def Let_def split: if_splits)
  obtain m where m: "vd_movement ?v = Some m" "filter (backs (claimShape (claims ! i))) ms = [m]"
    using matchClaim_movement[OF out] by blast
  show thesis by (rule that[OF eq m]) (use few m in simp)
qed

section \<open>What a match promises\<close>

lemma match_outcomes:
  "(vd_outcome (matchClaim c ms) = Matched \<and> vd_movement (matchClaim c ms) = Some m \<longleftrightarrow> filter (backs c) ms = [m])
   \<and> (vd_outcome (matchClaim c ms) = Ambiguous_Match \<longleftrightarrow> 2 \<le> length (filter (backs c) ms))
   \<and> (vd_outcome (matchClaim c ms) = Not_Found_Match \<longleftrightarrow> filter (\<lambda>m. referenceAgrees (cs_reference c) (ms_reference m)) ms = [])
   \<and> (vd_outcome (matchClaim c ms) = Mismatch \<longleftrightarrow> filter (backs c) ms = []
        \<and> filter (\<lambda>m. referenceAgrees (cs_reference c) (ms_reference m)) ms \<noteq> [])"
proof (cases "filter (backs c) ms")
  case Nil
  thus ?thesis by (simp add: matchClaim_alt Let_def)
next
  case (Cons x xs)
  hence "filter (\<lambda>m. referenceAgrees (cs_reference c) (ms_reference m)) ms \<noteq> []" by (intro backs_candidate) simp
  thus ?thesis using Cons by (cases xs) (auto simp: matchClaim_alt Let_def)
qed

text \<open>C10: When a batch of waiting claims is decided against the bank's movements, two different
  claims are never matched with the same movement.\<close>

lemma no_movement_backs_two_claims:
  assumes "i < length claims" "j < length claims" "i \<noteq> j"
    and "vd_outcome (snd (decide claims ms ! i)) = Matched" "vd_outcome (snd (decide claims ms ! j)) = Matched"
  shows "map_option ms_id (vd_movement (snd (decide claims ms ! i)))
       \<noteq> map_option ms_id (vd_movement (snd (decide claims ms ! j)))"
proof
  assume eq: "map_option ms_id (vd_movement (snd (decide claims ms ! i)))
       = map_option ms_id (vd_movement (snd (decide claims ms ! j)))"
  let ?rs = "map (\<lambda>p. (pay_id p, matchClaim (claimShape p) ms)) claims"
  obtain m where m: "decide claims ms ! i = (pay_id (claims ! i), matchClaim (claimShape (claims ! i)) ms)"
    "vd_movement (matchClaim (claimShape (claims ! i)) ms) = Some m" "filter (backs (claimShape (claims ! i))) ms = [m]"
    "claims_per_movement ?rs (ms_id m) \<le> 1"
    using assms(1,4) by (rule decide_nth)
  obtain n where n: "decide claims ms ! j = (pay_id (claims ! j), matchClaim (claimShape (claims ! j)) ms)"
    "vd_movement (matchClaim (claimShape (claims ! j)) ms) = Some n" "filter (backs (claimShape (claims ! j))) ms = [n]"
    "claims_per_movement ?rs (ms_id n) \<le> 1"
    using assms(2,5) by (rule decide_nth)
  have same: "ms_id n = ms_id m" using eq m(1,2) n(1,2) by simp
  have "i = j"
    by (rule filter_one_unique[OF m(4)[unfolded claims_per_movement_def]])
      (use assms m n same in \<open>simp_all add: matchClaim_Matched\<close>)
  thus False using assms(3) by simp
qed

definition declared :: "nat \<Rightarrow> string \<Rightarrow> int \<Rightarrow> payment" where
  "declared i ref amount = (blank_payment 7 1 amount 0 Pending PAGO_MOVIL)\<lparr>pay_id := i, declared_reference := Some ref\<rparr>"

definition credit_of :: "nat \<Rightarrow> string \<Rightarrow> int \<Rightarrow> movement_shape" where
  "credit_of i ref amount = \<lparr>ms_id = i, ms_reference = ref, ms_amount_minor = amount, ms_bank_code = None,
     ms_phone = None, ms_person = None, ms_auto_confirm = True\<rparr>"

lemma no_movement_backs_two_claims_witness:
  "map_option ms_id (vd_movement (snd (decide [declared 1 ''00012345678'' 500, declared 2 ''87654321'' 500]
        [credit_of 8 ''12345678'' 500, credit_of 9 ''87654321'' 500] ! 0)))
   \<noteq> map_option ms_id (vd_movement (snd (decide [declared 1 ''00012345678'' 500, declared 2 ''87654321'' 500]
        [credit_of 8 ''12345678'' 500, credit_of 9 ''87654321'' 500] ! 1)))"
  by (rule no_movement_backs_two_claims) code_simp+

section \<open>Amounts a bank prints\<close>

lemma split_on_none: "x \<notin> set s \<Longrightarrow> split_on x s = [s]"
  by (induction s) auto

lemma split_on_once: "x \<notin> set w \<Longrightarrow> x \<notin> set f \<Longrightarrow> split_on x (w @ x # f) = [w, f]"
  by (induction w) (auto simp: split_on_none)

definition two_digits :: "nat \<Rightarrow> string" where
  "two_digits n = [digit_char (n div 10 mod 10), digit_char (n mod 10)]"

lemma digit_plain:
  assumes "is_digit c"
  shows "\<not> is_sep c" "c \<noteq> CHR ''.''" "c \<noteq> CHR '',''" "c \<noteq> CHR ''('' " "c \<noteq> CHR '')''" "c \<noteq> CHR ''+''" "c \<noteq> CHR ''-''"
    "lower c = c"
  using assms by (auto simp: is_digit_def is_sep_def lower_def)

lemma sep_not_digit: "is_sep c \<Longrightarrow> \<not> is_digit c" "is_sep c \<Longrightarrow> \<not> is_space c"
  by (auto simp: is_digit_def is_sep_def is_space_def)

lemma read_nat_two: "read_nat (w @ two_digits n) = 100 * read_nat w + n mod 100"
proof -
  have "read_nat (w @ two_digits n) = 10 * (10 * read_nat w + n div 10 mod 10) + n mod 10"
    unfolding two_digits_def using read_nat_append[of "w @ [digit_char (n div 10 mod 10)]" "digit_char (n mod 10)"]
      read_nat_append[of w "digit_char (n div 10 mod 10)"] by simp
  also have "\<dots> = 100 * read_nat w + n mod 100"
    using mod_mult2_eq[of n 10 10] by simp
  finally show ?thesis .
qed

lemma decimal_no_space:
  assumes "list_all is_digit w" "list_all is_digit f" "sep = CHR '','' \<or> sep = CHR ''.''"
  shows "list_all (\<lambda>x. \<not> is_space x) (w @ sep # f)"
proof -
  have "\<not> is_space sep" using assms(3) by (auto simp: is_space_def)
  thus ?thesis using assms(1,2) by (auto simp: list_all_iff dest: digit_not_space)
qed

lemma plain_number:
  assumes "digits_only w" "sep = CHR '','' \<or> sep = CHR ''.''" "list_all is_digit f" "length f = 2"
  shows "strip_sign (strip_currency (filter (\<lambda>c. \<not> is_space c) (trim (w @ sep # f)))) = (False, w @ sep # f)"
proof -
  have d: "list_all is_digit w" "w \<noteq> []" using assms(1) by (simp_all add: digits_only_def)
  obtain c cs where w: "w = c # cs" "is_digit c" using d by (cases w) auto
  have ns: "list_all (\<lambda>x. \<not> is_space x) (w @ sep # f)"
    by (rule decimal_no_space[OF d(1) assms(3,2)])
  have t: "trim (w @ sep # f) = w @ sep # f" using ns by (rule trim_id)
  have fl: "filter (\<lambda>x. \<not> is_space x) (w @ sep # f) = w @ sep # f"
    using ns by (simp add: list_all_iff filter_id_conv)
  have cb: "lower c \<noteq> CHR ''b''" "lower c \<noteq> CHR ''v''" using digit_plain(8)[OF w(2)] w(2) by (auto simp: is_digit_def)
  have cur: "strip_currency (w @ sep # f) = w @ sep # f"
    using cb by (simp add: strip_currency_def w(1) numeral_2_eq_2 numeral_3_eq_3)
  obtain x y where f: "f = [x, y]" using assms(4) by (auto simp: length_Suc_conv numeral_2_eq_2)
  have y: "is_digit y" using assms(3) f by simp
  have "last (w @ sep # f) = y" using f by simp
  hence sg: "strip_sign (w @ sep # f) = (False, w @ sep # f)"
    using digit_plain[OF w(2)] digit_plain[OF y] w(1) f by (simp add: strip_sign_def)
  show ?thesis unfolding t fl cur sg by (rule refl)
qed

lemma amount_round_trip:
  assumes "0 < n" "sep = CHR '','' \<or> sep = CHR ''.''"
  shows "parseAmount (Some (show_nat (n div 100) @ sep # two_digits n)) = Inr (int n)"
proof -
  let ?w = "show_nat (n div 100)" and ?f = "two_digits n"
  have f: "list_all is_digit ?f" "length ?f = 2" by (simp_all add: two_digits_def)
  have P: "strip_sign (strip_currency (filter (\<lambda>c. \<not> is_space c) (trim (?w @ sep # ?f)))) = (False, ?w @ sep # ?f)"
    by (rule plain_number) (use assms(2) f in auto)
  have seps: "CHR ''.'' \<notin> set ?w" "CHR '','' \<notin> set ?w" "CHR ''.'' \<notin> set ?f" "CHR '','' \<notin> set ?f"
    using show_nat_digits[of "n div 100"] f(1) by (auto simp: list_all_iff is_digit_def)
  have ok: "list_all (\<lambda>c. is_digit c \<or> is_sep c) (?w @ sep # ?f)" "list_ex is_digit (?w @ sep # ?f)"
    using show_nat_digits[of "n div 100"] f(1) assms(2)
    by (auto simp: list_all_iff list_ex_iff is_sep_def two_digits_def)
  have sp: "split_amount (?w @ sep # ?f) = Inr (?w, ?f)"
    using assms(2) seps split_on_once[of sep ?w ?f] f(2) by (auto simp: split_amount_def)
  have "read_nat (?w @ ?f) = n" using read_nat_two[of ?w n] by simp
  thus ?thesis using assms(1) ok f sp by (simp add: parseAmount_def P del: filter_append)
qed

lemma amount_round_trip_witness:
  "parseAmount (Some (show_nat (123456 div 100) @ CHR '','' # two_digits 123456)) = Inr 123456"
  using amount_round_trip[of 123456 "CHR '',''"] by simp

end
