(* ===== verification/Claims.thy ===== *)
theory Claims
  imports Settlement Bank_Match
begin

text \<open>
  Declared payments: src/services/paymentClaims.js, with the reconciliation of
  src/services/bankReconciliation.js that confirms them from bank movements and the
  invoice intents of src/services/invoiceIntents.js that are fulfilled once a claim
  is confirmed.  Issuing an invoice belongs to another component and is the argument
  \<open>issue\<close>.  The lemmas show that a claim settles nothing until it is confirmed, that
  it is confirmed once, that a movement never backs two claims, and that the sweep
  confirms only exact unique matches of trusted connections.
\<close>

section \<open>Invoice intents\<close>

definition resolve_intent :: "nat \<Rightarrow> intent_status \<Rightarrow> issue_outcome option \<Rightarrow> store \<Rightarrow> store" where
  "resolve_intent pid status note st =
     st\<lparr>invoice_intents := update_where (\<lambda>i. ii_payment i = pid \<and> ii_status i = INTENT_WAITING)
          (\<lambda>i. i\<lparr>ii_status := status, ii_note := note\<rparr>) (invoice_intents st)\<rparr>"

fun already_done :: "error \<Rightarrow> bool" where
  "already_done (Fiscal_E Fiscal_Already_Requested) = True"
| "already_done (Fiscal_E Fiscal_Nothing_To_Declare) = True"
| "already_done _ = False"

type_synonym issuer = "invoice_intent \<Rightarrow> nat \<Rightarrow> issue_outcome"

definition fulfil :: "issuer \<Rightarrow> nat \<Rightarrow> nat \<Rightarrow> store \<Rightarrow> intent_status option \<times> store" where
  "fulfil issue rid pid st =
     (case find_by (\<lambda>i. ii_payment i = pid \<and> ii_restaurant i = rid \<and> ii_status i = INTENT_WAITING) (invoice_intents st) of
        None \<Rightarrow> (None, st)
      | Some i \<Rightarrow>
         (case find_by (\<lambda>p. pay_id p = pid) (payments st) of
            None \<Rightarrow> (None, st)
          | Some p \<Rightarrow>
             (case issue i (pay_bill p) of
                No_Provider \<Rightarrow> (Some INTENT_FAILED, resolve_intent pid INTENT_FAILED (Some No_Provider) st)
              | Issued \<Rightarrow> (Some INTENT_ISSUED, resolve_intent pid INTENT_ISSUED None st)
              | Not_Issued r \<Rightarrow> (Some INTENT_FAILED, resolve_intent pid INTENT_FAILED (Some (Not_Issued r)) st)
              | Issue_Failed e \<Rightarrow>
                  (if already_done e then (Some INTENT_SKIPPED, resolve_intent pid INTENT_SKIPPED (Some (Issue_Failed e)) st)
                   else (Some INTENT_FAILED, resolve_intent pid INTENT_FAILED (Some (Issue_Failed e)) st)))))"

section \<open>Declaring\<close>

definition normaliseReference :: "string option \<Rightarrow> string" where
  "normaliseReference v = digits (text_of v)"

record claim_declaration =
  dc_bill :: nat
  dc_amount :: js_value
  dc_reference :: "string option"
  dc_phone :: "string option"
  dc_bank :: "string option"
  dc_person :: "string option"
  dc_payer_type :: actor_type
  dc_payer_id :: "nat option"
  dc_share :: "nat option"
  dc_tip :: int
  dc_invoice :: "(string \<times> string option \<times> string option) option"

definition claim_row :: "nat \<Rightarrow> claim_declaration \<Rightarrow> int \<Rightarrow> int \<Rightarrow> payment" where
  "claim_row rid d amount now =
     (let ref = normaliseReference (dc_reference d) in
      (blank_payment rid (dc_bill d) amount (dc_tip d) Pending PAGO_MOVIL)
        \<lparr>declared_reference := (if ref = [] then None else Some ref),
         payer_type := dc_payer_type d, payer_id := dc_payer_id d,
         split_participant_id := dc_share d, phone_origin := dc_phone d,
         bank_origin := dc_bank d, id_origin := dc_person d, pay_created_at := now\<rparr>)"

definition request_invoice :: "nat \<Rightarrow> claim_declaration \<Rightarrow> nat \<Rightarrow> store \<Rightarrow> store" where
  "request_invoice rid d pid st =
     (case dc_invoice d of
        None \<Rightarrow> st
      | Some (email, name, tax) \<Rightarrow>
          st\<lparr>invoice_intents := insert_row \<lparr>ii_payment = pid, ii_restaurant = rid, ii_email = email,
            ii_name = name, ii_tax_id = tax, ii_status = INTENT_WAITING, ii_note = None\<rparr> (invoice_intents st)\<rparr>)"

definition declare_tx :: "nat \<Rightarrow> claim_declaration \<Rightarrow> int \<Rightarrow> int \<Rightarrow> payment tx" where
  "declare_tx rid d amount now st =
     (case get_bill rid (dc_bill d) st of
        None \<Rightarrow> Inl (Bill_E Bill_Not_Found)
      | Some b \<Rightarrow>
         if bill_state b \<noteq> BillOpen then Inl (Bill_E (Bill_Not_Open (bill_state b)))
         else
           let remaining = total_due_ves b - amount_paid_ves b
           in if amount > remaining then Inl (Pay_E (Payment_Exceeds_Balance remaining))
              else and_then (recordPayment (claim_row rid d amount now) st) (\<lambda>(p, st1).
                Inr (p, request_invoice rid d (pay_id p) st1)))"

fun as_claim_error :: "error \<Rightarrow> error" where
  "as_claim_error (General (Db_Unique c)) =
     (if c = ''payments_declared_reference'' then Pay_E Payment_Reference_Already_Used else General (Db_Unique c))"
| "as_claim_error e = e"

section \<open>Confirming and rejecting\<close>

datatype via = VIA_STAFF | VIA_BANK

definition find_claim :: "nat \<Rightarrow> nat \<Rightarrow> store \<Rightarrow> error + payment" where
  "find_claim rid cid st =
     (case get_payment rid cid st of
        None \<Rightarrow> Inl (Pay_E Payment_Claim_Not_Found)
      | Some p \<Rightarrow>
          if pay_method p \<noteq> PAGO_MOVIL then Inl (Pay_E Payment_Claim_Not_Found)
          else if pay_status p \<noteq> Pending then Inl (Pay_E (Payment_Claim_Not_Pending (pay_status p)))
          else Inr p)"

definition suggested_movement :: "nat \<Rightarrow> nat \<Rightarrow> store \<Rightarrow> nat option" where
  "suggested_movement rid cid st =
     (case find_by (\<lambda>m. bm_payment m = cid \<and> bm_restaurant m = rid \<and> bm_outcome m = Matched) (bank_matches st) of
        None \<Rightarrow> None | Some m \<Rightarrow> bm_movement m)"

text \<open>UPDATE bank_movements SET matched_payment_id ... WHERE matched_payment_id IS NULL,
  under the unique index on matched_payment_id.\<close>

definition free_movement :: "nat \<Rightarrow> nat \<Rightarrow> bank_movement \<Rightarrow> bool" where
  "free_movement rid mid m \<longleftrightarrow> mv_id m = mid \<and> mv_restaurant m = rid \<and> matched_payment_id m = None"

definition mark_movement :: "nat \<Rightarrow> nat \<Rightarrow> nat \<Rightarrow> store \<Rightarrow> error + bool \<times> store" where
  "mark_movement rid cid mid st =
     (if \<not> list_ex (free_movement rid mid) (movements st) then Inr (False, st)
      else if list_ex (\<lambda>m. matched_payment_id m = Some cid) (movements st)
      then Inl (General (Db_Unique ''bank_movements_matched_idx''))
      else Inr (True, st\<lparr>movements := update_where (free_movement rid mid)
                           (\<lambda>m. m\<lparr>matched_payment_id := Some cid\<rparr>) (movements st)\<rparr>))"

record confirmation =
  cf_receipt :: receipt
  cf_detached :: "error option"

definition confirm_tx :: "nat \<Rightarrow> nat \<Rightarrow> via \<Rightarrow> nat option \<Rightarrow> confirmation tx" where
  "confirm_tx rid cid via bankMovementId st =
     and_then (find_claim rid cid st) (\<lambda>claim.
     and_then (applyToBill rid (pay_bill claim) (amount_ves claim) st) (\<lambda>(a, st1).
     and_then (transitionPayment rid cid Succeeded (if via = VIA_BANK then PROVIDER else STAFF) DETACH st1) (\<lambda>(m, st2).
     let movementId = (case bankMovementId of Some mid \<Rightarrow> Some mid | None \<Rightarrow> suggested_movement rid cid st2);
         result = \<lparr>cf_receipt = \<lparr>rc_view = settlementView a, rc_payment = cid, rc_tip_ves = tip_ves claim,
                                rc_total_charged_ves = amount_ves claim + tip_ves claim\<rparr>,
                   cf_detached = mo_detached m\<rparr>
     in case movementId of
          None \<Rightarrow> Inr (result, st2)
        | Some mid \<Rightarrow>
            and_then (mark_movement rid cid mid st2) (\<lambda>(marked, st3).
            if via = VIA_BANK \<and> \<not> marked then Inl (Pay_E Bank_Movement_Already_Used)
            else Inr (result, st3)))))"

definition confirmClaim :: "issuer \<Rightarrow> nat \<Rightarrow> nat \<Rightarrow> via \<Rightarrow> nat option \<Rightarrow> confirmation tx" where
  "confirmClaim issue rid cid via bankMovementId st =
     and_then (confirm_tx rid cid via bankMovementId st) (\<lambda>(r, st1). Inr (r, snd (fulfil issue rid cid st1)))"

definition rejectClaim :: "nat \<Rightarrow> nat \<Rightarrow> moved tx" where
  "rejectClaim rid cid st =
     and_then (find_claim rid cid st) (\<lambda>_. transitionPayment rid cid Failed STAFF THROW st)"

section \<open>The sweep over pending claims\<close>

definition WINDOW_DAYS :: int where "WINDOW_DAYS = 7"

definition day_ms :: int where "day_ms = 24 * 60 * 60 * 1000"

definition pending_claims :: "nat \<Rightarrow> store \<Rightarrow> payment list" where
  "pending_claims rid st =
     filter (\<lambda>p. pay_restaurant p = rid \<and> pay_method p = PAGO_MOVIL \<and> pay_status p = Pending) (payments st)"

definition usable_movements :: "nat \<Rightarrow> int \<Rightarrow> store \<Rightarrow> movement_shape list" where
  "usable_movements rid now st =
     concat (map (\<lambda>m. map (\<lambda>c. movementShape m (bc_auto_confirm c))
         (filter (\<lambda>c. bc_id c = mv_connection m \<and> bc_restaurant c = mv_restaurant m \<and> bc_active c) (connections st)))
       (filter (\<lambda>m. mv_restaurant m = rid \<and> matched_payment_id m = None
                   \<and> mv_received_at m > now - WINDOW_DAYS * day_ms) (movements st)))"

definition upsert_match :: "nat \<Rightarrow> decision \<Rightarrow> store \<Rightarrow> store" where
  "upsert_match rid d st =
     (case d of (cid, v) \<Rightarrow>
        let mid = map_option ms_id (vd_movement v) in
        if list_ex (\<lambda>m. bm_payment m = cid) (bank_matches st)
        then st\<lparr>bank_matches := update_where (\<lambda>m. bm_payment m = cid)
               (\<lambda>m. m\<lparr>bm_outcome := vd_outcome v, bm_movement := mid, bm_disagreements := vd_disagreements v\<rparr>)
               (bank_matches st)\<rparr>
        else st\<lparr>bank_matches := insert_row \<lparr>bm_payment = cid, bm_restaurant = rid, bm_outcome = vd_outcome v,
               bm_movement = mid, bm_disagreements = vd_disagreements v, bm_auto_confirmed = False\<rparr> (bank_matches st)\<rparr>)"

definition auto_confirmable :: "verdict \<Rightarrow> nat option" where
  "auto_confirmable v =
     (if vd_outcome v = Matched
      then (case vd_movement v of None \<Rightarrow> None | Some m \<Rightarrow> if ms_auto_confirm m then Some (ms_id m) else None)
      else None)"

definition sweep_one :: "issuer \<Rightarrow> nat \<Rightarrow> decision \<Rightarrow> store \<Rightarrow> store" where
  "sweep_one issue rid d st =
     (case d of (cid, v) \<Rightarrow>
        case auto_confirmable v of
          None \<Rightarrow> st
        | Some mid \<Rightarrow>
           (case confirmClaim issue rid cid VIA_BANK (Some mid) st of
              Inl e \<Rightarrow> st
            | Inr (r, st1) \<Rightarrow>
                st1\<lparr>bank_matches := update_where (\<lambda>m. bm_payment m = cid) (\<lambda>m. m\<lparr>bm_auto_confirmed := True\<rparr>)
                     (bank_matches st1)\<rparr>))"

definition reconcile :: "issuer \<Rightarrow> nat \<Rightarrow> int \<Rightarrow> store \<Rightarrow> store" where
  "reconcile issue rid now st =
     (let claims = pending_claims rid st in
      if claims = [] then st
      else
        let decisions = decide claims (usable_movements rid now st)
        in fold (sweep_one issue rid) decisions (fold (upsert_match rid) decisions st))"

definition reconcileAfterClaim :: "issuer \<Rightarrow> nat \<Rightarrow> int \<Rightarrow> store \<Rightarrow> store" where
  "reconcileAfterClaim issue rid now st =
     (if list_ex (\<lambda>c. bc_restaurant c = rid \<and> bc_active c) (connections st) then reconcile issue rid now st else st)"

definition declareClaim :: "issuer \<Rightarrow> nat \<Rightarrow> claim_declaration \<Rightarrow> int \<Rightarrow> payment tx" where
  "declareClaim issue rid d now st =
     (case toPaymentAmount (dc_amount d) of
        None \<Rightarrow> Inl (General Invalid_Amount)
      | Some amount \<Rightarrow>
         (case declare_tx rid d amount now st of
            Inl e \<Rightarrow> Inl (as_claim_error e)
          | Inr (p, st1) \<Rightarrow> Inr (p, reconcileAfterClaim issue rid now st1)))"

record claims_summary =
  sm_pending :: nat
  sm_oldest :: "int option"
  sm_oldest_age_seconds :: "int option"

definition claimsSummary :: "nat \<Rightarrow> int \<Rightarrow> store \<Rightarrow> claims_summary" where
  "claimsSummary rid now st =
     (let times = map pay_created_at (pending_claims rid st);
          oldest = (if times = [] then None else Some (Min (set times)))
      in \<lparr>sm_pending = length times, sm_oldest = oldest,
          sm_oldest_age_seconds = map_option (\<lambda>t. max 0 ((now - t) div 1000)) oldest\<rparr>)"

section \<open>Every step is sound\<close>

lemma fulfil_keeps:
  "bills (snd (fulfil issue rid pid st)) = bills st" "items (snd (fulfil issue rid pid st)) = items st"
  "payments (snd (fulfil issue rid pid st)) = payments st" "shares (snd (fulfil issue rid pid st)) = shares st"
  "splits (snd (fulfil issue rid pid st)) = splits st" "transitions (snd (fulfil issue rid pid st)) = transitions st"
  "next_id (snd (fulfil issue rid pid st)) = next_id st" "movements (snd (fulfil issue rid pid st)) = movements st"
  by (auto simp: fulfil_def resolve_intent_def split: option.split issue_outcome.split)

lemma find_claim_InrD:
  "find_claim rid cid st = Inr p \<Longrightarrow> get_payment rid cid st = Some p \<and> pay_method p = PAGO_MOVIL \<and> pay_status p = Pending"
  by (auto simp: find_claim_def split: option.splits if_splits)

lemma confirm_tx_InrD:
  assumes "confirm_tx rid cid via bmid st = Inr (r, st')"
  obtains p a st1 m st2 where "find_claim rid cid st = Inr p"
    "applyToBill rid (pay_bill p) (amount_ves p) st = Inr (a, st1)"
    "transitionPayment rid cid Succeeded (if via = VIA_BANK then PROVIDER else STAFF) DETACH st1 = Inr (m, st2)"
    "rc_view (cf_receipt r) = settlementView a" "cf_detached r = mo_detached m"
    "rc_total_charged_ves (cf_receipt r) = amount_ves p + tip_ves p"
    "(case (case bmid of Some mid \<Rightarrow> Some mid | None \<Rightarrow> suggested_movement rid cid st2) of
        None \<Rightarrow> st' = st2
      | Some mid \<Rightarrow> \<exists>marked. mark_movement rid cid mid st2 = Inr (marked, st') \<and> (via = VIA_BANK \<longrightarrow> marked))"
proof -
  obtain p where p: "find_claim rid cid st = Inr p"
    using assms by (cases "find_claim rid cid st") (auto simp: confirm_tx_def)
  obtain a st1 where a: "applyToBill rid (pay_bill p) (amount_ves p) st = Inr (a, st1)"
    using assms p by (cases "applyToBill rid (pay_bill p) (amount_ves p) st") (auto simp: confirm_tx_def)
  obtain m st2 where m: "transitionPayment rid cid Succeeded (if via = VIA_BANK then PROVIDER else STAFF) DETACH st1 = Inr (m, st2)"
    using assms p a
    by (cases "transitionPayment rid cid Succeeded (if via = VIA_BANK then PROVIDER else STAFF) DETACH st1")
      (auto simp: confirm_tx_def)
  show thesis
    by (rule that[OF p a m]) (use assms p a m in
      \<open>auto simp: confirm_tx_def Let_def result_simps split: option.splits if_splits\<close>)
qed

lemma mark_movement_InrD:
  assumes "mark_movement rid cid mid st = Inr (b, st')"
  shows "\<not> b \<Longrightarrow> st' = st"
    "b \<Longrightarrow> list_ex (free_movement rid mid) (movements st) \<and> \<not> list_ex (\<lambda>m. matched_payment_id m = Some cid) (movements st)
       \<and> st' = st\<lparr>movements := update_where (free_movement rid mid) (\<lambda>m. m\<lparr>matched_payment_id := Some cid\<rparr>) (movements st)\<rparr>"
    "\<exists>x. st' = st\<lparr>movements := x\<rparr>"
  using assms by (auto simp: mark_movement_def split: if_splits intro: exI[of _ "movements st"])

lemma confirm_tx_sound:
  assumes "sound st" "confirm_tx rid cid via bmid st = Inr (r, st')"
  shows "sound st' \<and> advances st st'"
proof -
  obtain p a st1 m st2 where p: "find_claim rid cid st = Inr p"
    and a: "applyToBill rid (pay_bill p) (amount_ves p) st = Inr (a, st1)"
    and m: "transitionPayment rid cid Succeeded (if via = VIA_BANK then PROVIDER else STAFF) DETACH st1 = Inr (m, st2)"
    and rest: "(case (case bmid of Some mid \<Rightarrow> Some mid | None \<Rightarrow> suggested_movement rid cid st2) of
        None \<Rightarrow> st' = st2
      | Some mid \<Rightarrow> \<exists>marked. mark_movement rid cid mid st2 = Inr (marked, st') \<and> (via = VIA_BANK \<longrightarrow> marked))"
    using assms(2) by (rule confirm_tx_InrD)
  note F = find_claim_InrD[OF p]
  have s2: "sound st2 \<and> advances st st2"
    using settle_waiting_sound[OF assms(1) _ _ a m] F by (simp add: counted_def)
  have "\<exists>x. st' = st2\<lparr>movements := x\<rparr>"
    using rest mark_movement_InrD(3) by (auto split: option.splits intro: exI[of _ "movements st2"])
  then obtain x where "st' = st2\<lparr>movements := x\<rparr>" by blast
  thus ?thesis using s2 sound_side_tables[of st2 st'] advances_trans by fastforce
qed

lemma confirmClaim_split:
  "confirmClaim issue rid cid via bmid st = Inr (r, st') \<Longrightarrow>
     \<exists>st1. confirm_tx rid cid via bmid st = Inr (r, st1) \<and> st' = snd (fulfil issue rid cid st1)"
  by (auto simp: confirmClaim_def result_simps)

lemma confirmClaim_sound:
  assumes "sound st" "confirmClaim issue rid cid via bmid st = Inr (r, st')"
  shows "sound st' \<and> advances st st'"
proof -
  obtain st1 where st1: "confirm_tx rid cid via bmid st = Inr (r, st1)" "st' = snd (fulfil issue rid cid st1)"
    using confirmClaim_split[OF assms(2)] by blast
  have s1: "sound st1" "advances st st1" using confirm_tx_sound[OF assms(1) st1(1)] by simp_all
  have "sound st' \<and> advances st1 st'"
    by (rule sound_side_tables[OF s1(1)]) (simp_all add: st1(2) fulfil_keeps)
  thus ?thesis using s1(2) advances_trans by blast
qed

interpretation confirm: rail "confirmClaim issue rid cid via bmid" for issue rid cid via bmid
  by unfold_locales (use confirmClaim_sound in blast)+

interpretation reject: rail "rejectClaim rid cid" for rid cid
proof unfold_locales
  fix st r st' assume *: "sound st" "rejectClaim rid cid st = Inr (r, st')"
  have "transitionPayment rid cid Failed STAFF THROW st = Inr (r, st')"
    using *(2) by (auto simp: rejectClaim_def result_simps)
  thus "sound st'" "advances st st'" using move_sound[OF *(1)] by (auto simp: counted_def)
qed

lemma declare_tx_sound:
  assumes "sound st" "declare_tx rid d amount now st = Inr (p, st')"
  shows "sound st' \<and> advances st st'"
proof -
  let ?p0 = "claim_row rid d amount now"
  obtain q st1 where q: "recordPayment ?p0 st = Inr (q, st1)" and st': "st' = request_invoice rid d (pay_id q) st1"
    using assms(2) by (auto simp: declare_tx_def Let_def result_simps split: option.splits if_splits)
  have S: "inv_ledger_side st" using assms(1) by (simp add: sound_def inv_imp_side)
  have pend: "pay_status ?p0 = Pending \<or> pay_status ?p0 = Succeeded" by (simp add: claim_row_def Let_def blank_payment_def)
  note R = recordPayment_posted[OF S q pend]
  have post: "posted None (dc_bill d) 0 st st1" using R(2) by (simp add: claim_row_def Let_def blank_payment_def)
  have "store_inv st1" using inv_unposted[OF _ post] assms(1) by (simp add: sound_def)
  moreover have "inv_log st1" using inv_log_record[OF _ S q pend] assms(1) by (simp add: sound_def)
  ultimately have s1: "sound st1 \<and> advances st st1"
    using assms(1) post R(5) advances_same_bills[of st1 st]
    by (simp add: sound_def items_agree_def lines_of_def posted_def)
  have "sound st' \<and> advances st1 st'"
    by (rule sound_side_tables) (use s1 in \<open>auto simp: st' request_invoice_def split: option.splits\<close>)
  thus ?thesis using s1 advances_trans by blast
qed

lemma sweep_one_sound: "sound st \<Longrightarrow> sound (sweep_one issue rid d st) \<and> advances st (sweep_one issue rid d st)"
proof -
  assume s: "sound st"
  obtain cid v where d: "d = (cid, v)" by force
  show ?thesis
  proof (cases "auto_confirmable v")
    case None
    thus ?thesis using s d by (simp add: sweep_one_def)
  next
    case (Some mid)
    show ?thesis
    proof (cases "confirmClaim issue rid cid VIA_BANK (Some mid) st")
      case (Inl e)
      thus ?thesis using s d Some by (simp add: sweep_one_def)
    next
      case (Inr rs)
      obtain r st1 where rs: "rs = (r, st1)" by force
      have s1: "sound st1" "advances st st1" using confirmClaim_sound[OF s] Inr rs by blast+
      have "sound (sweep_one issue rid d st) \<and> advances st1 (sweep_one issue rid d st)"
        by (rule sound_side_tables[OF s1(1)]) (simp_all add: sweep_one_def d Some Inr rs)
      thus ?thesis using s1(2) advances_trans by blast
    qed
  qed
qed

lemma upsert_match_sound: "sound st \<Longrightarrow> sound (upsert_match rid d st) \<and> advances st (upsert_match rid d st)"
  by (rule sound_side_tables) (simp_all add: upsert_match_def Let_def split: prod.split)

lemma fold_sound:
  assumes "\<And>x st. sound st \<Longrightarrow> sound (f x st) \<and> advances st (f x st)" "sound st"
  shows "sound (fold f xs st) \<and> advances st (fold f xs st)"
  using assms(2)
proof (induction xs arbitrary: st)
  case (Cons x xs)
  thus ?case using assms(1)[OF Cons.prems, of x] Cons.IH[of "f x st"] advances_trans by auto
qed simp

lemma reconcile_sound:
  assumes "sound st"
  shows "sound (reconcile issue rid now st) \<and> advances st (reconcile issue rid now st)"
proof -
  have "sound (fold (upsert_match rid) ds st) \<and> advances st (fold (upsert_match rid) ds st)" for ds
    by (rule fold_sound[OF upsert_match_sound assms])
  moreover have "sound s \<Longrightarrow> sound (fold (sweep_one issue rid) ds s) \<and> advances s (fold (sweep_one issue rid) ds s)" for ds s
    by (rule fold_sound[OF sweep_one_sound])
  ultimately have "sound (fold (sweep_one issue rid) ds (fold (upsert_match rid) ds st))
      \<and> advances st (fold (sweep_one issue rid) ds (fold (upsert_match rid) ds st))" for ds
    using advances_trans by blast
  thus ?thesis using assms by (auto simp: reconcile_def Let_def)
qed

interpretation announce: rail "declareClaim issue rid d now" for issue rid d now
proof unfold_locales
  fix st r st' assume *: "sound st" "declareClaim issue rid d now st = Inr (r, st')"
  obtain amount st1 where d: "declare_tx rid d amount now st = Inr (r, st1)"
    and st': "st' = reconcileAfterClaim issue rid now st1"
    using *(2) by (auto simp: declareClaim_def split: option.splits sum.splits)
  note s1 = declare_tx_sound[OF *(1) d]
  have "sound st' \<and> advances st1 st'"
    using reconcile_sound[of st1] s1 by (simp add: st' reconcileAfterClaim_def)
  thus "sound st'" "advances st st'" using s1 advances_trans by blast+
qed

section \<open>What confirming a claim promises\<close>

lemma confirmClaim_payment:
  assumes "confirmClaim issue rid cid via bmid st = Inr (r, st')"
  shows "\<exists>p q. find_claim rid cid st = Inr p \<and> get_payment rid cid st' = Some q \<and> pay_status q = Succeeded
       \<and> pay_method q = PAGO_MOVIL \<and> amount_ves q = amount_ves p \<and> pay_bill q = pay_bill p"
    "k \<noteq> cid \<Longrightarrow> get_payment rr k st' = get_payment rr k st"
proof -
  obtain st1 where c: "confirm_tx rid cid via bmid st = Inr (r, st1)" and st': "st' = snd (fulfil issue rid cid st1)"
    using confirmClaim_split[OF assms] by blast
  obtain p a sa m sb where f: "find_claim rid cid st = Inr p"
    and ap: "applyToBill rid (pay_bill p) (amount_ves p) st = Inr (a, sa)"
    and t: "transitionPayment rid cid Succeeded (if via = VIA_BANK then PROVIDER else STAFF) DETACH sa = Inr (m, sb)"
    and mk: "(case (case bmid of Some mid \<Rightarrow> Some mid | None \<Rightarrow> suggested_movement rid cid sb) of
        None \<Rightarrow> st1 = sb
      | Some mid \<Rightarrow> \<exists>marked. mark_movement rid cid mid sb = Inr (marked, st1) \<and> (via = VIA_BANK \<longrightarrow> marked))"
    using c by (rule confirm_tx_InrD)
  have "payments st1 = payments sb"
    using mk by (auto dest!: mark_movement_InrD(3) split: option.splits)
  hence pays: "get_payment x y st' = get_payment x y sb" for x y
    using st' by (simp add: get_payment_def fulfil_keeps)
  note T = transition_payment[OF t] and G = get_payment_after_apply[OF ap] and F = find_claim_InrD[OF f]
  show "\<exists>p q. find_claim rid cid st = Inr p \<and> get_payment rid cid st' = Some q \<and> pay_status q = Succeeded
       \<and> pay_method q = PAGO_MOVIL \<and> amount_ves q = amount_ves p \<and> pay_bill q = pay_bill p"
    using T(1) F f pays G by auto
  show "k \<noteq> cid \<Longrightarrow> get_payment rr k st' = get_payment rr k st" using T(2) pays G by simp
qed


definition claim_of :: "int \<Rightarrow> string \<Rightarrow> claim_declaration" where
  "claim_of amount ref = \<lparr>dc_bill = 1, dc_amount = JBigInt amount, dc_reference = Some ref, dc_phone = None, dc_bank = None,
     dc_person = None, dc_payer_type = GUEST, dc_payer_id = None, dc_share = None, dc_tip = 0, dc_invoice = None\<rparr>"

definition claimed_store :: store where
  "claimed_store = dinner_store\<lparr>payments := [claim_row 7 (claim_of 400 ''12345678'') 400 1000\<lparr>pay_id := 15\<rparr>],
     transitions := [\<lparr>tr_payment = 15, tr_restaurant = 7, tr_from = None, tr_to = Pending, tr_actor = GUEST\<rparr>],
     movements := [\<lparr>mv_id = 30, mv_restaurant = 7, mv_connection = 5, mv_reference = ''00012345678'', mv_amount_minor = 400,
        mv_bank_code = None, mv_phone_origin = None, mv_id_origin = None, mv_received_at = 900, matched_payment_id = None\<rparr>]\<rparr>"

definition no_issuer :: issuer where
  "no_issuer i bid = No_Provider"


lemma sweep_one_payment:
  "fst d \<noteq> pid \<or> auto_confirmable (snd d) = None \<Longrightarrow> get_payment rid pid (sweep_one issue rid d st) = get_payment rid pid st"
proof -
  assume a: "fst d \<noteq> pid \<or> auto_confirmable (snd d) = None"
  obtain cid v where d: "d = (cid, v)" by force
  show ?thesis
  proof (cases "auto_confirmable v")
    case (Some mid)
    hence n: "pid \<noteq> cid" using a d by auto
    show ?thesis
    proof (cases "confirmClaim issue rid cid VIA_BANK (Some mid) st")
      case (Inr x)
      obtain r st1 where x: "x = (r, st1)" by force
      have "get_payment rid pid st1 = get_payment rid pid st"
        by (rule confirmClaim_payment(2)[OF Inr[unfolded x] n])
      thus ?thesis using Some Inr x d by (simp add: sweep_one_def get_payment_def)
    qed (use Some d in \<open>simp add: sweep_one_def\<close>)
  qed (use d in \<open>simp add: sweep_one_def\<close>)
qed

lemma fold_sweep_payment:
  assumes "get_payment rid pid (fold (sweep_one issue rid) ds st) \<noteq> get_payment rid pid st"
  shows "\<exists>d \<in> set ds. fst d = pid \<and> auto_confirmable (snd d) \<noteq> None"
  using assms
proof (induction ds arbitrary: st)
  case (Cons d ds)
  show ?case
  proof (cases "fst d = pid \<and> auto_confirmable (snd d) \<noteq> None")
    case False
    hence "get_payment rid pid (sweep_one issue rid d st) = get_payment rid pid st"
      by (intro sweep_one_payment) auto
    thus ?thesis using Cons by fastforce
  qed auto
qed simp

lemma fold_upsert_payments: "payments (fold (upsert_match rid) ds st) = payments st"
  by (induction ds arbitrary: st) (auto simp: upsert_match_def Let_def split: prod.splits)

text \<open>C11: The reconciliation sweep changes a payment only when it is a pending declared transfer,
  exactly one usable movement backs it, that movement comes from a connection trusted to
  confirm, and its amount is the payment plus its tip.\<close>

lemma reconcile_confirms_only_backed:
  assumes "store_inv st" "get_payment rid pid st = Some p"
    and "get_payment rid pid (reconcile issue rid now st) \<noteq> Some p"
  shows "pay_status p = Pending \<and> pay_method p = PAGO_MOVIL
     \<and> (\<exists>m. filter (backs (claimShape p)) (usable_movements rid now st) = [m] \<and> ms_auto_confirm m
            \<and> ms_amount_minor m = amount_ves p + tip_ves p)"
proof -
  let ?cs = "pending_claims rid st" and ?ms = "usable_movements rid now st"
  let ?ds = "decide ?cs ?ms"
  have "?cs \<noteq> []" using assms(2,3) by (auto simp: reconcile_def Let_def)
  hence "get_payment rid pid (fold (sweep_one issue rid) ?ds (fold (upsert_match rid) ?ds st))
      \<noteq> get_payment rid pid (fold (upsert_match rid) ?ds st)"
    using assms(2,3) get_payment_same_rows[OF fold_upsert_payments] by (simp add: reconcile_def Let_def)
  then obtain d where d: "d \<in> set ?ds" "fst d = pid" "auto_confirmable (snd d) \<noteq> None"
    using fold_sweep_payment by blast
  obtain i where i: "i < length ?cs" "d = ?ds ! i" using d(1) by (auto simp: in_set_conv_nth)
  have "vd_outcome (snd (?ds ! i)) = Matched" using d(3) i(2) by (auto simp: auto_confirmable_def split: if_splits)
  with i(1) obtain m where m: "?ds ! i = (pay_id (?cs ! i), matchClaim (claimShape (?cs ! i)) ?ms)"
    "vd_movement (matchClaim (claimShape (?cs ! i)) ?ms) = Some m" "filter (backs (claimShape (?cs ! i))) ?ms = [m]"
    by (rule decide_nth)
  have c: "?cs ! i \<in> set (payments st)" "pay_status (?cs ! i) = Pending" "pay_method (?cs ! i) = PAGO_MOVIL"
    using nth_mem[OF i(1)] by (auto simp: pending_claims_def)
  have "?cs ! i = p"
  proof (rule keyed_unique[of pay_id "payments st"])
    show "keyed pay_id (payments st)" using assms(1) by (simp add: store_inv_def inv_keys_def)
    show "pay_id (?cs ! i) = pay_id p" using d(2) i(2) m(1) get_payment_SomeD[OF assms(2)] by simp
  qed (use c get_payment_SomeD[OF assms(2)] in simp_all)
  moreover have "m \<in> set (filter (backs (claimShape (?cs ! i))) ?ms)" using m(3) by simp
  ultimately show ?thesis using c m d(3) i(2)
    by (auto simp: auto_confirmable_def backs_def disagreements_Nil claimShape_def split: if_splits option.splits)
qed

lemma reconcile_confirms_only_backed_witness:
  "\<exists>p. get_payment 7 15 claimed_store = Some p \<and> get_payment 7 15 (reconcile no_issuer 7 2000 claimed_store) \<noteq> Some p
     \<and> (\<exists>m. filter (backs (claimShape p)) (usable_movements 7 2000 claimed_store) = [m] \<and> ms_auto_confirm m)"
proof -
  have inv: "store_inv claimed_store"
    using inv_dinner by (simp add: claimed_store_def store_inv_def inv_parts claim_row_def claim_of_def Let_def blank_payment_def
        dinner_store_def empty_store_def dinner_bill_def payment_ledger_drift_def bill_split_share_drift_def ledger_total_def
        counted_def one_active_def payment_checks_def bill_checks_def keyed_def)
  have c: "map_option pay_status (get_payment 7 15 claimed_store) = Some Pending"
    "map_option pay_status (get_payment 7 15 (reconcile no_issuer 7 2000 claimed_store)) = Some Succeeded"
    by code_simp+
  then obtain p where p: "get_payment 7 15 claimed_store = Some p" "pay_status p = Pending" by auto
  have "get_payment 7 15 (reconcile no_issuer 7 2000 claimed_store) \<noteq> Some p" using c(2) p(2) by auto
  thus ?thesis using reconcile_confirms_only_backed[OF inv p(1)] p(1) by blast
qed

end
