(* ===== verification/C2p.thy ===== *)
theory C2p
  imports Settlement Bank_Match
begin

text \<open>
  The C2P rail, where the application asks a bank for money and may never be told what
  happened: the bank client of src/payments/providers/mercantil/c2p.js (its HTTP
  exchange is a parameter), the matcher of src/services/c2pMatcher.js and the charge,
  park and resolution steps of src/services/mercantilC2P.js.  The lemmas characterise
  MATCHED, show that a charge whose outcome is unknown is never reported as failed, that
  a settled movement belongs to no other payment, and that both rails are sound.
\<close>

section \<open>References, phones and amounts (c2pMatcher.js)\<close>

definition digitsOnly :: "string \<Rightarrow> string" where
  "digitsOnly s = filter is_digit s"

definition reference_char :: "char \<Rightarrow> bool" where
  "reference_char c = (is_digit c \<or> is_space c \<or> c = CHR ''.'' \<or> c = CHR ''-'' \<or> c = CHR ''/'')"

definition canonicalReference :: "string option \<Rightarrow> string option" where
  "canonicalReference value =
     (let text = trim (text_of value) in
      if text = [] then None
      else if list_all reference_char text
      then (let ds = digitsOnly text in Some (if ds = [] then text else ds))
      else Some text)"

definition phoneMatchesLast4 :: "string \<Rightarrow> string \<Rightarrow> bool" where
  "phoneMatchesLast4 movementPhone storedLast4 =
     (let movement = digitsOnly movementPhone; stored = digitsOnly storedLast4 in
      if length movement < 4 \<or> length stored \<noteq> 4 then False
      else drop (length movement - 4) movement = stored)"

text \<open>An amount the client could not read arrives as null, whose text \<open>BigInt\<close> refuses.\<close>

definition amountsEqual :: "string option \<Rightarrow> string option \<Rightarrow> bool" where
  "amountsEqual a b =
     (case (a, b) of
        (Some s, Some t) \<Rightarrow>
          (case (js_bigint_of_string s, js_bigint_of_string t) of
             (Some x, Some y) \<Rightarrow> x = y
           | _ \<Rightarrow> False)
      | _ \<Rightarrow> False)"

record c2p_movement =
  cm_reference :: string
  cm_amount :: "string option"
  cm_phone :: string

datatype c2p_match =
    Match_One c2p_movement
  | Match_Unclear "string option list"
  | Match_None

definition is_candidate :: "string option list \<Rightarrow> string \<Rightarrow> c2p_movement \<Rightarrow> bool" where
  "is_candidate consumed charged m =
     (if cm_reference m = [] \<or> cm_amount m = None then False
      else if canonicalReference (Some (cm_reference m)) \<in> set consumed then False
      else amountsEqual (cm_amount m) (Some charged))"

definition matchInDoubtPayment :: "c2p_movement list \<Rightarrow> string \<Rightarrow> string \<Rightarrow> string option list \<Rightarrow> c2p_match" where
  "matchInDoubtPayment mvs charged last4 consumed =
     (let candidates = filter (is_candidate consumed charged) mvs in
      if candidates = [] then Match_None
      else
        let byPhone = filter (\<lambda>m. phoneMatchesLast4 (cm_phone m) last4) candidates in
        if length byPhone = 1 then Match_One (hd byPhone)
        else if length byPhone > 1
        then Match_Unclear (map (\<lambda>m. canonicalReference (Some (cm_reference m))) byPhone)
        else Match_Unclear (map (\<lambda>m. canonicalReference (Some (cm_reference m))) candidates))"

section \<open>The bank client (c2p.js)\<close>

definition INDETERMINATE_HTTP :: "nat set" where "INDETERMINATE_HTTP = {408, 425, 429}"

definition isIndeterminateStatus :: "nat \<Rightarrow> bool" where
  "isIndeterminateStatus status = (status \<in> INDETERMINATE_HTTP \<or> 500 \<le> status \<and> status \<le> 599)"

fun replace_first :: "char \<Rightarrow> char \<Rightarrow> string \<Rightarrow> string" where
  "replace_first a b [] = []"
| "replace_first a b (c # cs) = (if c = a then b # cs else c # replace_first a b cs)"

text \<open>Decimal text to minor units; the pattern is \<open>^\d+(\.\d{1,2})?$\<close>.\<close>

definition toMinorUnits :: "string option \<Rightarrow> string option" where
  "toMinorUnits raw =
     (case raw of
        None \<Rightarrow> None
      | Some r \<Rightarrow>
          let text = trim r in
          if text = [] then None
          else if digits_only text then Some text
          else
            let normalised = (if CHR '','' \<in> set text
                  then replace_first (CHR '','') (CHR ''.'') (filter (\<lambda>c. c \<noteq> CHR ''.'') text) else text)
            in case split_on (CHR ''.'') normalised of
                 [whole] \<Rightarrow> if digits_only whole then Some (show_int (int (read_nat whole) * 100)) else None
               | [whole, fraction] \<Rightarrow>
                   if digits_only whole \<and> digits_only fraction \<and> length fraction \<le> 2
                   then Some (show_int (int (read_nat whole) * 100
                          + int (read_nat (fraction @ replicate (2 - length fraction) (CHR ''0'')))))
                   else None
               | _ \<Rightarrow> None)"

definition toBankAmount :: "int \<Rightarrow> string" where
  "toBankAmount amount =
     (let absolute = (if amount < 0 then - amount else amount);
          cents = show_int (absolute mod 100)
      in (if amount < 0 then ''-'' else []) @ show_int (absolute div 100) @ ''.''
         @ replicate (2 - length cents) (CHR ''0'') @ cents)"

record bank_answer =
  ba_status :: string
  ba_approved :: "bool option"
  ba_exitoso :: bool
  ba_payment_id :: string
  ba_reference :: string

datatype charge_result =
    Charge_Succeeded "string option" "string option"
  | Charge_Failed
  | Charge_Indeterminate
  | Charge_Refused

definition some_text :: "string \<Rightarrow> string option" where
  "some_text s = (if s = [] then None else Some s)"

definition mapCharge :: "bank_answer \<Rightarrow> charge_result" where
  "mapCharge d =
     (let status = map upper (ba_status d);
          approved = status \<in> set [''SUCCESS'', ''SUCCEEDED'', ''COMPLETED'', ''APPROVED'', ''APROBADO'', ''00'']
                     \<or> ba_approved d = Some True \<or> ba_exitoso d;
          rejected = status \<in> set [''FAILED'', ''REJECTED'', ''DECLINED'', ''RECHAZADO'']
                     \<or> ba_approved d = Some False
      in if approved then Charge_Succeeded (some_text (ba_payment_id d)) (some_text (ba_reference d))
         else if rejected then Charge_Failed
         else Charge_Indeterminate)"

text \<open>What came back over the wire: an HTTP status with a body, or nothing conclusive
  (the abort timer, or no connection).\<close>

datatype 'a http_reply = Answered nat 'a | Timed_Out | Unreachable

fun request_charge :: "bank_answer http_reply \<Rightarrow> charge_result" where
  "request_charge (Answered status body) =
     (if 200 \<le> status \<and> status \<le> 299 then mapCharge body
      else if isIndeterminateStatus status then Charge_Indeterminate else Charge_Refused)"
| "request_charge Timed_Out = Charge_Indeterminate"
| "request_charge Unreachable = Charge_Indeterminate"

record c2p_payer =
  cp_bank_code :: string
  cp_id_number :: string
  cp_phone :: string
  cp_clave :: string

definition bank_charge ::
  "(string \<Rightarrow> string \<Rightarrow> bank_answer http_reply) \<Rightarrow> string \<Rightarrow> int \<Rightarrow> c2p_payer \<Rightarrow> charge_result" where
  "bank_charge post invoiceNumber amount payer =
     (if invoiceNumber = [] then Charge_Refused
      else if amount \<le> 0 then Charge_Refused
      else if cp_bank_code payer = [] \<or> cp_id_number payer = [] \<or> cp_phone payer = [] \<or> cp_clave payer = []
      then Charge_Refused
      else request_charge (post invoiceNumber (toBankAmount amount)))"

record bank_row =
  br_reference :: string
  br_amount :: "string option"
  br_phone :: string

definition search_rows :: "bank_row list \<Rightarrow> c2p_movement list" where
  "search_rows rows =
     filter (\<lambda>m. cm_reference m \<noteq> [] \<and> cm_amount m \<noteq> None)
       (map (\<lambda>r. \<lparr>cm_reference = br_reference r, cm_amount = toMinorUnits (br_amount r), cm_phone = br_phone r\<rparr>) rows)"

fun bank_search :: "bank_row list http_reply \<Rightarrow> c2p_movement list option" where
  "bank_search (Answered status rows) = (if 200 \<le> status \<and> status \<le> 299 then Some (search_rows rows) else None)"
| "bank_search Timed_Out = None"
| "bank_search Unreachable = None"

section \<open>Raising a charge (mercantilC2P.js)\<close>

definition RESOLUTION_WINDOW_MAX_MS :: int where "RESOLUTION_WINDOW_MAX_MS = 6 * 60 * 60 * 1000"
definition SETTLEMENT_WINDOW_MINUTES :: int where "SETTLEMENT_WINDOW_MINUTES = 15"
definition SEARCH_LEAD_MS :: int where "SEARCH_LEAD_MS = 5 * 60 * 1000"
definition MERCANTIL :: string where "MERCANTIL = ''MERCANTIL''"

definition hex :: "string \<Rightarrow> string" where
  "hex uuid = map upper (filter (\<lambda>c. c \<noteq> CHR ''-'') uuid)"

definition buildInvoiceNumber :: "string \<Rightarrow> string \<Rightarrow> string" where
  "buildInvoiceNumber restaurantId paymentId = ''SPL-'' @ take 8 (hex restaurantId) @ ''-'' @ hex paymentId"

definition lastFour :: "string \<Rightarrow> string" where
  "lastFour phone = (let ds = digitsOnly phone; t = drop (length ds - 4) ds in replicate (4 - length t) (CHR ''0'') @ t)"

definition referenceFor :: "string option \<Rightarrow> string option \<Rightarrow> string option" where
  "referenceFor bankReference providerPaymentId =
     (case canonicalReference bankReference of Some r \<Rightarrow> Some r | None \<Rightarrow> canonicalReference providerPaymentId)"

definition logAttempt :: "nat \<Rightarrow> nat \<Rightarrow> attempt_outcome \<Rightarrow> string option list \<Rightarrow> store \<Rightarrow> store" where
  "logAttempt pid rid outcome candidates st =
     st\<lparr>c2p_attempts := insert_row \<lparr>at_payment = pid, at_restaurant = rid, at_outcome = outcome,
          at_candidates = candidates\<rparr> (c2p_attempts st)\<rparr>"

definition touch_charge :: "nat \<Rightarrow> int \<Rightarrow> store \<Rightarrow> store" where
  "touch_charge pid now st =
     st\<lparr>c2p_charges := update_where (\<lambda>c. cc_payment c = pid) (\<lambda>c. c\<lparr>cc_last_resolution := Some now\<rparr>) (c2p_charges st)\<rparr>"

fun asReferenceConflict :: "error \<Rightarrow> error" where
  "asReferenceConflict (General (Db_Unique c)) =
     (if c = ''payments_provider_reference'' then Pay_E Payment_Reference_Already_Used else General (Db_Unique c))"
| "asReferenceConflict e = e"

fun UNAPPLIABLE_CODES :: "error \<Rightarrow> bool" where
  "UNAPPLIABLE_CODES (Bill_E Bill_Not_Found) = True"
| "UNAPPLIABLE_CODES (Bill_E (Bill_Not_Open s)) = True"
| "UNAPPLIABLE_CODES (Pay_E (Payment_Exceeds_Balance r)) = True"
| "UNAPPLIABLE_CODES (Split_E (Split_Is_Stale t)) = True"
| "UNAPPLIABLE_CODES (Split_E (Split_Not_Active s)) = True"
| "UNAPPLIABLE_CODES (Split_E (Split_Share_Overpaid r)) = True"
| "UNAPPLIABLE_CODES (Split_E Split_Share_Not_Found) = True"
| "UNAPPLIABLE_CODES _ = False"

definition moveTo :: "nat \<Rightarrow> nat \<Rightarrow> payment_status \<Rightarrow> moved tx" where
  "moveTo rid pid toStatus st = transitionPayment rid pid toStatus PROVIDER THROW st"

definition spend_if :: "bool \<Rightarrow> nat \<Rightarrow> nat \<Rightarrow> string option \<Rightarrow> store \<Rightarrow> error + store" where
  "spend_if guard rid pid reference st = (if guard then spend_reference rid pid reference st else Inr st)"

definition park_tx :: "nat \<Rightarrow> nat \<Rightarrow> string option \<Rightarrow> bool \<Rightarrow> actor_type \<Rightarrow> bool \<Rightarrow> int \<Rightarrow> unit tx" where
  "park_tx rid pid reference taken actor attempt now st =
     and_then (spend_if (reference \<noteq> None \<and> \<not> taken) rid pid reference st) (\<lambda>st1.
     and_then (transitionPayment rid pid Ambiguous actor THROW st1) (\<lambda>(m, st2).
     Inr ((), if attempt then logAttempt pid rid A_Unappliable (case reference of None \<Rightarrow> [] | r \<Rightarrow> [r]) (touch_charge pid now st2)
              else st2)))"

definition parkUnappliable ::
  "nat \<Rightarrow> nat \<Rightarrow> string option \<Rightarrow> error \<Rightarrow> actor_type \<Rightarrow> bool \<Rightarrow> int \<Rightarrow> store \<Rightarrow> store" where
  "parkUnappliable rid pid reference err actor attempt now st =
     (case park_tx rid pid reference (asReferenceConflict err = Pay_E Payment_Reference_Already_Used) actor attempt now st of
        Inl e \<Rightarrow> st
      | Inr (u, st1) \<Rightarrow> st1)"

record charge_request =
  cr_bill :: nat
  cr_amount :: js_value
  cr_tip :: js_value
  cr_payer :: c2p_payer
  cr_key :: "string option"
  cr_payer_id :: "nat option"
  cr_share :: "nat option"

definition charge_row :: "nat \<Rightarrow> charge_request \<Rightarrow> int \<Rightarrow> int \<Rightarrow> int \<Rightarrow> payment" where
  "charge_row rid r amount tip now =
     (blank_payment rid (cr_bill r) amount tip Pending C2P)
       \<lparr>pay_provider := Some MERCANTIL, pay_key := cr_key r, payer_type := GUEST, payer_id := cr_payer_id r,
        split_participant_id := cr_share r, pay_created_at := now\<rparr>"

text \<open>The first transaction, committed before the bank is called.  \<open>uuid\<close> is the text of
  an identifier.\<close>

definition register_charge ::
  "(nat \<Rightarrow> string) \<Rightarrow> nat \<Rightarrow> charge_request \<Rightarrow> int \<Rightarrow> int \<Rightarrow> int \<Rightarrow> (payment \<times> string) tx" where
  "register_charge uuid rid r amount tip now st =
     (case get_bill rid (cr_bill r) st of
        None \<Rightarrow> Inl (Bill_E Bill_Not_Found)
      | Some b \<Rightarrow>
         if bill_state b \<noteq> BillOpen then Inl (Bill_E (Bill_Not_Open (bill_state b)))
         else
           let remaining = total_due_ves b - amount_paid_ves b in
           if amount > remaining then Inl (Pay_E (Payment_Exceeds_Balance remaining))
           else
             and_then (recordPayment (charge_row rid r amount tip now) st) (\<lambda>(p, st1).
             let invoice = buildInvoiceNumber (uuid rid) (uuid (pay_id p))
             in Inr ((p, invoice),
                  st1\<lparr>c2p_charges := insert_row \<lparr>cc_payment = pay_id p, cc_restaurant = rid, cc_invoice = invoice,
                        cc_bank_code = cp_bank_code (cr_payer r), cc_phone_last4 = lastFour (cp_phone (cr_payer r)),
                        cc_last_resolution = None\<rparr> (c2p_charges st1)\<rparr>)))"

definition settle_charge :: "nat \<Rightarrow> nat \<Rightarrow> nat \<Rightarrow> int \<Rightarrow> string option \<Rightarrow> int \<Rightarrow> settlement_view tx" where
  "settle_charge rid pid bid amount reference now st =
     and_then (spend_if (reference \<noteq> None) rid pid reference st) (\<lambda>st1.
     and_then (applyToBill rid bid amount st1) (\<lambda>(a, st2).
     and_then (transitionPayment rid pid Succeeded PROVIDER THROW st2) (\<lambda>(m, st3).
     Inr (settlementView a, touch_charge pid now st3))))"

record charge_outcome =
  co_payment :: nat
  co_status :: payment_status
  co_invoice :: string
  co_reference :: "string option"
  co_settlement :: "settlement_view option"

text \<open>What the second half of \<open>createC2PPayment\<close> does with the bank's answer.\<close>

definition finish_charge ::
  "nat \<Rightarrow> payment \<Rightarrow> string \<Rightarrow> charge_result \<Rightarrow> int \<Rightarrow> charge_outcome tx" where
  "finish_charge rid p invoice answer now st =
     (let say = (\<lambda>s r v. \<lparr>co_payment = pay_id p, co_status = s, co_invoice = invoice,
                         co_reference = r, co_settlement = v\<rparr>)
      in case answer of
           Charge_Indeterminate \<Rightarrow>
             Inr (say In_Doubt None None,
                  case moveTo rid (pay_id p) In_Doubt st of Inl e \<Rightarrow> st | Inr (m, st1) \<Rightarrow> st1)
         | Charge_Refused \<Rightarrow>
             and_then (moveTo rid (pay_id p) Failed st) (\<lambda>(m, st1). Inr (say Failed None None, st1))
         | Charge_Failed \<Rightarrow>
             and_then (moveTo rid (pay_id p) Failed st) (\<lambda>(m, st1). Inr (say Failed None None, st1))
         | Charge_Succeeded providerPaymentId bankReference \<Rightarrow>
             let reference = referenceFor bankReference providerPaymentId in
             (case settle_charge rid (pay_id p) (pay_bill p) (amount_ves p) reference now st of
                Inl err \<Rightarrow> Inr (say Ambiguous reference None,
                             parkUnappliable rid (pay_id p) reference err PROVIDER False now st)
              | Inr (v, st1) \<Rightarrow> Inr (say Succeeded reference (Some v), st1)))"

definition createC2PPayment ::
  "(nat \<Rightarrow> string) \<Rightarrow> bool \<Rightarrow> (string \<Rightarrow> string \<Rightarrow> bank_answer http_reply) \<Rightarrow> nat \<Rightarrow> charge_request \<Rightarrow> int
    \<Rightarrow> store \<Rightarrow> (error + charge_outcome) \<times> store" where
  "createC2PPayment uuid enabled post rid r now st =
     (case toPaymentAmount (cr_amount r) of
        None \<Rightarrow> (Inl (General Invalid_Amount), st)
      | Some amount \<Rightarrow>
         (case toTipAmount (cr_tip r) of
            None \<Rightarrow> (Inl (General Invalid_Amount), st)
          | Some tip \<Rightarrow>
             if \<not> enabled then (Inl (Pay_E Payment_Provider_Misconfigured), st)
             else
               case register_charge uuid rid r amount tip now st of
                 Inl e \<Rightarrow> (Inl e, st)
               | Inr ((p, invoice), st1) \<Rightarrow>
                   let answer = bank_charge post invoice (amount + tip) (cr_payer r)
                   in case finish_charge rid p invoice answer now st1 of
                        Inl e \<Rightarrow> (Inl e, st1)
                      | Inr (out, st2) \<Rightarrow> (Inr out, st2)))"

section \<open>Resolving a charge the bank never answered\<close>

datatype resolution =
    R_Already payment_status
  | R_Expired
  | R_Settled "string option" settlement_view
  | R_Unclear "string option list"
  | R_Waiting
  | R_Not_Debited
  | R_Parked "string option"

definition read_charge :: "nat \<Rightarrow> nat \<Rightarrow> store \<Rightarrow> (payment \<times> c2p_charge) option" where
  "read_charge rid pid st =
     (case get_payment rid pid st of
        None \<Rightarrow> None
      | Some p \<Rightarrow> (case find_by (\<lambda>c. cc_payment c = pid) (c2p_charges st) of
                    None \<Rightarrow> None | Some c \<Rightarrow> Some (p, c)))"

definition consumed_references :: "string option list \<Rightarrow> store \<Rightarrow> string option list" where
  "consumed_references references st =
     map (\<lambda>p. canonicalReference (provider_payment_id p))
       (filter (\<lambda>p. pay_provider p = Some MERCANTIL \<and> provider_payment_id p \<noteq> None
                   \<and> provider_payment_id p \<in> set references) (payments st))"

text \<open>The locked transaction of \<open>resolveC2PPayment\<close>.\<close>

definition resolve_tx :: "nat \<Rightarrow> nat \<Rightarrow> actor_type \<Rightarrow> c2p_match \<Rightarrow> int \<Rightarrow> int \<Rightarrow> resolution tx" where
  "resolve_tx rid pid actor match created now st =
     (case get_payment rid pid st of
        None \<Rightarrow> Inl (General Plain_Error)
      | Some locked \<Rightarrow>
         if pay_status locked \<noteq> In_Doubt
         then Inr (R_Already (pay_status locked), logAttempt pid rid A_Already_Resolved [] st)
         else
           let st0 = touch_charge pid now st in
           (case match of
              Match_One m \<Rightarrow>
                let reference = canonicalReference (Some (cm_reference m)) in
                and_then (spend_reference rid pid reference st0) (\<lambda>st1.
                and_then (applyToBill rid (pay_bill locked) (amount_ves locked) st1) (\<lambda>(a, st2).
                and_then (transitionPayment rid pid Succeeded actor THROW st2) (\<lambda>(mv, st3).
                Inr (R_Settled reference (settlementView a), logAttempt pid rid A_Matched [reference] st3))))
            | Match_Unclear candidates \<Rightarrow>
                and_then (transitionPayment rid pid Ambiguous actor THROW st0) (\<lambda>(mv, st1).
                Inr (R_Unclear candidates, logAttempt pid rid A_Ambiguous candidates st1))
            | Match_None \<Rightarrow>
                if now - created < SETTLEMENT_WINDOW_MINUTES * 60000
                then Inr (R_Waiting, logAttempt pid rid A_Pending_Window [] st0)
                else
                  and_then (transitionPayment rid pid Failed actor THROW st0) (\<lambda>(mv, st1).
                  Inr (R_Not_Debited, logAttempt pid rid A_No_Match [] st1))))"

definition expire_tx :: "nat \<Rightarrow> nat \<Rightarrow> actor_type \<Rightarrow> int \<Rightarrow> resolution tx" where
  "expire_tx rid pid actor now st =
     and_then (transitionPayment rid pid Ambiguous actor THROW (touch_charge pid now st)) (\<lambda>(m, st1).
     Inr (R_Expired, logAttempt pid rid A_Window_Expired [] st1))"

text \<open>The catch of \<open>resolveC2PPayment\<close>: a matched debit the bill or share cannot take is
  parked, anything else is thrown.\<close>

definition resolve_commit :: "nat \<Rightarrow> nat \<Rightarrow> actor_type \<Rightarrow> c2p_match \<Rightarrow> int \<Rightarrow> int \<Rightarrow> resolution tx" where
  "resolve_commit rid pid actor match created now st =
     (case resolve_tx rid pid actor match created now st of
        Inr r \<Rightarrow> Inr r
      | Inl err \<Rightarrow>
          let converted = asReferenceConflict err in
          (case match of
             Match_One m \<Rightarrow>
               if UNAPPLIABLE_CODES converted
               then (let reference = canonicalReference (Some (cm_reference m))
                     in Inr (R_Parked reference, parkUnappliable rid pid reference err (if actor = STAFF then STAFF else PROVIDER) True now st))
               else Inl converted
           | _ \<Rightarrow> Inl converted))"

definition resolveC2PPayment ::
  "bool \<Rightarrow> (int \<Rightarrow> int \<Rightarrow> string \<Rightarrow> bank_row list http_reply) \<Rightarrow> nat \<Rightarrow> nat \<Rightarrow> actor_type \<Rightarrow> int \<Rightarrow> resolution tx" where
  "resolveC2PPayment enabled search rid pid actor now st =
     (case read_charge rid pid st of
        None \<Rightarrow> Inl (Pay_E Payment_Claim_Not_Found)
      | Some (p, c) \<Rightarrow>
         if pay_status p \<noteq> In_Doubt then Inr (R_Already (pay_status p), st)
         else if pay_created_at p < now - RESOLUTION_WINDOW_MAX_MS then expire_tx rid pid actor now st
         else if \<not> enabled then Inl (Pay_E Payment_Provider_Misconfigured)
         else
           let created = pay_created_at p;
               charged = amount_ves p + tip_ves p;
               from_ms = max (created - SEARCH_LEAD_MS) (now - RESOLUTION_WINDOW_MAX_MS)
           in (case bank_search (search from_ms now (toBankAmount charged)) of
                 None \<Rightarrow> Inl (Pay_E Payment_Resolution_Unavailable)
               | Some mvs \<Rightarrow>
                   let references = filter (\<lambda>r. r \<noteq> None) (map (\<lambda>m. canonicalReference (Some (cm_reference m))) mvs);
                       match = matchInDoubtPayment mvs (show_int charged) (cc_phone_last4 c)
                                 (consumed_references references st)
                   in resolve_commit rid pid actor match created now st))"

definition listUnresolved :: "nat \<Rightarrow> nat \<Rightarrow> int \<Rightarrow> store \<Rightarrow> (payment \<times> c2p_charge) list" where
  "listUnresolved rid limit now st =
     take limit (sort_key (\<lambda>x. pay_created_at (fst x))
       (concat (map (\<lambda>p. map (\<lambda>c. (p, c)) (filter (\<lambda>c. cc_payment c = pay_id p) (c2p_charges st)))
         (filter (\<lambda>p. pay_restaurant p = rid
             \<and> (pay_status p \<in> {In_Doubt, Ambiguous}
                \<or> pay_status p = Pending \<and> pay_created_at p < now - SETTLEMENT_WINDOW_MINUTES * 60000))
           (payments st)))))"

section \<open>Spelling of a reference\<close>

lemma digitsOnly_id: "list_all is_digit s \<Longrightarrow> digitsOnly s = s"
  by (simp add: digitsOnly_def list_all_iff)

lemma digitsOnly_digits: "list_all is_digit (digitsOnly s)"
  by (simp add: digitsOnly_def list_all_iff)

lemma reference_digit: "is_digit c \<Longrightarrow> reference_char c"
  by (simp add: reference_char_def)

lemma canonicalReference_cases:
  "canonicalReference v = Some r \<Longrightarrow>
     r \<noteq> [] \<and> (digits_only r \<or> trim r = r \<and> \<not> (list_all reference_char r \<and> digitsOnly r \<noteq> []))"
  using digitsOnly_digits[of "trim (text_of v)"]
  by (auto simp: canonicalReference_def Let_def digits_only_def split: if_splits)

lemma canonical_idem: "canonicalReference v = Some r \<Longrightarrow> canonicalReference (Some r) = Some r"
proof -
  assume "canonicalReference v = Some r"
  note C = canonicalReference_cases[OF this]
  show ?thesis
  proof (cases "digits_only r")
    case True
    hence d: "list_all is_digit r" by (simp add: digits_only_def)
    hence "trim r = r" by (intro trim_id) (auto simp: list_all_iff dest: digit_not_space)
    moreover have "list_all reference_char r" using d by (auto simp: list_all_iff intro: reference_digit)
    ultimately show ?thesis using C d by (simp add: canonicalReference_def text_of_def Let_def digitsOnly_id)
  next
    case False
    thus ?thesis using C by (auto simp: canonicalReference_def text_of_def Let_def)
  qed
qed

section \<open>What a match means\<close>

definition identifies :: "string option list \<Rightarrow> string \<Rightarrow> string \<Rightarrow> c2p_movement \<Rightarrow> bool" where
  "identifies consumed charged last4 m \<longleftrightarrow>
     is_candidate consumed charged m \<and> phoneMatchesLast4 (cm_phone m) last4"

lemma matchInDoubt_One:
  "matchInDoubtPayment mvs charged last4 consumed = Match_One m \<longleftrightarrow> filter (identifies consumed charged last4) mvs = [m]"
proof -
  have f: "filter (\<lambda>m. phoneMatchesLast4 (cm_phone m) last4) (filter (is_candidate consumed charged) mvs)
      = filter (identifies consumed charged last4) mvs"
    by (simp add: identifies_def conj_commute cong: filter_cong)
  have e: "filter (is_candidate consumed charged) mvs = [] \<Longrightarrow> filter (identifies consumed charged last4) mvs = []"
    by (auto simp: filter_empty_conv identifies_def)
  show ?thesis
    unfolding matchInDoubtPayment_def Let_def f using e
    by (auto simp: length_Suc_conv neq_Nil_conv)
qed

section \<open>Soundness of the rail\<close>

lemma touch_charge_keeps [simp]:
  "bills (touch_charge pid now st) = bills st" "items (touch_charge pid now st) = items st"
  "payments (touch_charge pid now st) = payments st" "shares (touch_charge pid now st) = shares st"
  "splits (touch_charge pid now st) = splits st" "transitions (touch_charge pid now st) = transitions st"
  "next_id (touch_charge pid now st) = next_id st"
  by (simp_all add: touch_charge_def)

lemma logAttempt_keeps [simp]:
  "bills (logAttempt pid rid out cs st) = bills st" "items (logAttempt pid rid out cs st) = items st"
  "payments (logAttempt pid rid out cs st) = payments st" "shares (logAttempt pid rid out cs st) = shares st"
  "splits (logAttempt pid rid out cs st) = splits st" "transitions (logAttempt pid rid out cs st) = transitions st"
  "next_id (logAttempt pid rid out cs st) = next_id st"
  by (simp_all add: logAttempt_def)

lemma touch_sound: "sound st \<Longrightarrow> sound (touch_charge pid now st) \<and> advances st (touch_charge pid now st)"
  by (rule sound_side_tables) simp_all

lemma log_sound: "sound st \<Longrightarrow> sound (logAttempt pid rid out cs st) \<and> advances st (logAttempt pid rid out cs st)"
  by (rule sound_side_tables) simp_all

lemma spend_reference_InrD:
  assumes "spend_reference rid pid ref st = Inr st'"
  shows "get_payment r k st' = map_option (\<lambda>p. if pay_id p = pid \<and> get_payment rid pid st \<noteq> None
                                      then p\<lparr>provider_payment_id := ref\<rparr> else p) (get_payment r k st)"
    "bills st' = bills st" "items st' = items st" "next_id st' = next_id st"
    "ref \<noteq> None \<Longrightarrow> get_payment rid pid st = Some p \<Longrightarrow> q \<in> set (payments st') \<Longrightarrow>
       pay_provider q = pay_provider p \<Longrightarrow> provider_payment_id q = ref \<Longrightarrow> pay_id q = pid"
proof -
  show "get_payment r k st' = map_option (\<lambda>p. if pay_id p = pid \<and> get_payment rid pid st \<noteq> None
                                      then p\<lparr>provider_payment_id := ref\<rparr> else p) (get_payment r k st)"
    using assms by (auto simp: spend_reference_def get_payment_put option.map_ident split: option.splits if_splits)
  show "bills st' = bills st" "items st' = items st" "next_id st' = next_id st"
    using assms by (auto simp: spend_reference_def split: option.splits if_splits)
  show "ref \<noteq> None \<Longrightarrow> get_payment rid pid st = Some p \<Longrightarrow> q \<in> set (payments st') \<Longrightarrow>
       pay_provider q = pay_provider p \<Longrightarrow> provider_payment_id q = ref \<Longrightarrow> pay_id q = pid"
    using assms by (auto simp: spend_reference_def set_update_where list_ex_iff split: option.splits if_splits)
qed

lemma spend_sound:
  assumes "sound st" "spend_reference rid pid ref st = Inr st'"
  shows "sound st' \<and> advances st st'"
proof (cases "get_payment rid pid st")
  case None
  thus ?thesis using assms by (simp add: spend_reference_def)
next
  case (Some p)
  let ?f = "\<lambda>x. x\<lparr>provider_payment_id := ref\<rparr>"
  have st': "st' = put_payment pid ?f st" and pr: "ref \<noteq> None \<longrightarrow> pay_provider p \<noteq> None"
    using assms(2) Some by (auto simp: spend_reference_def split: if_splits)
  note G = get_payment_SomeD[OF Some]
  have S: "inv_ledger_side st" using assms(1) by (simp add: sound_def inv_imp_side)
  have same: "x = p" if "x \<in> set (payments st)" "pay_id x = pid" for x
    by (rule keyed_unique[of pay_id "payments st"])
      (use that G S in \<open>simp_all add: inv_ledger_side_def inv_keys_def\<close>)
  have side: "inv_ledger_side st'" unfolding st'
    by (rule put_payment_side[OF S]) (use pr in \<open>auto simp: payment_checks_def dest: same\<close>)
  have "posted None 0 0 st st'"
    using side put_payment_totals[OF S, of p pid _ ?f] G by (simp add: posted_def st')
  hence "store_inv st'" using inv_unposted assms(1) by (auto simp: sound_def)
  moreover have "inv_log st'" unfolding st' using assms(1) by (intro inv_log_put) (simp_all add: sound_def)
  ultimately show ?thesis using assms(1) advances_same_bills[of st' st]
    by (simp add: sound_def st' items_agree_def lines_of_def)
qed

text \<open>Spend the reference (or not), apply, move to SUCCEEDED: the shape both rails share.\<close>

lemma spend_if_InrD: "spend_if g rid pid ref st = Inr st1 \<Longrightarrow> spend_reference rid pid ref st = Inr st1 \<or> st1 = st"
  by (auto simp: spend_if_def split: if_splits)

lemma spend_and_settle_sound:
  assumes "sound st" "get_payment rid pid st = Some p" "\<not> counted (pay_status p)"
    and "spend_reference rid pid ref st = Inr st1 \<or> st1 = st"
    and "applyToBill rid (pay_bill p) (amount_ves p) st1 = Inr (a, st2)"
    and "transitionPayment rid pid Succeeded actor refusal st2 = Inr (m, st3)"
  shows "sound st3 \<and> advances st st3"
proof -
  have s1: "sound st1 \<and> advances st st1" using assms(1,4) spend_sound by auto
  obtain p1 where p1: "get_payment rid pid st1 = Some p1" "pay_bill p1 = pay_bill p" "amount_ves p1 = amount_ves p"
      "pay_status p1 = pay_status p"
    using assms(2,4) spend_reference_InrD(1)[of rid pid ref st st1 rid pid] by auto
  have "sound st3 \<and> advances st1 st3"
    by (rule settle_waiting_sound[OF _ p1(1) _ _ assms(6)]) (use s1 p1 assms(3,5) in simp_all)
  thus ?thesis using s1 advances_trans by blast
qed

lemma park_sound:
  assumes "sound st"
  shows "sound (parkUnappliable rid pid ref err actor attempt now st)
       \<and> advances st (parkUnappliable rid pid ref err actor attempt now st)"
proof (cases "park_tx rid pid ref (asReferenceConflict err = Pay_E Payment_Reference_Already_Used) actor attempt now st")
  case (Inl e)
  thus ?thesis using assms by (simp add: parkUnappliable_def)
next
  case (Inr r)
  obtain g st1 m st2 where g: "spend_if g rid pid ref st = Inr st1"
    and m: "transitionPayment rid pid Ambiguous actor THROW st1 = Inr (m, st2)"
    and r': "snd r = (if attempt then logAttempt pid rid A_Unappliable (case ref of None \<Rightarrow> [] | r \<Rightarrow> [r])
                       (touch_charge pid now st2) else st2)"
    using Inr by (auto simp: park_tx_def result_simps simp del: if_split)
  note s1 = spend_if_InrD[OF g]
  have r: "snd r = st2 \<or> (\<exists>cs. snd r = logAttempt pid rid A_Unappliable cs (touch_charge pid now st2))"
    using r' by auto
  have a1: "sound st1 \<and> advances st st1" using s1 assms spend_sound by auto
  have a2: "sound st2 \<and> advances st1 st2" using move_sound[OF _ m] a1 by (simp add: counted_def)
  have "sound (snd r) \<and> advances st2 (snd r)"
    using r a2 touch_sound log_sound advances_trans advances_refl by metis
  thus ?thesis using a1 a2 advances_trans Inr by (auto simp: parkUnappliable_def split: prod.split)
qed

lemma settle_charge_sound:
  assumes "sound st" "get_payment rid pid st = Some p" "\<not> counted (pay_status p)"
    and "settle_charge rid pid (pay_bill p) (amount_ves p) ref now st = Inr (v, st')"
  shows "sound st' \<and> advances st st'"
proof -
  obtain st1 a st2 m st3 where s: "spend_if (ref \<noteq> None) rid pid ref st = Inr st1"
      "applyToBill rid (pay_bill p) (amount_ves p) st1 = Inr (a, st2)"
      "transitionPayment rid pid Succeeded PROVIDER THROW st2 = Inr (m, st3)" "st' = touch_charge pid now st3"
    using assms(4) by (auto simp: settle_charge_def result_simps)
  have "sound st3 \<and> advances st st3" by (rule spend_and_settle_sound[OF assms(1-3) spend_if_InrD[OF s(1)] s(2,3)])
  thus ?thesis using s(4) touch_sound advances_trans by blast
qed

lemma finish_charge_sound:
  assumes "sound st" "get_payment rid (pay_id p) st = Some p" "\<not> counted (pay_status p)"
    and "finish_charge rid p invoice answer now st = Inr (out, st')"
  shows "sound st' \<and> advances st st'"
proof (cases answer)
  case (Charge_Succeeded pp br)
  let ?ref = "referenceFor br pp"
  show ?thesis
  proof (cases "settle_charge rid (pay_id p) (pay_bill p) (amount_ves p) ?ref now st")
    case (Inl e)
    thus ?thesis using assms(1,4) Charge_Succeeded park_sound by (auto simp: finish_charge_def Let_def)
  next
    case (Inr r)
    obtain v st1 where "r = (v, st1)" by force
    thus ?thesis using assms Charge_Succeeded Inr settle_charge_sound[OF assms(1-3)]
      by (auto simp: finish_charge_def Let_def)
  qed
next
  case Charge_Failed
  obtain m where "moveTo rid (pay_id p) Failed st = Inr (m, st')"
    using assms(4) Charge_Failed by (auto simp: finish_charge_def Let_def result_simps)
  thus ?thesis using move_sound[OF assms(1)] by (auto simp: moveTo_def counted_def)
next
  case Charge_Refused
  obtain m where "moveTo rid (pay_id p) Failed st = Inr (m, st')"
    using assms(4) Charge_Refused by (auto simp: finish_charge_def Let_def result_simps)
  thus ?thesis using move_sound[OF assms(1)] by (auto simp: moveTo_def counted_def)
next
  case Charge_Indeterminate
  show ?thesis
  proof (cases "moveTo rid (pay_id p) In_Doubt st")
    case (Inl e)
    thus ?thesis using assms(1,4) Charge_Indeterminate by (simp add: finish_charge_def Let_def)
  next
    case (Inr r)
    obtain m st1 where r: "r = (m, st1)" by force
    have "st' = st1" using assms(4) Charge_Indeterminate Inr r by (simp add: finish_charge_def Let_def)
    thus ?thesis using move_sound[OF assms(1)] Inr r by (auto simp: moveTo_def counted_def)
  qed
qed

lemma register_charge_sound:
  assumes "sound st" "register_charge uuid rid r amount tip now st = Inr ((p, invoice), st')"
  shows "sound st' \<and> advances st st'" "get_payment rid (pay_id p) st' = Some p" "pay_status p = Pending"
    "bills st' = bills st"
proof -
  let ?p0 = "charge_row rid r amount tip now"
  obtain st1 cs where q: "recordPayment ?p0 st = Inr (p, st1)" and st': "st' = st1\<lparr>c2p_charges := cs\<rparr>"
    using assms(2) by (auto simp: register_charge_def Let_def result_simps split: option.splits if_splits)
  have S: "inv_ledger_side st" using assms(1) by (simp add: sound_def inv_imp_side)
  have pend: "pay_status ?p0 = Pending \<or> pay_status ?p0 = Succeeded" by (simp add: charge_row_def blank_payment_def)
  note R = recordPayment_posted[OF S q pend]
  have post: "posted None (cr_bill r) 0 st st1" using R(2) by (simp add: charge_row_def blank_payment_def)
  have "store_inv st1" using inv_unposted[OF _ post] assms(1) by (simp add: sound_def)
  moreover have "inv_log st1" using inv_log_record[OF _ S q pend] assms(1) by (simp add: sound_def)
  ultimately have s1: "sound st1 \<and> advances st st1"
    using assms(1) post R(5) advances_same_bills[of st1 st]
    by (simp add: sound_def items_agree_def lines_of_def posted_def)
  have "sound st' \<and> advances st1 st'" by (rule sound_side_tables) (use s1 in \<open>simp_all add: st'\<close>)
  thus "sound st' \<and> advances st st'" using s1 advances_trans by blast
  show "pay_status p = Pending" by (simp add: R(1) charge_row_def blank_payment_def)
  show "bills st' = bills st" using post by (simp add: st' posted_def)
  have k: "keyed pay_id (payments st')" using s1 by (simp add: st' sound_def store_inv_def inv_keys_def)
  have mem: "p \<in> set (payments st')" "pay_restaurant p = rid"
    using R(3) by (simp_all add: st' R(1) charge_row_def blank_payment_def)
  obtain x where x: "get_payment rid (pay_id p) st' = Some x"
    using mem by (cases "get_payment rid (pay_id p) st'") (auto simp: get_payment_def find_by_None)
  hence "x = p" using keyed_unique[OF k _ mem(1)] get_payment_SomeD[OF x] by simp
  thus "get_payment rid (pay_id p) st' = Some p" using x by simp
qed

lemma createC2PPayment_registered:
  assumes "createC2PPayment uuid enabled post rid r now st = (out, st')" "st' \<noteq> st"
  obtains amount tip p invoice st1
  where "toPaymentAmount (cr_amount r) = Some amount" "toTipAmount (cr_tip r) = Some tip"
    "register_charge uuid rid r amount tip now st = Inr ((p, invoice), st1)"
    "(case finish_charge rid p invoice (bank_charge post invoice (amount + tip) (cr_payer r)) now st1 of
        Inl e \<Rightarrow> (Inl e, st1) | Inr (o', st2) \<Rightarrow> (Inr o', st2)) = (out, st')"
proof (cases "toPaymentAmount (cr_amount r)")
  case None
  thus thesis using assms by (simp add: createC2PPayment_def)
next
  case (Some amount)
  note am = Some
  show thesis
  proof (cases "toTipAmount (cr_tip r)")
    case None
    thus thesis using assms am by (simp add: createC2PPayment_def)
  next
    case (Some tip)
    note tp = Some
    have en: enabled using assms am tp by (simp add: createC2PPayment_def split: if_splits)
    show thesis
    proof (cases "register_charge uuid rid r amount tip now st")
      case (Inl e)
      thus thesis using assms am tp en by (simp add: createC2PPayment_def)
    next
      case (Inr x)
      obtain p invoice st1 where x: "x = ((p, invoice), st1)" by (metis surj_pair)
      show thesis
        by (rule that[OF am tp Inr[unfolded x]])
          (use assms(1) am tp en Inr x in \<open>simp add: createC2PPayment_def Let_def\<close>)
    qed
  qed
qed

interpretation charge: rail "\<lambda>st. Inr (createC2PPayment uuid enabled post rid r now st)" for uuid enabled post rid r now
proof unfold_locales
  fix st out st' assume s: "sound st"
    and *: "(Inr (createC2PPayment uuid enabled post rid r now st) :: error + (error + charge_outcome) \<times> store) = Inr (out, st')"
  have step: "createC2PPayment uuid enabled post rid r now st = (out, st')" using * by simp
  have "sound st' \<and> advances st st'"
  proof (cases "st' = st")
    case True
    thus ?thesis using s by simp
  next
    case False
    obtain amount tip p invoice st1 where reg: "register_charge uuid rid r amount tip now st = Inr ((p, invoice), st1)"
      and fin: "(case finish_charge rid p invoice (bank_charge post invoice (amount + tip) (cr_payer r)) now st1 of
        Inl e \<Rightarrow> (Inl e, st1) | Inr (o', st2) \<Rightarrow> (Inr o', st2)) = (out, st')"
      using step False by (rule createC2PPayment_registered)
    note G = register_charge_sound[OF s reg]
    have nc: "\<not> counted (pay_status p)" using G(3) by (simp add: counted_def)
    have s1: "sound st1" using G(1) by simp
    have "sound st' \<and> advances st1 st'"
    proof (cases "finish_charge rid p invoice (bank_charge post invoice (amount + tip) (cr_payer r)) now st1")
      case (Inl e)
      thus ?thesis using fin s1 by simp
    next
      case (Inr y)
      obtain o' st2 where "y = (o', st2)" by force
      thus ?thesis using fin Inr finish_charge_sound[OF s1 G(2) nc] by simp
    qed
    thus ?thesis using G(1) advances_trans by blast
  qed
  thus "sound st'" "advances st st'" by simp_all
qed

lemma resolve_tx_sound:
  assumes "sound st" "resolve_tx rid pid actor match created now st = Inr (r, st')"
  shows "sound st' \<and> advances st st'"
proof -
  obtain p where p: "get_payment rid pid st = Some p"
    using assms(2) by (auto simp: resolve_tx_def split: option.splits)
  show ?thesis
  proof (cases "pay_status p = In_Doubt")
    case False
    hence "st' = logAttempt pid rid A_Already_Resolved [] st" using assms(2) p by (simp add: resolve_tx_def)
    thus ?thesis using log_sound[OF assms(1)] by simp
  next
    case doubt: True
    let ?st0 = "touch_charge pid now st"
    have t: "sound ?st0 \<and> advances st ?st0" by (rule touch_sound[OF assms(1)])
    have p0: "get_payment rid pid ?st0 = Some p" using p by (simp add: get_payment_def)
    have "\<exists>st3 out cs. sound st3 \<and> advances ?st0 st3 \<and> st' = logAttempt pid rid out cs st3"
    proof (cases match)
      case (Match_One m)
      let ?ref = "canonicalReference (Some (cm_reference m))"
      obtain st1 a st2 mv st3 where s: "spend_reference rid pid ?ref ?st0 = Inr st1"
          "applyToBill rid (pay_bill p) (amount_ves p) st1 = Inr (a, st2)"
          "transitionPayment rid pid Succeeded actor THROW st2 = Inr (mv, st3)"
          "st' = logAttempt pid rid A_Matched [?ref] st3"
        using assms(2) p doubt Match_One by (auto simp: resolve_tx_def Let_def result_simps)
      have "sound st3 \<and> advances ?st0 st3"
        by (rule spend_and_settle_sound[OF _ p0 _ _ s(2,3)]) (use t doubt s(1) in \<open>auto simp: counted_def\<close>)
      thus ?thesis unfolding s(4) by blast
    next
      case (Match_Unclear cs)
      obtain mv st1 where m: "transitionPayment rid pid Ambiguous actor THROW ?st0 = Inr (mv, st1)"
          "st' = logAttempt pid rid A_Ambiguous cs st1"
        using assms(2) p doubt Match_Unclear by (auto simp: resolve_tx_def Let_def result_simps)
      have "sound st1 \<and> advances ?st0 st1" using move_sound[OF _ m(1)] t by (simp add: counted_def)
      thus ?thesis using m(2) by blast
    next
      case Match_None
      show ?thesis
      proof (cases "now - created < SETTLEMENT_WINDOW_MINUTES * 60000")
        case True
        hence "st' = logAttempt pid rid A_Pending_Window [] ?st0"
          using assms(2) p doubt Match_None by (simp add: resolve_tx_def Let_def)
        thus ?thesis using t advances_refl by blast
      next
        case False
        obtain mv st1 where m: "transitionPayment rid pid Failed actor THROW ?st0 = Inr (mv, st1)"
            "st' = logAttempt pid rid A_No_Match [] st1"
          using assms(2) p doubt Match_None False by (auto simp: resolve_tx_def Let_def result_simps)
        have "sound st1 \<and> advances ?st0 st1" using move_sound[OF _ m(1)] t by (simp add: counted_def)
        thus ?thesis using m(2) by blast
      qed
    qed
    then obtain st3 out cs where e: "sound st3" "advances ?st0 st3" "st' = logAttempt pid rid out cs st3" by blast
    have "advances st st3" using t e(2) advances_trans by blast
    thus ?thesis unfolding e(3) using log_sound[OF e(1)] advances_trans by blast
  qed
qed

text \<open>The commit is sound whatever match it was handed, however stale: the search ran
  outside the transaction.\<close>

interpretation settle_doubt: rail "resolve_commit rid pid actor match created now" for rid pid actor match created now
proof unfold_locales
  fix st r st' assume *: "sound st" "resolve_commit rid pid actor match created now st = Inr (r, st')"
  have "sound st' \<and> advances st st'"
  proof (cases "resolve_tx rid pid actor match created now st")
    case (Inr x)
    thus ?thesis using *(2) resolve_tx_sound[OF *(1)] by (auto simp: resolve_commit_def)
  next
    case (Inl e)
    then obtain ref a where "st' = parkUnappliable rid pid ref e a True now st"
      using *(2) by (auto simp: resolve_commit_def Let_def split: c2p_match.splits if_splits)
    thus ?thesis using park_sound[OF *(1)] by simp
  qed
  thus "sound st'" "advances st st'" by simp_all
qed

interpretation resolve: rail "resolveC2PPayment enabled search rid pid actor now" for enabled search rid pid actor now
proof unfold_locales
  fix st r st' assume *: "sound st" "resolveC2PPayment enabled search rid pid actor now st = Inr (r, st')"
  consider "st' = st" | "expire_tx rid pid actor now st = Inr (r, st')"
    | match created where "resolve_commit rid pid actor match created now st = Inr (r, st')"
    using *(2) by (auto simp: resolveC2PPayment_def Let_def split: option.splits if_splits prod.splits)
  hence "sound st' \<and> advances st st'"
  proof cases
    case 1
    thus ?thesis using * by simp
  next
    case 2
    obtain m st1 where m: "transitionPayment rid pid Ambiguous actor THROW (touch_charge pid now st) = Inr (m, st1)"
        "st' = logAttempt pid rid A_Window_Expired [] st1"
      using 2 by (auto simp: expire_tx_def result_simps)
    have t: "sound (touch_charge pid now st) \<and> advances st (touch_charge pid now st)" by (rule touch_sound[OF *(1)])
    have "sound st1 \<and> advances (touch_charge pid now st) st1" using move_sound[OF _ m(1)] t by (simp add: counted_def)
    thus ?thesis using t m(2) log_sound advances_trans by blast
  next
    case 3
    thus ?thesis using settle_doubt.keeps_sound[OF *(1)] settle_doubt.only_advances[OF *(1)] by blast
  qed
  thus "sound st'" "advances st st'" by simp_all
qed

section \<open>What the C2P rail promises\<close>

lemma in_doubt_match_outcomes:
  "(matchInDoubtPayment mvs charged last4 consumed = Match_One m
      \<longleftrightarrow> filter (\<lambda>m. is_candidate consumed charged m \<and> phoneMatchesLast4 (cm_phone m) last4) mvs = [m])
   \<and> (matchInDoubtPayment mvs charged last4 consumed = Match_None \<longleftrightarrow> filter (is_candidate consumed charged) mvs = [])"
proof
  show "matchInDoubtPayment mvs charged last4 consumed = Match_One m
      \<longleftrightarrow> filter (\<lambda>m. is_candidate consumed charged m \<and> phoneMatchesLast4 (cm_phone m) last4) mvs = [m]"
    using matchInDoubt_One[of mvs charged last4 consumed m] unfolding identifies_def .
  show "matchInDoubtPayment mvs charged last4 consumed = Match_None \<longleftrightarrow> filter (is_candidate consumed charged) mvs = []"
    by (simp add: matchInDoubtPayment_def Let_def)
qed

text \<open>C13: An in-doubt payment older than the resolution window is always resolved, without asking
  the bank: it becomes AMBIGUOUS for a person to look at, no bill moves and no other payment
  changes.\<close>

lemma expired_doubt_goes_to_a_person:
  assumes "read_charge rid pid st = Some (p, c)" "pay_status p = In_Doubt"
    "pay_created_at p < now - RESOLUTION_WINDOW_MAX_MS"
  shows "\<exists>st' q. resolveC2PPayment enabled search rid pid actor now st = Inr (R_Expired, st')
     \<and> get_payment rid pid st' = Some q \<and> pay_status q = Ambiguous \<and> bills st' = bills st
     \<and> (\<forall>k r. k \<noteq> pid \<longrightarrow> get_payment r k st' = get_payment r k st)"
proof -
  have p: "get_payment rid pid st = Some p" using assms(1) by (auto simp: read_charge_def split: option.splits)
  let ?st0 = "touch_charge pid now st"
  have p0: "get_payment r k ?st0 = get_payment r k st" for r k by (simp add: get_payment_def)
  have "isr (transitionPayment rid pid Ambiguous actor THROW ?st0)"
    using p p0 assms(2) by (auto simp: transitionPayment_def isr_def Let_def SETTLED_STATUSES_def split: option.splits)
  then obtain m st1 where t: "transitionPayment rid pid Ambiguous actor THROW ?st0 = Inr (m, st1)" by (auto dest: isr_pair)
  have b: "bills st1 = bills ?st0"
    using t by (cases rule: transitionPayment_cases) auto
  let ?st2 = "logAttempt pid rid A_Window_Expired [] st1"
  have "resolveC2PPayment enabled search rid pid actor now st = Inr (R_Expired, ?st2)"
    using assms t by (simp add: resolveC2PPayment_def expire_tx_def)
  moreover have "get_payment r k ?st2 = get_payment r k st1" for r k by (simp add: get_payment_def)
  ultimately show ?thesis using transition_payment[OF t] p p0 b by (auto simp: get_payment_def)
qed

definition doubt :: "nat \<Rightarrow> int \<Rightarrow> payment" where
  "doubt i created = (blank_payment 7 1 300 0 In_Doubt C2P)\<lparr>pay_id := i, pay_provider := Some MERCANTIL,
     payer_type := GUEST, pay_created_at := created\<rparr>"

definition doubt_charge :: "nat \<Rightarrow> c2p_charge" where
  "doubt_charge i = \<lparr>cc_payment = i, cc_restaurant = 7, cc_invoice = ''SPL'', cc_bank_code = ''0105'',
     cc_phone_last4 = ''4567'', cc_last_resolution = None\<rparr>"

definition opening_rows :: "nat \<Rightarrow> transition list" where
  "opening_rows i = [\<lparr>tr_payment = i, tr_restaurant = 7, tr_from = None, tr_to = Pending, tr_actor = GUEST\<rparr>,
     \<lparr>tr_payment = i, tr_restaurant = 7, tr_from = Some Pending, tr_to = In_Doubt, tr_actor = PROVIDER\<rparr>]"

definition doubt_store :: store where
  "doubt_store = dinner_store\<lparr>payments := [doubt 15 1000, doubt 16 1000],
     transitions := opening_rows 15 @ opening_rows 16, c2p_charges := [doubt_charge 15, doubt_charge 16]\<rparr>"

lemma expired_doubt_goes_to_a_person_witness:
  "\<exists>st' q. resolveC2PPayment False (\<lambda>_ _ _. Unreachable) 7 15 STAFF 90000000 doubt_store = Inr (R_Expired, st')
     \<and> get_payment 7 15 st' = Some q \<and> pay_status q = Ambiguous \<and> bills st' = [dinner_bill]"
proof -
  have r: "read_charge 7 15 doubt_store = Some (doubt 15 1000, doubt_charge 15)" by code_simp
  have s: "pay_status (doubt 15 1000) = In_Doubt" "pay_created_at (doubt 15 1000) < 90000000 - RESOLUTION_WINDOW_MAX_MS"
    by code_simp+
  have b: "bills doubt_store = [dinner_bill]" by (simp add: doubt_store_def dinner_store_def)
  show ?thesis
    using expired_doubt_goes_to_a_person[OF r s, of False "\<lambda>_ _ _. Unreachable" STAFF] b by auto
qed

definition says_nothing :: "'a http_reply \<Rightarrow> bool" where
  "says_nothing reply = (case reply of Answered status b \<Rightarrow> status \<in> {408, 425, 429} \<or> status div 100 = 5 | _ \<Rightarrow> True)"

lemma silence_is_indeterminate: "says_nothing reply \<Longrightarrow> request_charge reply = Charge_Indeterminate"
  by (cases reply) (auto simp: says_nothing_def isIndeterminateStatus_def INDETERMINATE_HTTP_def)


definition payer :: c2p_payer where
  "payer = \<lparr>cp_bank_code = ''0105'', cp_id_number = ''V1'', cp_phone = ''04121234567'', cp_clave = ''12''\<rparr>"

definition charge_of :: "int \<Rightarrow> charge_request" where
  "charge_of amount = \<lparr>cr_bill = 1, cr_amount = JBigInt amount, cr_tip = JBigInt 0, cr_payer = payer, cr_key = None,
     cr_payer_id = None, cr_share = None\<rparr>"


lemma resolve_settled:
  assumes "resolveC2PPayment enabled search rid pid actor now st = Inr (R_Settled ref v, st')"
  obtains p c m a st1 st2 mv st3 where "get_payment rid pid st = Some p" "pay_status p = In_Doubt"
    "now - RESOLUTION_WINDOW_MAX_MS \<le> pay_created_at p" "ref = canonicalReference (Some (cm_reference m))"
    "read_charge rid pid st = Some (p, c)"
    "(\<exists>mvs consumed. bank_search (search (max (pay_created_at p - SEARCH_LEAD_MS) (now - RESOLUTION_WINDOW_MAX_MS)) now
         (toBankAmount (amount_ves p + tip_ves p))) = Some mvs
       \<and> filter (identifies consumed (show_int (amount_ves p + tip_ves p)) (cc_phone_last4 c)) mvs = [m])"
    "spend_reference rid pid ref (touch_charge pid now st) = Inr st1"
    "applyToBill rid (pay_bill p) (amount_ves p) st1 = Inr (a, st2)" "v = settlementView a"
    "transitionPayment rid pid Succeeded actor THROW st2 = Inr (mv, st3)"
    "st' = logAttempt pid rid A_Matched [ref] st3"
proof -
  obtain p c where rc: "read_charge rid pid st = Some (p, c)" and s: "pay_status p = In_Doubt"
    using assms by (auto simp: resolveC2PPayment_def split: option.splits if_splits)
  have p: "get_payment rid pid st = Some p" using rc by (auto simp: read_charge_def split: option.splits)
  let ?ch = "amount_ves p + tip_ves p"
  have w: "\<not> pay_created_at p < now - RESOLUTION_WINDOW_MAX_MS"
    using assms rc s by (auto simp: resolveC2PPayment_def expire_tx_def result_simps split: if_splits)
  obtain mvs where mvs: "bank_search (search (max (pay_created_at p - SEARCH_LEAD_MS) (now - RESOLUTION_WINDOW_MAX_MS)) now
         (toBankAmount ?ch)) = Some mvs"
    using assms rc s w by (auto simp: resolveC2PPayment_def Let_def split: option.splits if_splits)
  obtain consumed where r: "resolve_commit rid pid actor (matchInDoubtPayment mvs (show_int ?ch) (cc_phone_last4 c) consumed)
      (pay_created_at p) now st = Inr (R_Settled ref v, st')"
    using assms rc s w mvs by (auto simp: resolveC2PPayment_def Let_def split: if_splits)
  let ?m = "matchInDoubtPayment mvs (show_int ?ch) (cc_phone_last4 c) consumed"
  have tx: "resolve_tx rid pid actor ?m (pay_created_at p) now st = Inr (R_Settled ref v, st')"
    using r by (auto simp: resolve_commit_def Let_def split: sum.splits c2p_match.splits if_splits)
  obtain m where m: "?m = Match_One m"
    using tx p s by (cases ?m) (auto simp: resolve_tx_def Let_def result_simps split: if_splits)
  have one: "filter (identifies consumed (show_int ?ch) (cc_phone_last4 c)) mvs = [m]" using m matchInDoubt_One by blast
  obtain st1 a st2 mv st3 where x: "ref = canonicalReference (Some (cm_reference m))"
    "spend_reference rid pid ref (touch_charge pid now st) = Inr st1"
    "applyToBill rid (pay_bill p) (amount_ves p) st1 = Inr (a, st2)" "v = settlementView a"
    "transitionPayment rid pid Succeeded actor THROW st2 = Inr (mv, st3)"
    "st' = logAttempt pid rid A_Matched [ref] st3"
    using tx p s m by (auto simp: resolve_tx_def Let_def result_simps)
  show thesis
    by (rule that[OF p s _ x(1) rc _ x(2-6)]) (use w mvs one in auto)
qed

lemma settled_reference_is_spent:
  assumes "sound st" "resolveC2PPayment enabled search rid pid actor now st = Inr (R_Settled (Some ref) v, st')"
  shows "\<exists>p q. get_payment rid pid st = Some p \<and> get_payment rid pid st' = Some q \<and> pay_status q = Succeeded
     \<and> (\<forall>x \<in> set (payments st'). pay_provider x = pay_provider p \<longrightarrow> provider_payment_id x = Some ref \<longrightarrow> pay_id x = pid)"
proof -
  obtain p c m a st1 st2 mv st3 where p: "get_payment rid pid st = Some p" "pay_status p = In_Doubt"
    and sp: "spend_reference rid pid (Some ref) (touch_charge pid now st) = Inr st1"
    and ap: "applyToBill rid (pay_bill p) (amount_ves p) st1 = Inr (a, st2)"
    and t: "transitionPayment rid pid Succeeded actor THROW st2 = Inr (mv, st3)"
    and st': "st' = logAttempt pid rid A_Matched [Some ref] st3"
    using assms(2) by (rule resolve_settled) blast
  have p0: "get_payment rid pid (touch_charge pid now st) = Some p" using p(1) by (simp add: get_payment_def)
  have "pay_id x = pid" if x: "x \<in> set (payments st')" "pay_provider x = pay_provider p" "provider_payment_id x = Some ref" for x
  proof -
    have "map reference_row (payments st') = map reference_row (payments st1)"
      using transition_keeps_references[OF t] applyToBill_keeps(1)[OF ap] st' by simp
    then obtain y where y: "y \<in> set (payments st1)" "pay_id y = pay_id x" "pay_provider y = pay_provider x"
        "provider_payment_id y = provider_payment_id x"
      using reference_rows_transfer x(1) by blast
    have "pay_id y = pid"
      by (rule spend_reference_InrD(5)[OF sp _ p0 y(1)]) (use x y in simp_all)
    thus ?thesis using y(2) by simp
  qed
  moreover have "get_payment rid pid st' = get_payment rid pid st3" using st' by (simp add: get_payment_def)
  ultimately show ?thesis using transition_payment(1)[OF t] p(1) by auto
qed

definition bank_says :: "bank_row list \<Rightarrow> int \<Rightarrow> int \<Rightarrow> string \<Rightarrow> bank_row list http_reply" where
  "bank_says rows a b amount = Answered 200 rows"

definition bank_credit :: "string \<Rightarrow> bank_row" where
  "bank_credit ref = \<lparr>br_reference = ref, br_amount = Some ''3.00'', br_phone = ''04121234567''\<rparr>"

lemma sound_doubt: "sound doubt_store"
  using inv_dinner
  by (simp add: sound_def inv_log_def items_agree_def lines_of_def doubt_store_def dinner_store_def empty_store_def dinner_bill_def
      dinner_line_def item_subtotal_def history_def opening_rows_def doubt_def blank_payment_def
      store_inv_def inv_parts payment_ledger_drift_def bill_split_share_drift_def ledger_total_def
        counted_def one_active_def payment_checks_def bill_checks_def keyed_def)

lemma settled_reference_is_spent_witness:
  "\<exists>v st'. resolveC2PPayment True (bank_says [bank_credit ''12-34'']) 7 15 STAFF 2000 doubt_store = Inr (R_Settled (Some ''1234'') v, st')
     \<and> (\<exists>q. get_payment 7 15 st' = Some q \<and> pay_status q = Succeeded)"
proof -
  have "(case resolveC2PPayment True (bank_says [bank_credit ''12-34'']) 7 15 STAFF 2000 doubt_store of
          Inr (R_Settled (Some ref) v, st') \<Rightarrow> ref = ''1234'' | _ \<Rightarrow> False)" by code_simp
  then obtain v st' where r: "resolveC2PPayment True (bank_says [bank_credit ''12-34'']) 7 15 STAFF 2000 doubt_store
      = Inr (R_Settled (Some ''1234'') v, st')" by (auto split: sum.splits resolution.splits option.splits)
  show ?thesis using settled_reference_is_spent[OF sound_doubt r] r by blast
qed

lemma blank_reference_settles_twice:
  "(case resolveC2PPayment True (bank_says [bank_credit '' '']) 7 15 STAFF 2000 doubt_store of
      Inr (R_Settled None v, st1) \<Rightarrow>
        (case resolveC2PPayment True (bank_says [bank_credit '' '']) 7 16 STAFF 2000 st1 of
           Inr (R_Settled None w, st2) \<Rightarrow>
             map amount_paid_ves (bills st2) = [600] \<and> map pay_status (payments st2) = [Succeeded, Succeeded]
             \<and> map provider_payment_id (payments st2) = [None, None]
         | _ \<Rightarrow> False)
    | _ \<Rightarrow> False)"
  by code_simp

lemma pad_two:
  assumes "k < 100"
  shows "replicate (2 - length (show_nat k)) (CHR ''0'') @ show_nat k = two_digits k"
proof (cases "k < 10")
  case True
  have "digit_char 0 = CHR ''0''" by code_simp
  thus ?thesis using True by (simp add: show_nat.simps[of k] two_digits_def)
next
  case False
  hence "show_nat k = [digit_char (k div 10), digit_char (k mod 10)]"
    using assms by (simp add: show_nat.simps[of k] show_nat.simps[of "k div 10"])
  thus ?thesis using assms by (simp add: two_digits_def)
qed

lemma two_digits_mod: "two_digits (k mod 100) = two_digits k"
proof -
  have k: "k mod 100 = 10 * (k div 10 mod 10) + k mod 10" using mod_mult2_eq[of k 10 10] by simp
  have "k mod 100 div 10 mod 10 = k div 10 mod 10" "k mod 100 mod 10 = k mod 10" unfolding k by simp_all
  thus ?thesis by (simp add: two_digits_def)
qed

lemma bank_amount_round_trip:
  assumes "0 \<le> n"
  shows "toMinorUnits (Some (toBankAmount n)) = Some (show_int n)"
proof -
  obtain k where n: "n = int k" using assms nonneg_int_cases by blast
  let ?w = "show_nat (k div 100)" and ?f = "two_digits k"
  have i: "int k mod 100 = int (k mod 100)" "int k div 100 = int (k div 100)" by (simp_all add: zmod_int zdiv_int)
  have si: "show_int (int j) = show_nat j" for j by (simp add: show_int_def)
  have pad: "replicate (2 - length (show_nat (k mod 100))) (CHR ''0'') @ show_nat (k mod 100) = ?f"
    using pad_two[of "k mod 100"] two_digits_mod[of k] by simp
  have "\<not> int k < 0" by simp
  hence b: "toBankAmount n = ?w @ CHR ''.'' # ?f"
    unfolding toBankAmount_def Let_def n using pad by (simp only: if_False i si append_Nil append_Cons)
  have f: "list_all is_digit ?f" "length ?f = 2" by (simp_all add: two_digits_def)
  have w: "list_all is_digit ?w" by simp
  have ns: "list_all (\<lambda>c. \<not> is_space c) (?w @ CHR ''.'' # ?f)"
    by (rule decimal_no_space[OF w f(1)]) simp
  have t: "trim (?w @ CHR ''.'' # ?f) = ?w @ CHR ''.'' # ?f" by (rule trim_id[OF ns])
  have seps: "CHR ''.'' \<notin> set ?w" "CHR '','' \<notin> set ?w" "CHR ''.'' \<notin> set ?f" "CHR '','' \<notin> set ?f"
    using w f(1) by (auto simp: list_all_iff is_digit_def)
  have nd: "\<not> digits_only (?w @ CHR ''.'' # ?f)" by (simp add: digits_only_def is_digit_def)
  have sp: "split_on (CHR ''.'') (?w @ CHR ''.'' # ?f) = [?w, ?f]" by (rule split_on_once[OF seps(1,3)])
  have fd: "digits_only ?f" using f by (auto simp: digits_only_def)
  have v: "int (read_nat ?w) * 100 + int (read_nat ?f) = n"
  proof -
    have "read_nat ?f = k mod 100" using read_nat_two[of "[]" k] by (simp add: read_nat_def)
    moreover have "int (k div 100) * 100 + int (k mod 100) = int k" by (simp add: zdiv_int zmod_int)
    ultimately show ?thesis unfolding n by simp
  qed
  show ?thesis
    using seps t nd sp fd f(2) v by (simp add: b toMinorUnits_def Let_def)
qed

lemma bank_amount_round_trip_witness: "toMinorUnits (Some (toBankAmount 120005)) = Some (show_int 120005)"
  by (rule bank_amount_round_trip) simp

lemma digitsOnly_trim: "digitsOnly (trim s) = digitsOnly s"
proof -
  have d: "filter is_digit (dropWhile is_space xs) = filter is_digit xs" for xs
    by (induction xs) (auto dest: digit_not_space)
  have "filter is_digit (rev (dropWhile is_space (rev (dropWhile is_space s))))
      = rev (filter is_digit (dropWhile is_space (rev (dropWhile is_space s))))" by (simp add: rev_filter)
  also have "\<dots> = rev (filter is_digit (rev (dropWhile is_space s)))" by (simp only: d)
  finally show ?thesis by (simp add: digitsOnly_def trim_def rev_filter[symmetric] d)
qed

lemma set_trim: "set (trim s) \<subseteq> set s"
  unfolding trim_def by (metis set_dropWhileD set_rev subsetI)

lemma spellings_agree:
  assumes "list_all reference_char a" "list_all reference_char b" "digitsOnly a = digitsOnly b" "digitsOnly a \<noteq> []"
  shows "canonicalReference (Some a) = canonicalReference (Some b)
     \<and> canonicalReference (canonicalReference (Some a)) = canonicalReference (Some a)"
proof -
  have c: "canonicalReference (Some x) = Some (digitsOnly x)" if "list_all reference_char x" "digitsOnly x \<noteq> []" for x
  proof -
    have "trim x \<noteq> []" using that(2) digitsOnly_trim[of x] by (auto simp: digitsOnly_def)
    moreover have "list_all reference_char (trim x)" using that(1) set_trim[of x] by (auto simp: list_all_iff)
    ultimately show ?thesis using that(2) by (simp add: canonicalReference_def Let_def text_of_def digitsOnly_trim)
  qed
  have "canonicalReference (Some a) = Some (digitsOnly a)" by (rule c[OF assms(1,4)])
  moreover have "canonicalReference (Some b) = Some (digitsOnly a)" using c[OF assms(2)] assms(3,4) by simp
  ultimately show ?thesis using canonical_idem by simp
qed

lemma spellings_agree_witness:
  "canonicalReference (Some ''0012-3456'') = canonicalReference (Some ''00 12.34/56'')"
proof -
  have "list_all reference_char ''0012-3456''" "list_all reference_char ''00 12.34/56''"
    "digitsOnly ''0012-3456'' = digitsOnly ''00 12.34/56''" "digitsOnly ''0012-3456'' \<noteq> []" by code_simp+
  from spellings_agree[OF this] show ?thesis by blast
qed

end
