(* ===== verification/Webhooks.thy ===== *)
theory Webhooks
  imports Settlement Bank_Match
begin

text \<open>
  Payment callbacks: src/middleware/webhookSignature.js and src/services/webhooks.js.
  A delivery is authenticated (the HMAC is a parameter, the replay store an explicit
  set), read, recorded, and settles at most the payment it names.  The lemmas show that
  an event is processed at most once, that a delivery never settles a payment of another
  provider nor an amount of its own, and that the rail is sound.
\<close>

section \<open>Authenticating a delivery (webhookSignature.js)\<close>

record signed_request =
  sr_signature :: "string option"
  sr_timestamp :: "string option"
  sr_raw_body :: "string option"

text \<open>\<open>mac\<close> is the keyed digest in hexadecimal, \<open>number\<close> reads the timestamp text as an
  integer (\<open>None\<close> when it is not one), \<open>seen\<close> the signatures the replay store holds and
  \<open>store_up\<close> whether it answers.  The result carries the replay store.\<close>

definition verifyWebhookSignature ::
  "(string \<Rightarrow> string) \<Rightarrow> (string \<Rightarrow> int option) \<Rightarrow> int \<Rightarrow> bool \<Rightarrow> signed_request \<Rightarrow> int \<Rightarrow> string list
     \<Rightarrow> error + string list" where
  "verifyWebhookSignature mac number tolerance store_up r now seen =
     (case (sr_signature r, sr_timestamp r) of
        (Some sig, Some ts) \<Rightarrow>
          if sig = [] \<or> ts = [] then Inl (Hook_E Webhook_Signature_Missing)
          else
            (case sr_raw_body r of
               None \<Rightarrow> Inl (Hook_E Webhook_Body_Unverifiable)
             | Some raw \<Rightarrow>
                 (case number ts of
                    None \<Rightarrow> Inl (Hook_E Webhook_Timestamp_Out_Of_Tolerance)
                  | Some requestTime \<Rightarrow>
                      if \<bar>now - requestTime\<bar> > tolerance then Inl (Hook_E Webhook_Timestamp_Out_Of_Tolerance)
                      else
                        let expected = mac (ts @ ''.'' @ raw) in
                        if expected \<noteq> sig then Inl (Hook_E Webhook_Signature_Invalid)
                        else if \<not> store_up then Inl (Hook_E Webhook_Replay_Protection_Unavailable)
                        else if expected \<in> set seen then Inl (Hook_E Webhook_Already_Processed)
                        else Inr (expected # seen)))
      | _ \<Rightarrow> Inl (Hook_E Webhook_Signature_Missing))"

section \<open>Reading a delivery\<close>

record webhook_body =
  wb_id :: "string option"
  wb_paymentId :: "string option"
  wb_eventId :: "string option"
  wb_event_id :: "string option"
  wb_status :: "string option"
  wb_meta_payment :: "nat option"
  wb_meta_restaurant :: "nat option"

record parsed_delivery =
  pd_event :: "string option"
  pd_provider_payment :: "string option"
  pd_payment :: "nat option"
  pd_restaurant :: "nat option"
  pd_succeeded :: bool
  pd_failed :: bool

fun or_else :: "'a option \<Rightarrow> 'a option \<Rightarrow> 'a option" where
  "or_else (Some x) y = Some x"
| "or_else None y = y"

definition truthy :: "string option \<Rightarrow> string option" where
  "truthy v = (case v of Some s \<Rightarrow> if s = [] then None else Some s | None \<Rightarrow> None)"

definition SPLITE_parse :: "webhook_body \<Rightarrow> parsed_delivery" where
  "SPLITE_parse body =
     (let status = map upper (text_of (wb_status body)) in
      \<lparr>pd_event = truthy (or_else (wb_eventId body) (wb_event_id body)),
       pd_provider_payment = truthy (or_else (wb_id body) (wb_paymentId body)),
       pd_payment = wb_meta_payment body,
       pd_restaurant = wb_meta_restaurant body,
       pd_succeeded = (status = ''SUCCEEDED'' \<or> status = ''COMPLETED'' \<or> status = ''PAID''),
       pd_failed = (status = ''FAILED'' \<or> status = ''DECLINED'' \<or> status = ''CANCELLED'')\<rparr>)"

section \<open>Recording and settling\<close>

definition recordDelivery ::
  "string \<Rightarrow> string option \<Rightarrow> nat option \<Rightarrow> delivery_outcome \<Rightarrow> store \<Rightarrow> store" where
  "recordDelivery provider event pid outcome st =
     st\<lparr>deliveries := insert_row \<lparr>wl_provider = provider, wl_event = event, wl_payment = pid,
          wl_outcome = outcome\<rparr> (deliveries st)\<rparr>"

definition alreadyProcessed :: "string \<Rightarrow> string option \<Rightarrow> store \<Rightarrow> webhook_event option" where
  "alreadyProcessed provider event st =
     (case event of
        None \<Rightarrow> None
      | Some ev \<Rightarrow> find_by (\<lambda>w. we_provider w = provider \<and> we_event w = ev) (webhook_events st))"

text \<open>The inner step: what the delivery does to the payment it names.\<close>

definition act_on ::
  "nat \<Rightarrow> payment \<Rightarrow> parsed_delivery \<Rightarrow> (webhook_kind \<times> settlement_view option) tx" where
  "act_on rid p d st =
     (if pay_status p \<noteq> Pending then Inr ((W_Duplicate, None), st)
      else if pd_failed d
      then and_then (transitionPayment rid (pay_id p) Failed SYSTEM THROW st) (\<lambda>(m, st1). Inr ((W_Failed, None), st1))
      else if \<not> pd_succeeded d then Inr ((W_Ignored, None), st)
      else
        and_then (applyToBill rid (pay_bill p) (amount_ves p) st) (\<lambda>(a, st1).
        and_then (transitionPayment rid (pay_id p) Succeeded SYSTEM THROW st1) (\<lambda>(m, st2).
        Inr ((W_Settled, Some (settlementView a)), st2))))"

text \<open>The insert that claims an event, under the primary key (provider, event).\<close>

definition claim_event :: "string \<Rightarrow> string option \<Rightarrow> nat \<Rightarrow> webhook_kind \<Rightarrow> store \<Rightarrow> error + store" where
  "claim_event provider event pid kind st =
     (case event of
        None \<Rightarrow> Inr st
      | Some ev \<Rightarrow>
          if alreadyProcessed provider event st \<noteq> None
          then Inl (General (Db_Unique ''webhook_events_processed_pkey''))
          else Inr (st\<lparr>webhook_events := insert_row \<lparr>we_provider = provider, we_event = ev, we_payment = pid,
                          we_outcome = kind\<rparr> (webhook_events st)\<rparr>))"

definition settle_event ::
  "string \<Rightarrow> nat \<Rightarrow> nat \<Rightarrow> parsed_delivery \<Rightarrow> (webhook_kind \<times> settlement_view option) tx" where
  "settle_event provider rid pid d st =
     (case get_payment rid pid st of
        None \<Rightarrow> Inl (Pay_E Webhook_Payment_Unresolved)
      | Some p \<Rightarrow>
          if pay_provider p \<noteq> Some provider then Inr ((W_Provider_Mismatch, None), st)
          else
            and_then (act_on rid p d st) (\<lambda>(res, st1).
            and_then (claim_event provider (pd_event d) (pay_id p) (fst res) st1) (\<lambda>st2.
            Inr (res, st2))))"

record webhook_reply =
  wr_settled :: bool
  wr_reason :: delivery_outcome

definition settleFromWebhook ::
  "string \<Rightarrow> nat \<Rightarrow> nat \<Rightarrow> parsed_delivery \<Rightarrow> store \<Rightarrow> (error + webhook_reply) \<times> store" where
  "settleFromWebhook provider rid pid d st =
     (case settle_event provider rid pid d st of
        Inr ((kind, v), st1) \<Rightarrow>
          (Inr \<lparr>wr_settled = (kind = W_Settled), wr_reason = DL_Kind kind\<rparr>,
           recordDelivery provider (pd_event d) (Some pid) (DL_Kind kind) st1)
      | Inl e \<Rightarrow>
          if e = General (Db_Unique ''webhook_events_processed_pkey'')
          then (Inr \<lparr>wr_settled = False, wr_reason = DL_Kind W_Duplicate\<rparr>,
                recordDelivery provider (pd_event d) (Some pid) (DL_Kind W_Duplicate) st)
          else (Inl e,
                recordDelivery provider (pd_event d) None
                  (if e = Pay_E Webhook_Payment_Unresolved then DL_Payment_Unresolved else DL_Processing_Failed) st))"

fun rejection_outcome :: "error \<Rightarrow> delivery_outcome" where
  "rejection_outcome (Hook_E Webhook_Timestamp_Out_Of_Tolerance) = DL_Timestamp_Out_Of_Tolerance"
| "rejection_outcome (Hook_E Webhook_Already_Processed) = DL_Replayed"
| "rejection_outcome (Hook_E Webhook_Replay_Protection_Unavailable) = DL_Replay_Store_Down"
| "rejection_outcome _ = DL_Signature_Invalid"

text \<open>\<open>refused\<close> is the verdict of the provider's \<open>verify\<close>: the error it raised, if any.\<close>

definition handleDelivery ::
  "string \<Rightarrow> error option \<Rightarrow> webhook_body \<Rightarrow> store \<Rightarrow> (error + webhook_reply) \<times> store" where
  "handleDelivery providerCode refused body st =
     (if providerCode \<noteq> ''SPLITE'' then (Inl (Hook_E Webhook_Provider_Unknown), st)
      else
        case refused of
          Some e \<Rightarrow> (Inl e, recordDelivery providerCode None None (rejection_outcome e) st)
        | None \<Rightarrow>
            let d = SPLITE_parse body in
            (case alreadyProcessed providerCode (pd_event d) st of
               Some w \<Rightarrow>
                 (Inr \<lparr>wr_settled = False, wr_reason = DL_Kind W_Duplicate\<rparr>,
                  recordDelivery providerCode (pd_event d) (Some (we_payment w)) (DL_Kind W_Duplicate) st)
             | None \<Rightarrow>
                 (case (pd_payment d, pd_restaurant d) of
                    (Some pid, Some rid) \<Rightarrow> settleFromWebhook providerCode rid pid d st
                  | _ \<Rightarrow>
                      (Inr \<lparr>wr_settled = False, wr_reason = DL_Unparseable\<rparr>,
                       recordDelivery providerCode None None DL_Unparseable st))))"

section \<open>Soundness\<close>

lemma recordDelivery_keeps [simp]:
  "bills (recordDelivery c e p k st) = bills st" "items (recordDelivery c e p k st) = items st"
  "payments (recordDelivery c e p k st) = payments st" "shares (recordDelivery c e p k st) = shares st"
  "splits (recordDelivery c e p k st) = splits st" "transitions (recordDelivery c e p k st) = transitions st"
  "next_id (recordDelivery c e p k st) = next_id st" "webhook_events (recordDelivery c e p k st) = webhook_events st"
  by (simp_all add: recordDelivery_def)

lemma recordDelivery_sound: "sound st \<Longrightarrow> sound (recordDelivery c e p k st) \<and> advances st (recordDelivery c e p k st)"
  by (rule sound_side_tables) simp_all

lemma act_on_sound:
  assumes "sound st" "get_payment rid pid st = Some p" "act_on rid p d st = Inr (res, st')"
  shows "sound st' \<and> advances st st'"
proof -
  have pid: "pay_id p = pid" using get_payment_SomeD[OF assms(2)] by simp
  consider (stay) "st' = st"
    | (failed) m where "transitionPayment rid pid Failed SYSTEM THROW st = Inr (m, st')"
    | (settled) a st1 m where "pay_status p = Pending" "applyToBill rid (pay_bill p) (amount_ves p) st = Inr (a, st1)"
        "transitionPayment rid pid Succeeded SYSTEM THROW st1 = Inr (m, st')"
    using assms(3) pid by (auto simp: act_on_def result_simps split: if_splits)
  thus ?thesis
  proof cases
    case stay
    thus ?thesis using assms(1) by simp
  next
    case failed
    thus ?thesis using move_sound[OF assms(1)] by (auto simp: counted_def)
  next
    case settled
    show ?thesis
      by (rule settle_waiting_sound[OF assms(1,2) _ settled(2,3)]) (simp add: settled(1) counted_def)
  qed
qed

lemma claim_event_InrD:
  assumes "claim_event provider ev pid kind st = Inr st'"
  obtains ws where "st' = st\<lparr>webhook_events := ws\<rparr>"
proof (cases ev)
  case None
  hence "st' = st\<lparr>webhook_events := webhook_events st\<rparr>" using assms by (simp add: claim_event_def)
  thus thesis by (rule that)
next
  case (Some e)
  thus thesis using assms that by (auto simp: claim_event_def split: if_splits)
qed

lemma settle_event_InrD:
  assumes "settle_event provider rid pid d st = Inr (res, st')"
  obtains p where "get_payment rid pid st = Some p" "pay_provider p \<noteq> Some provider"
      "res = (W_Provider_Mismatch, None)" "st' = st"
  | p st1 where "get_payment rid pid st = Some p" "pay_provider p = Some provider"
      "act_on rid p d st = Inr (res, st1)" "claim_event provider (pd_event d) pid (fst res) st1 = Inr st'"
proof (cases "get_payment rid pid st")
  case None
  thus thesis using assms by (simp add: settle_event_def)
next
  case (Some p)
  have pid: "pay_id p = pid" using get_payment_SomeD[OF Some] by simp
  show thesis
  proof (cases "pay_provider p = Some provider")
    case False
    thus thesis using that(1)[OF Some False] assms Some by (simp add: settle_event_def)
  next
    case True
    obtain r st1 where "act_on rid p d st = Inr (r, st1)" "claim_event provider (pd_event d) pid (fst r) st1 = Inr st'" "r = res"
      using assms Some True pid by (auto simp: settle_event_def result_simps)
    thus thesis using that(2)[OF Some True] by blast
  qed
qed

lemma settle_event_sound:
  assumes "sound st" "settle_event provider rid pid d st = Inr (res, st')"
  shows "sound st' \<and> advances st st'"
  using assms(2)
proof (cases rule: settle_event_InrD)
  case 1
  thus ?thesis using assms(1) by simp
next
  case (2 p st1)
  have s1: "sound st1 \<and> advances st st1" by (rule act_on_sound[OF assms(1) 2(1,3)])
  obtain ws where "st' = st1\<lparr>webhook_events := ws\<rparr>" using 2(4) by (rule claim_event_InrD)
  hence "sound st' \<and> advances st1 st'" using sound_side_tables[of st1 st'] s1 by simp
  thus ?thesis using s1 advances_trans by blast
qed

interpretation callback: rail "settle_event provider rid pid d" for provider rid pid d
  by unfold_locales (use settle_event_sound in blast)+

lemma settleFromWebhook_sound:
  assumes "sound st"
  shows "sound (snd (settleFromWebhook provider rid pid d st)) \<and> advances st (snd (settleFromWebhook provider rid pid d st))"
proof (cases "settle_event provider rid pid d st")
  case (Inl e)
  thus ?thesis using recordDelivery_sound[OF assms] by (simp add: settleFromWebhook_def)
next
  case (Inr x)
  obtain kind v st1 where x: "x = ((kind, v), st1)" by (metis surj_pair)
  have "sound st1 \<and> advances st st1" using settle_event_sound[OF assms] Inr x by blast
  thus ?thesis using recordDelivery_sound[of st1] advances_trans Inr x
    by (auto simp: settleFromWebhook_def intro: advances_trans)
qed

interpretation delivery: rail "\<lambda>st. Inr (handleDelivery provider refused body st)" for provider refused body
proof unfold_locales
  fix st out st' assume s: "sound st"
    and *: "(Inr (handleDelivery provider refused body st) :: error + (error + webhook_reply) \<times> store) = Inr (out, st')"
  have st': "st' = snd (handleDelivery provider refused body st)" using * by simp
  have "sound st' \<and> advances st st'"
    unfolding st' handleDelivery_def Let_def
    using s recordDelivery_sound[OF s] settleFromWebhook_sound[OF s] by (simp split: option.split)
  thus "sound st'" "advances st st'" by simp_all
qed

section \<open>An event is processed once\<close>

lemma already_processed_stable:
  assumes "alreadyProcessed provider (Some ev) st \<noteq> None" "claim_event provider' ev' pid kind st = Inr st'"
  shows "alreadyProcessed provider (Some ev) st' \<noteq> None"
  using assms by (auto simp: claim_event_def alreadyProcessed_def find_by_insert split: option.splits if_splits)

lemma settle_event_processed:
  assumes "settle_event provider rid pid d st = Inr ((kind, v), st')" "pd_event d = Some ev" "kind \<noteq> W_Provider_Mismatch"
  shows "alreadyProcessed provider (Some ev) st' \<noteq> None"
  using assms(1)
proof (cases rule: settle_event_InrD)
  case (2 p st1)
  thus ?thesis using assms(2)
    by (auto simp: claim_event_def alreadyProcessed_def find_by_insert split: option.splits if_splits)
qed (use assms(3) in simp)

section \<open>What a delivery promises\<close>

lemma signature_gate:
  "verifyWebhookSignature mac number tolerance store_up r now seen = Inr seen'
     \<longleftrightarrow> (\<exists>sig ts raw t. sr_signature r = Some sig \<and> sr_timestamp r = Some ts \<and> sr_raw_body r = Some raw
           \<and> sig \<noteq> [] \<and> ts \<noteq> [] \<and> number ts = Some t \<and> \<bar>now - t\<bar> \<le> tolerance \<and> sig = mac (ts @ ''.'' @ raw)
           \<and> store_up \<and> sig \<notin> set seen \<and> seen' = sig # seen)"
  by (auto simp: verifyWebhookSignature_def Let_def split: option.splits if_splits)

text \<open>C14: A webhook event that was processed (settled, failed or ignored) and is delivered again
  is answered as a duplicate and changes no bill, no payment and no processed event.\<close>

lemma delivery_acts_once:
  assumes "handleDelivery provider refused body st = (Inr reply, st')" "refused = None"
    and "wr_reason reply \<in> {DL_Kind W_Settled, DL_Kind W_Failed, DL_Kind W_Ignored}"
    and "pd_event (SPLITE_parse body) = Some ev"
  shows "\<exists>st''. handleDelivery provider None body st' = (Inr \<lparr>wr_settled = False, wr_reason = DL_Kind W_Duplicate\<rparr>, st'')
     \<and> bills st'' = bills st' \<and> payments st'' = payments st' \<and> webhook_events st'' = webhook_events st'"
proof -
  have code: "provider = ''SPLITE''" using assms(1) by (auto simp: handleDelivery_def split: if_splits)
  let ?d = "SPLITE_parse body"
  have "alreadyProcessed provider (Some ev) st = None"
    using assms code by (auto simp: handleDelivery_def Let_def split: option.splits)
  then obtain pid rid where s: "settleFromWebhook provider rid pid ?d st = (Inr reply, st')"
    using assms code by (auto simp: handleDelivery_def Let_def split: option.splits)
  obtain kind v st1 where e: "settle_event provider rid pid ?d st = Inr ((kind, v), st1)"
    and k: "wr_reason reply = DL_Kind kind" and st': "st' = recordDelivery provider (pd_event ?d) (Some pid) (DL_Kind kind) st1"
    using s assms(3) by (auto simp: settleFromWebhook_def split: sum.splits if_splits)
  have "alreadyProcessed provider (Some ev) st1 \<noteq> None"
    by (rule settle_event_processed[OF e]) (use assms(3,4) k in auto)
  hence "alreadyProcessed provider (Some ev) st' \<noteq> None" by (simp add: st' alreadyProcessed_def)
  then obtain w where "alreadyProcessed provider (Some ev) st' = Some w" by blast
  thus ?thesis using code assms(4) by (simp add: handleDelivery_def Let_def)
qed

definition splite_body :: "nat \<Rightarrow> webhook_body" where
  "splite_body pid = \<lparr>wb_id = Some ''tx9'', wb_paymentId = None, wb_eventId = Some ''ev1'', wb_event_id = None,
     wb_status = Some ''Paid'', wb_meta_payment = Some pid, wb_meta_restaurant = Some 7\<rparr>"

definition splite_store :: store where
  "splite_store = dinner_store\<lparr>payments := [(blank_payment 7 1 400 0 Pending SPLITE)\<lparr>pay_id := 15, pay_provider := Some ''SPLITE''\<rparr>],
     transitions := [\<lparr>tr_payment = 15, tr_restaurant = 7, tr_from = None, tr_to = Pending, tr_actor = GUEST\<rparr>]\<rparr>"

lemma delivery_acts_once_witness:
  "\<exists>st' st''. handleDelivery ''SPLITE'' None (splite_body 15) splite_store = (Inr \<lparr>wr_settled = True, wr_reason = DL_Kind W_Settled\<rparr>, st')
     \<and> handleDelivery ''SPLITE'' None (splite_body 15) st' = (Inr \<lparr>wr_settled = False, wr_reason = DL_Kind W_Duplicate\<rparr>, st'')
     \<and> bills st'' = bills st'"
proof -
  have "fst (handleDelivery ''SPLITE'' None (splite_body 15) splite_store) = Inr \<lparr>wr_settled = True, wr_reason = DL_Kind W_Settled\<rparr>"
    by code_simp
  then obtain st' where h: "handleDelivery ''SPLITE'' None (splite_body 15) splite_store
      = (Inr \<lparr>wr_settled = True, wr_reason = DL_Kind W_Settled\<rparr>, st')" by (metis prod.collapse)
  have e: "pd_event (SPLITE_parse (splite_body 15)) = Some ''ev1''" by code_simp
  show ?thesis using delivery_acts_once[OF h refl _ e] h by auto
qed

lemma foreign_event_settles_nothing:
  assumes "get_payment rid pid st = Some p" "pay_provider p \<noteq> Some provider"
  shows "\<exists>st'. settleFromWebhook provider rid pid d st = (Inr \<lparr>wr_settled = False, wr_reason = DL_Kind W_Provider_Mismatch\<rparr>, st')
     \<and> st'\<lparr>deliveries := deliveries st\<rparr> = st"
  using assms by (simp add: settleFromWebhook_def settle_event_def recordDelivery_def)

lemma foreign_event_settles_nothing_witness:
  "\<exists>st'. settleFromWebhook ''OTRO'' 7 15 (SPLITE_parse (splite_body 15)) splite_store
       = (Inr \<lparr>wr_settled = False, wr_reason = DL_Kind W_Provider_Mismatch\<rparr>, st') \<and> bills st' = bills splite_store"
proof -
  have "(case get_payment 7 15 splite_store of None \<Rightarrow> False | Some p \<Rightarrow> pay_provider p \<noteq> Some ''OTRO'')" by code_simp
  then obtain p where p: "get_payment 7 15 splite_store = Some p" "pay_provider p \<noteq> Some ''OTRO''"
    by (auto split: option.splits)
  from foreign_event_settles_nothing[OF p, of "SPLITE_parse (splite_body 15)"] obtain st'
    where s: "settleFromWebhook ''OTRO'' 7 15 (SPLITE_parse (splite_body 15)) splite_store
       = (Inr \<lparr>wr_settled = False, wr_reason = DL_Kind W_Provider_Mismatch\<rparr>, st')" "st'\<lparr>deliveries := deliveries splite_store\<rparr> = splite_store"
    by blast
  have "bills st' = bills (st'\<lparr>deliveries := deliveries splite_store\<rparr>)" by simp
  thus ?thesis using s by simp
qed

end
