(* ===== verification/Bill_Lifecycle.thy ===== *)
theory Bill_Lifecycle
  imports Settlement
begin

text \<open>
  A bill's life outside the payment rails: opening one (src/routes/bills.js POST /,
  src/services/billOpen.js, src/services/subscriptionGate.js), taking an order for a
  table or from a diner's phone (routes/bills.js, src/services/guestOrders.js),
  attributing a server, settling with an adjustment, voiding.  The lemmas show that
  every operation is sound, that a table never has two open bills, and that leaving
  OPEN is for good.
\<close>

section \<open>Opening\<close>

record fx_snapshot =
  fx_total_ves :: int
  fx_rate :: string

text \<open>\<open>getRateFor\<close> is the rate service: a rate in bolivares per unit, or none.\<close>

definition snapshotFx :: "(string \<Rightarrow> string option) \<Rightarrow> string \<Rightarrow> int \<Rightarrow> error + fx_snapshot" where
  "snapshotFx getRateFor menuCurrency total_minor =
     (if menuCurrency = ''VES'' then Inr \<lparr>fx_total_ves = total_minor, fx_rate = ''1''\<rparr>
      else
        (case getRateFor menuCurrency of
           None \<Rightarrow> Inl (General Fx_Unavailable)
         | Some rate \<Rightarrow>
             and_then (parseRate (JString rate)) (\<lambda>scaled.
             and_then (toMinor (JString (show_int total_minor))) (\<lambda>amount.
             and_then (applyRate (JBigInt amount) scaled) (\<lambda>ves.
             Inr \<lparr>fx_total_ves = ves, fx_rate = rate\<rparr>)))))"

definition assertMayOpenBills :: "nat \<Rightarrow> store \<Rightarrow> error + unit" where
  "assertMayOpenBills rid st =
     (case find_by (\<lambda>r. rs_id r = rid) (restaurants st) of
        None \<Rightarrow> Inr ()
      | Some r \<Rightarrow>
          if rs_subscription r \<in> {Some Sub_Suspended, Some Sub_Cancelled}
          then Inl (Plan_E Subscription_Suspended) else Inr ())"

definition read_menu :: "nat \<Rightarrow> store \<Rightarrow> string \<times> int \<times> int" where
  "read_menu rid st =
     (case find_by (\<lambda>r. rs_id r = rid) (restaurants st) of
        None \<Rightarrow> (''VES'', 0, 0)
      | Some r \<Rightarrow> (rs_menu_currency r, rs_vat_bps r, rs_service_bps r))"

definition table_active :: "nat \<Rightarrow> nat \<Rightarrow> store \<Rightarrow> bool" where
  "table_active rid table st = list_ex (\<lambda>t. tb_id t = table \<and> tb_restaurant t = rid \<and> tb_active t) (dining_tables st)"

definition is_open_at :: "nat \<Rightarrow> nat \<Rightarrow> bill \<Rightarrow> bool" where
  "is_open_at rid table b \<longleftrightarrow> bill_restaurant b = rid \<and> bill_table b = table \<and> bill_state b = BillOpen"

definition openBill :: "nat \<Rightarrow> nat \<Rightarrow> store \<Rightarrow> bill option" where
  "openBill rid table st = find_by (is_open_at rid table) (bills st)"

text \<open>A fresh identifier: above every one in use, a line's bill included.\<close>

definition fresh_id :: "store \<Rightarrow> nat" where
  "fresh_id st = fold max (map (\<lambda>i. Suc (item_bill i)) (items st)) (next_id st)"

definition new_bill :: "nat \<Rightarrow> nat \<Rightarrow> int \<Rightarrow> string \<times> int \<times> int \<Rightarrow> fx_snapshot \<Rightarrow> nat option \<Rightarrow> nat \<Rightarrow> bill" where
  "new_bill rid table total_minor menu fx served k =
     (case menu of (currency, vat, service) \<Rightarrow>
        \<lparr>bill_id = k, bill_restaurant = rid, bill_table = table, bill_state = BillOpen, bill_currency = currency,
         total_due = total_minor, subtotal_minor = total_minor, vat_minor = 0, service_charge_minor = 0,
         bill_vat_bps = Some vat, service_charge_bps = Some service, total_due_ves = fx_total_ves fx,
         amount_paid_ves = 0, fx_rate_ves_per_unit = Some (fx_rate fx), served_by = served\<rparr>)"

text \<open>INSERT INTO bills, under its CHECKs and the unique index on a table's open bill.\<close>

definition insert_bill :: "bill \<Rightarrow> store \<Rightarrow> error + store" where
  "insert_bill b st =
     (if \<not> bill_checks b then Inl (General (Db_Check ''bills''))
      else if list_ex (is_open_at (bill_restaurant b) (bill_table b)) (bills st)
      then Inl (General (Db_Unique ''bills_one_open_per_table_idx''))
      else Inr (st\<lparr>bills := insert_row b (bills st), next_id := Suc (bill_id b)\<rparr>))"

fun as_open_bill_error :: "error \<Rightarrow> error" where
  "as_open_bill_error (General (Db_Unique c)) =
     (if c = ''bills_one_open_per_table_idx'' then Bill_E (Open_Bill_Exists None) else General (Db_Unique c))"
| "as_open_bill_error e = e"

definition createBill_tx :: "nat \<Rightarrow> nat option \<Rightarrow> nat \<Rightarrow> int \<Rightarrow> string \<times> int \<times> int \<Rightarrow> fx_snapshot \<Rightarrow> bill tx" where
  "createBill_tx rid served table total_minor menu fx st =
     (if \<not> table_active rid table st then Inl (General Table_Not_Found)
      else
        (case openBill rid table st of
           Some b \<Rightarrow> Inl (Bill_E (Open_Bill_Exists (Some (bill_id b))))
         | None \<Rightarrow>
             and_then (assertMayOpenBills rid st) (\<lambda>_.
             let b = new_bill rid table total_minor menu fx served (fresh_id st)
             in and_then (insert_bill b st) (\<lambda>st1. Inr (b, st1)))))"

definition createBill :: "(string \<Rightarrow> string option) \<Rightarrow> nat \<Rightarrow> nat \<Rightarrow> nat \<Rightarrow> int \<Rightarrow> bill tx" where
  "createBill getRateFor rid user table total_minor st =
     (let menu = read_menu rid st in
      and_then (snapshotFx getRateFor (fst menu) total_minor) (\<lambda>fx.
      case createBill_tx rid (Some user) table total_minor menu fx st of
        Inl e \<Rightarrow> Inl (as_open_bill_error e)
      | Inr r \<Rightarrow> Inr r))"

section \<open>Taking an order\<close>

record order_prep =
  op_existing :: "nat option"
  op_menu :: "string \<times> int \<times> int"
  op_fx :: fx_snapshot

text \<open>Before BEGIN: is there an open bill already, and if not, at what rate?\<close>

definition prepare_order :: "(string \<Rightarrow> string option) \<Rightarrow> nat \<Rightarrow> nat \<Rightarrow> store \<Rightarrow> error + order_prep" where
  "prepare_order getRateFor rid table st =
     (case openBill rid table st of
        Some b \<Rightarrow> Inr \<lparr>op_existing = Some (bill_id b), op_menu = ([], 0, 0), op_fx = \<lparr>fx_total_ves = 0, fx_rate = []\<rparr>\<rparr>
      | None \<Rightarrow>
          let menu = read_menu rid st in
          and_then (snapshotFx getRateFor (fst menu) 0) (\<lambda>fx.
          Inr \<lparr>op_existing = None, op_menu = menu, op_fx = fx\<rparr>))"

text \<open>Inside it: the table, then the bill the order goes to, opened if need be.\<close>

definition order_bill :: "nat \<Rightarrow> nat \<Rightarrow> nat option \<Rightarrow> order_prep \<Rightarrow> (nat \<times> bool) tx" where
  "order_bill rid table served prep st =
     (if \<not> table_active rid table st then Inl (General Table_Not_Found)
      else
        (case op_existing prep of
           Some bid \<Rightarrow> Inr ((bid, False), st)
         | None \<Rightarrow>
             and_then (assertMayOpenBills rid st) (\<lambda>_.
             let b = new_bill rid table 0 (op_menu prep) \<lparr>fx_total_ves = 0, fx_rate = fx_rate (op_fx prep)\<rparr>
                       served (fresh_id st)
             in and_then (insert_bill b st) (\<lambda>st1. Inr ((bill_id b, True), st1)))))"

record taken_order =
  to_bill :: bill
  to_opened :: bool
  to_added :: "bill_item list"
  to_order :: "nat option"

definition takeOrder_tx :: "nat \<Rightarrow> nat \<Rightarrow> nat \<Rightarrow> order_line list \<Rightarrow> order_prep \<Rightarrow> taken_order tx" where
  "takeOrder_tx rid user table ls prep st =
     and_then (order_bill rid table (Some user) prep st) (\<lambda>((bid, opened), st1).
     and_then (lockOpenBill rid bid st1) (\<lambda>b.
     and_then (addItemsInTransaction rid b ls None st1) (\<lambda>((added, b'), st2).
     Inr (\<lparr>to_bill = b', to_opened = opened, to_added = added, to_order = None\<rparr>, st2))))"

definition takeOrder :: "(string \<Rightarrow> string option) \<Rightarrow> nat \<Rightarrow> nat \<Rightarrow> nat \<Rightarrow> order_line list \<Rightarrow> taken_order tx" where
  "takeOrder getRateFor rid user table ls st =
     and_then (prepare_order getRateFor rid table st) (\<lambda>prep. takeOrder_tx rid user table ls prep st)"

definition placeOrder_tx :: "nat \<Rightarrow> nat \<Rightarrow> order_line list \<Rightarrow> int \<Rightarrow> order_prep \<Rightarrow> taken_order tx" where
  "placeOrder_tx rid table ls now prep st =
     and_then (order_bill rid table None prep st) (\<lambda>((bid, opened), st1).
     and_then (lockOpenBill rid bid st1) (\<lambda>b.
     let oid = next_id st1;
         st2 = st1\<lparr>guest_orders := insert_row \<lparr>go_id = oid, go_restaurant = rid, go_table = table, go_bill = bid,
                     go_line_count = int (length ls), go_created_at = now, go_acknowledged = None\<rparr> (guest_orders st1),
                   next_id := next_id st1 + 1\<rparr>
     in and_then (addItemsInTransaction rid b ls (Some oid) st2) (\<lambda>((added, b'), st3).
        Inr (\<lparr>to_bill = b', to_opened = opened, to_added = added, to_order = Some oid\<rparr>, st3))))"

definition placeOrder :: "(string \<Rightarrow> string option) \<Rightarrow> nat \<Rightarrow> nat \<Rightarrow> order_line list \<Rightarrow> int \<Rightarrow> taken_order tx" where
  "placeOrder getRateFor rid table ls now st =
     and_then (prepare_order getRateFor rid table st) (\<lambda>prep. placeOrder_tx rid table ls now prep st)"

record orders_summary =
  os_pending :: nat
  os_oldest :: "int option"
  os_age_seconds :: "int option"

definition pending_orders :: "nat \<Rightarrow> store \<Rightarrow> guest_order list" where
  "pending_orders rid st = filter (\<lambda>g. go_restaurant g = rid \<and> go_acknowledged g = None) (guest_orders st)"

definition pendingSummary :: "nat \<Rightarrow> int \<Rightarrow> store \<Rightarrow> orders_summary" where
  "pendingSummary rid now st =
     (let times = map go_created_at (pending_orders rid st);
          oldest = (if times = [] then None else Some (Min (set times)))
      in \<lparr>os_pending = length times, os_oldest = oldest,
          os_age_seconds = map_option (\<lambda>t. max 0 ((now - t) div 1000)) oldest\<rparr>)"

definition acknowledge :: "nat \<Rightarrow> nat \<Rightarrow> nat \<Rightarrow> int \<Rightarrow> ((int \<times> nat) \<times> bool) tx" where
  "acknowledge rid oid user now st =
     (case find_by (\<lambda>g. go_id g = oid \<and> go_restaurant g = rid) (guest_orders st) of
        None \<Rightarrow> Inl (Bill_E Guest_Order_Not_Found)
      | Some g \<Rightarrow>
          (case go_acknowledged g of
             Some a \<Rightarrow> Inr ((a, False), st)
           | None \<Rightarrow>
               Inr (((now, user), True),
                    st\<lparr>guest_orders := update_where (\<lambda>g. go_id g = oid \<and> go_restaurant g = rid \<and> go_acknowledged g = None)
                         (\<lambda>g. g\<lparr>go_acknowledged := Some (now, user)\<rparr>) (guest_orders st)\<rparr>)))"

section \<open>Attributing, settling, voiding\<close>

text \<open>\<open>on_staff\<close>: an active user of the restaurant.\<close>

definition setServer :: "(nat \<Rightarrow> bool) \<Rightarrow> nat \<Rightarrow> nat \<Rightarrow> staff_role \<Rightarrow> nat \<Rightarrow> nat option \<Rightarrow> bill tx" where
  "setServer on_staff rid bid role user servedBy st =
     (let canReassign = (role = OWNER \<or> role = MANAGER) in
      if (case servedBy of None \<Rightarrow> False | Some u \<Rightarrow> \<not> on_staff u) then Inl (Account_E Staff_Not_Found)
      else
        (case get_bill rid bid st of
           None \<Rightarrow> Inl (Bill_E Bill_Not_Found)
         | Some b \<Rightarrow>
             if \<not> canReassign \<and> servedBy \<noteq> Some user then Inl (Account_E Forbidden_Role)
             else if \<not> canReassign \<and> served_by b \<noteq> None \<and> served_by b \<noteq> Some user
             then Inl (Bill_E Bill_Already_Served)
             else and_then (update_bill bid (\<lambda>x. x\<lparr>served_by := servedBy\<rparr>) st) (\<lambda>st1.
                    Inr (b\<lparr>served_by := servedBy\<rparr>, st1))))"

definition settleBill :: "nat \<Rightarrow> nat \<Rightarrow> adjustment_reason \<Rightarrow> nat \<Rightarrow> (bill \<times> adjustment option) tx" where
  "settleBill rid bid reason user st =
     (case get_bill rid bid st of
        None \<Rightarrow> Inl (Bill_E Bill_Not_Found)
      | Some b \<Rightarrow>
          if bill_state b \<noteq> BillOpen then Inl (Bill_E (Bill_Not_Open (bill_state b)))
          else
            let shortfall = total_due_ves b - amount_paid_ves b;
                adj = (if shortfall > 0
                       then Some \<lparr>adj_restaurant = rid, adj_bill = bid, adj_amount_ves = shortfall,
                                  adj_reason = reason, adj_by = user\<rparr> else None)
            in and_then (case adj of
                           None \<Rightarrow> Inr st
                         | Some a \<Rightarrow>
                             if list_ex (\<lambda>x. adj_bill x = bid) (adjustments st)
                             then Inl (General (Db_Unique ''bill_adjustments_bill_idx''))
                             else Inr (st\<lparr>adjustments := insert_row a (adjustments st)\<rparr>)) (\<lambda>st1.
               and_then (update_bill bid (\<lambda>x. x\<lparr>bill_state := BillClosed\<rparr>) st1) (\<lambda>st2.
               Inr ((b\<lparr>bill_state := BillClosed\<rparr>, adj), st2))))"

definition voidBill :: "nat \<Rightarrow> nat \<Rightarrow> bill tx" where
  "voidBill rid bid st =
     (case get_bill rid bid st of
        None \<Rightarrow> Inl (Bill_E Bill_Not_Found)
      | Some b \<Rightarrow>
          if bill_state b = BillOpen \<and> amount_paid_ves b = 0
          then and_then (update_bill bid (\<lambda>x. x\<lparr>bill_state := BillVoid\<rparr>) st) (\<lambda>st1.
                 Inr (b\<lparr>bill_state := BillVoid\<rparr>, st1))
          else if amount_paid_ves b \<noteq> 0 then Inl (Bill_E Bill_Has_Payments)
          else Inl (Bill_E (Bill_Not_Open (bill_state b))))"

section \<open>Soundness of the updates\<close>

lemma touch_bill_sound:
  assumes "sound st" "get_bill rid bid st = Some b" "update_bill bid f st = Inr st'"
    and f: "bill_id (f b) = bid" "bill_restaurant (f b) = bill_restaurant b" "amount_paid_ves (f b) = amount_paid_ves b"
      "subtotal_minor (f b) = subtotal_minor b" "bill_state (f b) = BillVoid \<Longrightarrow> amount_paid_ves b = 0" "forward b (f b)"
  shows "sound st' \<and> advances st st'"
proof -
  have same: "x = b" if "x \<in> set (bills st)" "bill_id x = bid" for x
    by (rule keyed_unique[of bill_id "bills st"])
      (use assms(1) that get_bill_SomeD[OF assms(2)] in \<open>simp_all add: sound_def store_inv_def inv_keys_def\<close>)
  have st': "st' = st\<lparr>bills := update_where (\<lambda>b. bill_id b = bid) f (bills st)\<rparr>"
    using update_bill_InrD[OF assms(3)] by simp
  have "store_inv st'"
  proof (rule inv_update_bill[OF _ assms(3)])
    show "store_inv st" using assms(1) by (simp add: sound_def)
    fix x assume "x \<in> set (bills st)" "bill_id x = bid"
    hence "x = b" by (rule same)
    thus "bill_id (f x) = bid \<and> bill_restaurant (f x) = bill_restaurant x \<and> amount_paid_ves (f x) = amount_paid_ves x
        \<and> (bill_state (f x) = BillVoid \<longrightarrow> amount_paid_ves x = 0)" using f by simp
  qed
  moreover have "inv_log st'" by (rule inv_log_cong[of st]) (use assms(1) in \<open>simp_all add: sound_def st'\<close>)
  moreover have "items_agree st'"
    using assms(1) same f(1,4) by (fastforce simp: sound_def items_agree_def st' set_update_where split: if_splits)
  moreover have "advances st st'"
  proof (rule advances_update)
    show "bills st' = update_where (\<lambda>b. bill_id b = bid) f (bills st)" by (simp add: st')
    fix x assume "x \<in> set (bills st)" "bill_id x = bid"
    hence "x = b" by (rule same)
    thus "forward x (f x)" using f(6) by simp
  qed
  ultimately show ?thesis by (simp add: sound_def)
qed

interpretation set_server: rail "setServer on_staff rid bid role user servedBy" for on_staff rid bid role user servedBy
proof unfold_locales
  fix st r st' assume *: "sound st" "setServer on_staff rid bid role user servedBy st = Inr (r, st')"
  obtain b where b: "get_bill rid bid st = Some b" "update_bill bid (\<lambda>x. x\<lparr>served_by := servedBy\<rparr>) st = Inr st'"
    using *(2) by (auto simp: setServer_def Let_def result_simps split: option.splits if_splits)
  show "sound st'" "advances st st'"
    using touch_bill_sound[OF *(1) b] get_bill_SomeD[OF b(1)] *(1)
    by (auto simp: forward_def sound_def store_inv_def inv_bills_def)
qed

interpretation void_bill: rail "voidBill rid bid" for rid bid
proof unfold_locales
  fix st r st' assume *: "sound st" "voidBill rid bid st = Inr (r, st')"
  obtain b where b: "get_bill rid bid st = Some b" "bill_state b = BillOpen" "amount_paid_ves b = 0"
      "update_bill bid (\<lambda>x. x\<lparr>bill_state := BillVoid\<rparr>) st = Inr st'"
    using *(2) by (auto simp: voidBill_def result_simps split: option.splits if_splits)
  show "sound st'" "advances st st'"
    using touch_bill_sound[OF *(1) b(1,4)] get_bill_SomeD[OF b(1)] b(2,3) by (auto simp: forward_def)
qed

interpretation settle_bill: rail "settleBill rid bid reason user" for rid bid reason user
proof unfold_locales
  fix st r st' assume *: "sound st" "settleBill rid bid reason user st = Inr (r, st')"
  obtain b st1 where b: "get_bill rid bid st = Some b" "bill_state b = BillOpen"
      "update_bill bid (\<lambda>x. x\<lparr>bill_state := BillClosed\<rparr>) st1 = Inr st'" and st1: "st1 = st\<lparr>adjustments := adjustments st1\<rparr>"
    using *(2) by (auto simp: settleBill_def Let_def result_simps split: option.splits if_splits)
  have "sound (st\<lparr>adjustments := adjustments st1\<rparr>) \<and> advances st (st\<lparr>adjustments := adjustments st1\<rparr>)"
    by (rule sound_side_tables[OF *(1)]) simp_all
  hence s1: "sound st1 \<and> advances st st1" using st1 by simp
  have "bills st1 = bills st" by (subst st1) simp
  hence g: "get_bill rid bid st1 = Some b" using b(1) by (simp add: get_bill_def)
  have "sound st' \<and> advances st1 st'"
    using touch_bill_sound[OF _ g b(3)] s1 get_bill_SomeD[OF g] b(2) by (auto simp: forward_def)
  thus "sound st'" "advances st st'" using s1 advances_trans by blast+
qed

interpretation acknowledge_order: rail "acknowledge rid oid user now" for rid oid user now
proof unfold_locales
  fix st r st' assume *: "sound st" "acknowledge rid oid user now st = Inr (r, st')"
  have "sound st' \<and> advances st st'"
    by (rule sound_side_tables[OF *(1)]) (use *(2) in \<open>auto simp: acknowledge_def split: option.splits\<close>)
  thus "sound st'" "advances st st'" by simp_all
qed

section \<open>Opening a bill\<close>

text \<open>What an operation that may open bills keeps of those that exist.\<close>

definition one_open :: "store \<Rightarrow> bool" where
  "one_open st \<longleftrightarrow> keyed (\<lambda>b. (bill_restaurant b, bill_table b)) (filter (\<lambda>b. bill_state b = BillOpen) (bills st))"

definition grows :: "store \<Rightarrow> store \<Rightarrow> bool" where
  "grows st st' \<longleftrightarrow> (\<exists>news. list_all2 forward (bills st @ news) (bills st'))"

lemma all_forward_trans: "list_all2 forward as bs \<Longrightarrow> list_all2 forward bs cs \<Longrightarrow> list_all2 forward as cs"
  by (rule list_all2_trans[OF forward_trans])

lemma advances_grows: "advances st st' \<Longrightarrow> grows st st'"
  unfolding advances_def grows_def by (rule exI[of _ "[]"]) simp

lemma grows_advances: "grows st st1 \<Longrightarrow> advances st1 st2 \<Longrightarrow> grows st st2"
  unfolding advances_def grows_def using all_forward_trans by blast

lemma grows_trans:
  assumes "grows st st1" "grows st1 st2"
  shows "grows st st2"
proof -
  obtain n1 n2 where a: "list_all2 forward (bills st @ n1) (bills st1)" and b: "list_all2 forward (bills st1 @ n2) (bills st2)"
    using assms by (auto simp: grows_def)
  have "list_all2 forward (bills st @ n1 @ n2) (bills st1 @ n2)"
    using list_all2_appendI[OF a, of n2 n2] by (simp add: list_all2_refl)
  hence "list_all2 forward (bills st @ n1 @ n2) (bills st2)" using b by (rule all_forward_trans)
  thus ?thesis unfolding grows_def by blast
qed

lemma forward_one_open:
  assumes "list_all2 forward bs cs" "distinct (map key (filter (\<lambda>b. bill_state b = BillOpen) bs))"
    and "\<And>b c. forward b c \<Longrightarrow> key c = key b"
  shows "distinct (map key (filter (\<lambda>b. bill_state b = BillOpen) cs))
       \<and> key ` set (filter (\<lambda>b. bill_state b = BillOpen) cs) \<subseteq> key ` set (filter (\<lambda>b. bill_state b = BillOpen) bs)"
  using assms(1,2)
proof (induction rule: list_all2_induct)
  case (Cons b bs c cs)
  have "key c = key b" "bill_state c = BillOpen \<Longrightarrow> bill_state b = BillOpen"
    using Cons.hyps(1) assms(3) by (auto simp: forward_def)
  thus ?case using Cons by (cases "bill_state b = BillOpen") (auto simp: image_iff)
qed simp

lemma advances_one_open: "advances st st' \<Longrightarrow> one_open st \<Longrightarrow> one_open st'"
  using forward_one_open[of "bills st" "bills st'" "\<lambda>b. (bill_restaurant b, bill_table b)"]
  by (simp add: advances_def one_open_def keyed_def forward_def)

lemma fresh_id_bounds: "next_id st \<le> fresh_id st" "i \<in> set (items st) \<Longrightarrow> item_bill i < fresh_id st"
proof -
  have base: "(n::nat) \<le> fold max xs n" for xs n
  proof (induction xs arbitrary: n)
    case (Cons a xs)
    show ?case using Cons[of "max a n"] by simp
  qed simp
  have mem: "x \<in> set xs \<Longrightarrow> (x::nat) \<le> fold max xs n" for x xs n
  proof (induction xs arbitrary: n)
    case (Cons y xs)
    thus ?case using base[of "max y n" xs] by auto
  qed simp
  show "next_id st \<le> fresh_id st" by (simp add: fresh_id_def base)
  show "i \<in> set (items st) \<Longrightarrow> item_bill i < fresh_id st"
    using mem[of "Suc (item_bill i)"] by (simp add: fresh_id_def Suc_le_eq)
qed

lemma ledger_total_fresh:
  assumes "store_inv st" "next_id st \<le> k"
  shows "ledger_total k st = 0"
proof -
  have "filter (\<lambda>p. pay_bill p = k \<and> counted (pay_status p)) (payments st) = []"
    using assms by (auto simp: filter_empty_conv store_inv_def inv_keys_def)
  thus ?thesis by (simp add: ledger_total_def sum_over_def)
qed

lemma insert_bill_sound:
  assumes "sound st" "insert_bill (new_bill rid table tot menu fx served (fresh_id st)) st = Inr st'"
  shows "sound st'" "grows st st'" "one_open st \<Longrightarrow> one_open st'"
proof -
  let ?b = "new_bill rid table tot menu fx served (fresh_id st)"
  obtain currency vat service where m: "menu = (currency, vat, service)" by (metis surj_pair)
  have b: "bill_id ?b = fresh_id st" "bill_restaurant ?b = rid" "bill_table ?b = table" "bill_state ?b = BillOpen"
      "amount_paid_ves ?b = 0" by (simp_all add: new_bill_def m)
  have ok: "bill_checks ?b" and free: "\<not> list_ex (is_open_at rid table) (bills st)"
    and st': "st' = st\<lparr>bills := insert_row ?b (bills st), next_id := Suc (fresh_id st)\<rparr>"
    using assms(2) by (auto simp: insert_bill_def b split: if_splits)
  have I: "store_inv st" using assms(1) by (simp add: sound_def)
  note lt = fresh_id_bounds(1)[of st]
  have tot: "ledger_total k st' = ledger_total k st" "share_credit k st' = share_credit k st" for k
    by (simp_all add: st' ledger_total_def share_credit_def)
  have "keyed bill_id (bills st')" unfolding st'
    using I lt b(1) by (auto simp: store_inv_def inv_keys_def intro!: keyed_insert)
  hence "inv_keys st'" using I lt by (auto simp: store_inv_def inv_keys_def st' b insert_row_def less_Suc_eq)
  moreover have "inv_fk st'" using I by (auto simp: store_inv_def inv_fk_def st' insert_row_def)
  moreover have "inv_bills st'" using I ok by (auto simp: store_inv_def inv_bills_def st' insert_row_def b)
  moreover have "inv_ledger st'"
    using I ledger_total_fresh[OF I lt] by (auto simp: store_inv_def inv_ledger_iff tot) (auto simp: st' insert_row_def b)
  moreover have "inv_shares st'" "inv_payments st'" "inv_splits st'"
    using I by (auto simp: store_inv_def inv_shares_def share_drift_iff inv_payments_def inv_splits_def one_active_def
        share_total_def share_paid_total_def tot) (auto simp: st')
  ultimately have "store_inv st'" by (simp add: store_inv_def)
  moreover have "inv_log st'" by (rule inv_log_cong[of st]) (use assms(1) lt in \<open>simp_all add: sound_def st'\<close>)
  moreover have "lines_of (fresh_id st) st = []"
    using fresh_id_bounds(2)[of _ st] by (fastforce simp: lines_of_def filter_empty_conv)
  hence "items_agree st'" using assms(1) by (auto simp: sound_def items_agree_def st' insert_row_def b lines_of_def)
  ultimately show "sound st'" by (simp add: sound_def)
  show "grows st st'" unfolding grows_def st' insert_row_def by (auto intro!: exI[of _ "[?b]"] list_all2_refl)
  show "one_open st \<Longrightarrow> one_open st'"
    using free by (auto simp: one_open_def keyed_def st' insert_row_def b list_ex_iff is_open_at_def)
qed

text \<open>The contract of a transaction that may open a bill.\<close>

locale opener =
  fixes step :: "'a tx"
  assumes opens_sound: "sound st \<Longrightarrow> step st = Inr (r, st') \<Longrightarrow> sound st'"
    and only_grows: "sound st \<Longrightarrow> step st = Inr (r, st') \<Longrightarrow> grows st st'"
    and keeps_one_open: "sound st \<Longrightarrow> one_open st \<Longrightarrow> step st = Inr (r, st') \<Longrightarrow> one_open st'"
begin

lemma bill_survives:
  assumes "sound st" "step st = Inr (r, st')" "b \<in> set (bills st)"
  shows "\<exists>b' \<in> set (bills st'). forward b b'"
proof -
  obtain news where "list_all2 forward (bills st @ news) (bills st')" using only_grows[OF assms(1,2)] by (auto simp: grows_def)
  moreover obtain i where "i < length (bills st)" "b = (bills st @ news) ! i"
    using assms(3) by (auto simp: in_set_conv_nth nth_append)
  ultimately show ?thesis by (auto simp: list_all2_conv_all_nth intro!: bexI[of _ "bills st' ! i"])
qed

end

text \<open>Every rail is one that opens nothing.\<close>

sublocale rail \<subseteq> opener step
  by unfold_locales (blast intro: keeps_sound only_advances advances_grows advances_one_open)+

interpretation create_bill: opener "createBill getRateFor rid user table total_minor" for getRateFor rid user table total_minor
proof unfold_locales
  fix st r st' assume *: "sound st" "createBill getRateFor rid user table total_minor st = Inr (r, st')"
  obtain fx where "createBill_tx rid (Some user) table total_minor (read_menu rid st) fx st = Inr (r, st')"
    using *(2) unfolding createBill_def Let_def and_then_Inr_iff by (metis (no_types, lifting) sum.case_eq_if sum.collapse(2) Inl_Inr_False)
  hence ins: "insert_bill (new_bill rid table total_minor (read_menu rid st) fx (Some user) (fresh_id st)) st = Inr st'"
    by (auto simp: createBill_tx_def Let_def result_simps split: if_splits option.splits)
  show "sound st'" "grows st st'" "one_open st \<Longrightarrow> one_open st'" using insert_bill_sound[OF *(1) ins] by blast+
qed

lemma order_bill_sound:
  assumes "sound st" "order_bill rid table served prep st = Inr (r, st')"
  shows "sound st'" "grows st st'" "one_open st \<Longrightarrow> one_open st'"
proof -
  have "st' = st \<or> (\<exists>tot menu fx. insert_bill (new_bill rid table tot menu fx served (fresh_id st)) st = Inr st')"
    using assms(2) by (fastforce simp: order_bill_def Let_def result_simps split: if_splits option.splits)
  hence "sound st' \<and> grows st st' \<and> (one_open st \<longrightarrow> one_open st')"
  proof (elim disjE exE)
    assume "st' = st"
    thus ?thesis using assms(1) advances_grows[OF advances_refl] by simp
  next
    fix tot menu fx
    assume i: "insert_bill (new_bill rid table tot menu fx served (fresh_id st)) st = Inr st'"
    show ?thesis using insert_bill_sound[OF assms(1) i] by blast
  qed
  thus "sound st'" "grows st st'" "one_open st \<Longrightarrow> one_open st'" by simp_all
qed

lemma takeOrder_tx_sound:
  assumes "sound st" "takeOrder_tx rid user table ls prep st = Inr (r, st')"
  shows "sound st'" "grows st st'" "one_open st \<Longrightarrow> one_open st'"
proof -
  obtain x st1 b y where o: "order_bill rid table (Some user) prep st = Inr (x, st1)"
    and a: "addItemsInTransaction rid b ls None st1 = Inr (y, st')"
    using assms(2) by (auto simp: takeOrder_tx_def result_simps)
  note O = order_bill_sound[OF assms(1) o]
  have A: "sound st'" "advances st1 st'" using order_rail[OF O(1) a] by simp_all
  show "sound st'" by (rule A)
  show "grows st st'" by (rule grows_advances[OF O(2) A(2)])
  show "one_open st \<Longrightarrow> one_open st'" by (rule advances_one_open[OF A(2) O(3)])
qed

lemma placeOrder_tx_sound:
  assumes "sound st" "placeOrder_tx rid table ls now prep st = Inr (r, st')"
  shows "sound st'" "grows st st'" "one_open st \<Longrightarrow> one_open st'"
proof -
  obtain x st1 b y oid gs where o: "order_bill rid table None prep st = Inr (x, st1)"
    and a: "addItemsInTransaction rid b ls (Some oid) (st1\<lparr>guest_orders := gs, next_id := next_id st1 + 1\<rparr>) = Inr (y, st')"
    using assms(2) by (auto simp: placeOrder_tx_def Let_def result_simps)
  let ?st2 = "st1\<lparr>guest_orders := gs, next_id := next_id st1 + 1\<rparr>"
  note O = order_bill_sound[OF assms(1) o]
  have "store_inv ?st2" by (rule inv_cong[of _ st1]) (use O(1) in \<open>simp_all add: sound_def\<close>)
  hence s2: "sound ?st2 \<and> advances st1 ?st2" by (intro sound_same_ledger[OF O(1)]) simp_all
  have A: "sound st' \<and> advances ?st2 st'" using order_rail[OF _ a] s2 by blast
  have adv: "advances st1 st'" using A s2 advances_trans by blast
  show "sound st'" using A by simp
  show "grows st st'" by (rule grows_advances[OF O(2) adv])
  show "one_open st \<Longrightarrow> one_open st'" by (rule advances_one_open[OF adv O(3)])
qed

interpretation take_order: opener "takeOrder getRateFor rid user table ls" for getRateFor rid user table ls
proof unfold_locales
  fix st r st' assume *: "sound st" "takeOrder getRateFor rid user table ls st = Inr (r, st')"
  obtain prep where p: "takeOrder_tx rid user table ls prep st = Inr (r, st')"
    using *(2) by (auto simp: takeOrder_def result_simps)
  show "sound st'" "grows st st'" "one_open st \<Longrightarrow> one_open st'" using takeOrder_tx_sound[OF *(1) p] by blast+
qed

interpretation place_order: opener "placeOrder getRateFor rid table ls now" for getRateFor rid table ls now
proof unfold_locales
  fix st r st' assume *: "sound st" "placeOrder getRateFor rid table ls now st = Inr (r, st')"
  obtain prep where p: "placeOrder_tx rid table ls now prep st = Inr (r, st')"
    using *(2) by (auto simp: placeOrder_def result_simps)
  show "sound st'" "grows st st'" "one_open st \<Longrightarrow> one_open st'" using placeOrder_tx_sound[OF *(1) p] by blast+
qed

section \<open>What opening and settling promise\<close>

lemma open_table_is_refused:
  assumes "openBill rid table st = Some b" "table_active rid table st"
    "snapshotFx getRateFor (fst (read_menu rid st)) amount = Inr fx"
  shows "createBill getRateFor rid user table amount st = Inl (Bill_E (Open_Bill_Exists (Some (bill_id b))))"
  using assms by (simp add: createBill_def createBill_tx_def Let_def)

lemma open_table_is_refused_witness:
  "createBill (\<lambda>c. None) 7 8 3 500 dinner_store = Inl (Bill_E (Open_Bill_Exists (Some (bill_id dinner_bill))))"
proof -
  have o: "openBill 7 3 dinner_store = Some dinner_bill" "table_active 7 3 dinner_store" by code_simp+
  have "isr (snapshotFx (\<lambda>c. None) (fst (read_menu 7 dinner_store)) 500)" by code_simp
  then obtain fx where fx: "snapshotFx (\<lambda>c. None) (fst (read_menu 7 dinner_store)) 500 = Inr fx" by (rule isr_E)
  show ?thesis by (rule open_table_is_refused[OF o fx])
qed

lemma first_orders_race:
  "(case prepare_order (\<lambda>c. None) 7 6 dinner_store of Inl e \<Rightarrow> False | Inr prep \<Rightarrow>
     (case takeOrder_tx 7 8 6 [\<lparr>ol_product = 4, ol_quantity = 1\<rparr>] prep dinner_store of Inl e \<Rightarrow> False | Inr (first, st1) \<Rightarrow>
        to_opened first
        \<and> takeOrder_tx 7 9 6 [\<lparr>ol_product = 4, ol_quantity = 1\<rparr>] prep st1
            = Inl (General (Db_Unique ''bills_one_open_per_table_idx''))
        \<and> createBill_tx 7 (Some 9) 6 500 (op_menu prep) (op_fx prep) st1 = Inl (Bill_E (Open_Bill_Exists (Some (bill_id (to_bill first)))))))"
  by code_simp

lemma settling_books_the_shortfall:
  assumes "sound st" "settleBill rid bid reason user st = Inr ((b', adj), st')"
  shows "\<exists>b. get_bill rid bid st = Some b \<and> bill_state b = BillOpen \<and> bill_state b' = BillClosed
     \<and> amount_paid_ves b' = amount_paid_ves b
     \<and> get_bill rid bid st' = Some b'
     \<and> amount_paid_ves b' + (case adj of None \<Rightarrow> 0 | Some a \<Rightarrow> adj_amount_ves a) = total_due_ves b'
     \<and> (case adj of None \<Rightarrow> adjustments st' = adjustments st
         | Some a \<Rightarrow> adjustments st' = insert_row a (adjustments st) \<and> 0 < adj_amount_ves a \<and> adj_bill a = bid)"
proof -
  obtain b where b: "get_bill rid bid st = Some b" "bill_state b = BillOpen"
    using assms(2) by (auto simp: settleBill_def split: option.splits if_splits)
  let ?short = "total_due_ves b - amount_paid_ves b"
  have chk: "amount_paid_ves b \<le> total_due_ves b"
    using assms(1) get_bill_SomeD[OF b(1)] by (auto simp: sound_def store_inv_def inv_bills_def bill_checks_def)
  obtain st1 where w: "update_bill bid (\<lambda>x. x\<lparr>bill_state := BillClosed\<rparr>) st1 = Inr st'"
    and b': "b' = b\<lparr>bill_state := BillClosed\<rparr>"
    and adj: "adj = (if ?short > 0 then Some \<lparr>adj_restaurant = rid, adj_bill = bid, adj_amount_ves = ?short,
                                  adj_reason = reason, adj_by = user\<rparr> else None)"
    and ins: "(case adj of None \<Rightarrow> st1 = st | Some a \<Rightarrow> st1 = st\<lparr>adjustments := insert_row a (adjustments st)\<rparr>)"
    using assms(2) b by (auto simp: settleBill_def Let_def result_simps split: if_splits)
  have bills1: "bills st1 = bills st" using ins by (auto split: option.splits)
  have adjs: "adjustments st' = adjustments st1" using update_bill_InrD[OF w] by simp
  have "get_bill rid bid st' = map_option (\<lambda>x. if bill_id x = bid then x\<lparr>bill_state := BillClosed\<rparr> else x) (get_bill rid bid st)"
    using update_bill_InrD[OF w] bills1 by (simp add: get_bill_def find_by_update)
  hence "get_bill rid bid st' = Some b'" using b get_bill_SomeD[OF b(1)] b' by simp
  thus ?thesis using b b' chk adj ins adjs by (auto split: if_splits)
qed

lemma settling_books_the_shortfall_witness:
  "\<exists>b' a st'. settleBill 7 1 COMP 8 dinner_store = Inr ((b', Some a), st') \<and> bill_state b' = BillClosed
     \<and> amount_paid_ves b' + adj_amount_ves a = total_due_ves b'"
proof -
  have "(case settleBill 7 1 COMP 8 dinner_store of Inr ((b', Some a), st') \<Rightarrow> True | _ \<Rightarrow> False)" by code_simp
  then obtain b' a st' where s: "settleBill 7 1 COMP 8 dinner_store = Inr ((b', Some a), st')"
    by (auto split: sum.splits option.splits)
  show ?thesis using settling_books_the_shortfall[OF sound_dinner s] s by auto
qed

end
