(* ===== verification/Idempotency.thy ===== *)
theory Idempotency
  imports Settlement
begin

text \<open>
  Idempotency keys: src/services/idempotency.js and the way the money routes use them
  (routes/bills.js POST /:id/payments).  A key is claimed before the work, completed with
  the response after it, released when it fails.  The lemmas show that within the key's
  life a request runs at most once: a retry replays the stored answer and moves nothing.
\<close>

record 'r idem_row =
  ik_restaurant :: nat
  ik_key :: string
  ik_hash :: string
  ik_expires :: int
  ik_response :: "(nat \<times> 'r) option"

type_synonym 'r idem_table = "'r idem_row table"

datatype 'r claim = Claim_Owner | Claim_Replay nat 'r

definition MAX_CLAIM_ATTEMPTS :: nat where "MAX_CLAIM_ATTEMPTS = 2"

definition key_life_ms :: int where "key_life_ms = 24 * 60 * 60 * 1000"

definition names_key :: "nat \<Rightarrow> string \<Rightarrow> 'r idem_row \<Rightarrow> bool" where
  "names_key rid key r \<longleftrightarrow> ik_restaurant r = rid \<and> ik_key r = key"

definition drop_expired :: "nat \<Rightarrow> string \<Rightarrow> int \<Rightarrow> 'r idem_table \<Rightarrow> 'r idem_table" where
  "drop_expired rid key now t = delete_where (\<lambda>r. names_key rid key r \<and> ik_expires r \<le> now) t"

text \<open>\<open>begin\<close>.  Its three statements are not one transaction: \<open>meanwhile n\<close> is what other
  requests do to the table between the insert and the read of attempt \<open>n\<close>.\<close>

function begin_claim ::
  "(nat \<Rightarrow> 'r idem_table \<Rightarrow> 'r idem_table) \<Rightarrow> nat \<Rightarrow> string \<Rightarrow> string \<Rightarrow> int \<Rightarrow> nat \<Rightarrow> 'r idem_table
     \<Rightarrow> (error + 'r claim) \<times> 'r idem_table" where
  "begin_claim meanwhile rid key hash now attempt t =
     (let t1 = drop_expired rid key now t in
      if \<not> list_ex (names_key rid key) t1
      then (Inr Claim_Owner, insert_row \<lparr>ik_restaurant = rid, ik_key = key, ik_hash = hash,
                               ik_expires = now + key_life_ms, ik_response = None\<rparr> t1)
      else
        let t2 = meanwhile attempt t1 in
        case find_by (names_key rid key) t2 of
          None \<Rightarrow>
            if attempt \<ge> MAX_CLAIM_ATTEMPTS then (Inl (General Idempotency_In_Flight), t2)
            else begin_claim meanwhile rid key hash now (attempt + 1) t2
        | Some row \<Rightarrow>
            if ik_hash row \<noteq> hash then (Inl (General Idempotency_Key_Reused), t2)
            else (case ik_response row of
                    Some (status, body) \<Rightarrow> (Inr (Claim_Replay status body), t2)
                  | None \<Rightarrow> (Inl (General Idempotency_In_Flight), t2)))"
  by pat_completeness auto
termination
  by (relation "measure (\<lambda>(meanwhile, rid, key, hash, now, attempt, t). MAX_CLAIM_ATTEMPTS - attempt)") auto

declare begin_claim.simps [simp del]

definition complete_claim :: "nat \<Rightarrow> string \<Rightarrow> nat \<Rightarrow> 'r \<Rightarrow> 'r idem_table \<Rightarrow> 'r idem_table" where
  "complete_claim rid key status body t =
     update_where (names_key rid key) (\<lambda>r. r\<lparr>ik_response := Some (status, body)\<rparr>) t"

definition abort_claim :: "nat \<Rightarrow> string \<Rightarrow> 'r idem_table \<Rightarrow> 'r idem_table" where
  "abort_claim rid key t = delete_where (\<lambda>r. names_key rid key r \<and> ik_response r = None) t"

definition purgeExpired :: "int \<Rightarrow> 'r idem_table \<Rightarrow> 'r idem_table" where
  "purgeExpired now t = delete_where (\<lambda>r. ik_expires r \<le> now) t"

text \<open>The route's shape: claim, replay or work, then complete or abort.\<close>

definition undisturbed :: "nat \<Rightarrow> 'r idem_table \<Rightarrow> 'r idem_table" where
  "undisturbed n t = t"

definition once :: "nat \<Rightarrow> string \<Rightarrow> string \<Rightarrow> int \<Rightarrow> 'r tx \<Rightarrow> 'r idem_table \<times> store \<Rightarrow> (error + 'r) \<times> 'r idem_table \<times> store" where
  "once rid key hash now work w =
     (case begin_claim undisturbed rid key hash now 1 (fst w) of
        (Inl e, t) \<Rightarrow> (Inl e, t, snd w)
      | (Inr (Claim_Replay status body), t) \<Rightarrow> (Inr body, t, snd w)
      | (Inr Claim_Owner, t) \<Rightarrow>
          (case work (snd w) of
             Inl e \<Rightarrow> (Inl e, abort_claim rid key t, snd w)
           | Inr (r, st) \<Rightarrow> (Inr r, complete_claim rid key 200 r t, st)))"

definition payBill :: "nat \<Rightarrow> string \<Rightarrow> string \<Rightarrow> int \<Rightarrow> till_payment
     \<Rightarrow> receipt idem_table \<times> store \<Rightarrow> (error + receipt) \<times> receipt idem_table \<times> store" where
  "payBill rid key hash now r w = once rid key hash now (processSplitPayment rid (r\<lparr>tp_key := Some key\<rparr>)) w"

section \<open>The life of a key\<close>

lemma names_key_update [simp]: "names_key rid key (r\<lparr>ik_response := x\<rparr>) = names_key rid key r"
  by (simp add: names_key_def)

lemma begin_claim_cases:
  "begin_claim undisturbed rid key hash now n t =
     (let t1 = drop_expired rid key now t in
      case find_by (names_key rid key) t1 of
        None \<Rightarrow> (Inr Claim_Owner, insert_row \<lparr>ik_restaurant = rid, ik_key = key, ik_hash = hash,
                               ik_expires = now + key_life_ms, ik_response = None\<rparr> t1)
      | Some row \<Rightarrow>
          if ik_hash row \<noteq> hash then (Inl (General Idempotency_Key_Reused), t1)
          else (case ik_response row of
                    Some (status, body) \<Rightarrow> (Inr (Claim_Replay status body), t1)
                  | None \<Rightarrow> (Inl (General Idempotency_In_Flight), t1)))"
proof -
  let ?t1 = "drop_expired rid key now t"
  show ?thesis
  proof (cases "find_by (names_key rid key) ?t1")
    case None
    hence "\<not> list_ex (names_key rid key) ?t1" by (simp add: find_by_None list_ex_iff)
    thus ?thesis using None by (subst begin_claim.simps) (simp add: Let_def)
  next
    case (Some row)
    hence "list_ex (names_key rid key) ?t1" by (auto simp: list_ex_iff dest: find_by_SomeD)
    thus ?thesis using Some by (subst begin_claim.simps) (simp add: Let_def undisturbed_def)
  qed
qed

lemma find_update_key:
  "find_by (names_key rid key) (complete_claim rid key status body t)
     = map_option (\<lambda>r. r\<lparr>ik_response := Some (status, body)\<rparr>) (find_by (names_key rid key) t)"
  by (induction t) (auto simp: complete_claim_def update_where_def find_by_def)

lemma find_drop_live:
  "find_by (names_key rid key) t = Some r \<Longrightarrow> now < ik_expires r \<Longrightarrow>
     find_by (names_key rid key) (drop_expired rid key now t) = Some r"
  by (induction t) (auto simp: drop_expired_def delete_where_def find_by_def split: if_splits)

lemma find_abort:
  "(\<forall>r \<in> set t. names_key rid key r \<longrightarrow> ik_response r = None) \<Longrightarrow>
     find_by (names_key rid key) (abort_claim rid key t) = None"
  by (auto simp: abort_claim_def delete_where_def find_by_None)

text \<open>After work ran under a key: the row carries its answer.\<close>

lemma once_InrD:
  assumes "once rid key hash now work w = (Inr r, t', st')" "find_by (names_key rid key) (drop_expired rid key now (fst w)) = None"
  shows "work (snd w) = Inr (r, st')"
    "\<exists>row. find_by (names_key rid key) t' = Some row \<and> ik_hash row = hash \<and> ik_expires row = now + key_life_ms
       \<and> ik_response row = Some (200, r)"
proof -
  let ?row = "\<lparr>ik_restaurant = rid, ik_key = key, ik_hash = hash, ik_expires = now + key_life_ms, ik_response = None\<rparr>"
  let ?t = "insert_row ?row (drop_expired rid key now (fst w))"
  have b: "begin_claim undisturbed rid key hash now 1 (fst w) = (Inr Claim_Owner, ?t)"
    using assms(2) by (simp add: begin_claim_cases)
  have w: "work (snd w) = Inr (r, st') \<and> t' = complete_claim rid key 200 r ?t"
    using assms(1) unfolding once_def b by (auto split: sum.splits)
  thus "work (snd w) = Inr (r, st')" by simp
  have "find_by (names_key rid key) ?t = Some ?row"
    using assms(2) by (simp add: find_by_insert) (simp add: names_key_def)
  thus "\<exists>row. find_by (names_key rid key) t' = Some row \<and> ik_hash row = hash \<and> ik_expires row = now + key_life_ms
       \<and> ik_response row = Some (200, r)"
    using w by (simp add: find_update_key)
qed

lemma once_replays:
  assumes "find_by (names_key rid key) (fst w) = Some row" "ik_response row = Some (status, r)" "later < ik_expires row"
  shows "ik_hash row = hash \<Longrightarrow> once rid key hash later work w = (Inr r, drop_expired rid key later (fst w), snd w)"
    "ik_hash row \<noteq> hash \<Longrightarrow> once rid key hash later work w
        = (Inl (General Idempotency_Key_Reused), drop_expired rid key later (fst w), snd w)"
  using assms find_drop_live[OF assms(1,3)] by (simp_all add: once_def begin_claim_cases)

section \<open>What a key promises\<close>

text \<open>C15: After a payment request under a fresh idempotency key succeeded, repeating the request
  with the same hash before the key expires returns the first receipt and leaves the
  database alone; with another hash it is refused.\<close>

lemma retry_charges_once:
  assumes "payBill rid key hash now r (t, st) = (Inr rc, t', st')"
    and "find_by (names_key rid key) (drop_expired rid key now t) = None" "later < now + key_life_ms"
  shows "(\<exists>t''. payBill rid key hash later r2 (t', st') = (Inr rc, t'', st'))
     \<and> (other \<noteq> hash \<longrightarrow> (\<exists>t''. payBill rid key other later r2 (t', st') = (Inl (General Idempotency_Key_Reused), t'', st')))"
proof -
  obtain row where row: "find_by (names_key rid key) t' = Some row" "ik_hash row = hash" "ik_expires row = now + key_life_ms"
    "ik_response row = Some (200, rc)"
    using once_InrD(2)[OF assms(1)[unfolded payBill_def]] assms(2) by auto
  have live: "later < ik_expires row" using row(3) assms(3) by simp
  note R = once_replays[of rid key "(t', st')", simplified, OF row(1,4) live]
  show ?thesis unfolding payBill_def using R row(2) by auto
qed

definition till_cash :: till_payment where
  "till_cash = \<lparr>tp_bill = 1, tp_amount = JBigInt 400, tp_key = None, tp_method = CASH, tp_payer_type = STAFF,
     tp_payer_id = Some 8, tp_share = None, tp_tip = JUndefined\<rparr>"

lemma retry_charges_once_witness:
  "\<exists>rc t' st' t''. payBill 7 ''k'' ''h'' 0 till_cash ([], dinner_store) = (Inr rc, t', st')
     \<and> payBill 7 ''k'' ''h'' 1000 till_cash (t', st') = (Inr rc, t'', st') \<and> map amount_paid_ves (bills st') = [400]"
proof -
  have c: "isr (fst (payBill 7 ''k'' ''h'' 0 till_cash ([], dinner_store)))"
    "map amount_paid_ves (bills (snd (snd (payBill 7 ''k'' ''h'' 0 till_cash ([], dinner_store))))) = [400]"
    by code_simp+
  obtain x t' st' where x: "payBill 7 ''k'' ''h'' 0 till_cash ([], dinner_store) = (x, t', st')" by (metis prod.collapse)
  obtain rc where p: "payBill 7 ''k'' ''h'' 0 till_cash ([], dinner_store) = (Inr rc, t', st')"
    using c(1) x by (auto elim!: isr_E)
  have n: "find_by (names_key 7 ''k'') (drop_expired 7 ''k'' 0 ([] :: receipt idem_table)) = None" "(1000 :: int) < 0 + key_life_ms"
    by code_simp+
  show ?thesis using retry_charges_once[OF p n] p c(2) by auto
qed

lemma owner_row:
  "begin_claim meanwhile rid key hash now n t = (Inr Claim_Owner, t') \<Longrightarrow>
     \<exists>row. find_by (names_key rid key) t' = Some row \<and> ik_hash row = hash \<and> ik_response row = None
        \<and> ik_expires row = now + key_life_ms"
proof (induction meanwhile rid key hash now n t rule: begin_claim.induct)
  case (1 meanwhile rid key hash now n t)
  let ?t1 = "drop_expired rid key now t"
  show ?case
  proof (cases "list_ex (names_key rid key) ?t1")
    case False
    hence n: "find_by (names_key rid key) ?t1 = None" by (auto simp: find_by_None list_ex_iff)
    let ?row = "\<lparr>ik_restaurant = rid, ik_key = key, ik_hash = hash, ik_expires = now + key_life_ms, ik_response = None\<rparr>"
    have "t' = insert_row ?row ?t1" using 1(2) False by (subst (asm) begin_claim.simps) (simp add: Let_def)
    moreover have "names_key rid key ?row" by (simp add: names_key_def)
    ultimately show ?thesis using n by (simp add: find_by_insert)
  next
    case True
    let ?t2 = "meanwhile n ?t1"
    have "find_by (names_key rid key) ?t2 = None \<and> \<not> n \<ge> MAX_CLAIM_ATTEMPTS
        \<and> begin_claim meanwhile rid key hash now (n + 1) ?t2 = (Inr Claim_Owner, t')"
      using 1(2) True by (subst (asm) begin_claim.simps) (auto simp: Let_def split: option.splits if_splits)
    thus ?thesis using 1(1)[OF refl _ refl] True by auto
  qed
qed

lemma one_owner_at_a_time:
  assumes "begin_claim meanwhile rid key hash now n t = (Inr Claim_Owner, t')" "later < now + key_life_ms"
  shows "fst (begin_claim undisturbed rid key hash2 later m t')
       = Inl (General (if hash2 = hash then Idempotency_In_Flight else Idempotency_Key_Reused))"
proof -
  obtain row where r: "find_by (names_key rid key) t' = Some row" "ik_hash row = hash" "ik_response row = None"
    "ik_expires row = now + key_life_ms"
    using owner_row[OF assms(1)] by blast
  have "find_by (names_key rid key) (drop_expired rid key later t') = Some row"
    by (rule find_drop_live) (use r assms(2) in simp_all)
  thus ?thesis using r by (auto simp: begin_claim_cases Let_def)
qed

lemma one_owner_at_a_time_witness:
  "fst (begin_claim undisturbed 7 ''k'' ''h'' 10 1 (snd (begin_claim (undisturbed :: nat \<Rightarrow> receipt idem_table \<Rightarrow> receipt idem_table) 7 ''k'' ''h'' 0 1 [])))
     = Inl (General Idempotency_In_Flight)"
proof -
  let ?b = "begin_claim (undisturbed :: nat \<Rightarrow> receipt idem_table \<Rightarrow> receipt idem_table) 7 ''k'' ''h'' 0 1 []"
  have "?b = (Inr Claim_Owner, snd ?b)" by (simp add: begin_claim_cases drop_expired_def delete_where_def find_by_def)
  from one_owner_at_a_time[OF this, of 10] show ?thesis by (simp add: key_life_ms_def)
qed

lemma failure_releases_the_key:
  assumes "payBill rid key hash now r (t, st) = (Inl e, t', st')"
    and "find_by (names_key rid key) (drop_expired rid key now t) = None"
  shows "st' = st \<and> find_by (names_key rid key) t' = None"
proof -
  let ?row = "\<lparr>ik_restaurant = rid, ik_key = key, ik_hash = hash, ik_expires = now + key_life_ms, ik_response = None\<rparr>"
  let ?t = "insert_row ?row (drop_expired rid key now t)"
  have b: "begin_claim undisturbed rid key hash now 1 t = (Inr Claim_Owner, ?t)"
    using assms(2) by (simp add: begin_claim_cases)
  have w: "st' = st \<and> t' = abort_claim rid key ?t"
    using assms(1) unfolding payBill_def once_def fst_conv b by (auto split: sum.splits)
  have "find_by (names_key rid key) (abort_claim rid key ?t) = None"
    by (rule find_abort) (use assms(2) in \<open>auto simp: find_by_None\<close>)
  thus ?thesis using w by simp
qed

definition till_too_much :: till_payment where
  "till_too_much = till_cash\<lparr>tp_amount := JBigInt 4000\<rparr>"

lemma failure_releases_the_key_witness:
  "\<exists>t'. payBill 7 ''k'' ''h'' 0 till_too_much ([], dinner_store)
        = (Inl (Pay_E (Payment_Exceeds_Balance 1000)), t', dinner_store)
     \<and> find_by (names_key 7 ''k'') t' = None"
proof -
  have "fst (payBill 7 ''k'' ''h'' 0 till_too_much ([], dinner_store)) = Inl (Pay_E (Payment_Exceeds_Balance 1000))"
    by code_simp
  then obtain t' st' where p: "payBill 7 ''k'' ''h'' 0 till_too_much ([], dinner_store)
        = (Inl (Pay_E (Payment_Exceeds_Balance 1000)), t', st')" by (metis prod.collapse)
  have n: "find_by (names_key 7 ''k'') (drop_expired 7 ''k'' 0 ([] :: receipt idem_table)) = None" by code_simp
  show ?thesis using failure_releases_the_key[OF p n] p by auto
qed

end
