(* ===== verification/Fiscal_Allocation.thy ===== *)
theory Fiscal_Allocation
  imports Bill_Items
begin

text \<open>
  Dividing a bill into fiscal invoices: src/services/fiscalAllocation.js and \<open>toVes\<close> of
  src/services/fiscalInvoicing.js.  A bill carries one bag per tax rate (its base and its
  VAT) and one for the service; each payment takes a piece of every bag, always out of
  what is left.  The lemmas show that an invoice declares exactly what was paid, never
  takes more than a bag holds, that the capped allocation always converges within its
  guard, and that the invoices of a bill paid in full declare exactly the bill.
\<close>

section \<open>Bags\<close>

record bag =
  bg_vat_bps :: int
  bg_base :: int
  bg_vat :: int

record declarable =
  dc_groups :: "bag list"
  dc_service :: int

definition bag_total :: "bag \<Rightarrow> int" where
  "bag_total g = bg_base g + bg_vat g"

definition outstandingOf :: "declarable \<Rightarrow> int" where
  "outstandingOf s = sum_list (map bag_total (dc_groups s)) + dc_service s"

section \<open>The capped allocation\<close>

text \<open>One round: hand each active bag its part, clipped to its room; what did not fit
  overflows, and the bags with room left stay active.\<close>

fun hand_round :: "int list \<Rightarrow> nat list \<Rightarrow> int list \<Rightarrow> int list \<Rightarrow> int list \<times> int \<times> nat list" where
  "hand_round caps (i # is) (w # ws) parts =
     (let room = caps ! i - parts ! i;
          give = (if w > room then room else w);
          parts' = parts[i := parts ! i + give]
      in case hand_round caps is ws parts' of
           (parts'', overflow, next) \<Rightarrow>
             (parts'', (w - give) + overflow, if caps ! i - parts' ! i > 0 then i # next else next))"
| "hand_round caps is ws parts = (parts, 0, [])"

text \<open>Once the weights reach no bag with room, the bags with room share by their room.\<close>

definition pick :: "int list \<Rightarrow> int list \<Rightarrow> int list \<Rightarrow> nat list \<Rightarrow> nat list \<times> int list" where
  "pick caps weights parts active =
     (if active = []
      then (filter (\<lambda>i. caps ! i - parts ! i > 0) [0..<length caps],
            map (\<lambda>i. caps ! i - parts ! i) [0..<length caps])
      else (active, weights))"

function capped_loop ::
  "int list \<Rightarrow> nat \<Rightarrow> int list \<Rightarrow> int list \<Rightarrow> int \<Rightarrow> nat list \<Rightarrow> error + int list" where
  "capped_loop caps guard weights parts remaining active =
     (if remaining \<le> 0 then Inr parts
      else if guard + 1 > length caps + 2 then Inl (General Plain_Error)
      else
        let (active', weights') = pick caps weights parts active
        in if active' = [] then Inl (General Plain_Error)
           else
             (case allocate remaining (map (\<lambda>i. weights' ! i) active') of
                Inl e \<Rightarrow> Inl e
              | Inr allocated \<Rightarrow>
                  (case hand_round caps active' allocated parts of
                     (parts', overflow, next) \<Rightarrow>
                       capped_loop caps (guard + 1) weights' parts' overflow next)))"
  by pat_completeness auto
termination
  by (relation "measure (\<lambda>(caps, guard, weights, parts, remaining, active). length caps + 3 - guard)") auto

declare capped_loop.simps [simp del]

definition allocateCapped :: "int \<Rightarrow> int list \<Rightarrow> int list \<Rightarrow> error + int list" where
  "allocateCapped amount ws caps =
     capped_loop caps 0 ws (replicate (length caps) 0) amount
       (filter (\<lambda>i. ws ! i > 0 \<and> caps ! i > 0) [0..<length caps])"

section \<open>One payment\<close>

record invoice_split =
  iv_groups :: "bag list"
  iv_service :: int
  iv_total :: int

definition split_bag :: "bag \<Rightarrow> int \<Rightarrow> error + bag" where
  "split_bag g piece =
     (if piece > 0 \<and> bag_total g > 0 then
        (if bg_base g > 0 \<and> bg_vat g > 0
         then and_then (allocate piece [bg_base g, bg_vat g]) (\<lambda>ps.
                Inr \<lparr>bg_vat_bps = bg_vat_bps g, bg_base = ps ! 0, bg_vat = ps ! 1\<rparr>)
         else if bg_vat g > 0 then Inr \<lparr>bg_vat_bps = bg_vat_bps g, bg_base = 0, bg_vat = piece\<rparr>
         else Inr \<lparr>bg_vat_bps = bg_vat_bps g, bg_base = piece, bg_vat = 0\<rparr>)
      else Inr \<lparr>bg_vat_bps = bg_vat_bps g, bg_base = 0, bg_vat = 0\<rparr>)"

definition take_from :: "bag \<Rightarrow> bag \<Rightarrow> bag" where
  "take_from g piece = \<lparr>bg_vat_bps = bg_vat_bps g, bg_base = bg_base g - bg_base piece, bg_vat = bg_vat g - bg_vat piece\<rparr>"

definition weight_at :: "int list \<Rightarrow> nat \<Rightarrow> int" where
  "weight_at ws i = (if i < length ws then ws ! i else 0)"

definition allocatePayment :: "declarable \<Rightarrow> int \<Rightarrow> int list option \<Rightarrow> error + invoice_split \<times> declarable" where
  "allocatePayment state amount composition =
     (if amount < 0 \<or> amount > outstandingOf state then Inl (General Plain_Error)
      else if amount = 0
      then Inr (\<lparr>iv_groups = map (\<lambda>g. \<lparr>bg_vat_bps = bg_vat_bps g, bg_base = 0, bg_vat = 0\<rparr>) (dc_groups state),
                 iv_service = 0, iv_total = 0\<rparr>, state)
      else
        let buckets = map bag_total (dc_groups state) @ [dc_service state];
            weights = (case composition of None \<Rightarrow> buckets
                       | Some ws \<Rightarrow> map (weight_at ws) [0..<length buckets])
        in and_then (allocateCapped amount weights buckets) (\<lambda>parts.
           and_then (map_ok (\<lambda>(g, piece). split_bag g piece) (zip (dc_groups state) parts)) (\<lambda>groups.
           let service = parts ! (length buckets - 1)
           in Inr (\<lparr>iv_groups = groups, iv_service = service, iv_total = amount\<rparr>,
                   \<lparr>dc_groups = map (\<lambda>(g, piece). take_from g piece) (zip (dc_groups state) groups),
                    dc_service = dc_service state - service\<rparr>))))"

section \<open>The state of a bill\<close>

fun add_base :: "int \<Rightarrow> int \<Rightarrow> (int \<times> int) list \<Rightarrow> (int \<times> int) list" where
  "add_base rate base [] = [(rate, base)]"
| "add_base rate base ((r, b) # rest) =
     (if r = rate then (r, b + base) # rest else (r, b) # add_base rate base rest)"

definition stateFromLines :: "bill_item list \<Rightarrow> int \<Rightarrow> error + declarable" where
  "stateFromLines ls service =
     (let by_rate = fold (\<lambda>i. add_base (line_vat i) (item_subtotal i)) ls [] in
      and_then (map_ok (\<lambda>(rate, base). and_then (applyBps (JBigInt base) (JInt rate)) (\<lambda>vat.
                  Inr \<lparr>bg_vat_bps = rate, bg_base = base, bg_vat = vat\<rparr>)) (sort_key fst by_rate)) (\<lambda>groups.
      Inr \<lparr>dc_groups = groups, dc_service = service\<rparr>))"

fun pair_up :: "bag list \<Rightarrow> int list \<Rightarrow> bag list" where
  "pair_up (g # gs) (b # v # ps) = \<lparr>bg_vat_bps = bg_vat_bps g, bg_base = b, bg_vat = v\<rparr> # pair_up gs ps"
| "pair_up gs ps = []"

definition toVes :: "declarable \<Rightarrow> int \<Rightarrow> error + declarable" where
  "toVes state totalVes =
     (let buckets = concat (map (\<lambda>g. [bg_base g, bg_vat g]) (dc_groups state)) @ [dc_service state] in
      if sum_list buckets = 0 then Inr state
      else
        let positive = contributing buckets in
        and_then (allocate totalVes (map (\<lambda>i. buckets ! i) positive)) (\<lambda>qs.
        let parts = scatter (length buckets) positive qs
        in Inr \<lparr>dc_groups = pair_up (dc_groups state) (butlast parts), dc_service = last parts\<rparr>))"

section \<open>A round\<close>

lemma sum_list_upd: "i < length xs \<Longrightarrow> sum_list (xs[i := x]) = sum_list xs + x - (xs ! i :: int)"
  by (induction xs arbitrary: i) (auto split: nat.split)

definition fits :: "int list \<Rightarrow> int list \<Rightarrow> bool" where
  "fits caps parts \<longleftrightarrow> length parts = length caps \<and> (\<forall>i < length caps. 0 \<le> parts ! i \<and> parts ! i \<le> caps ! i)"

definition room_left :: "int list \<Rightarrow> int list \<Rightarrow> nat set" where
  "room_left caps parts = {i. i < length caps \<and> parts ! i < caps ! i}"

lemma finite_room [simp]: "finite (room_left caps parts)"
  by (simp add: room_left_def)

lemma hand_round_facts:
  assumes "hand_round caps is ws parts = (parts', overflow, next)"
    and "length ws = length is" "distinct is" "\<forall>i \<in> set is. i < length caps" "\<forall>w \<in> set ws. 0 \<le> w" "fits caps parts"
  shows "fits caps parts'" "sum_list parts' + overflow = sum_list parts + sum_list ws" "0 \<le> overflow"
    "\<forall>j. j \<notin> set is \<longrightarrow> parts' ! j = parts ! j" "\<forall>i < length caps. parts ! i \<le> parts' ! i"
    "next = filter (\<lambda>i. parts' ! i < caps ! i) is"
    "0 < overflow \<Longrightarrow> \<exists>i \<in> set is. parts' ! i = caps ! i"
proof -
  have "fits caps parts' \<and> sum_list parts' + overflow = sum_list parts + sum_list ws \<and> 0 \<le> overflow
    \<and> (\<forall>j. j \<notin> set is \<longrightarrow> parts' ! j = parts ! j) \<and> (\<forall>i < length caps. parts ! i \<le> parts' ! i)
    \<and> next = filter (\<lambda>i. parts' ! i < caps ! i) is
    \<and> (0 < overflow \<longrightarrow> (\<exists>i \<in> set is. parts' ! i = caps ! i))"
    using assms
  proof (induction caps "is" ws parts arbitrary: parts' overflow "next" rule: hand_round.induct)
    case (1 caps i "is" w ws parts)
    let ?room = "caps ! i - parts ! i"
    let ?give = "if w > ?room then ?room else w"
    let ?p = "parts[i := parts ! i + ?give]"
    obtain ov nx where h: "hand_round caps is ws ?p = (parts', ov, nx)"
      and ov: "overflow = (w - ?give) + ov" and nx: "next = (if ?p ! i < caps ! i then i # nx else nx)"
      using "1.prems"(1) by (auto simp: Let_def split: prod.splits)
    have il: "i < length caps" "i < length parts" and w0: "0 \<le> w" and lp: "length parts = length caps"
      using "1.prems" by (auto simp: fits_def)
    have gv: "0 \<le> ?give" "?give \<le> ?room" using "1.prems"(6) w0 il by (auto simp: fits_def)
    have fit: "fits caps ?p"
    proof -
      have "0 \<le> ?p ! j \<and> ?p ! j \<le> caps ! j" if "j < length caps" for j
        using "1.prems"(6) gv that il by (cases "j = i") (auto simp: fits_def nth_list_update)
      thus ?thesis using lp by (simp add: fits_def)
    qed
    note IH = "1.IH"[OF refl refl refl h _ _ _ _ fit]
    have ih: "fits caps parts' \<and> sum_list parts' + ov = sum_list ?p + sum_list ws \<and> 0 \<le> ov
        \<and> (\<forall>j. j \<notin> set is \<longrightarrow> parts' ! j = ?p ! j) \<and> (\<forall>j < length caps. ?p ! j \<le> parts' ! j)
        \<and> nx = filter (\<lambda>i. parts' ! i < caps ! i) is \<and> (0 < ov \<longrightarrow> (\<exists>i \<in> set is. parts' ! i = caps ! i))"
      by (rule IH) (use "1.prems" in auto)
    have pi: "parts' ! i = parts ! i + ?give" using ih "1.prems"(3) il by simp
    have sp: "sum_list ?p = sum_list parts + ?give" using sum_list_upd[OF il(2), of "parts ! i + ?give"] by linarith
    have up: "parts ! j \<le> parts' ! j" if "j < length caps" for j
    proof -
      have "?p ! j \<le> parts' ! j" using ih that by blast
      thus ?thesis using gv that il lp by (cases "j = i") auto
    qed
    have same: "parts' ! j = parts ! j" if "j \<notin> set (i # is)" for j using ih that by auto
    have nxt: "next = filter (\<lambda>i. parts' ! i < caps ! i) (i # is)"
      using ih nx pi il by simp
    have full: "\<exists>k \<in> set (i # is). parts' ! k = caps ! k" if "0 < overflow"
    proof (cases "0 < ov")
      case True
      thus ?thesis using ih by auto
    next
      case False
      hence "?give < w" using that ov by linarith
      hence "?give = ?room" by (simp split: if_splits)
      thus ?thesis using pi by auto
    qed
    have s: "sum_list parts' + overflow = sum_list parts + sum_list (w # ws)"
    proof -
      have "sum_list parts' + ov = sum_list ?p + sum_list ws" using ih by blast
      thus ?thesis using sp ov by simp
    qed
    have "w - ?give \<ge> 0" by auto
    hence o: "0 \<le> overflow" using ih ov by linarith
    show ?case using ih s o up same nxt full by blast
  qed (auto simp: fits_def)
  thus "fits caps parts'" "sum_list parts' + overflow = sum_list parts + sum_list ws" "0 \<le> overflow"
    "\<forall>j. j \<notin> set is \<longrightarrow> parts' ! j = parts ! j" "\<forall>i < length caps. parts ! i \<le> parts' ! i"
    "next = filter (\<lambda>i. parts' ! i < caps ! i) is"
    "0 < overflow \<Longrightarrow> \<exists>i \<in> set is. parts' ! i = caps ! i"
    by blast+
qed

section \<open>The loop converges\<close>

lemma sum_list_eq_nth:
  "length xs = length ys \<Longrightarrow> (\<And>i. i < length xs \<Longrightarrow> xs ! i = ys ! i) \<Longrightarrow> sum_list xs = (sum_list ys :: int)"
  by (metis nth_equalityI)

lemma room_exists:
  assumes "fits caps parts" "sum_list parts < sum_list caps"
  shows "room_left caps parts \<noteq> {}"
proof
  assume "room_left caps parts = {}"
  hence full: "\<And>i. i < length caps \<Longrightarrow> caps ! i \<le> parts ! i" by (force simp: room_left_def)
  have "sum_list parts = sum_list caps"
    by (rule sum_list_eq_nth) (use assms(1) full in \<open>force simp: fits_def\<close>)+
  thus False using assms(2) by simp
qed

lemma room_shrinks:
  assumes "fits caps parts" "\<forall>i < length caps. parts ! i \<le> parts' ! i" "i < length caps"
    and "parts ! i < caps ! i" "parts' ! i = caps ! i"
  shows "card (room_left caps parts') < card (room_left caps parts)"
proof (rule psubset_card_mono)
  have "room_left caps parts' \<subseteq> room_left caps parts" using assms(2) by (auto simp: room_left_def intro: order.strict_trans1)
  moreover have "i \<in> room_left caps parts" "i \<notin> room_left caps parts'" using assms(3-5) by (auto simp: room_left_def)
  ultimately show "room_left caps parts' \<subset> room_left caps parts" by blast
qed simp

text \<open>What holds at the head of the loop: the parts fit, the amount is conserved, every
  active bag has room and a positive weight, and each round so far has filled a bag.\<close>

definition loop_inv :: "int \<Rightarrow> int list \<Rightarrow> nat \<Rightarrow> int list \<Rightarrow> int list \<Rightarrow> int \<Rightarrow> nat list \<Rightarrow> bool" where
  "loop_inv amount caps guard weights parts remaining active \<longleftrightarrow>
     fits caps parts \<and> 0 \<le> remaining \<and> sum_list parts + remaining = amount \<and> amount \<le> sum_list caps
     \<and> distinct active \<and> (\<forall>i \<in> set active. i < length caps \<and> parts ! i < caps ! i \<and> 0 < weights ! i)
     \<and> guard + card (room_left caps parts) \<le> length caps"

lemma capped_loop_result:
  assumes "loop_inv amount caps guard weights parts remaining active"
  shows "\<exists>ps. capped_loop caps guard weights parts remaining active = Inr ps \<and> fits caps ps \<and> sum_list ps = amount"
  using assms
proof (induction caps guard weights parts remaining active rule: capped_loop.induct)
  case (1 caps guard weights parts remaining active)
  note inv = "1.prems"[unfolded loop_inv_def]
  show ?case
  proof (cases "remaining \<le> 0")
    case True
    thus ?thesis using inv by (subst capped_loop.simps) simp
  next
    case pos: False
    have ne: "room_left caps parts \<noteq> {}" by (rule room_exists) (use inv pos in linarith)+
    have "0 < card (room_left caps parts)" using ne by (simp add: card_gt_0_iff)
    hence g: "\<not> guard + 1 > length caps + 2" using inv by linarith
    obtain act wts where p: "pick caps weights parts active = (act, wts)" by force
    have a: "act \<noteq> []" "distinct act" "\<forall>i \<in> set act. i < length caps \<and> parts ! i < caps ! i \<and> 0 < wts ! i"
      using p inv ne by (auto simp: pick_def room_left_def filter_empty_conv split: if_splits)
    obtain al where al: "allocate remaining (map (\<lambda>i. wts ! i) act) = Inr al"
      using allocate_total[of remaining "map (\<lambda>i. wts ! i) act"] a pos by auto
    obtain parts' ov nx where h: "hand_round caps act al parts = (parts', ov, nx)" by (metis surj_pair)
    have len: "length al = length act" using allocate_length[OF al] by simp
    have nn: "\<forall>w \<in> set al. 0 \<le> w" using allocate_nonneg[OF al] by blast
    have lt: "\<forall>i \<in> set act. i < length caps" using a(3) by blast
    have fit: "fits caps parts" using inv by blast
    note H = hand_round_facts[OF h len a(2) lt nn fit]
    have unfold: "capped_loop caps guard weights parts remaining active = capped_loop caps (guard + 1) wts parts' ov nx"
      using pos g a(1) al h by (subst capped_loop.simps) (simp add: p)
    show ?thesis
    proof (cases "ov \<le> 0")
      case True
      hence "ov = 0" using H(3) by simp
      hence "sum_list parts' = amount" using H(2) allocate_sum[OF al] inv by linarith
      moreover have "capped_loop caps (guard + 1) wts parts' ov nx = Inr parts'"
        using True by (subst capped_loop.simps) simp
      ultimately show ?thesis using unfold H(1) by simp
    next
      case False
      then obtain i where i: "i \<in> set act" "parts' ! i = caps ! i" using H(7) by auto
      have "card (room_left caps parts') < card (room_left caps parts)"
        by (rule room_shrinks[OF fit H(5) _ _ i(2)]) (use a(3) i(1) in auto)
      hence "guard + 1 + card (room_left caps parts') \<le> length caps" using inv by linarith
      moreover have "sum_list parts' + ov = amount" using H(2) allocate_sum[OF al] inv by linarith
      moreover have "\<forall>i \<in> set nx. i < length caps \<and> parts' ! i < caps ! i \<and> 0 < wts ! i" "distinct nx"
        using H(6) a by auto
      ultimately have "loop_inv amount caps (guard + 1) wts parts' ov nx"
        using H(1,3) inv unfolding loop_inv_def by blast
      hence "\<exists>ps. capped_loop caps (guard + 1) wts parts' ov nx = Inr ps \<and> fits caps ps \<and> sum_list ps = amount"
        using "1.IH"[OF pos g p[symmetric] refl a(1) al h[symmetric]] by simp
      thus ?thesis using unfold by simp
    qed
  qed
qed

lemma allocateCapped_result:
  assumes "0 \<le> amount" "amount \<le> sum_list caps" "\<And>c. c \<in> set caps \<Longrightarrow> 0 \<le> c" "length ws = length caps"
  shows "\<exists>ps. allocateCapped amount ws caps = Inr ps \<and> fits caps ps \<and> sum_list ps = amount"
proof -
  have "card (room_left caps (replicate (length caps) 0)) \<le> card {..<length caps}"
    by (rule card_mono) (auto simp: room_left_def)
  hence "loop_inv amount caps 0 ws (replicate (length caps) 0) amount
       (filter (\<lambda>i. ws ! i > 0 \<and> caps ! i > 0) [0..<length caps])"
    using assms by (auto simp: loop_inv_def fits_def sum_list_replicate)
  thus ?thesis unfolding allocateCapped_def by (rule capped_loop_result)
qed

section \<open>A payment's invoice\<close>

text \<open>Proportional parts of at most the whole never exceed their weights.\<close>

lemma allocate_part_le:
  assumes "allocate tot ws = Inr ps" "tot \<le> sum_list ws" "m < length ws"
  shows "ps ! m \<le> ws ! m"
proof -
  note D = allocate_InrD[OF assms(1)]
  have len: "length ps = length ws" by (rule allocate_length[OF assms(1)])
  have wpos: "0 < ws ! m" using D(3) assms(3) by simp
  show ?thesis
  proof (cases "tot < sum_list ws")
    case True
    have "sum_list ws * (ps ! m - 1) \<le> tot * ws ! m" using allocate_quota[OF assms(1,3)] by simp
    also have "tot * ws ! m < sum_list ws * ws ! m" using True wpos by simp
    finally have "ps ! m - 1 < ws ! m" using D(1) True by (simp add: mult_less_cancel_left)
    thus ?thesis by simp
  next
    case False
    hence eq: "tot = sum_list ws" using assms(2) by simp
    have ge: "ws ! i \<le> ps ! i" if "i < length ws" for i
    proof -
      have W: "0 < sum_list ws" using D by (intro sum_list_pos)
      have "sum_list ws * ws ! i < sum_list ws * (ps ! i + 1)" using allocate_quota[OF assms(1) that] eq by simp
      thus ?thesis using W by (simp add: mult_less_cancel_left)
    qed
    show ?thesis
    proof (rule ccontr)
      assume "\<not> ps ! m \<le> ws ! m"
      have "ws[m := ps ! m] ! i \<le> ps ! i" if "i < length ws" for i
        using ge[OF that] that by (cases "i = m") auto
      hence up: "sum_list (ws[m := ps ! m]) \<le> sum_list ps" by (intro sum_list_mono2) (auto simp: len)
      have "sum_list (ws[m := ps ! m]) = sum_list ws + ps ! m - ws ! m" using assms(3) by (rule sum_list_upd)
      thus False using up allocate_sum[OF assms(1)] eq \<open>\<not> ps ! m \<le> ws ! m\<close> by linarith
    qed
  qed
qed

definition well_stocked :: "declarable \<Rightarrow> bool" where
  "well_stocked s \<longleftrightarrow> (\<forall>g \<in> set (dc_groups s). 0 \<le> bg_base g \<and> 0 \<le> bg_vat g) \<and> 0 \<le> dc_service s"

lemma split_bag_result:
  assumes "0 \<le> bg_base g" "0 \<le> bg_vat g" "0 \<le> piece" "piece \<le> bag_total g"
  shows "\<exists>h. split_bag g piece = Inr h \<and> bg_vat_bps h = bg_vat_bps g \<and> bag_total h = piece
     \<and> 0 \<le> bg_base h \<and> bg_base h \<le> bg_base g \<and> 0 \<le> bg_vat h \<and> bg_vat h \<le> bg_vat g"
proof (cases "piece > 0 \<and> bg_base g > 0 \<and> bg_vat g > 0")
  case True
  obtain ps where ps: "allocate piece [bg_base g, bg_vat g] = Inr ps"
    using allocate_total[of piece "[bg_base g, bg_vat g]"] True by auto
  have len: "length ps = 2" using allocate_length[OF ps] by simp
  then obtain b v where bv: "ps = [b, v]" by (auto simp: length_Suc_conv numeral_2_eq_2)
  have "b + v = piece" using allocate_sum[OF ps] bv by simp
  moreover have "0 \<le> b" "0 \<le> v" using allocate_nonneg[OF ps] bv by auto
  moreover have "b \<le> bg_base g" "v \<le> bg_vat g"
    using allocate_part_le[OF ps, of 0] allocate_part_le[OF ps, of 1] assms(4) bv by (simp_all add: bag_total_def)
  ultimately show ?thesis using True ps bv by (simp add: split_bag_def bag_total_def)
next
  case False
  thus ?thesis using assms by (auto simp: split_bag_def bag_total_def)
qed

lemma split_bags_result:
  assumes "length gs = length ps" "\<forall>g \<in> set gs. 0 \<le> bg_base g \<and> 0 \<le> bg_vat g"
    "\<forall>i < length gs. 0 \<le> ps ! i \<and> ps ! i \<le> bag_total (gs ! i)"
  shows "\<exists>hs. map_ok (\<lambda>(g, piece). split_bag g piece) (zip gs ps) = Inr hs \<and> length hs = length gs
     \<and> sum_list (map bag_total hs) = sum_list ps
     \<and> (\<forall>(g, h) \<in> set (zip gs hs). bg_vat_bps h = bg_vat_bps g \<and> 0 \<le> bg_base h \<and> bg_base h \<le> bg_base g
           \<and> 0 \<le> bg_vat h \<and> bg_vat h \<le> bg_vat g)"
  using assms
proof (induction gs ps rule: list_induct2)
  case (Cons g gs p ps)
  have "0 \<le> p \<and> p \<le> bag_total g" using Cons.prems(2) by force
  then obtain h where h: "split_bag g p = Inr h" "bg_vat_bps h = bg_vat_bps g" "bag_total h = p"
      "0 \<le> bg_base h" "bg_base h \<le> bg_base g" "0 \<le> bg_vat h" "bg_vat h \<le> bg_vat g"
    using split_bag_result[of g p] Cons.prems(1) by auto
  have tl: "\<forall>i < length gs. 0 \<le> ps ! i \<and> ps ! i \<le> bag_total (gs ! i)"
    using Cons.prems(2) by (metis Suc_less_eq length_Cons nth_Cons_Suc)
  obtain hs where hs: "map_ok (\<lambda>(g, piece). split_bag g piece) (zip gs ps) = Inr hs" "length hs = length gs"
      "sum_list (map bag_total hs) = sum_list ps"
      "\<forall>(g, h) \<in> set (zip gs hs). bg_vat_bps h = bg_vat_bps g \<and> 0 \<le> bg_base h \<and> bg_base h \<le> bg_base g
           \<and> 0 \<le> bg_vat h \<and> bg_vat h \<le> bg_vat g"
    using Cons.IH[OF _ tl] Cons.prems(1) by auto
  show ?case using h hs by (intro exI[of _ "h # hs"]) (auto simp: result_simps)
qed simp

text \<open>What one payment declares and what it leaves.\<close>

definition declares :: "declarable \<Rightarrow> int \<Rightarrow> invoice_split \<Rightarrow> declarable \<Rightarrow> bool" where
  "declares s amount iv s' \<longleftrightarrow>
     iv_total iv = amount
     \<and> sum_list (map bag_total (iv_groups iv)) + iv_service iv = amount
     \<and> 0 \<le> iv_service iv \<and> length (iv_groups iv) = length (dc_groups s)
     \<and> (\<forall>(g, h) \<in> set (zip (dc_groups s) (iv_groups iv)). bg_vat_bps h = bg_vat_bps g
           \<and> 0 \<le> bg_base h \<and> bg_base h \<le> bg_base g \<and> 0 \<le> bg_vat h \<and> bg_vat h \<le> bg_vat g)
     \<and> iv_service iv \<le> dc_service s
     \<and> dc_groups s' = map (\<lambda>(g, h). take_from g h) (zip (dc_groups s) (iv_groups iv))
     \<and> dc_service s' = dc_service s - iv_service iv"

lemma take_nothing:
  "map (\<lambda>(g, h). take_from g h) (zip gs (map (\<lambda>g. \<lparr>bg_vat_bps = bg_vat_bps g, bg_base = 0, bg_vat = 0\<rparr>) gs)) = gs"
  by (induction gs) (auto simp: take_from_def)

lemma zip_map_same: "zip xs (map f xs) = map (\<lambda>x. (x, f x)) xs"
  by (induction xs) auto

lemma allocatePayment_result:
  assumes "well_stocked s" "0 \<le> amount" "amount \<le> outstandingOf s"
  shows "\<exists>iv s'. allocatePayment s amount cmp = Inr (iv, s') \<and> declares s amount iv s'"
proof (cases "amount = 0")
  case True
  thus ?thesis using assms
    by (auto simp: allocatePayment_def declares_def well_stocked_def zip_map_same bag_total_def take_from_def
        comp_def map_idI)
next
  case False
  let ?n = "length (dc_groups s)"
  let ?b = "map bag_total (dc_groups s) @ [dc_service s]"
  let ?w = "case cmp of None \<Rightarrow> ?b | Some ws \<Rightarrow> map (weight_at ws) [0..<length ?b]"
  have sum: "sum_list ?b = outstandingOf s" by (simp add: outstandingOf_def)
  have nn: "0 \<le> c" if "c \<in> set ?b" for c using that assms(1) by (auto simp: well_stocked_def bag_total_def)
  have lw: "length ?w = length ?b" by (cases cmp) auto
  obtain ps where ps: "allocateCapped amount ?w ?b = Inr ps" "fits ?b ps" "sum_list ps = amount"
    using allocateCapped_result[OF assms(2), of ?b ?w] nn lw assms(3) sum by auto
  have lp: "length ps = Suc ?n" using ps(2) by (simp add: fits_def)
  then obtain qs sv where q: "ps = qs @ [sv]" "length qs = ?n" by (metis length_Suc_conv_rev)
  have bounds: "\<forall>i < ?n. 0 \<le> qs ! i \<and> qs ! i \<le> bag_total (dc_groups s ! i)" "0 \<le> sv" "sv \<le> dc_service s"
  proof -
    have f: "0 \<le> ps ! i \<and> ps ! i \<le> ?b ! i" if "i < Suc ?n" for i using ps(2) that by (simp add: fits_def)
    show "\<forall>i < ?n. 0 \<le> qs ! i \<and> qs ! i \<le> bag_total (dc_groups s ! i)"
    proof (intro allI impI)
      fix i assume i: "i < ?n"
      show "0 \<le> qs ! i \<and> qs ! i \<le> bag_total (dc_groups s ! i)" using f[of i] i q by (simp add: nth_append)
    qed
    show "0 \<le> sv" "sv \<le> dc_service s" using f[of ?n] q by (simp_all add: nth_append)
  qed
  obtain hs where hs: "map_ok (\<lambda>(g, piece). split_bag g piece) (zip (dc_groups s) qs) = Inr hs" "length hs = ?n"
      "sum_list (map bag_total hs) = sum_list qs"
      "\<forall>(g, h) \<in> set (zip (dc_groups s) hs). bg_vat_bps h = bg_vat_bps g \<and> 0 \<le> bg_base h \<and> bg_base h \<le> bg_base g
           \<and> 0 \<le> bg_vat h \<and> bg_vat h \<le> bg_vat g"
    using split_bags_result[of "dc_groups s" qs] q(2) bounds(1) assms(1) by (auto simp: well_stocked_def)
  have z: "zip (dc_groups s) ps = zip (dc_groups s) qs" using q by (simp add: zip_append2)
  have sv: "ps ! ?n = sv" using q by (simp add: nth_append)
  let ?iv = "\<lparr>iv_groups = hs, iv_service = sv, iv_total = amount\<rparr>"
  let ?s' = "\<lparr>dc_groups = map (\<lambda>(g, h). take_from g h) (zip (dc_groups s) hs), dc_service = dc_service s - sv\<rparr>"
  have "allocatePayment s amount cmp = Inr (?iv, ?s')"
    using False assms(2,3) ps(1) hs(1) z sv by (simp add: allocatePayment_def Let_def)
  moreover have "declares s amount ?iv ?s'"
    using hs q(1) ps(3) bounds(2,3) by (simp add: declares_def)
  ultimately show ?thesis by blast
qed

section \<open>All the invoices of a bill\<close>

lemma sum_take_from:
  assumes "length hs = length gs"
  shows "sum_list (map bag_total (map (\<lambda>(g, h). take_from g h) (zip gs hs)))
       = sum_list (map bag_total gs) - sum_list (map bag_total hs)"
  using assms by (induction gs arbitrary: hs) (auto simp: length_Suc_conv take_from_def bag_total_def)

lemma declares_next:
  assumes "well_stocked s" "declares s amount iv s'"
  shows "well_stocked s'" "outstandingOf s' = outstandingOf s - amount" "length (dc_groups s') = length (dc_groups s)"
proof -
  note D = assms(2)[unfolded declares_def]
  show "length (dc_groups s') = length (dc_groups s)" using D by simp
  have "sum_list (map bag_total (dc_groups s')) = sum_list (map bag_total (dc_groups s)) - sum_list (map bag_total (iv_groups iv))"
    using sum_take_from[of "iv_groups iv" "dc_groups s"] D by simp
  thus "outstandingOf s' = outstandingOf s - amount" using D by (simp add: outstandingOf_def)
  have "0 \<le> bg_base x \<and> 0 \<le> bg_vat x" if x: "x \<in> set (dc_groups s')" for x
  proof -
    obtain g h where gh: "(g, h) \<in> set (zip (dc_groups s) (iv_groups iv))" "x = take_from g h"
      using x D by auto
    have "bg_base h \<le> bg_base g \<and> bg_vat h \<le> bg_vat g" using D gh(1) by blast
    thus ?thesis using gh(2) by (simp add: take_from_def)
  qed
  thus "well_stocked s'" using D by (simp add: well_stocked_def)
qed

lemma declares_nth:
  assumes "declares s amount iv s'" "k < length (dc_groups s)"
  shows "bg_base (dc_groups s' ! k) = bg_base (dc_groups s ! k) - bg_base (iv_groups iv ! k)"
    "bg_vat (dc_groups s' ! k) = bg_vat (dc_groups s ! k) - bg_vat (iv_groups iv ! k)"
    "bg_vat_bps (iv_groups iv ! k) = bg_vat_bps (dc_groups s ! k)"
proof -
  note D = assms(1)[unfolded declares_def]
  have "(dc_groups s ! k, iv_groups iv ! k) \<in> set (zip (dc_groups s) (iv_groups iv))"
    using D assms(2) by (metis nth_mem nth_zip length_zip min.idem)
  thus "bg_vat_bps (iv_groups iv ! k) = bg_vat_bps (dc_groups s ! k)" using D by blast
qed (use assms in \<open>auto simp: declares_def take_from_def\<close>)

text \<open>The invoices of a bill's payments, one after the other.\<close>

fun declare_all :: "declarable \<Rightarrow> (int \<times> int list option) list \<Rightarrow> error + invoice_split list \<times> declarable" where
  "declare_all s [] = Inr ([], s)"
| "declare_all s ((amount, ws) # ps) =
     and_then (allocatePayment s amount ws) (\<lambda>(iv, s1).
     and_then (declare_all s1 ps) (\<lambda>(ivs, s2). Inr (iv # ivs, s2)))"

lemma declare_all_result:
  assumes "well_stocked s" "\<forall>(amount, ws) \<in> set ps. 0 \<le> amount" "sum_list (map fst ps) \<le> outstandingOf s"
  shows "\<exists>ivs s'. declare_all s ps = Inr (ivs, s') \<and> well_stocked s'
     \<and> outstandingOf s' = outstandingOf s - sum_list (map fst ps)
     \<and> map iv_total ivs = map fst ps \<and> length (dc_groups s') = length (dc_groups s)
     \<and> dc_service s = dc_service s' + sum_list (map iv_service ivs)
     \<and> (\<forall>k < length (dc_groups s).
           bg_base (dc_groups s ! k) = bg_base (dc_groups s' ! k) + sum_list (map (\<lambda>iv. bg_base (iv_groups iv ! k)) ivs)
         \<and> bg_vat (dc_groups s ! k) = bg_vat (dc_groups s' ! k) + sum_list (map (\<lambda>iv. bg_vat (iv_groups iv ! k)) ivs))"
  using assms
proof (induction ps arbitrary: s)
  case (Cons p ps)
  obtain amount ws where p: "p = (amount, ws)" by force
  have rest0: "0 \<le> sum_list (map fst ps)" using Cons.prems(2) by (intro sum_list_nonneg) auto
  have a: "0 \<le> amount" "amount \<le> outstandingOf s" using Cons.prems(2,3) p rest0 by auto
  obtain iv s1 where one: "allocatePayment s amount ws = Inr (iv, s1)" "declares s amount iv s1"
    using allocatePayment_result[OF Cons.prems(1) a] by blast
  note N = declares_next[OF Cons.prems(1) one(2)] and K = declares_nth[OF one(2)]
  have "sum_list (map fst ps) \<le> outstandingOf s1" using N(2) Cons.prems(3) p by simp
  then obtain ivs s' where r: "declare_all s1 ps = Inr (ivs, s')" "well_stocked s'"
      "outstandingOf s' = outstandingOf s1 - sum_list (map fst ps)" "map iv_total ivs = map fst ps"
      "length (dc_groups s') = length (dc_groups s1)" "dc_service s1 = dc_service s' + sum_list (map iv_service ivs)"
      "\<forall>k < length (dc_groups s1).
           bg_base (dc_groups s1 ! k) = bg_base (dc_groups s' ! k) + sum_list (map (\<lambda>iv. bg_base (iv_groups iv ! k)) ivs)
         \<and> bg_vat (dc_groups s1 ! k) = bg_vat (dc_groups s' ! k) + sum_list (map (\<lambda>iv. bg_vat (iv_groups iv ! k)) ivs)"
    using Cons.IH[OF N(1)] Cons.prems(2) by auto
  have "iv_total iv = amount" "dc_service s1 = dc_service s - iv_service iv" using one(2) by (simp_all add: declares_def)
  moreover have "bg_base (dc_groups s ! k) = bg_base (dc_groups s' ! k) + sum_list (map (\<lambda>iv. bg_base (iv_groups iv ! k)) (iv # ivs))
      \<and> bg_vat (dc_groups s ! k) = bg_vat (dc_groups s' ! k) + sum_list (map (\<lambda>iv. bg_vat (iv_groups iv ! k)) (iv # ivs))"
    if k: "k < length (dc_groups s)" for k
    using K(1,2)[OF k] r(7)[rule_format, of k] N(3) k by simp
  ultimately show ?case using one(1) r(1-6) N p
    by (intro exI[of _ "iv # ivs"] exI[of _ s']) (simp add: result_simps)
qed simp

lemma empty_bags:
  assumes "well_stocked s" "outstandingOf s = 0"
  shows "dc_service s = 0" "k < length (dc_groups s) \<Longrightarrow> bg_base (dc_groups s ! k) = 0 \<and> bg_vat (dc_groups s ! k) = 0"
proof -
  have nn: "\<forall>g \<in> set (dc_groups s). 0 \<le> bag_total g" using assms(1) by (auto simp: well_stocked_def bag_total_def)
  hence "0 \<le> sum_list (map bag_total (dc_groups s))" by (intro sum_list_nonneg) auto
  moreover have "0 \<le> dc_service s" using assms(1) by (simp add: well_stocked_def)
  ultimately have z: "sum_list (map bag_total (dc_groups s)) = 0" "dc_service s = 0"
    using assms(2) unfolding outstandingOf_def by linarith+
  show "dc_service s = 0" by (rule z)
  have "\<forall>g \<in> set (dc_groups s). bag_total g = 0"
    using z(1) nn sum_list_nonneg_eq_0_iff[of "map bag_total (dc_groups s)"] by auto
  thus "k < length (dc_groups s) \<Longrightarrow> bg_base (dc_groups s ! k) = 0 \<and> bg_vat (dc_groups s ! k) = 0"
    using assms(1) by (fastforce simp: well_stocked_def bag_total_def dest: nth_mem)
qed

section \<open>The state is the bill's own arithmetic\<close>

lemma add_base_keys: "fst ` set (add_base r b t) = insert r (fst ` set t)"
  by (induction r b t rule: add_base.induct) auto

lemma add_base_distinct: "distinct (map fst t) \<Longrightarrow> distinct (map fst (add_base r b t))"
  by (induction r b t rule: add_base.induct) (auto simp: add_base_keys image_iff)

definition base_of :: "(int \<times> int) list \<Rightarrow> int \<Rightarrow> int" where
  "base_of t v = (case map_of t v of None \<Rightarrow> 0 | Some x \<Rightarrow> x)"

lemma base_of_add: "base_of (add_base r b t) v = base_of t v + (if v = r then b else 0)"
  by (induction r b t rule: add_base.induct) (auto simp: base_of_def split: option.splits)

lemma by_rate_facts:
  assumes "distinct (map fst t)"
  shows "distinct (map fst (fold (\<lambda>i. add_base (line_vat i) (item_subtotal i)) ls t))
    \<and> fst ` set (fold (\<lambda>i. add_base (line_vat i) (item_subtotal i)) ls t) = fst ` set t \<union> line_vat ` set ls
    \<and> (\<forall>v. base_of (fold (\<lambda>i. add_base (line_vat i) (item_subtotal i)) ls t) v
       = base_of t v + sum_over (\<lambda>i. line_vat i = v) item_subtotal ls)"
  using assms
proof (induction ls arbitrary: t)
  case (Cons i ls)
  let ?t = "add_base (line_vat i) (item_subtotal i) t"
  have d: "distinct (map fst ?t)" using Cons.prems by (rule add_base_distinct)
  show ?case using Cons.IH[OF d] by (auto simp: add_base_keys base_of_add)
qed simp

lemma stateFromLines_rows:
  "sort_key fst (fold (\<lambda>i. add_base (line_vat i) (item_subtotal i)) ls []) = tax_group_rows ls"
proof -
  let ?r = "fold (\<lambda>i. add_base (line_vat i) (item_subtotal i)) ls []"
  have F: "distinct (map fst ?r)" "fst ` set ?r = line_vat ` set ls"
    and B: "\<And>v. base_of ?r v = sum_over (\<lambda>i. line_vat i = v) item_subtotal ls"
    using by_rate_facts[of "[]" ls] by (auto simp: base_of_def)
  have keys: "map fst (sort_key fst ?r) = sort (remdups (map line_vat ls))"
    by (rule sorted_distinct_set_unique) (use F in \<open>simp_all add: distinct_map\<close>)
  have val: "p = (fst p, sum_over (\<lambda>i. line_vat i = fst p) item_subtotal ls)" if "p \<in> set (sort_key fst ?r)" for p
  proof -
    have "p \<in> set ?r" using that by simp
    hence "base_of ?r (fst p) = snd p" using F(1) by (simp add: base_of_def map_of_is_SomeI[of _ "fst p" "snd p"])
    thus ?thesis using B[of "fst p"] by (simp add: prod_eq_iff)
  qed
  have "map (\<lambda>p. (fst p, sum_over (\<lambda>i. line_vat i = fst p) item_subtotal ls)) (sort_key fst ?r) = sort_key fst ?r"
    using val by (intro map_idI) simp
  hence "sort_key fst ?r = map (\<lambda>v. (v, sum_over (\<lambda>i. line_vat i = v) item_subtotal ls)) (map fst (sort_key fst ?r))"
    by (simp add: comp_def)
  thus ?thesis unfolding tax_group_rows_def keys .
qed

lemma stateFromLines_InrD:
  assumes "stateFromLines ls service = Inr s"
  shows "dc_groups s = map (\<lambda>(v, base). \<lparr>bg_vat_bps = v, bg_base = base, bg_vat = bps_of base v\<rparr>) (tax_group_rows ls)"
    "dc_service s = service" "\<And>v base. (v, base) \<in> set (tax_group_rows ls) \<Longrightarrow> 0 \<le> v"
proof -
  let ?f = "\<lambda>(rate, base). and_then (applyBps (JBigInt base) (JInt rate)) (\<lambda>vat.
                  Inr \<lparr>bg_vat_bps = rate, bg_base = base, bg_vat = vat\<rparr>)"
  obtain gs where gs: "map_ok ?f (tax_group_rows ls) = Inr gs" "s = \<lparr>dc_groups = gs, dc_service = service\<rparr>"
    using assms by (auto simp: stateFromLines_def Let_def result_simps stateFromLines_rows)
  have all: "gs = map (\<lambda>(v, base). \<lparr>bg_vat_bps = v, bg_base = base, bg_vat = bps_of base v\<rparr>) rows
      \<and> (\<forall>(v, base) \<in> set rows. 0 \<le> v)" if "map_ok ?f rows = Inr gs" for rows gs
    using that by (induction rows arbitrary: gs) (auto simp: result_simps applyBps_int_Inr_iff)
  show "dc_groups s = map (\<lambda>(v, base). \<lparr>bg_vat_bps = v, bg_base = base, bg_vat = bps_of base v\<rparr>) (tax_group_rows ls)"
    "dc_service s = service" using all[OF gs(1)] gs(2) by simp_all
  show "(v, base) \<in> set (tax_group_rows ls) \<Longrightarrow> 0 \<le> v" for v base using all[OF gs(1)] by auto
qed

lemma stateFromLines_outstanding:
  assumes "stateFromLines ls service = Inr s"
  shows "outstandingOf s = sum_list (map item_subtotal ls) + vat_total ls + service"
proof -
  have "sum_list (map bag_total (dc_groups s))
      = sum_list (map snd (tax_group_rows ls)) + sum_list (map (\<lambda>(v, base). bps_of base v) (tax_group_rows ls))"
    unfolding stateFromLines_InrD(1)[OF assms]
    by (induction "tax_group_rows ls" rule: list.induct) (auto simp: bag_total_def sum_list_addf[symmetric] comp_def case_prod_unfold)
  thus ?thesis using stateFromLines_InrD(2)[OF assms] by (simp add: outstandingOf_def tax_group_rows_sum vat_total_def)
qed

lemma stateFromLines_stocked:
  assumes "stateFromLines ls service = Inr s" "\<And>i. i \<in> set ls \<Longrightarrow> 0 \<le> item_subtotal i" "0 \<le> service"
  shows "well_stocked s"
  using stateFromLines_InrD[OF assms(1)] tax_group_rows_nonneg[OF assms(2)] assms(3)
  by (auto simp: well_stocked_def bps_of_nonneg)

section \<open>The conversion to bolivares is exact\<close>

lemma pair_up_total:
  "length ps = 2 * length gs \<Longrightarrow> sum_list (map bag_total (pair_up gs ps)) = sum_list ps"
proof (induction gs arbitrary: ps)
  case (Cons g gs)
  then obtain b v rest where "ps = b # v # rest" "length rest = 2 * length gs"
    by (auto simp: length_Suc_conv numeral_2_eq_2)
  thus ?case using Cons.IH by (simp add: bag_total_def)
qed simp

lemma length_buckets: "length (concat (map (\<lambda>g. [bg_base g, bg_vat g]) gs)) = 2 * length gs"
  by (induction gs) auto

lemma sum_buckets: "sum_list (concat (map (\<lambda>g. [bg_base g, bg_vat g]) gs)) = sum_list (map bag_total gs)"
  by (induction gs) (auto simp: bag_total_def)

lemma butlast_plus_last:
  fixes xs :: "int list"
  assumes "xs \<noteq> []" "sum_list xs = t"
  shows "sum_list (butlast xs) + last xs = t"
  using assms by (induction xs arbitrary: t) auto

lemma toVes_total:
  assumes "toVes s totalVes = Inr s'" "outstandingOf s \<noteq> 0"
  shows "outstandingOf s' = totalVes"
proof -
  let ?b = "concat (map (\<lambda>g. [bg_base g, bg_vat g]) (dc_groups s)) @ [dc_service s]"
  have sb: "sum_list ?b = outstandingOf s"
    by (simp add: outstandingOf_def sum_buckets)
  obtain qs where qs: "allocate totalVes (map (\<lambda>i. ?b ! i) (contributing ?b)) = Inr qs"
    and s': "s' = \<lparr>dc_groups = pair_up (dc_groups s) (butlast (scatter (length ?b) (contributing ?b) qs)),
                  dc_service = last (scatter (length ?b) (contributing ?b) qs)\<rparr>"
    using assms sb by (auto simp: toVes_def Let_def result_simps)
  have ne: "contributing ?b \<noteq> []" using allocate_InrD(2)[OF qs] by auto
  let ?p = "scatter (length ?b) (contributing ?b) qs"
  have a: "allocateWithZeros totalVes ?b = Inr ?p" using qs ne by (simp add: allocateWithZeros_def Let_def)
  have len: "length ?p = length ?b" by (rule allocateWithZeros_length[OF a])
  have sum: "sum_list ?p = totalVes" using allocateWithZeros_sum[OF a] allocate_InrD(1)[OF qs] by simp
  have "length ?p \<noteq> 0" unfolding len by simp
  then have pne: "?p \<noteq> []" by blast
  have "sum_list (butlast ?p) + last ?p = totalVes"
    by (rule butlast_plus_last[OF pne sum])
  moreover have "length (butlast ?p) = 2 * length (dc_groups s)" using len by (simp add: length_buckets)
  ultimately show ?thesis by (simp add: s' outstandingOf_def pair_up_total)
qed

section \<open>What the documents of a bill promise\<close>

lemma capped_allocation_converges:
  assumes "0 \<le> amount" "amount \<le> sum_list caps" "\<forall>c \<in> set caps. 0 \<le> c" "length ws = length caps"
  shows "\<exists>ps. allocateCapped amount ws caps = Inr ps \<and> length ps = length caps \<and> sum_list ps = amount
     \<and> (\<forall>i < length caps. 0 \<le> ps ! i \<and> ps ! i \<le> caps ! i)"
  using allocateCapped_result[OF assms(1,2) _ assms(4)] assms(3) by (auto simp: fits_def)

lemma capped_allocation_converges_witness:
  "\<exists>ps. allocateCapped 90 [1, 1, 5] [10, 80, 5] = Inr ps \<and> sum_list ps = 90"
  using capped_allocation_converges[of 90 "[10, 80, 5]" "[1, 1, 5]"] by auto

text \<open>C33: Documents issued one after another for payments that add up to the bill declare
  together exactly the base and the VAT of every rate and the service charge, and leave
  nothing outstanding, whatever the composition of each payment.\<close>

lemma documents_declare_the_bill:
  assumes "well_stocked s" "\<forall>(amount, ws) \<in> set ps. 0 \<le> amount" "sum_list (map fst ps) = outstandingOf s"
  shows "\<exists>ivs s'. declare_all s ps = Inr (ivs, s') \<and> outstandingOf s' = 0
     \<and> map iv_total ivs = map fst ps \<and> dc_service s = sum_list (map iv_service ivs)
     \<and> (\<forall>k < length (dc_groups s).
           bg_base (dc_groups s ! k) = sum_list (map (\<lambda>iv. bg_base (iv_groups iv ! k)) ivs)
         \<and> bg_vat (dc_groups s ! k) = sum_list (map (\<lambda>iv. bg_vat (iv_groups iv ! k)) ivs))"
proof -
  obtain ivs s' where d: "declare_all s ps = Inr (ivs, s')" "well_stocked s'"
    and o: "outstandingOf s' = outstandingOf s - sum_list (map fst ps)"
    and r: "map iv_total ivs = map fst ps" "length (dc_groups s') = length (dc_groups s)"
      "dc_service s = dc_service s' + sum_list (map iv_service ivs)"
      "\<forall>k < length (dc_groups s).
           bg_base (dc_groups s ! k) = bg_base (dc_groups s' ! k) + sum_list (map (\<lambda>iv. bg_base (iv_groups iv ! k)) ivs)
         \<and> bg_vat (dc_groups s ! k) = bg_vat (dc_groups s' ! k) + sum_list (map (\<lambda>iv. bg_vat (iv_groups iv ! k)) ivs)"
    using declare_all_result[OF assms(1,2)] assms(3) by auto
  have z: "outstandingOf s' = 0" using o assms(3) by simp
  show ?thesis using d z r empty_bags[OF d(2) z] by auto
qed

definition two_rates :: declarable where
  "two_rates = \<lparr>dc_groups = [\<lparr>bg_vat_bps = 0, bg_base = 300, bg_vat = 0\<rparr>, \<lparr>bg_vat_bps = 1600, bg_base = 500, bg_vat = 80\<rparr>],
     dc_service = 20\<rparr>"

lemma documents_declare_the_bill_witness:
  "\<exists>ivs s'. declare_all two_rates [(300, None), (101, Some [0, 5, 1]), (499, None)] = Inr (ivs, s') \<and> outstandingOf s' = 0
     \<and> sum_list (map (\<lambda>iv. bg_vat (iv_groups iv ! 1)) ivs) = 80"
proof -
  have a: "well_stocked two_rates" "\<forall>(amount, ws) \<in> set [(300 :: int, None :: int list option), (101, Some [0, 5, 1]), (499, None)]. 0 \<le> amount"
    "sum_list (map fst [(300 :: int, None :: int list option), (101, Some [0, 5, 1]), (499, None)]) = outstandingOf two_rates"
    by (simp_all add: well_stocked_def two_rates_def outstandingOf_def bag_total_def)
  have k: "1 < length (dc_groups two_rates)" "bg_vat (dc_groups two_rates ! 1) = 80" by (simp_all add: two_rates_def)
  show ?thesis using documents_declare_the_bill[OF a] k by metis
qed

text \<open>C34: The declarable state computed from the lines agrees with the totals the bill row
  carries: the same total, the same VAT, the same base and the same service charge, although
  two modules compute them.\<close>

lemma fiscal_state_is_the_bill:
  assumes "compute_totals b ls = Inr t" "stateFromLines ls (tot_service t) = Inr s"
  shows "outstandingOf s = tot_total t \<and> sum_list (map bg_vat (dc_groups s)) = tot_vat t
     \<and> sum_list (map bg_base (dc_groups s)) = tot_subtotal t \<and> dc_service s = tot_service t"
proof -
  note T = compute_totals_InrD[OF assms(1)] and S = stateFromLines_InrD[OF assms(2)]
  have v: "sum_list (map bg_vat (dc_groups s)) = vat_total ls"
    unfolding vat_total_def S(1) by (simp add: comp_def case_prod_unfold)
  have b: "sum_list (map bg_base (dc_groups s)) = sum_list (map item_subtotal ls)"
    unfolding tax_group_rows_sum[symmetric] S(1) by (simp add: comp_def case_prod_unfold)
  show ?thesis using T(1-4) S(2) v b stateFromLines_outstanding[OF assms(2)] by simp
qed

lemma fiscal_state_is_the_bill_witness:
  "\<exists>t s. compute_totals dinner_bill [dinner_line 10 300 2, dinner_line 11 400 1] = Inr t
     \<and> stateFromLines [dinner_line 10 300 2, dinner_line 11 400 1] (tot_service t) = Inr s \<and> outstandingOf s = tot_total t"
proof -
  let ?ls = "[dinner_line 10 300 2, dinner_line 11 400 1]"
  have c: "(case compute_totals dinner_bill ?ls of Inl e \<Rightarrow> False | Inr t \<Rightarrow> isr (stateFromLines ?ls (tot_service t)))" by code_simp
  then obtain t where t: "compute_totals dinner_bill ?ls = Inr t" "isr (stateFromLines ?ls (tot_service t))"
    by (auto split: sum.splits)
  then obtain s where s: "stateFromLines ?ls (tot_service t) = Inr s" by (auto elim!: isr_E)
  show ?thesis using fiscal_state_is_the_bill[OF t(1) s] t s by blast
qed

lemma over_declaration_refused:
  assumes "well_stocked s"
  shows "isr (allocatePayment s amount cmp) \<longleftrightarrow> 0 \<le> amount \<and> amount \<le> outstandingOf s"
proof
  assume "isr (allocatePayment s amount cmp)"
  thus "0 \<le> amount \<and> amount \<le> outstandingOf s" by (auto simp: allocatePayment_def isr_def split: if_splits)
next
  assume "0 \<le> amount \<and> amount \<le> outstandingOf s"
  thus "isr (allocatePayment s amount cmp)" using allocatePayment_result[OF assms, of amount cmp] by (auto simp: isr_def)
qed

lemma over_declaration_refused_witness:
  "isr (allocatePayment two_rates 900 None) \<and> \<not> isr (allocatePayment two_rates 901 None)"
proof -
  have w: "well_stocked two_rates" "outstandingOf two_rates = 900"
    by (simp_all add: well_stocked_def two_rates_def outstandingOf_def bag_total_def)
  show ?thesis using over_declaration_refused[OF w(1)] w(2) by simp
qed

end
