(* ===== verification/Fiscal_Draft.thy ===== *)
theory Fiscal_Draft
  imports Fiscal_Allocation Settlement
begin

text \<open>
  From a payment to the content of its invoice (services/fiscalInvoiceBuilder.js), and
  the form in which a draft waits in the database for the issuer's answer
  (\<open>serialiseDraft\<close> and \<open>reviveDraft\<close> of services/fiscalInvoicing.js).

  The amounts come from the allocation of \<open>Fiscal_Allocation\<close>; the lines share out
  what it gave to their rate.  The lemmas show that the breakdown by rate adds up to the
  document, that the lines do whenever every rate that was charged has a line, and that a
  stored draft is read back as it was sent.
\<close>

section \<open>Data\<close>

datatype line_basis = ITEMISED | PRORATED | AGGREGATE

text \<open>A line the draft may take, with the part of it that belongs to this payment.\<close>

record source_line =
  sl_item :: nat
  sl_name :: string
  sl_quantity :: int
  sl_unit_price :: int
  sl_subtotal :: int
  sl_category :: tax_category
  sl_vat :: int
  sl_share :: int
  sl_full :: int

text \<open>What a line says.  The two texts of an aggregate line carry a dash that is not
  ASCII, so each is a constructor.\<close>

datatype description = Dish string | Part_of_table string | Part_of_a_bill

record draft_line =
  dl_position :: nat
  dl_description :: description
  dl_quantity_milli :: int
  dl_unit_price :: int
  dl_category :: tax_category
  dl_vat_bps :: int
  dl_base :: int
  dl_vat :: int

record draft_tax =
  dt_category :: tax_category
  dt_vat_bps :: int
  dt_base :: int
  dt_vat :: int

record draft =
  dr_basis :: line_basis
  dr_lines :: "draft_line list"
  dr_taxes :: "draft_tax list"
  dr_subtotal :: int
  dr_vat :: int
  dr_service :: int
  dr_total :: int

section \<open>Which form, and with which weights\<close>

definition resolveLineBasis :: "split_mode option \<Rightarrow> int option \<Rightarrow> int \<Rightarrow> source_line list option \<Rightarrow> line_basis" where
  "resolveLineBasis mode participantShare paid claimed =
     (if mode = Some ITEMS \<and> (case claimed of None \<Rightarrow> False | Some cs \<Rightarrow> cs \<noteq> []) \<and> participantShare = Some paid
      then ITEMISED else PRORATED)"

text \<open>\<open>new Map\<close> over the groups: the last group of a rate wins.\<close>

definition rate_index :: "bag list \<Rightarrow> int \<Rightarrow> nat option" where
  "rate_index gs v =
     (let is = filter (\<lambda>i. bg_vat_bps (gs ! i) = v) [0..<length gs] in if is = [] then None else Some (last is))"

definition compositionFor :: "bag list \<Rightarrow> source_line list \<Rightarrow> int list" where
  "compositionFor gs ls =
     fold (\<lambda>l ws. case rate_index gs (sl_vat l) of
             None \<Rightarrow> ws
           | Some i \<Rightarrow> ws[i := ws ! i + sl_share l]) ls (replicate (length gs + 1) 0)"

definition spreadAcrossLines :: "int \<Rightarrow> source_line list \<Rightarrow> error + int list" where
  "spreadAcrossLines amount ls =
     (let weights = map sl_share ls in
      if ls = [] \<or> amount = 0 then Inr (replicate (length ls) 0)
      else if list_all (\<lambda>w. w = 0) weights then allocate amount (replicate (length ls) 1)
      else
        let positive = contributing weights in
        and_then (allocate amount (map (\<lambda>i. weights ! i) positive)) (\<lambda>qs.
        Inr (scatter (length ls) positive qs)))"

section \<open>The lines of a draft\<close>

definition aggregateLine :: "invoice_split \<Rightarrow> string option \<Rightarrow> draft_line list" where
  "aggregateLine iv tableName =
     (let base = sum_list (map bg_base (iv_groups iv));
          single = length (iv_groups iv) = 1
      in [\<lparr>dl_position = 1,
           dl_description = (case tableName of Some t \<Rightarrow> if t = [] then Part_of_a_bill else Part_of_table t
                             | None \<Rightarrow> Part_of_a_bill),
           dl_quantity_milli = 1000, dl_unit_price = base,
           dl_category = (if single \<and> bg_vat_bps (hd (iv_groups iv)) = 0 then EXEMPT else TAXABLE),
           dl_vat_bps = (if single then bg_vat_bps (hd (iv_groups iv)) else 0),
           dl_base = base, dl_vat = sum_list (map bg_vat (iv_groups iv))\<rparr>])"

text \<open>The quantity in thousandths, never zero.  The code's division truncates and this one
  rounds down; they differ on negative quotients only, which both end as 1.\<close>

definition quantity_milli :: "source_line \<Rightarrow> int \<Rightarrow> int" where
  "quantity_milli l base =
     (let q = (if sl_full l > 0 then (sl_quantity l * 1000 * base) div sl_full l else 1000)
      in if q > 0 then q else 1)"

definition draft_line_of :: "source_line \<Rightarrow> int \<Rightarrow> int \<Rightarrow> draft_line" where
  "draft_line_of l base vat =
     \<lparr>dl_position = 0, dl_description = Dish (sl_name l), dl_quantity_milli = quantity_milli l base,
      dl_unit_price = sl_unit_price l, dl_category = sl_category l, dl_vat_bps = sl_vat l,
      dl_base = base, dl_vat = vat\<rparr>"

definition lines_of_rate :: "invoice_split \<Rightarrow> declarable \<Rightarrow> source_line list \<Rightarrow> int \<Rightarrow> error + draft_line list" where
  "lines_of_rate iv state ls rate =
     (let mine = filter (\<lambda>l. sl_vat l = rate) ls;
          g = (case rate_index (dc_groups state) rate of
                 None \<Rightarrow> \<lparr>bg_vat_bps = rate, bg_base = 0, bg_vat = 0\<rparr>
               | Some i \<Rightarrow> iv_groups iv ! i)
      in and_then (spreadAcrossLines (bg_base g) mine) (\<lambda>bases.
         and_then (spreadAcrossLines (bg_vat g) mine) (\<lambda>vats.
         Inr (map (\<lambda>(l, b, v). draft_line_of l b v) (zip mine (zip bases vats))))))"

definition number_lines :: "draft_line list \<Rightarrow> draft_line list" where
  "number_lines ls = map (\<lambda>(i, l). l\<lparr>dl_position := i\<rparr>) (enumerate 1 ls)"

definition itemLines :: "invoice_split \<Rightarrow> declarable \<Rightarrow> source_line list \<Rightarrow> error + draft_line list" where
  "itemLines iv state ls =
     and_then (map_ok (lines_of_rate iv state ls) (sort (remdups (map sl_vat ls)))) (\<lambda>groups.
     Inr (number_lines (concat groups)))"

definition tax_of :: "bag \<Rightarrow> draft_tax" where
  "tax_of g = \<lparr>dt_category = (if bg_vat_bps g > 0 then TAXABLE else EXEMPT), dt_vat_bps = bg_vat_bps g,
     dt_base = bg_base g, dt_vat = bg_vat g\<rparr>"

definition buildDraft :: "declarable \<Rightarrow> int \<Rightarrow> line_basis \<Rightarrow> source_line list \<Rightarrow> string option \<Rightarrow> error + draft \<times> declarable" where
  "buildDraft state paid basis ls tableName =
     (if paid > outstandingOf state then Inl (General Plain_Error)
      else
        and_then (allocatePayment state paid (if basis = ITEMISED then Some (compositionFor (dc_groups state) ls) else None))
          (\<lambda>(iv, remaining).
        and_then (if basis = AGGREGATE then Inr (aggregateLine iv tableName) else itemLines iv state ls) (\<lambda>lines.
        Inr (\<lparr>dr_basis = basis, dr_lines = lines,
              dr_taxes = map tax_of (filter (\<lambda>g. bg_base g > 0 \<or> bg_vat g > 0) (iv_groups iv)),
              dr_subtotal = sum_list (map bg_base (iv_groups iv)),
              dr_vat = sum_list (map bg_vat (iv_groups iv)),
              dr_service = iv_service iv, dr_total = iv_total iv\<rparr>, remaining))))"

section \<open>The stored draft\<close>

text \<open>\<open>JSON.stringify\<close> can not write a BigInt, so the amounts travel as decimal text.\<close>

record stored_line =
  st_position :: nat
  st_description :: description
  st_quantity_milli :: string
  st_unit_price :: string
  st_category :: tax_category
  st_vat_bps :: int
  st_base :: string
  st_vat :: string

record stored_tax =
  sx_category :: tax_category
  sx_vat_bps :: int
  sx_base :: string
  sx_vat :: string

record stored_draft =
  sd_basis :: line_basis
  sd_subtotal :: string
  sd_vat :: string
  sd_service :: string
  sd_total :: string
  sd_lines :: "stored_line list"
  sd_taxes :: "stored_tax list"

definition serialiseDraft :: "draft \<Rightarrow> stored_draft" where
  "serialiseDraft d =
     \<lparr>sd_basis = dr_basis d, sd_subtotal = show_int (dr_subtotal d), sd_vat = show_int (dr_vat d),
      sd_service = show_int (dr_service d), sd_total = show_int (dr_total d),
      sd_lines = map (\<lambda>l. \<lparr>st_position = dl_position l, st_description = dl_description l,
          st_quantity_milli = show_int (dl_quantity_milli l), st_unit_price = show_int (dl_unit_price l),
          st_category = dl_category l, st_vat_bps = dl_vat_bps l,
          st_base = show_int (dl_base l), st_vat = show_int (dl_vat l)\<rparr>) (dr_lines d),
      sd_taxes = map (\<lambda>t. \<lparr>sx_category = dt_category t, sx_vat_bps = dt_vat_bps t,
          sx_base = show_int (dt_base t), sx_vat = show_int (dt_vat t)\<rparr>) (dr_taxes d)\<rparr>"

definition big :: "string \<Rightarrow> error + int" where
  "big s = (case js_bigint_of_string s of None \<Rightarrow> Inl (General Plain_Error) | Some n \<Rightarrow> Inr n)"

definition reviveLine :: "stored_line \<Rightarrow> error + draft_line" where
  "reviveLine l =
     and_then (big (st_quantity_milli l)) (\<lambda>q. and_then (big (st_unit_price l)) (\<lambda>u.
     and_then (big (st_base l)) (\<lambda>b. and_then (big (st_vat l)) (\<lambda>v.
     Inr \<lparr>dl_position = st_position l, dl_description = st_description l, dl_quantity_milli = q,
          dl_unit_price = u, dl_category = st_category l, dl_vat_bps = st_vat_bps l, dl_base = b, dl_vat = v\<rparr>))))"

definition reviveTax :: "stored_tax \<Rightarrow> error + draft_tax" where
  "reviveTax t =
     and_then (big (sx_base t)) (\<lambda>b. and_then (big (sx_vat t)) (\<lambda>v.
     Inr \<lparr>dt_category = sx_category t, dt_vat_bps = sx_vat_bps t, dt_base = b, dt_vat = v\<rparr>))"

definition reviveDraft :: "stored_draft \<Rightarrow> error + draft" where
  "reviveDraft s =
     and_then (big (sd_subtotal s)) (\<lambda>sub. and_then (big (sd_vat s)) (\<lambda>vat.
     and_then (big (sd_service s)) (\<lambda>service. and_then (big (sd_total s)) (\<lambda>tot.
     and_then (map_ok reviveLine (sd_lines s)) (\<lambda>ls. and_then (map_ok reviveTax (sd_taxes s)) (\<lambda>ts.
     Inr \<lparr>dr_basis = sd_basis s, dr_lines = ls, dr_taxes = ts, dr_subtotal = sub, dr_vat = vat,
          dr_service = service, dr_total = tot\<rparr>))))))"

section \<open>Reading a stored draft back\<close>

lemma read_signed_show: "read_signed (show_int n) = Some n"
proof (cases "n < 0")
  case True
  thus ?thesis by (simp add: read_signed_def show_int_def)
next
  case False
  obtain c cs where s: "show_nat (nat n) = c # cs" by (cases "show_nat (nat n)") auto
  have "digits_only (c # cs)" using digits_only_show_nat[of "nat n"] s by simp
  moreover have "is_digit c" using show_nat_digits[of "nat n"] s by simp
  hence "c \<noteq> CHR ''-''" "c \<noteq> CHR ''+''" by (auto simp: is_digit_def)
  moreover have "read_nat (c # cs) = nat n" using read_show_nat[of "nat n"] s by simp
  ultimately show ?thesis using False s by (simp add: read_signed_def show_int_def)
qed

lemma bigint_plain:
  assumes "trim s = s" "\<And>c d ds. s = c # d # ds \<Longrightarrow> c = CHR ''-'' \<or> is_digit d"
  shows "js_bigint_of_string s = read_signed s"
proof -
  have x: "e \<notin> {CHR ''x'', CHR ''X'', CHR ''o'', CHR ''O'', CHR ''b'', CHR ''B''}" if "is_digit e" for e
    using that by (auto simp: is_digit_def)
  show ?thesis
  proof (cases s rule: remdups_adj.cases)
    case 1
    thus ?thesis by (simp add: js_bigint_of_string_def)
  next
    case (2 c)
    thus ?thesis using assms(1) by (simp only: js_bigint_of_string_def Let_def list.case)
  next
    case (3 c d ds)
    have "c = CHR ''0'' \<Longrightarrow> is_digit d" using assms(2)[OF 3] by auto
    hence "\<not> (c = CHR ''0'' \<and> d \<in> {CHR ''x'', CHR ''X''})" "\<not> (c = CHR ''0'' \<and> d \<in> {CHR ''o'', CHR ''O''})"
        "\<not> (c = CHR ''0'' \<and> d \<in> {CHR ''b'', CHR ''B''})"
      using x[of d] by blast+
    thus ?thesis unfolding js_bigint_of_string_def assms(1) Let_def unfolding 3 list.case by (simp only: if_False)
  qed
qed

lemma big_show [simp]: "js_bigint_of_string (show_int n) = Some n"
proof -
  have "c = CHR ''-'' \<or> is_digit d" if "show_int n = c # d # ds" for c d ds
  proof (cases "n < 0")
    case False
    thus ?thesis using that show_nat_digits[of "nat n"] by (simp add: show_int_def)
  qed (use that in \<open>simp add: show_int_def\<close>)
  thus ?thesis using bigint_plain[OF trim_show_int] read_signed_show by metis
qed

lemma stored_draft_round_trip: "reviveDraft (serialiseDraft d) = Inr d"
proof -
  have b: "big (show_int n) = Inr n" for n by (simp add: big_def)
  have l: "map_ok reviveLine (sd_lines (serialiseDraft d)) = Inr (dr_lines d)"
  proof -
    have "map_ok reviveLine (map f ls) = Inr ls" if "\<And>l. reviveLine (f l) = Inr l" for f ls
      using that by (induction ls) simp_all
    thus ?thesis by (simp add: serialiseDraft_def reviveLine_def b)
  qed
  have t: "map_ok reviveTax (sd_taxes (serialiseDraft d)) = Inr (dr_taxes d)"
  proof -
    have "map_ok reviveTax (map f ls) = Inr ls" if "\<And>l. reviveTax (f l) = Inr l" for f ls
      using that by (induction ls) simp_all
    thus ?thesis by (simp add: serialiseDraft_def reviveTax_def b)
  qed
  show ?thesis unfolding reviveDraft_def l t by (simp add: serialiseDraft_def b)
qed


section \<open>Sharing an amount over the lines of a rate\<close>

lemma spread_facts:
  assumes "spreadAcrossLines amount ls = Inr ps"
  shows "length ps = length ls" "ls \<noteq> [] \<Longrightarrow> sum_list ps = amount" "\<And>p. p \<in> set ps \<Longrightarrow> 0 \<le> p"
proof -
  consider (nil) "ls = [] \<or> amount = 0" "ps = replicate (length ls) 0"
    | (even) "allocate amount (replicate (length ls) 1) = Inr ps"
    | (weighted) qs where "allocate amount (map (\<lambda>i. map sl_share ls ! i) (contributing (map sl_share ls))) = Inr qs"
        "ps = scatter (length ls) (contributing (map sl_share ls)) qs"
    using assms unfolding spreadAcrossLines_def Let_def
    by (cases "ls = [] \<or> amount = 0"; cases "list_all (\<lambda>w. w = 0) (map sl_share ls)")
       (simp_all only: if_True if_False sum.inject and_then_Inr_iff, blast+)
  hence "length ps = length ls \<and> (ls \<noteq> [] \<longrightarrow> sum_list ps = amount) \<and> (\<forall>p \<in> set ps. 0 \<le> p)"
  proof cases
    case nil
    thus ?thesis by (auto simp: sum_list_replicate)
  next
    case even
    thus ?thesis using allocate_length[OF even] allocate_sum[OF even] allocate_nonneg[OF even] by auto
  next
    case weighted
    have "sum_list ps = sum_list qs"
      unfolding weighted(2) by (rule scatter_sum) (use allocate_length[OF weighted(1)] in auto)
    moreover have "set ps \<subseteq> set qs \<union> {0}"
      using fold_update_set[of "contributing (map sl_share ls)" qs "replicate (length ls) 0"]
      by (auto simp: weighted(2) scatter_def)
    ultimately show ?thesis using allocate_sum[OF weighted(1)] allocate_nonneg[OF weighted(1)] weighted(2) by auto
  qed
  thus "length ps = length ls" "ls \<noteq> [] \<Longrightarrow> sum_list ps = amount" "\<And>p. p \<in> set ps \<Longrightarrow> 0 \<le> p" by auto
qed

definition amount_at :: "(bag \<Rightarrow> int) \<Rightarrow> invoice_split \<Rightarrow> declarable \<Rightarrow> int \<Rightarrow> int" where
  "amount_at f iv state rate = (case rate_index (dc_groups state) rate of None \<Rightarrow> 0 | Some i \<Rightarrow> f (iv_groups iv ! i))"

definition sound_line :: "draft_line \<Rightarrow> bool" where
  "sound_line l \<longleftrightarrow> 0 \<le> dl_base l \<and> 0 \<le> dl_vat l \<and> 0 < dl_quantity_milli l"

lemma zip_sums:
  assumes "length bs = length ls" "length vs = length (ls :: source_line list)"
  shows "map dl_base (map (\<lambda>(l, b, v). draft_line_of l b v) (zip ls (zip bs vs))) = bs"
    "map dl_vat (map (\<lambda>(l, b, v). draft_line_of l b v) (zip ls (zip bs vs))) = vs"
    "map dl_description (map (\<lambda>(l, b, v). draft_line_of l b v) (zip ls (zip bs vs))) = map (\<lambda>l. Dish (sl_name l)) ls"
  using assms by (simp_all add: list_eq_iff_nth_eq draft_line_of_def)

lemma quantity_positive [simp]: "0 < quantity_milli l b"
  by (simp add: quantity_milli_def Let_def)

lemma lines_of_rate_facts:
  assumes "lines_of_rate iv state ls rate = Inr ds" "rate \<in> sl_vat ` set ls"
  shows "sum_list (map dl_base ds) = amount_at bg_base iv state rate"
    "sum_list (map dl_vat ds) = amount_at bg_vat iv state rate"
    "\<And>d. d \<in> set ds \<Longrightarrow> sound_line d"
proof -
  let ?mine = "filter (\<lambda>l. sl_vat l = rate) ls"
  have ne: "?mine \<noteq> []" using assms(2) by (auto simp: filter_empty_conv)
  obtain bs vs where b: "spreadAcrossLines (amount_at bg_base iv state rate) ?mine = Inr bs"
    and v: "spreadAcrossLines (amount_at bg_vat iv state rate) ?mine = Inr vs"
    and ds: "ds = map (\<lambda>(l, b, v). draft_line_of l b v) (zip ?mine (zip bs vs))"
    using assms(1) by (auto simp: lines_of_rate_def result_simps amount_at_def Let_def split: option.splits)
  note B = spread_facts[OF b] and V = spread_facts[OF v]
  show "sum_list (map dl_base ds) = amount_at bg_base iv state rate"
    "sum_list (map dl_vat ds) = amount_at bg_vat iv state rate"
    unfolding ds zip_sums[OF B(1) V(1)] using B(2) V(2) ne by simp_all
  show "sound_line d" if m: "d \<in> set ds" for d
  proof -
    obtain x where x: "d = (case x of (l, b, v) \<Rightarrow> draft_line_of l b v)" "x \<in> set (zip ?mine (zip bs vs))"
      using m[unfolded ds set_map] by (rule imageE)
    obtain l b v where "x = (l, b, v)" by (cases x)
    hence "d = draft_line_of l b v" "(l, b, v) \<in> set (zip ?mine (zip bs vs))" using x by simp_all
    moreover from this have "b \<in> set bs" "v \<in> set vs" by (auto dest: set_zip_rightD set_zip_leftD)
    ultimately show ?thesis using B(3) V(3) by (simp add: sound_line_def draft_line_of_def)
  qed
qed

lemma number_lines_simps [simp]:
  "map dl_base (number_lines ls) = map dl_base ls" "map dl_vat (number_lines ls) = map dl_vat ls"
  "length (number_lines ls) = length ls"
  by (simp_all add: number_lines_def list_eq_iff_nth_eq nth_enumerate_eq)

lemma sound_number_lines: "(\<forall>l \<in> set (number_lines ls). sound_line l) \<longleftrightarrow> (\<forall>l \<in> set ls. sound_line l)"
  by (auto simp: number_lines_def sound_line_def in_set_enumerate_eq all_set_conv_all_nth nth_enumerate_eq)

lemma itemLines_facts:
  assumes "itemLines iv state ls = Inr ds"
  shows "sum_list (map dl_base ds) = (\<Sum>r \<in> sl_vat ` set ls. amount_at bg_base iv state r)"
    "sum_list (map dl_vat ds) = (\<Sum>r \<in> sl_vat ` set ls. amount_at bg_vat iv state r)"
    "\<And>d. d \<in> set ds \<Longrightarrow> sound_line d"
proof -
  let ?rs = "sort (remdups (map sl_vat ls))"
  obtain gs where gs: "map_ok (lines_of_rate iv state ls) ?rs = Inr gs" "ds = number_lines (concat gs)"
    using assms by (auto simp: itemLines_def result_simps)
  have main: "sum_list (map dl_base (concat gs)) = sum_list (map (amount_at bg_base iv state) rs)
       \<and> sum_list (map dl_vat (concat gs)) = sum_list (map (amount_at bg_vat iv state) rs)
       \<and> (\<forall>d \<in> set (concat gs). sound_line d)"
    if "map_ok (lines_of_rate iv state ls) rs = Inr gs" "set rs \<subseteq> sl_vat ` set ls" for rs gs
    using that
  proof (induction rs arbitrary: gs)
    case (Cons r rs)
    then obtain d gs' where "lines_of_rate iv state ls r = Inr d" "map_ok (lines_of_rate iv state ls) rs = Inr gs'" "gs = d # gs'"
      by (auto simp: result_simps)
    thus ?case using Cons.IH[of gs'] Cons.prems(2) lines_of_rate_facts[of iv state ls r d] by auto
  qed simp
  have sum: "sum_list (map f ?rs) = (\<Sum>r \<in> sl_vat ` set ls. f r)" for f :: "int \<Rightarrow> int"
    by (simp add: sum_list_distinct_conv_sum_set)
  note M = main[OF gs(1), unfolded sum]
  show "sum_list (map dl_base ds) = (\<Sum>r \<in> sl_vat ` set ls. amount_at bg_base iv state r)"
    "sum_list (map dl_vat ds) = (\<Sum>r \<in> sl_vat ` set ls. amount_at bg_vat iv state r)"
    using M gs(2) by simp_all
  show "sound_line d" if "d \<in> set ds" for d
    using M that sound_number_lines[of "concat gs"] gs(2) by simp
qed

lemma rate_index_SomeD: "rate_index gs v = Some i \<Longrightarrow> i < length gs \<and> bg_vat_bps (gs ! i) = v"
  by (auto simp: rate_index_def Let_def split: if_splits dest!: last_in_set)

lemma rate_index_None: "rate_index gs v = None \<longleftrightarrow> v \<notin> bg_vat_bps ` set gs"
  by (auto simp: rate_index_def Let_def filter_empty_conv set_conv_nth image_iff)

lemma rate_index_at:
  assumes "distinct (map bg_vat_bps gs)" "i < length gs"
  shows "rate_index gs (bg_vat_bps (gs ! i)) = Some i"
proof -
  obtain j where j: "rate_index gs (bg_vat_bps (gs ! i)) = Some j"
    using rate_index_None[of gs "bg_vat_bps (gs ! i)"] assms(2) by (cases "rate_index gs (bg_vat_bps (gs ! i))") auto
  thus ?thesis using rate_index_SomeD[OF j] assms by (auto simp: distinct_conv_nth)
qed

lemma rates_cover:
  assumes "distinct (map bg_vat_bps (dc_groups state))" "length (iv_groups iv) = length (dc_groups state)"
    and "\<And>i. i < length (dc_groups state) \<Longrightarrow> bg_vat_bps (dc_groups state ! i) \<notin> R \<Longrightarrow> f (iv_groups iv ! i) = 0" "finite R"
  shows "(\<Sum>r \<in> R. amount_at f iv state r) = sum_list (map f (iv_groups iv))"
proof -
  let ?gs = "dc_groups state" and ?N = "{..<length (dc_groups state)}"
  let ?rate = "\<lambda>i. bg_vat_bps (?gs ! i)"
  have inj: "inj_on ?rate ?N" using assms(1) by (auto simp: inj_on_def distinct_conv_nth)
  have "(\<Sum>r \<in> R. amount_at f iv state r) = (\<Sum>r \<in> R \<union> ?rate ` ?N. if r \<in> R then amount_at f iv state r else 0)"
    by (rule sum.mono_neutral_cong_left) (use assms(4) in auto)
  also have "\<dots> = (\<Sum>r \<in> ?rate ` ?N. amount_at f iv state r)"
  proof (rule sum.mono_neutral_cong_right)
    show "\<forall>r \<in> R \<union> ?rate ` ?N - ?rate ` ?N. (if r \<in> R then amount_at f iv state r else 0) = 0"
      by (auto simp: amount_at_def in_set_conv_nth split: option.splits dest!: rate_index_SomeD)
    show "(if r \<in> R then amount_at f iv state r else 0) = amount_at f iv state r" if "r \<in> ?rate ` ?N" for r
      using that assms(3) rate_index_at[OF assms(1)] by (auto simp: amount_at_def)
  qed (use assms(4) in auto)
  also have "\<dots> = (\<Sum>i \<in> ?N. amount_at f iv state (?rate i))" by (rule sum.reindex_cong[OF inj]) auto
  also have "\<dots> = (\<Sum>i < length (iv_groups iv). f (iv_groups iv ! i))"
    by (rule sum.cong) (use assms(1,2) in \<open>auto simp: amount_at_def rate_index_at\<close>)
  finally show ?thesis by (simp add: sum_list_sum_nth lessThan_atLeast0)
qed

section \<open>What a draft declares\<close>

lemma buildDraft_InrD:
  assumes "buildDraft state paid basis ls tn = Inr (d, rem)" "well_stocked state" "0 \<le> paid"
  obtains iv where "declares state paid iv rem"
    "dr_basis d = basis" "dr_subtotal d = sum_list (map bg_base (iv_groups iv))" "dr_vat d = sum_list (map bg_vat (iv_groups iv))"
    "dr_service d = iv_service iv" "dr_total d = iv_total iv"
    "dr_taxes d = map tax_of (filter (\<lambda>g. bg_base g > 0 \<or> bg_vat g > 0) (iv_groups iv))"
    "basis = AGGREGATE \<and> dr_lines d = aggregateLine iv tn \<or> basis \<noteq> AGGREGATE \<and> itemLines iv state ls = Inr (dr_lines d)"
proof -
  define w where "w = (if basis = ITEMISED then Some (compositionFor (dc_groups state) ls) else None)"
  obtain iv where a: "allocatePayment state paid w = Inr (iv, rem)"
    and b: "and_then (if basis = AGGREGATE then Inr (aggregateLine iv tn) else itemLines iv state ls) (\<lambda>lines.
        Inr (\<lparr>dr_basis = basis, dr_lines = lines,
              dr_taxes = map tax_of (filter (\<lambda>g. bg_base g > 0 \<or> bg_vat g > 0) (iv_groups iv)),
              dr_subtotal = sum_list (map bg_base (iv_groups iv)), dr_vat = sum_list (map bg_vat (iv_groups iv)),
              dr_service = iv_service iv, dr_total = iv_total iv\<rparr>, rem)) = Inr (d, rem)" and le: "paid \<le> outstandingOf state"
    using assms(1) unfolding buildDraft_def w_def[symmetric] by (auto simp: result_simps split: if_splits)
  have "declares state paid iv rem" using allocatePayment_result[OF assms(2,3) le, of w] a by auto
  thus thesis using b by (cases "basis = AGGREGATE") (auto simp: result_simps intro: that)
qed

lemma sum_positive_part:
  assumes "\<And>g. g \<in> set gs \<Longrightarrow> 0 \<le> bg_base g \<and> 0 \<le> bg_vat g"
  shows "sum_list (map dt_base (map tax_of (filter (\<lambda>g. bg_base g > 0 \<or> bg_vat g > 0) gs))) = sum_list (map bg_base gs)"
    "sum_list (map dt_vat (map tax_of (filter (\<lambda>g. bg_base g > 0 \<or> bg_vat g > 0) gs))) = sum_list (map bg_vat gs)"
proof -
  have "bg_base g = 0 \<and> bg_vat g = 0" if "g \<in> set gs" "\<not> (bg_base g > 0 \<or> bg_vat g > 0)" for g
    using assms[OF that(1)] that(2) by simp
  thus "sum_list (map dt_base (map tax_of (filter (\<lambda>g. bg_base g > 0 \<or> bg_vat g > 0) gs))) = sum_list (map bg_base gs)"
    "sum_list (map dt_vat (map tax_of (filter (\<lambda>g. bg_base g > 0 \<or> bg_vat g > 0) gs))) = sum_list (map bg_vat gs)"
    by (induction gs) (auto simp: tax_of_def)
qed

lemma declares_groups:
  assumes "declares state paid iv rem" "well_stocked state"
  shows "\<And>g. g \<in> set (iv_groups iv) \<Longrightarrow> 0 \<le> bg_base g \<and> 0 \<le> bg_vat g"
    "i < length (dc_groups state) \<Longrightarrow> bag_total (dc_groups state ! i) \<le> 0 \<Longrightarrow> bg_base (iv_groups iv ! i) = 0 \<and> bg_vat (iv_groups iv ! i) = 0"
    "map bg_vat_bps (iv_groups iv) = map bg_vat_bps (dc_groups state)"
proof -
  have len: "length (iv_groups iv) = length (dc_groups state)" using assms(1) by (simp add: declares_def)
  have each: "bg_vat_bps (iv_groups iv ! i) = bg_vat_bps (dc_groups state ! i) \<and> 0 \<le> bg_base (iv_groups iv ! i)
      \<and> bg_base (iv_groups iv ! i) \<le> bg_base (dc_groups state ! i) \<and> 0 \<le> bg_vat (iv_groups iv ! i)
      \<and> bg_vat (iv_groups iv ! i) \<le> bg_vat (dc_groups state ! i)" if "i < length (dc_groups state)" for i
  proof -
    have "(dc_groups state ! i, iv_groups iv ! i) \<in> set (zip (dc_groups state) (iv_groups iv))"
      using that len by (auto simp: set_zip)
    thus ?thesis using assms(1) unfolding declares_def by blast
  qed
  show "0 \<le> bg_base g \<and> 0 \<le> bg_vat g" if "g \<in> set (iv_groups iv)" for g
    using that each len by (auto simp: in_set_conv_nth)
  show "bg_base (iv_groups iv ! i) = 0 \<and> bg_vat (iv_groups iv ! i) = 0"
    if "i < length (dc_groups state)" "bag_total (dc_groups state ! i) \<le> 0" for i
  proof -
    have "dc_groups state ! i \<in> set (dc_groups state)" using that(1) by simp
    hence "0 \<le> bg_base (dc_groups state ! i)" "0 \<le> bg_vat (dc_groups state ! i)" using assms(2) by (auto simp: well_stocked_def)
    thus ?thesis using each[OF that(1)] that(2) by (simp add: bag_total_def)
  qed
  show "map bg_vat_bps (iv_groups iv) = map bg_vat_bps (dc_groups state)"
    using each len by (auto simp: list_eq_iff_nth_eq)
qed

lemma sum_bag_total: "sum_list (map bag_total gs) = sum_list (map bg_base gs) + sum_list (map bg_vat gs)"
  by (induction gs) (simp_all add: bag_total_def)

text \<open>C37: A draft whose lines cover the rates of the bill declares exactly the amount paid:
  subtotal, VAT and service add up to the total, the lines and the taxes each add up to the
  subtotal and the VAT, no rate appears twice, no line is negative or of quantity zero, and
  the rest stays outstanding.\<close>

lemma draft_adds_up:
  assumes "buildDraft state paid basis ls tn = Inr (d, rem)" "well_stocked state" "0 \<le> paid"
    and "distinct (map bg_vat_bps (dc_groups state))"
    and "basis = AGGREGATE \<or> (\<forall>g \<in> set (dc_groups state). 0 < bag_total g \<longrightarrow> bg_vat_bps g \<in> sl_vat ` set ls)"
  shows "dr_total d = paid \<and> dr_total d = dr_subtotal d + dr_vat d + dr_service d
     \<and> 0 \<le> dr_subtotal d \<and> 0 \<le> dr_vat d \<and> 0 \<le> dr_service d
     \<and> sum_list (map dl_base (dr_lines d)) = dr_subtotal d \<and> sum_list (map dl_vat (dr_lines d)) = dr_vat d
     \<and> sum_list (map dt_base (dr_taxes d)) = dr_subtotal d \<and> sum_list (map dt_vat (dr_taxes d)) = dr_vat d
     \<and> distinct (map dt_vat_bps (dr_taxes d)) \<and> (\<forall>l \<in> set (dr_lines d). sound_line l)
     \<and> outstandingOf rem = outstandingOf state - paid"
proof -
  obtain iv where D: "declares state paid iv rem" and d: "dr_subtotal d = sum_list (map bg_base (iv_groups iv))"
      "dr_vat d = sum_list (map bg_vat (iv_groups iv))" "dr_service d = iv_service iv" "dr_total d = iv_total iv"
      "dr_taxes d = map tax_of (filter (\<lambda>g. bg_base g > 0 \<or> bg_vat g > 0) (iv_groups iv))"
    and ln: "basis = AGGREGATE \<and> dr_lines d = aggregateLine iv tn \<or> basis \<noteq> AGGREGATE \<and> itemLines iv state ls = Inr (dr_lines d)"
    by (rule buildDraft_InrD[OF assms(1-3)])
  note G = declares_groups[OF D assms(2)]
  have len: "length (iv_groups iv) = length (dc_groups state)" using D by (simp add: declares_def)
  have nn: "0 \<le> dr_subtotal d" "0 \<le> dr_vat d" using G(1) d by (auto intro: sum_list_map_nonneg)
  have lines: "sum_list (map dl_base (dr_lines d)) = dr_subtotal d \<and> sum_list (map dl_vat (dr_lines d)) = dr_vat d
      \<and> (\<forall>l \<in> set (dr_lines d). sound_line l)"
  proof (cases "basis = AGGREGATE")
    case True
    thus ?thesis using ln nn d by (auto simp: aggregateLine_def Let_def sound_line_def)
  next
    case False
    hence il: "itemLines iv state ls = Inr (dr_lines d)" using ln by simp
    have z: "bg_base (iv_groups iv ! i) = 0 \<and> bg_vat (iv_groups iv ! i) = 0"
      if "i < length (dc_groups state)" "bg_vat_bps (dc_groups state ! i) \<notin> sl_vat ` set ls" for i
    proof -
      have "dc_groups state ! i \<in> set (dc_groups state)" using that(1) by simp
      hence "bag_total (dc_groups state ! i) \<le> 0" using assms(5) False that(2) by (metis not_le)
      thus ?thesis using G(2)[OF that(1)] by simp
    qed
    show ?thesis unfolding itemLines_facts(1,2)[OF il] d(1,2)
      using rates_cover[OF assms(4) len, of "sl_vat ` set ls"] z itemLines_facts(3)[OF il] by auto
  qed
  have "iv_total iv = dr_subtotal d + dr_vat d + dr_service d" "iv_total iv = paid" "0 \<le> iv_service iv"
    using D by (simp_all add: declares_def d sum_bag_total)
  moreover have "distinct (map dt_vat_bps (dr_taxes d))"
  proof -
    have "map dt_vat_bps (dr_taxes d) = map bg_vat_bps (filter (\<lambda>g. bg_base g > 0 \<or> bg_vat g > 0) (iv_groups iv))"
      by (simp add: d(5) tax_of_def comp_def)
    thus ?thesis using assms(4) G(3) distinct_map_filter by metis
  qed
  ultimately show ?thesis
    using lines nn sum_positive_part[OF G(1)] declares_next(2)[OF assms(2) D] d by simp
qed

lemma draft_adds_up_witness:
  "\<exists>d rem. buildDraft two_rates 450 PRORATED
       [\<lparr>sl_item = 1, sl_name = ''Arepa'', sl_quantity = 2, sl_unit_price = 150, sl_subtotal = 300, sl_category = EXEMPT,
         sl_vat = 0, sl_share = 300, sl_full = 300\<rparr>,
        \<lparr>sl_item = 2, sl_name = ''Malta'', sl_quantity = 1, sl_unit_price = 500, sl_subtotal = 500, sl_category = TAXABLE,
         sl_vat = 1600, sl_share = 500, sl_full = 500\<rparr>] None = Inr (d, rem)
     \<and> dr_total d = 450 \<and> sum_list (map dl_base (dr_lines d)) = dr_subtotal d \<and> outstandingOf rem = 450"
proof -
  let ?ls = "[\<lparr>sl_item = 1, sl_name = ''Arepa'', sl_quantity = 2, sl_unit_price = 150, sl_subtotal = 300, sl_category = EXEMPT,
         sl_vat = 0, sl_share = 300, sl_full = 300\<rparr>,
        \<lparr>sl_item = 2, sl_name = ''Malta'', sl_quantity = 1, sl_unit_price = 500, sl_subtotal = 500, sl_category = TAXABLE,
         sl_vat = 1600, sl_share = 500, sl_full = 500\<rparr>]"
  have "isr (buildDraft two_rates 450 PRORATED ?ls None)" by code_simp
  then obtain d rem where r: "buildDraft two_rates 450 PRORATED ?ls None = Inr (d, rem)" by (auto dest: isr_pair)
  have "well_stocked two_rates" "distinct (map bg_vat_bps (dc_groups two_rates))" "outstandingOf two_rates = 900"
    by (simp_all add: well_stocked_def two_rates_def outstandingOf_def bag_total_def)
  thus ?thesis using draft_adds_up[OF r] r by (auto simp: two_rates_def)
qed

end
