(* ===== verification/Fiscal_Numbering.thy ===== *)
theory Fiscal_Numbering
  imports Prelude
begin

text \<open>
  The numbers of a fiscal document: src/services/fiscalNumbering.js.  Each restaurant
  has an authorised series and two counters, one for control numbers and one per class of
  document.  The lemmas show that successive documents take consecutive numbers, that no
  number is handed out twice or outside the authorised range, and that a series that has
  numbered something cannot be rewritten so as to contradict it.
\<close>

record fiscal_series =
  fs_restaurant :: nat
  fs_control_prefix :: string
  fs_document_prefix :: string
  fs_pad_to :: nat
  fs_control_first :: int
  fs_control_last :: "int option"
  fs_authorisation :: "string option"

record fiscal_counter =
  fc_restaurant :: nat
  fc_scope :: string
  fc_next :: int

record numbering =
  nb_series :: "fiscal_series table"
  nb_counters :: "fiscal_counter table"

definition CONTROL :: string where "CONTROL = ''CONTROL''"

definition counter_of :: "nat \<Rightarrow> string \<Rightarrow> fiscal_counter \<Rightarrow> bool" where
  "counter_of rid scope c \<longleftrightarrow> fc_restaurant c = rid \<and> fc_scope c = scope"

definition next_value :: "nat \<Rightarrow> string \<Rightarrow> numbering \<Rightarrow> int option" where
  "next_value rid scope b = map_option fc_next (find_by (counter_of rid scope) (nb_counters b))"

text \<open>INSERT ... ON CONFLICT DO NOTHING, then SELECT ... FOR UPDATE.\<close>

definition takeCounter :: "nat \<Rightarrow> string \<Rightarrow> int \<Rightarrow> numbering \<Rightarrow> int \<times> numbering" where
  "takeCounter rid scope startAt b =
     (case next_value rid scope b of
        Some v \<Rightarrow> (v, b)
      | None \<Rightarrow> (startAt, b\<lparr>nb_counters := insert_row \<lparr>fc_restaurant = rid, fc_scope = scope, fc_next = startAt\<rparr>
                                        (nb_counters b)\<rparr>))"

definition bumpCounter :: "nat \<Rightarrow> string \<Rightarrow> int \<Rightarrow> numbering \<Rightarrow> numbering" where
  "bumpCounter rid scope v b =
     b\<lparr>nb_counters := update_where (counter_of rid scope) (\<lambda>c. c\<lparr>fc_next := v\<rparr>) (nb_counters b)\<rparr>"

definition format :: "string \<Rightarrow> int \<Rightarrow> nat \<Rightarrow> string" where
  "format prefix value padTo =
     (let digits = show_int value in prefix @ replicate (padTo - length digits) (CHR ''0'') @ digits)"

definition series_of :: "nat \<Rightarrow> numbering \<Rightarrow> fiscal_series option" where
  "series_of rid b = find_by (\<lambda>s. fs_restaurant s = rid) (nb_series b)"

record document_numbers =
  dn_control :: string
  dn_document :: string

definition allocate_numbers :: "nat \<Rightarrow> string \<Rightarrow> numbering \<Rightarrow> error + document_numbers \<times> numbering" where
  "allocate_numbers rid documentType b =
     (case series_of rid b of
        None \<Rightarrow> Inl (Fiscal_E Fiscal_Series_Missing)
      | Some s \<Rightarrow>
          let (control, b1) = takeCounter rid CONTROL (fs_control_first s) b in
          if (case fs_control_last s of None \<Rightarrow> False | Some l \<Rightarrow> control > l)
          then Inl (Fiscal_E (Fiscal_Range_Exhausted (the (fs_control_last s)) control))
          else
            let (document, b2) = takeCounter rid documentType 1 b1;
                b3 = bumpCounter rid CONTROL (control + 1) b2;
                b4 = bumpCounter rid documentType (document + 1) b3
            in Inr (\<lparr>dn_control = format (fs_control_prefix s) control (fs_pad_to s),
                     dn_document = format (fs_document_prefix s) document (fs_pad_to s)\<rparr>, b4))"

definition readSeries :: "nat \<Rightarrow> numbering \<Rightarrow> (fiscal_series \<times> int option) option" where
  "readSeries rid b = map_option (\<lambda>s. (s, next_value rid CONTROL b)) (series_of rid b)"

text \<open>\<open>next\<close> names its own restaurant; \<open>known\<close> is the foreign key to restaurants.\<close>

definition writeSeries :: "bool \<Rightarrow> nat \<Rightarrow> fiscal_series \<Rightarrow> numbering \<Rightarrow> error + (fiscal_series \<times> int option) option \<times> numbering" where
  "writeSeries known rid nxt b =
     (case readSeries rid b of
        Some (cur, Some control_next) \<Rightarrow>
          if fs_control_prefix nxt \<noteq> fs_control_prefix cur \<or> fs_document_prefix nxt \<noteq> fs_document_prefix cur
             \<or> fs_pad_to nxt \<noteq> fs_pad_to cur \<or> fs_control_first nxt \<noteq> fs_control_first cur
          then Inl (Fiscal_E Fiscal_Series_Locked)
          else if (case fs_control_last nxt of None \<Rightarrow> False | Some l \<Rightarrow> l < control_next - 1)
          then Inl (Fiscal_E Fiscal_Series_Locked)
          else
            let b' = b\<lparr>nb_series := update_where (\<lambda>s. fs_restaurant s = rid)
                        (\<lambda>s. nxt\<lparr>fs_restaurant := rid\<rparr>) (nb_series b)\<rparr>
            in Inr (readSeries rid b', b')
      | Some (cur, None) \<Rightarrow>
          let b' = b\<lparr>nb_series := update_where (\<lambda>s. fs_restaurant s = rid)
                      (\<lambda>s. nxt\<lparr>fs_restaurant := rid\<rparr>) (nb_series b)\<rparr>
          in Inr (readSeries rid b', b')
      | None \<Rightarrow>
          if \<not> known then Inl (General (Db_Check ''fiscal_series_restaurant_fk''))
          else
            let b' = b\<lparr>nb_series := insert_row (nxt\<lparr>fs_restaurant := rid\<rparr>) (nb_series b)\<rparr>
            in Inr (readSeries rid b', b'))"

section \<open>The counters\<close>

lemma find_bump:
  "find_by (counter_of r s) (update_where (counter_of rid scope) (\<lambda>c. c\<lparr>fc_next := v\<rparr>) t)
     = map_option (\<lambda>c. if r = rid \<and> s = scope then c\<lparr>fc_next := v\<rparr> else c) (find_by (counter_of r s) t)"
  by (induction t) (auto simp: find_by_def update_where_def counter_of_def)

lemma next_bump:
  "next_value r s (bumpCounter rid scope v b)
     = (if r = rid \<and> s = scope \<and> next_value rid scope b \<noteq> None then Some v else next_value r s b)"
  by (cases "r = rid \<and> s = scope"; cases "find_by (counter_of r s) (nb_counters b)")
    (auto simp: next_value_def bumpCounter_def find_bump)

lemma next_take:
  assumes "takeCounter rid scope startAt b = (v, b')"
  shows "v = (case next_value rid scope b of Some x \<Rightarrow> x | None \<Rightarrow> startAt)"
    "next_value rid scope b' = Some v"
    "(r, s) \<noteq> (rid, scope) \<Longrightarrow> next_value r s b' = next_value r s b"
    "nb_series b' = nb_series b"
  using assms
  by (auto simp: takeCounter_def next_value_def find_by_insert counter_of_def split: option.splits)

text \<open>The next control number: where the counter stands, or the first of the series.\<close>

definition upcoming :: "nat \<Rightarrow> string \<Rightarrow> int \<Rightarrow> numbering \<Rightarrow> int" where
  "upcoming rid scope startAt b = (case next_value rid scope b of Some v \<Rightarrow> v | None \<Rightarrow> startAt)"

lemma allocate_numbers_InrD:
  assumes "allocate_numbers rid ty b = Inr (d, b')" "ty \<noteq> CONTROL"
  obtains s where "series_of rid b = Some s" "series_of rid b' = Some s"
    "dn_control d = format (fs_control_prefix s) (upcoming rid CONTROL (fs_control_first s) b) (fs_pad_to s)"
    "dn_document d = format (fs_document_prefix s) (upcoming rid ty 1 b) (fs_pad_to s)"
    "next_value rid CONTROL b' = Some (upcoming rid CONTROL (fs_control_first s) b + 1)"
    "next_value rid ty b' = Some (upcoming rid ty 1 b + 1)"
    "case fs_control_last s of None \<Rightarrow> True | Some l \<Rightarrow> upcoming rid CONTROL (fs_control_first s) b \<le> l"
    "\<And>r s. r \<noteq> rid \<Longrightarrow> next_value r s b' = next_value r s b"
proof -
  obtain s where s: "series_of rid b = Some s" using assms(1) by (auto simp: allocate_numbers_def split: option.splits)
  obtain control b1 where c: "takeCounter rid CONTROL (fs_control_first s) b = (control, b1)" by force
  obtain document b2 where t: "takeCounter rid ty 1 b1 = (document, b2)" by force
  note C = next_take[OF c] and T = next_take[OF t]
  have r: "d = \<lparr>dn_control = format (fs_control_prefix s) control (fs_pad_to s),
                dn_document = format (fs_document_prefix s) document (fs_pad_to s)\<rparr>
     \<and> b' = bumpCounter rid ty (document + 1) (bumpCounter rid CONTROL (control + 1) b2)
     \<and> \<not> (case fs_control_last s of None \<Rightarrow> False | Some l \<Rightarrow> control > l)"
    using assms(1) s c t by (auto simp: allocate_numbers_def Let_def split: if_splits)
  have cv: "control = upcoming rid CONTROL (fs_control_first s) b" using C(1) by (simp add: upcoming_def)
  have dv: "document = upcoming rid ty 1 b" using T(1) C(3)[of rid ty] assms(2) by (simp add: upcoming_def)
  have k: "next_value rid CONTROL b2 = Some control" using T(3)[of rid CONTROL] C(2) assms(2) by simp
  show thesis
  proof (rule that[OF s])
    show "series_of rid b' = Some s" using r s C(4) T(4) by (simp add: series_of_def bumpCounter_def)
    show "next_value rid CONTROL b' = Some (upcoming rid CONTROL (fs_control_first s) b + 1)"
      using r k cv assms(2) by (simp add: next_bump)
    show "next_value rid ty b' = Some (upcoming rid ty 1 b + 1)"
      using r T(2) dv assms(2) by (simp add: next_bump)
    show "case fs_control_last s of None \<Rightarrow> True | Some l \<Rightarrow> upcoming rid CONTROL (fs_control_first s) b \<le> l"
      using r cv by (auto split: option.splits)
    show "\<And>r s. r \<noteq> rid \<Longrightarrow> next_value r s b' = next_value r s b"
      using r C(3) T(3) by (simp add: next_bump)
  qed (use r cv dv in simp_all)
qed

section \<open>A printed number names one number\<close>

lemma read_zeros: "read_nat (replicate k (CHR ''0'') @ s) = read_nat s"
proof -
  have "foldl (\<lambda>acc c. 10 * acc + digit_val c) 0 (replicate k (CHR ''0'') @ s) = foldl (\<lambda>acc c. 10 * acc + digit_val c) 0 s"
    by (induction k) (auto simp: digit_val_def)
  thus ?thesis by (simp add: read_nat_def)
qed

lemma format_inj:
  assumes "0 \<le> v" "0 \<le> w" "format p v k = format p w k"
  shows "v = w"
proof -
  have "read_nat (drop (length p) (format p v k)) = nat v" "read_nat (drop (length p) (format p w k)) = nat w"
    using assms(1,2) by (simp_all add: format_def Let_def show_int_def read_zeros)
  thus ?thesis using assms by simp
qed

section \<open>A run of documents\<close>

fun issue_run :: "nat \<Rightarrow> string \<Rightarrow> nat \<Rightarrow> numbering \<Rightarrow> error + document_numbers list \<times> numbering" where
  "issue_run rid ty 0 b = Inr ([], b)"
| "issue_run rid ty (Suc n) b =
     and_then (allocate_numbers rid ty b) (\<lambda>(d, b1).
     and_then (issue_run rid ty n b1) (\<lambda>(ds, b2). Inr (d # ds, b2)))"

lemma upto_Suc_shift: "map (\<lambda>i. x + int i) [0..<Suc n] = x # map (\<lambda>i. (x + 1) + int i) [0..<n]"
  by (simp add: upt_conv_Cons map_Suc_upt[symmetric] comp_def del: upt_Suc)

lemma issue_run_consecutive:
  assumes "issue_run rid ty n b = Inr (ds, b')" "ty \<noteq> CONTROL" "series_of rid b = Some s"
  shows "map dn_control ds = map (\<lambda>i. format (fs_control_prefix s)
            (upcoming rid CONTROL (fs_control_first s) b + int i) (fs_pad_to s)) [0..<n]
    \<and> map dn_document ds = map (\<lambda>i. format (fs_document_prefix s) (upcoming rid ty 1 b + int i) (fs_pad_to s)) [0..<n]
    \<and> (0 < n \<longrightarrow> (case fs_control_last s of None \<Rightarrow> True
         | Some l \<Rightarrow> upcoming rid CONTROL (fs_control_first s) b + int n - 1 \<le> l))"
  using assms(1,3)
proof (induction n arbitrary: b ds)
  case (Suc n)
  obtain d b1 es where d: "allocate_numbers rid ty b = Inr (d, b1)" and r: "issue_run rid ty n b1 = Inr (es, b')"
    and ds: "ds = d # es"
    using Suc.prems(1) by (auto simp: result_simps)
  obtain s0 where A: "series_of rid b = Some s0" "series_of rid b1 = Some s0"
    "dn_control d = format (fs_control_prefix s0) (upcoming rid CONTROL (fs_control_first s0) b) (fs_pad_to s0)"
    "dn_document d = format (fs_document_prefix s0) (upcoming rid ty 1 b) (fs_pad_to s0)"
    "next_value rid CONTROL b1 = Some (upcoming rid CONTROL (fs_control_first s0) b + 1)"
    "next_value rid ty b1 = Some (upcoming rid ty 1 b + 1)"
    "case fs_control_last s0 of None \<Rightarrow> True | Some l \<Rightarrow> upcoming rid CONTROL (fs_control_first s0) b \<le> l"
    using d assms(2) by (rule allocate_numbers_InrD)
  have s0: "s0 = s" using A(1) Suc.prems(2) by simp
  have up: "upcoming rid CONTROL (fs_control_first s) b1 = upcoming rid CONTROL (fs_control_first s) b + 1"
    "upcoming rid ty 1 b1 = upcoming rid ty 1 b + 1"
    using A(5,6) s0 by (simp_all add: upcoming_def)
  have sh: "map (\<lambda>i. g (x + int i)) [0..<Suc n] = g x # map (\<lambda>i. g ((x + 1) + int i)) [0..<n]" for g :: "int \<Rightarrow> string" and x
  proof -
    have "map (\<lambda>i. g (x + int i)) [0..<Suc n] = map g (map (\<lambda>i. x + int i) [0..<Suc n])" by simp
    thus ?thesis unfolding upto_Suc_shift by simp
  qed
  have last: "0 < Suc n \<longrightarrow> (case fs_control_last s of None \<Rightarrow> True
         | Some l \<Rightarrow> upcoming rid CONTROL (fs_control_first s) b + int (Suc n) - 1 \<le> l)"
    using Suc.IH[OF r] A(2,7) s0 up by (cases n) (auto split: option.splits)
  note shc = sh[of "\<lambda>v. format (fs_control_prefix s) v (fs_pad_to s)" "upcoming rid CONTROL (fs_control_first s) b"]
    and shd = sh[of "\<lambda>v. format (fs_document_prefix s) v (fs_pad_to s)" "upcoming rid ty 1 b"]
  have s1: "series_of rid b1 = Some s" using A(2) s0 by simp
  have tails: "map dn_control es = map (\<lambda>i. format (fs_control_prefix s)
          ((upcoming rid CONTROL (fs_control_first s) b + 1) + int i) (fs_pad_to s)) [0..<n]"
    "map dn_document es = map (\<lambda>i. format (fs_document_prefix s) ((upcoming rid ty 1 b + 1) + int i) (fs_pad_to s)) [0..<n]"
    using Suc.IH[OF r s1] up by simp_all
  show ?case unfolding shc shd ds list.map tails A(3,4) s0 using last by blast
qed simp

section \<open>What numbering promises\<close>

lemma document_numbers_are_consecutive:
  assumes "issue_run rid ty n b = Inr (ds, b')" "ty \<noteq> CONTROL" "series_of rid b = Some s"
    and "0 \<le> upcoming rid CONTROL (fs_control_first s) b"
  shows "map dn_control ds = map (\<lambda>i. format (fs_control_prefix s)
            (upcoming rid CONTROL (fs_control_first s) b + int i) (fs_pad_to s)) [0..<n]
    \<and> map dn_document ds = map (\<lambda>i. format (fs_document_prefix s) (upcoming rid ty 1 b + int i) (fs_pad_to s)) [0..<n]
    \<and> distinct (map dn_control ds)
    \<and> (case fs_control_last s of None \<Rightarrow> True
         | Some l \<Rightarrow> 0 < n \<longrightarrow> upcoming rid CONTROL (fs_control_first s) b + int n - 1 \<le> l)"
proof -
  note I = issue_run_consecutive[OF assms(1-3)]
  have "distinct (map (\<lambda>i. format (fs_control_prefix s)
            (upcoming rid CONTROL (fs_control_first s) b + int i) (fs_pad_to s)) [0..<n])"
    unfolding distinct_map using assms(4) by (auto intro!: inj_onI dest: format_inj[rotated 2])
  thus ?thesis using I by (auto split: option.splits)
qed

definition imprenta :: numbering where
  "imprenta = \<lparr>nb_series = [\<lparr>fs_restaurant = 7, fs_control_prefix = ''00-'', fs_document_prefix = ''A'', fs_pad_to = 4,
      fs_control_first = 8, fs_control_last = Some 20, fs_authorisation = None\<rparr>], nb_counters = []\<rparr>"

lemma document_numbers_are_consecutive_witness:
  "\<exists>ds b'. issue_run 7 ''FACTURA'' 3 imprenta = Inr (ds, b') \<and> map dn_control ds = [''00-0008'', ''00-0009'', ''00-0010'']
     \<and> distinct (map dn_control ds)"
proof -
  have "(case issue_run 7 ''FACTURA'' 3 imprenta of Inl e \<Rightarrow> False
      | Inr (ds, b') \<Rightarrow> map dn_control ds = [''00-0008'', ''00-0009'', ''00-0010''])" by code_simp
  then obtain ds b' where r: "issue_run 7 ''FACTURA'' 3 imprenta = Inr (ds, b')"
    "map dn_control ds = [''00-0008'', ''00-0009'', ''00-0010'']" by (auto split: sum.splits)
  have c: "''FACTURA'' \<noteq> CONTROL" by (simp add: CONTROL_def)
  have s: "series_of 7 imprenta = Some (hd (nb_series imprenta))" by code_simp
  have u: "0 \<le> upcoming 7 CONTROL (fs_control_first (hd (nb_series imprenta))) imprenta" by code_simp
  show ?thesis using document_numbers_are_consecutive[OF r(1) c s u] r by (intro exI conjI) blast+
qed

lemma numbered_series_is_locked:
  assumes "allocate_numbers rid ty b = Inr (d, b1)" "ty \<noteq> CONTROL" "series_of rid b = Some s"
    and "writeSeries known rid nxt b1 = Inr (r, b2)"
  shows "\<exists>s'. series_of rid b2 = Some s' \<and> fs_control_prefix s' = fs_control_prefix s
     \<and> fs_document_prefix s' = fs_document_prefix s \<and> fs_pad_to s' = fs_pad_to s \<and> fs_control_first s' = fs_control_first s
     \<and> (\<forall>l. fs_control_last s' = Some l \<longrightarrow> upcoming rid CONTROL (fs_control_first s) b \<le> l)
     \<and> nb_counters b2 = nb_counters b1"
proof -
  obtain s0 where A: "series_of rid b = Some s0" "series_of rid b1 = Some s0"
    "next_value rid CONTROL b1 = Some (upcoming rid CONTROL (fs_control_first s0) b + 1)"
    using assms(1,2) by (rule allocate_numbers_InrD) blast
  have s0: "s0 = s" using A(1) assms(3) by simp
  have rs: "readSeries rid b1 = Some (s, Some (upcoming rid CONTROL (fs_control_first s) b + 1))"
    using A(2,3) s0 by (simp add: readSeries_def)
  have ok: "fs_control_prefix nxt = fs_control_prefix s" "fs_document_prefix nxt = fs_document_prefix s"
     "fs_pad_to nxt = fs_pad_to s" "fs_control_first nxt = fs_control_first s"
     "\<forall>l. fs_control_last nxt = Some l \<longrightarrow> upcoming rid CONTROL (fs_control_first s) b \<le> l"
     "b2 = b1\<lparr>nb_series := update_where (\<lambda>s. fs_restaurant s = rid) (\<lambda>s. nxt\<lparr>fs_restaurant := rid\<rparr>) (nb_series b1)\<rparr>"
    using assms(4) rs by (auto simp: writeSeries_def Let_def split: if_splits option.splits)
  have "series_of rid b2 = Some (nxt\<lparr>fs_restaurant := rid\<rparr>)"
    unfolding ok(6) series_of_def
    by simp (rule find_by_hit[OF A(2)[unfolded series_of_def]], simp)
  thus ?thesis using ok by simp
qed


lemma numbered_series_is_locked_witness:
  "\<exists>d b1 r b2. allocate_numbers 7 ''FACTURA'' imprenta = Inr (d, b1)
     \<and> writeSeries True 7 (hd (nb_series imprenta)\<lparr>fs_control_last := Some 30\<rparr>) b1 = Inr (r, b2) \<and> nb_counters b2 = nb_counters b1"
proof -
  let ?n = "hd (nb_series imprenta)\<lparr>fs_control_last := Some 30\<rparr>"
  have "(case allocate_numbers 7 ''FACTURA'' imprenta of Inl e \<Rightarrow> False | Inr (d, b1) \<Rightarrow> isr (writeSeries True 7 ?n b1))"
    by code_simp
  then obtain d b1 where d: "allocate_numbers 7 ''FACTURA'' imprenta = Inr (d, b1)" "isr (writeSeries True 7 ?n b1)"
    by (auto split: sum.splits)
  then obtain r b2 where w: "writeSeries True 7 ?n b1 = Inr (r, b2)" by (auto dest: isr_pair)
  have c: "''FACTURA'' \<noteq> CONTROL" by (simp add: CONTROL_def)
  have s: "series_of 7 imprenta = Some (hd (nb_series imprenta))" by code_simp
  show ?thesis using numbered_series_is_locked[OF d(1) c s w] d w by blast
qed

end
