(* ===== verification/Fiscal_Documents.thy ===== *)
theory Fiscal_Documents
  imports Fiscal_Draft Fiscal_Numbering Bill_Splits Bank_Match
begin

text \<open>
  Issuing the invoice of a payment: services/fiscalInvoicing.js, the outcomes of
  fiscal/providers/index.js and the delivery row of services/fiscalMail.js, over the
  tables of migrations 039, 041, 044 and 045.  The bill, its lines, the payment and its
  share are read from the \<open>store\<close>; what is written lives in \<open>fiscal_books\<close>.

  A call of \<open>issueForPayment\<close> is three transactions (prepare, mark as sent, record), and
  each is a definition, so that calls can interleave.  The adapter of the authorised
  printer is not under src/: it is a pair of functions, and whatever they answer or throw
  is one of the values of \<open>adapter_reply\<close>.  Issuing times and the identifiers the
  printer keeps for itself are left out.
\<close>

section \<open>State\<close>

datatype request_status = Rq_Pending | Rq_Sent | Rq_Issued | Rq_Failed | Rq_Uncertain

record fiscal_request =
  rq_id :: nat
  rq_restaurant :: nat
  rq_bill :: nat
  rq_payment :: nat
  rq_state :: request_status
  rq_key :: string
  rq_provider :: string
  rq_attempts :: nat
  rq_error :: "string option"
  rq_draft :: "stored_draft option"

record customer =
  cu_name :: "string option"
  cu_tax_id :: "string option"
  cu_email :: "string option"

record fiscal_invoice =
  in_id :: nat
  in_restaurant :: nat
  in_request :: nat
  in_bill :: nat
  in_payment :: nat
  in_numbers :: document_numbers
  in_provider :: string
  in_draft :: draft
  in_rate :: "string option"
  in_customer :: customer

datatype mail_status = Mail_Pending | Mail_Sent | Mail_Failed

record fiscal_delivery =
  fd_id :: nat
  fd_restaurant :: nat
  fd_invoice :: nat
  fd_email :: string
  fd_state :: mail_status
  fd_attempts :: nat

record fiscal_books =
  fb_rifs :: "(nat \<times> string option) table"
  fb_requests :: "fiscal_request table"
  fb_invoices :: "fiscal_invoice table"
  fb_deliveries :: "fiscal_delivery table"
  fb_numbering :: numbering
  fb_next :: nat

type_synonym 'a btx = "fiscal_books \<Rightarrow> error + 'a \<times> fiscal_books"

section \<open>The printer's answers\<close>

datatype adapter_reply =
    Says_Issued document_numbers
  | Says_Rejected "string option"
  | Says_Uncertain "string option"
  | Says_Something_Else
  | Throws "string option" "nat option"

datatype provider_result =
    Result_Issued document_numbers | Result_Rejected "string option" | Result_Uncertain "string option"

definition fiscal_indeterminate :: "nat \<Rightarrow> bool" where
  "fiscal_indeterminate status = (status \<in> {408, 425, 429} \<or> 500 \<le> status \<and> status \<le> 599)"

definition assertIssued :: "document_numbers \<Rightarrow> bool" where
  "assertIssued ns \<longleftrightarrow> trim (dn_document ns) \<noteq> [] \<and> trim (dn_control ns) \<noteq> []"

text \<open>\<open>issue\<close>: whatever is thrown without a decision of the printer is uncertain; an
  \<open>ISSUED\<close> without numbers throws a 502.\<close>

fun provider_issue :: "adapter_reply \<Rightarrow> provider_result" where
  "provider_issue (Says_Issued ns) =
     (if assertIssued ns then Result_Issued ns else Result_Uncertain (Some ''FISCAL_PROVIDER_CONTRACT''))"
| "provider_issue (Says_Rejected r) = Result_Rejected r"
| "provider_issue (Says_Uncertain r) = Result_Uncertain r"
| "provider_issue Says_Something_Else = Result_Uncertain (Some ''ADAPTER_BAD_OUTCOME'')"
| "provider_issue (Throws code status) =
     (if (case status of None \<Rightarrow> True | Some s \<Rightarrow> fiscal_indeterminate s)
      then Result_Uncertain (Some (case code of None \<Rightarrow> ''PROVIDER_UNREACHABLE'' | Some c \<Rightarrow> c))
      else Result_Rejected (Some (case code of None \<Rightarrow> ''PROVIDER_REJECTED'' | Some c \<Rightarrow> c)))"

fun provider_lookup :: "adapter_reply \<Rightarrow> provider_result" where
  "provider_lookup (Says_Issued ns) =
     (if assertIssued ns then Result_Issued ns else Result_Uncertain (Some ''FISCAL_PROVIDER_CONTRACT''))"
| "provider_lookup (Says_Rejected r) = Result_Rejected r"
| "provider_lookup (Says_Uncertain r) = Result_Uncertain r"
| "provider_lookup Says_Something_Else = Result_Uncertain (Some ''ADAPTER_BAD_OUTCOME'')"
| "provider_lookup (Throws code status) =
     Result_Uncertain (Some (case code of None \<Rightarrow> ''LOOKUP_UNAVAILABLE'' | Some c \<Rightarrow> c))"

text \<open>An adapter: asked to issue under a key, and asked about a key.\<close>

record adapter =
  ad_issue :: "string \<Rightarrow> draft \<Rightarrow> customer \<Rightarrow> adapter_reply"
  ad_lookup :: "string \<Rightarrow> adapter_reply"

section \<open>What is left to declare\<close>

definition declared_on :: "nat \<Rightarrow> fiscal_books \<Rightarrow> draft list" where
  "declared_on bid fb = map in_draft (select (\<lambda>i. in_bill i = bid) (fb_invoices fb))"

definition declared_at :: "(draft_tax \<Rightarrow> int) \<Rightarrow> int \<Rightarrow> draft list \<Rightarrow> int" where
  "declared_at f v ds = sum_list (map (\<lambda>d. sum_over (\<lambda>t. dt_vat_bps t = v) f (dr_taxes d)) ds)"

definition stateForBill :: "nat \<Rightarrow> nat \<Rightarrow> store \<Rightarrow> fiscal_books \<Rightarrow> error + bill \<times> bill_item list \<times> declarable" where
  "stateForBill rid bid st fb =
     (case get_bill rid bid st of
        None \<Rightarrow> Inl (Bill_E Bill_Not_Found)
      | Some b \<Rightarrow>
          let ls = lines_of bid st in
          and_then (stateFromLines ls (service_charge_minor b)) (\<lambda>s0.
          and_then (if bill_currency b \<noteq> ''VES'' then toVes s0 (total_due_ves b) else Inr s0) (\<lambda>s.
          let ds = declared_on bid fb in
          Inr (b, ls,
               \<lparr>dc_groups = map (\<lambda>g. \<lparr>bg_vat_bps = bg_vat_bps g,
                   bg_base = bg_base g - declared_at dt_base (bg_vat_bps g) ds,
                   bg_vat = bg_vat g - declared_at dt_vat (bg_vat_bps g) ds\<rparr>) (dc_groups s),
                dc_service = dc_service s - sum_list (map dr_service ds)\<rparr>))))"

section \<open>What this person claimed\<close>

definition whole_line :: "bill_item \<Rightarrow> source_line" where
  "whole_line i = \<lparr>sl_item = item_id i, sl_name = name_snapshot i, sl_quantity = quantity i,
     sl_unit_price = unit_price_minor i, sl_subtotal = item_subtotal i, sl_category = item_tax_category i,
     sl_vat = line_vat i, sl_share = item_subtotal i, sl_full = item_subtotal i\<rparr>"

definition claimants :: "nat \<Rightarrow> split_item list \<Rightarrow> nat" where
  "claimants i claims = length (filter (\<lambda>c. si_item c = i) claims)"

text \<open>A shared line: every claimant is given the first part of the division.\<close>

definition claimed_portion :: "nat \<Rightarrow> bill_item \<Rightarrow> error + int" where
  "claimed_portion n i =
     (if n > 1 then and_then (allocate (item_subtotal i) (replicate n 1)) (\<lambda>ps. Inr (hd ps))
      else Inr (item_subtotal i))"

definition claimedLines :: "payment \<Rightarrow> bill_item list \<Rightarrow> store
     \<Rightarrow> error + split_mode option \<times> int option \<times> source_line list option" where
  "claimedLines p ls st =
     (case split_participant_id p of
        None \<Rightarrow> Inr (None, None, None)
      | Some sid \<Rightarrow>
         (case find_by (\<lambda>s. share_id s = sid) (shares st) of
            None \<Rightarrow> Inr (None, None, None)
          | Some sh \<Rightarrow>
             (case find_by (\<lambda>s. split_id s = share_split sh) (splits st) of
                None \<Rightarrow> Inr (None, None, None)
              | Some sp \<Rightarrow>
                  if split_mode sp \<noteq> ITEMS then Inr (Some (split_mode sp), Some (share_amount_ves sh), None)
                  else
                    let claims = select (\<lambda>c. si_split c = share_split sh) (split_items st);
                        mine = filter (\<lambda>c. si_participant c = sid) claims;
                        rows = concat (map (\<lambda>c. case find_by (\<lambda>i. item_id i = si_item c) ls of
                                              None \<Rightarrow> [] | Some i \<Rightarrow> [i]) mine)
                    in and_then (map_ok (\<lambda>i. and_then (claimed_portion (claimants (item_id i) claims) i)
                                            (\<lambda>x. Inr ((whole_line i)\<lparr>sl_share := x\<rparr>))) rows) (\<lambda>claimed.
                       Inr (Some ITEMS, Some (share_amount_ves sh), Some claimed)))))"

section \<open>Preparing a request\<close>

definition sql_trim :: "string \<Rightarrow> string" where
  "sql_trim s = rev (dropWhile (\<lambda>c. c = CHR '' '') (rev (dropWhile (\<lambda>c. c = CHR '' '') s)))"

definition issuer_rif :: "nat \<Rightarrow> fiscal_books \<Rightarrow> error + string" where
  "issuer_rif rid fb =
     (case find_by (\<lambda>r. fst r = rid) (fb_rifs fb) of
        None \<Rightarrow> Inl (General Restaurant_Not_Found)
      | Some (_, rif) \<Rightarrow>
          (case rif of None \<Rightarrow> Inl (Fiscal_E Fiscal_Rif_Missing)
           | Some s \<Rightarrow> if sql_trim s = [] then Inl (Fiscal_E Fiscal_Rif_Missing) else Inr (sql_trim s)))"

definition line_in_ves :: "int \<Rightarrow> source_line \<Rightarrow> error + source_line" where
  "line_in_ves rate l =
     and_then (applyRate (JBigInt (sl_unit_price l)) rate) (\<lambda>u.
     and_then (applyRate (JBigInt (sl_subtotal l)) rate) (\<lambda>s.
     and_then (applyRate (JBigInt (sl_share l)) rate) (\<lambda>h.
     and_then (applyRate (JBigInt (sl_full l)) rate) (\<lambda>f.
     Inr (l\<lparr>sl_unit_price := u, sl_subtotal := s, sl_share := h, sl_full := f\<rparr>)))))"

text \<open>The unique indexes: a payment has one request that did not fail, and a key is used once.\<close>

definition insert_request :: "fiscal_request \<Rightarrow> fiscal_books \<Rightarrow> error + fiscal_books" where
  "insert_request r fb =
     (if list_ex (\<lambda>q. rq_payment q = rq_payment r \<and> rq_state q \<noteq> Rq_Failed) (fb_requests fb)
      then Inl (General (Db_Unique ''fiscal_requests_payment_idx''))
      else if list_ex (\<lambda>q. rq_restaurant q = rq_restaurant r \<and> rq_key q = rq_key r) (fb_requests fb)
      then Inl (General (Db_Unique ''fiscal_requests_idempotency_idx''))
      else Inr (fb\<lparr>fb_requests := insert_row r (fb_requests fb), fb_next := Suc (rq_id r)\<rparr>))"

definition as_request_error :: "error \<Rightarrow> error" where
  "as_request_error e =
     (if e = General (Db_Unique ''fiscal_requests_payment_idx'') then Fiscal_E Fiscal_Already_Requested else e)"

definition rethrow :: "(error \<Rightarrow> error) \<Rightarrow> error + 'a \<Rightarrow> error + 'a" where
  "rethrow f r = (case r of Inl e \<Rightarrow> Inl (f e) | Inr x \<Rightarrow> Inr x)"

definition invoice_lines :: "bill \<Rightarrow> payment \<Rightarrow> bill_item list \<Rightarrow> store \<Rightarrow> error + line_basis \<times> source_line list" where
  "invoice_lines b p ls st =
     and_then (claimedLines p ls st) (\<lambda>(mode, share, claimed).
     let basis = resolveLineBasis mode share (amount_ves p) claimed;
         menuLines = (case (basis, claimed) of (ITEMISED, Some cs) \<Rightarrow> cs | _ \<Rightarrow> map whole_line ls)
     in and_then (parseRate (JString (case fx_rate_ves_per_unit b of None \<Rightarrow> ''1'' | Some r \<Rightarrow> r))) (\<lambda>rate.
        and_then (if bill_currency b = ''VES'' then Inr menuLines else map_ok (line_in_ves rate) menuLines) (\<lambda>sourceLines.
        Inr (basis, sourceLines))))"

definition payment_draft :: "(nat \<Rightarrow> string option) \<Rightarrow> nat \<Rightarrow> nat \<Rightarrow> nat \<Rightarrow> store \<Rightarrow> fiscal_books \<Rightarrow> error + draft \<times> bill" where
  "payment_draft table_name rid bid pid st fb =
     and_then (issuer_rif rid fb) (\<lambda>_.
     and_then (stateForBill rid bid st fb) (\<lambda>(b, ls, state).
     case find_by (\<lambda>p. pay_id p = pid \<and> pay_restaurant p = rid \<and> pay_bill p = bid) (payments st) of
       None \<Rightarrow> Inl (Pay_E Payment_Not_Found)
     | Some p \<Rightarrow>
         if pay_status p \<noteq> Succeeded then Inl (Pay_E (Payment_State_Invalid (pay_status p) Succeeded))
         else if amount_ves p > outstandingOf state then Inl (Fiscal_E Fiscal_Nothing_To_Declare)
         else
           and_then (invoice_lines b p ls st) (\<lambda>(basis, sourceLines).
           and_then (buildDraft state (amount_ves p) basis sourceLines (table_name (bill_table b))) (\<lambda>(d, _).
           Inr (d, b)))))"

definition prepare_issue :: "(nat \<Rightarrow> string option) \<Rightarrow> nat \<Rightarrow> nat \<Rightarrow> nat \<Rightarrow> string \<Rightarrow> string \<Rightarrow> store
     \<Rightarrow> (fiscal_request \<times> draft \<times> bill) btx" where
  "prepare_issue table_name rid bid pid provider nonce st fb =
     and_then (payment_draft table_name rid bid pid st fb) (\<lambda>(d, b).
     let rq = \<lparr>rq_id = fb_next fb, rq_restaurant = rid, rq_bill = bid, rq_payment = pid, rq_state = Rq_Pending,
               rq_key = show_nat bid @ '':'' @ show_nat pid @ '':'' @ nonce, rq_provider = provider,
               rq_attempts = 0, rq_error = None, rq_draft = Some (serialiseDraft d)\<rparr>
     in and_then (rethrow as_request_error (insert_request rq fb)) (\<lambda>fb1. Inr ((rq, d, b), fb1)))"

section \<open>Recording the outcome\<close>

definition put_request :: "nat \<Rightarrow> (fiscal_request \<Rightarrow> fiscal_request) \<Rightarrow> fiscal_books \<Rightarrow> fiscal_books" where
  "put_request i f fb = fb\<lparr>fb_requests := update_where (\<lambda>r. rq_id r = i) f (fb_requests fb)\<rparr>"

definition mark_sent :: "nat \<Rightarrow> fiscal_books \<Rightarrow> fiscal_books" where
  "mark_sent i = put_request i (\<lambda>r. r\<lparr>rq_state := Rq_Sent, rq_attempts := rq_attempts r + 1\<rparr>)"

definition invoice_checks :: "draft \<Rightarrow> bool" where
  "invoice_checks d \<longleftrightarrow> dr_total d = dr_subtotal d + dr_vat d + dr_service d
     \<and> 0 \<le> dr_subtotal d \<and> 0 \<le> dr_vat d \<and> 0 \<le> dr_service d
     \<and> list_all sound_line (dr_lines d)
     \<and> list_all (\<lambda>t. 0 \<le> dt_base t \<and> 0 \<le> dt_vat t \<and> 0 \<le> dt_vat_bps t \<and> dt_vat_bps t \<le> 10000) (dr_taxes d)
     \<and> distinct (map (\<lambda>t. (dt_category t, dt_vat_bps t)) (dr_taxes d))"

definition insert_invoice :: "fiscal_invoice \<Rightarrow> fiscal_books \<Rightarrow> error + fiscal_books" where
  "insert_invoice v fb =
     (if \<not> invoice_checks (in_draft v) then Inl (General (Db_Check ''fiscal_invoices''))
      else if list_ex (\<lambda>w. in_request w = in_request v) (fb_invoices fb)
      then Inl (General (Db_Unique ''fiscal_invoices_request_id_key''))
      else if list_ex (\<lambda>w. in_restaurant w = in_restaurant v \<and> dn_control (in_numbers w) = dn_control (in_numbers v)) (fb_invoices fb)
      then Inl (General (Db_Unique ''fiscal_invoices_control_unique_idx''))
      else if list_ex (\<lambda>w. in_restaurant w = in_restaurant v \<and> dn_document (in_numbers w) = dn_document (in_numbers v)) (fb_invoices fb)
      then Inl (General (Db_Unique ''fiscal_invoices_document_unique_idx''))
      else Inr (fb\<lparr>fb_invoices := insert_row v (fb_invoices fb), fb_next := Suc (in_id v)\<rparr>))"

definition scheduleDelivery :: "nat \<Rightarrow> nat \<Rightarrow> string option \<Rightarrow> fiscal_books \<Rightarrow> nat option \<times> fiscal_books" where
  "scheduleDelivery rid vid email fb =
     (case email of
        None \<Rightarrow> (None, fb)
      | Some e \<Rightarrow>
          if e = [] \<or> list_ex (\<lambda>d. fd_invoice d = vid \<and> map lower (fd_email d) = map lower e) (fb_deliveries fb)
          then (None, fb)
          else (Some (fb_next fb), fb\<lparr>fb_deliveries := insert_row \<lparr>fd_id = fb_next fb, fd_restaurant = rid, fd_invoice = vid,
                   fd_email = e, fd_state = Mail_Pending, fd_attempts = 0\<rparr> (fb_deliveries fb), fb_next := Suc (fb_next fb)\<rparr>))"

definition numbers_for :: "fiscal_request \<Rightarrow> document_numbers option \<Rightarrow> document_numbers btx" where
  "numbers_for rq answer fb =
     (case answer of
        None \<Rightarrow> and_then (allocate_numbers (rq_restaurant rq) ''INVOICE'' (fb_numbering fb)) (\<lambda>(ns, nb).
                  Inr (ns, fb\<lparr>fb_numbering := nb\<rparr>))
      | Some ns \<Rightarrow> Inr (ns, fb))"

definition invoice_row :: "fiscal_request \<Rightarrow> draft \<Rightarrow> string option \<Rightarrow> customer \<Rightarrow> document_numbers \<Rightarrow> nat \<Rightarrow> fiscal_invoice" where
  "invoice_row rq d rate cust ns i =
     \<lparr>in_id = i, in_restaurant = rq_restaurant rq, in_request = rq_id rq, in_bill = rq_bill rq,
      in_payment = rq_payment rq, in_numbers = ns, in_provider = rq_provider rq, in_draft = d, in_rate = rate,
      in_customer = cust\<rparr>"

definition write_invoice :: "fiscal_invoice \<Rightarrow> fiscal_invoice btx" where
  "write_invoice v fb =
     and_then (insert_invoice v fb) (\<lambda>fb1.
     let fb2 = put_request (in_request v) (\<lambda>r. r\<lparr>rq_state := Rq_Issued\<rparr>) fb1
     in Inr (v, snd (scheduleDelivery (in_restaurant v) (in_id v) (cu_email (in_customer v)) fb2)))"

definition persistIssued :: "fiscal_request \<Rightarrow> draft \<Rightarrow> string option \<Rightarrow> customer \<Rightarrow> document_numbers option \<Rightarrow> fiscal_invoice btx" where
  "persistIssued rq d rate cust answer fb =
     and_then (numbers_for rq answer fb) (\<lambda>(ns, fb1). write_invoice (invoice_row rq d rate cust ns (fb_next fb1)) fb1)"

definition reason_or :: "string \<Rightarrow> string option \<Rightarrow> string" where
  "reason_or otherwise r = take 80 (case r of None \<Rightarrow> otherwise | Some s \<Rightarrow> s)"

definition refuse_request :: "nat \<Rightarrow> request_status \<Rightarrow> string \<Rightarrow> fiscal_books \<Rightarrow> fiscal_books" where
  "refuse_request i status reason = put_request i (\<lambda>r. r\<lparr>rq_state := status, rq_error := Some reason\<rparr>)"

datatype issue_reply =
    Reply_Issued fiscal_invoice
  | Reply_Refused request_status "string option"
  | Reply_Unchanged request_status
  | Reply_Still_Unknown
  | Reply_Retryable

type_synonym 'a committed = "(error + 'a) \<times> fiscal_books"

definition commit :: "('a \<Rightarrow> 'b) \<Rightarrow> fiscal_books \<Rightarrow> error + 'a \<times> fiscal_books \<Rightarrow> 'b committed" where
  "commit f fb r = (case r of Inl e \<Rightarrow> (Inl e, fb) | Inr (x, fb') \<Rightarrow> (Inr (f x), fb'))"

definition sendAndRecord :: "(string \<Rightarrow> adapter option) \<Rightarrow> fiscal_request \<Rightarrow> draft \<Rightarrow> string option \<Rightarrow> customer
     \<Rightarrow> fiscal_books \<Rightarrow> issue_reply committed" where
  "sendAndRecord adapterFor rq d rate cust fb =
     (let fb1 = mark_sent (rq_id rq) fb in
      case adapterFor (rq_provider rq) of
        None \<Rightarrow> (Inl (General Plain_Error), fb1)
      | Some ad \<Rightarrow>
          let first = provider_issue (ad_issue ad (rq_key rq) d cust);
              result = (case first of Result_Uncertain _ \<Rightarrow> provider_lookup (ad_lookup ad (rq_key rq)) | _ \<Rightarrow> first)
          in (case result of
                Result_Issued ns \<Rightarrow> commit Reply_Issued fb1 (persistIssued rq d rate cust (Some ns) fb1)
              | Result_Uncertain r \<Rightarrow>
                  (Inr (Reply_Refused Rq_Uncertain r), refuse_request (rq_id rq) Rq_Uncertain (reason_or ''UNKNOWN'' r) fb1)
              | Result_Rejected r \<Rightarrow>
                  (Inr (Reply_Refused Rq_Failed r), refuse_request (rq_id rq) Rq_Failed (reason_or ''UNKNOWN'' r) fb1)))"

definition OWN :: string where "OWN = ''own''"

definition issueForPayment :: "(string \<Rightarrow> adapter option) \<Rightarrow> (nat \<Rightarrow> string option) \<Rightarrow> nat \<Rightarrow> nat \<Rightarrow> nat \<Rightarrow> customer
     \<Rightarrow> string \<Rightarrow> string \<Rightarrow> store \<Rightarrow> fiscal_books \<Rightarrow> issue_reply committed" where
  "issueForPayment adapterFor table_name rid bid pid cust provider nonce st fb =
     (case prepare_issue table_name rid bid pid provider nonce st fb of
        Inl e \<Rightarrow> (Inl e, fb)
      | Inr ((rq, d, b), fb1) \<Rightarrow>
          if provider = OWN
          then let fb2 = mark_sent (rq_id rq) fb1
               in commit Reply_Issued fb2 (persistIssued rq d (fx_rate_ves_per_unit b) cust None fb2)
          else sendAndRecord adapterFor rq d (fx_rate_ves_per_unit b) cust fb1)"

section \<open>Resolving what is in doubt\<close>

text \<open>The row is read outside any transaction, the printer is asked, and only then is the
  outcome written: the two halves are separate.\<close>

definition read_doubt :: "nat \<Rightarrow> nat \<Rightarrow> store \<Rightarrow> fiscal_books \<Rightarrow> error + fiscal_request \<times> string option" where
  "read_doubt rid rqid st fb =
     (case find_by (\<lambda>r. rq_id r = rqid \<and> rq_restaurant r = rid) (fb_requests fb) of
        None \<Rightarrow> Inl (Fiscal_E Fiscal_Request_Not_Found)
      | Some rq \<Rightarrow>
          (case find_by (\<lambda>b. bill_id b = rq_bill rq) (bills st) of
             None \<Rightarrow> Inl (Fiscal_E Fiscal_Request_Not_Found)
           | Some b \<Rightarrow> Inr (rq, fx_rate_ves_per_unit b)))"

definition write_resolution :: "provider_result \<Rightarrow> fiscal_request \<Rightarrow> string option \<Rightarrow> fiscal_books \<Rightarrow> issue_reply committed" where
  "write_resolution result rq rate fb =
     (case result of
        Result_Uncertain _ \<Rightarrow> (Inr Reply_Still_Unknown, fb)
      | Result_Rejected r \<Rightarrow> (Inr Reply_Retryable, refuse_request (rq_id rq) Rq_Failed (reason_or ''NOT_FOUND'' r) fb)
      | Result_Issued ns \<Rightarrow>
          (case rq_draft rq of
             None \<Rightarrow> (Inl (Fiscal_E Fiscal_Draft_Missing), fb)
           | Some sd \<Rightarrow>
              (case reviveDraft sd of
                 Inl e \<Rightarrow> (Inl e, fb)
               | Inr d \<Rightarrow> commit Reply_Issued fb
                   (persistIssued rq d rate \<lparr>cu_name = None, cu_tax_id = None, cu_email = None\<rparr> (Some ns) fb))))"

definition resolveUncertain :: "(string \<Rightarrow> adapter option) \<Rightarrow> nat \<Rightarrow> nat \<Rightarrow> store \<Rightarrow> fiscal_books \<Rightarrow> issue_reply committed" where
  "resolveUncertain adapterFor rid rqid st fb =
     (case read_doubt rid rqid st fb of
        Inl e \<Rightarrow> (Inl e, fb)
      | Inr (rq, rate) \<Rightarrow>
          if rq_state rq \<noteq> Rq_Uncertain then (Inr (Reply_Unchanged (rq_state rq)), fb)
          else case adapterFor (rq_provider rq) of
                 None \<Rightarrow> (Inl (General Plain_Error), fb)
               | Some ad \<Rightarrow> write_resolution (provider_lookup (ad_lookup ad (rq_key rq))) rq rate fb)"

section \<open>A payment is documented once\<close>

text \<open>The transactions of the fiscal services, one by one, as they interleave.  Only the call
  that created a request records its outcome, which it does while the request is \<open>SENT\<close>;
  what waits in doubt belongs to \<open>resolveUncertain\<close>.\<close>

inductive fiscal_step :: "fiscal_books \<Rightarrow> fiscal_books \<Rightarrow> bool" where
  prepared: "prepare_issue table_name rid bid pid provider nonce st fb = Inr (x, fb') \<Longrightarrow> fiscal_step fb fb'"
| sent: "rq \<in> set (fb_requests fb) \<Longrightarrow> rq_state rq = Rq_Pending \<Longrightarrow> fiscal_step fb (mark_sent (rq_id rq) fb)"
| recorded: "rq \<in> set (fb_requests fb) \<Longrightarrow> rq_state rq = Rq_Sent \<Longrightarrow> rq_id rq0 = rq_id rq \<Longrightarrow> rq_payment rq0 = rq_payment rq
    \<Longrightarrow> persistIssued rq0 d rate cust answer fb = Inr (v, fb') \<Longrightarrow> fiscal_step fb fb'"
| refused: "rq \<in> set (fb_requests fb) \<Longrightarrow> rq_state rq = Rq_Sent \<Longrightarrow> status \<in> {Rq_Failed, Rq_Uncertain}
    \<Longrightarrow> fiscal_step fb (refuse_request (rq_id rq) status reason fb)"
| resolved: "resolveUncertain adapterFor rid rqid st fb = (r, fb') \<Longrightarrow> fiscal_step fb fb'"
| renumbered: "fiscal_step fb (fb\<lparr>fb_numbering := nb\<rparr>)"
| mailed: "fiscal_step fb (fb\<lparr>fb_deliveries := ds\<rparr>)"

inductive_cases fiscal_stepE: "fiscal_step fb fb'"

definition books_ok :: "fiscal_books \<Rightarrow> bool" where
  "books_ok fb \<longleftrightarrow> (\<forall>r \<in> set (fb_requests fb). rq_id r < fb_next fb)
     \<and> (\<forall>r \<in> set (fb_requests fb). \<forall>q \<in> set (fb_requests fb). rq_id r = rq_id q \<longrightarrow> r = q)
     \<and> (\<forall>r \<in> set (fb_requests fb). \<forall>q \<in> set (fb_requests fb).
          rq_state r \<noteq> Rq_Failed \<longrightarrow> rq_state q \<noteq> Rq_Failed \<longrightarrow> rq_payment r = rq_payment q \<longrightarrow> r = q)
     \<and> (\<forall>v \<in> set (fb_invoices fb). \<forall>w \<in> set (fb_invoices fb). in_request v = in_request w \<longrightarrow> v = w)
     \<and> (\<forall>v \<in> set (fb_invoices fb). \<exists>r \<in> set (fb_requests fb). rq_id r = in_request v
          \<and> rq_payment r = in_payment v \<and> rq_state r = Rq_Issued)"

lemma books_okD:
  assumes "books_ok fb"
  shows live_request_unique: "r \<in> set (fb_requests fb) \<Longrightarrow> q \<in> set (fb_requests fb) \<Longrightarrow> rq_state r \<noteq> Rq_Failed
      \<Longrightarrow> rq_state q \<noteq> Rq_Failed \<Longrightarrow> rq_payment r = rq_payment q \<Longrightarrow> r = q"
    and invoice_unique: "v \<in> set (fb_invoices fb) \<Longrightarrow> w \<in> set (fb_invoices fb) \<Longrightarrow> in_request v = in_request w \<Longrightarrow> v = w"
    and invoice_request: "v \<in> set (fb_invoices fb) \<Longrightarrow> \<exists>r \<in> set (fb_requests fb). rq_id r = in_request v
      \<and> rq_payment r = in_payment v \<and> rq_state r = Rq_Issued"
  using assms unfolding books_ok_def by blast+

lemma put_request_simps [simp]:
  "fb_invoices (put_request i f fb) = fb_invoices fb" "fb_next (put_request i f fb) = fb_next fb"
  "fb_rifs (put_request i f fb) = fb_rifs fb" "fb_numbering (put_request i f fb) = fb_numbering fb"
  "fb_requests (put_request i f fb) = update_where (\<lambda>r. rq_id r = i) f (fb_requests fb)"
  by (simp_all add: put_request_def)

text \<open>Moving a request that has neither failed nor been issued keeps the invariant.\<close>

lemma put_status_ok:
  assumes "books_ok fb" "rq \<in> set (fb_requests fb)" "rq_state rq \<notin> {Rq_Failed, Rq_Issued}"
    and "\<And>r. rq_id (f r) = rq_id r \<and> rq_payment (f r) = rq_payment r"
  shows "books_ok (put_request (rq_id rq) f fb)"
proof -
  have u: "r = rq" if "r \<in> set (fb_requests fb)" "rq_id r = rq_id rq" for r
    using assms(1,2) that unfolding books_ok_def by blast
  let ?g = "\<lambda>r. if rq_id r = rq_id rq then f r else r"
  have S: "set (fb_requests (put_request (rq_id rq) f fb)) = ?g ` set (fb_requests fb)" by (simp add: set_update_where)
  have g: "rq_id (?g r) = rq_id r" "rq_payment (?g r) = rq_payment r" for r using assms(4)[of r] by simp_all
  have live: "rq_state r \<noteq> Rq_Failed" if "r \<in> set (fb_requests fb)" "rq_state (?g r) \<noteq> Rq_Failed" for r
    using that u[of r] assms(3) by (auto split: if_splits)
  have "\<exists>r \<in> ?g ` set (fb_requests fb). rq_id r = in_request v \<and> rq_payment r = in_payment v \<and> rq_state r = Rq_Issued"
    if "v \<in> set (fb_invoices fb)" for v
  proof -
    obtain r where r: "r \<in> set (fb_requests fb)" "rq_id r = in_request v" "rq_payment r = in_payment v" "rq_state r = Rq_Issued"
      using assms(1) \<open>v \<in> _\<close> unfolding books_ok_def by blast
    have "rq_id r \<noteq> rq_id rq" using u[OF r(1)] r(4) assms(3) by auto
    thus ?thesis using r by (intro bexI[of _ r] image_eqI[of _ _ r]) auto
  qed
  moreover have "?g r = ?g q" if "r \<in> set (fb_requests fb)" "q \<in> set (fb_requests fb)"
      "rq_state (?g r) \<noteq> Rq_Failed" "rq_state (?g q) \<noteq> Rq_Failed" "rq_payment (?g r) = rq_payment (?g q)" for r q
  proof -
    have "r = q" using assms(1) that(1,2,5) live[OF that(1,3)] live[OF that(2,4)] unfolding g books_ok_def by blast
    thus ?thesis by simp
  qed
  moreover have "?g r = ?g q" if "r \<in> set (fb_requests fb)" "q \<in> set (fb_requests fb)" "rq_id (?g r) = rq_id (?g q)" for r q
  proof -
    have "r = q" using assms(1) that unfolding g books_ok_def by blast
    thus ?thesis by simp
  qed
  moreover have "\<forall>r \<in> ?g ` set (fb_requests fb). rq_id r < fb_next fb"
    using assms(1) g(1) unfolding books_ok_def by (simp only: ball_simps(9)) blast
  moreover have "\<forall>v \<in> set (fb_invoices fb). \<forall>w \<in> set (fb_invoices fb). in_request v = in_request w \<longrightarrow> v = w"
    using assms(1) unfolding books_ok_def by blast
  ultimately show ?thesis unfolding books_ok_def S put_request_simps(1,2)
    by (intro conjI) (simp_all only: ball_simps(9), blast+)
qed

lemma insert_request_ok:
  assumes "insert_request r fb = Inr fb'" "books_ok fb" "rq_id r = fb_next fb"
  shows "books_ok fb'"
proof -
  have fb': "fb' = fb\<lparr>fb_requests := insert_row r (fb_requests fb), fb_next := Suc (rq_id r)\<rparr>"
    and fresh: "\<forall>q \<in> set (fb_requests fb). rq_payment q = rq_payment r \<longrightarrow> rq_state q = Rq_Failed"
    using assms(1) by (auto simp: insert_request_def list_ex_iff split: if_splits)
  have lt: "\<forall>q \<in> set (fb_requests fb). rq_id q < fb_next fb" using assms(2) by (simp add: books_ok_def)
  have "rq_id q < Suc (fb_next fb)" if "q \<in> set (fb_requests fb)" for q using lt that by (simp add: less_SucI)
  thus ?thesis using assms(2,3) fresh lt unfolding books_ok_def fb' by (auto simp: less_irrefl)
qed

lemma prepare_issue_InrD:
  assumes "prepare_issue table_name rid bid pid provider nonce st fb = Inr ((rq, d, b), fb')"
  shows "payment_draft table_name rid bid pid st fb = Inr (d, b)" "insert_request rq fb = Inr fb'"
    "rq_id rq = fb_next fb" "rq_state rq = Rq_Pending" "rq_payment rq = pid" "rq_bill rq = bid" "rq_restaurant rq = rid"
    "rq_provider rq = provider" "rq_draft rq = Some (serialiseDraft d)"
  using assms by (auto simp: prepare_issue_def result_simps rethrow_def Let_def split: sum.splits)

lemma insert_request_simps:
  assumes "insert_request r fb = Inr fb'"
  shows "fb_requests fb' = insert_row r (fb_requests fb)" "fb_invoices fb' = fb_invoices fb"
    "fb_numbering fb' = fb_numbering fb" "fb_rifs fb' = fb_rifs fb"
  using assms by (auto simp: insert_request_def split: if_splits)

lemma scheduleDelivery_simps:
  assumes "scheduleDelivery rid vid email fb = (d, fb')"
  shows "fb_requests fb' = fb_requests fb" "fb_invoices fb' = fb_invoices fb" "fb_next fb \<le> fb_next fb'"
  using assms by (auto simp: scheduleDelivery_def split: option.splits if_splits)

lemma persistIssued_InrD:
  assumes "persistIssued rq d rate cust answer fb = Inr (v, fb')"
  shows "fb_requests fb' = update_where (\<lambda>r. rq_id r = rq_id rq) (\<lambda>r. r\<lparr>rq_state := Rq_Issued\<rparr>) (fb_requests fb)"
    "fb_invoices fb' = insert_row v (fb_invoices fb)" "fb_next fb \<le> fb_next fb'"
    "in_request v = rq_id rq" "in_payment v = rq_payment rq" "in_bill v = rq_bill rq" "in_draft v = d" "in_customer v = cust"
    "in_restaurant v = rq_restaurant rq"
    "invoice_checks d" "\<forall>w \<in> set (fb_invoices fb). in_request w \<noteq> rq_id rq"
proof -
  obtain ns fb1 where n: "numbers_for rq answer fb = Inr (ns, fb1)"
    and w: "write_invoice (invoice_row rq d rate cust ns (fb_next fb1)) fb1 = Inr (v, fb')"
    using assms by (auto simp: persistIssued_def result_simps)
  have fb1: "fb_requests fb1 = fb_requests fb" "fb_invoices fb1 = fb_invoices fb" "fb_next fb1 = fb_next fb"
    using n by (auto simp: numbers_for_def result_simps split: option.splits)
  obtain fb2 where ins: "insert_invoice v fb1 = Inr fb2" and v: "v = invoice_row rq d rate cust ns (fb_next fb1)"
    and fb': "fb' = snd (scheduleDelivery (in_restaurant v) (in_id v) (cu_email (in_customer v))
        (put_request (in_request v) (\<lambda>r. r\<lparr>rq_state := Rq_Issued\<rparr>) fb2))"
    using w by (auto simp: write_invoice_def result_simps Let_def)
  have i: "fb_invoices fb2 = insert_row v (fb_invoices fb)" "fb_requests fb2 = fb_requests fb" "fb_next fb2 = Suc (fb_next fb)"
      "invoice_checks d" "\<forall>w \<in> set (fb_invoices fb). in_request w \<noteq> rq_id rq"
    using ins v fb1 by (auto simp: insert_invoice_def invoice_row_def list_ex_iff split: if_splits)
  have "scheduleDelivery (in_restaurant v) (in_id v) (cu_email (in_customer v))
      (put_request (in_request v) (\<lambda>r. r\<lparr>rq_state := Rq_Issued\<rparr>) fb2)
    = (fst (scheduleDelivery (in_restaurant v) (in_id v) (cu_email (in_customer v))
      (put_request (in_request v) (\<lambda>r. r\<lparr>rq_state := Rq_Issued\<rparr>) fb2)), fb')" by (simp add: fb')
  note S = scheduleDelivery_simps[OF this]
  have vs: "in_request v = rq_id rq" by (simp add: v invoice_row_def)
  show "fb_requests fb' = update_where (\<lambda>r. rq_id r = rq_id rq) (\<lambda>r. r\<lparr>rq_state := Rq_Issued\<rparr>) (fb_requests fb)"
    "fb_invoices fb' = insert_row v (fb_invoices fb)" "fb_next fb \<le> fb_next fb'" using S i vs by simp_all
  show "in_request v = rq_id rq" "in_payment v = rq_payment rq" "in_bill v = rq_bill rq" "in_draft v = d" "in_customer v = cust"
    "in_restaurant v = rq_restaurant rq" using v by (simp_all add: invoice_row_def)
  show "invoice_checks d" "\<forall>w \<in> set (fb_invoices fb). in_request w \<noteq> rq_id rq" by (rule i)+
qed


lemma persist_ok:
  assumes "books_ok fb" "rq \<in> set (fb_requests fb)" "rq_state rq \<notin> {Rq_Failed, Rq_Issued}"
    and "rq_id rq0 = rq_id rq" "rq_payment rq0 = rq_payment rq"
    and "persistIssued rq0 d rate cust answer fb = Inr (v, fb')"
  shows "books_ok fb'"
proof -
  note P = persistIssued_InrD[OF assms(6)]
  have ok: "books_ok (put_request (rq_id rq) (\<lambda>r. r\<lparr>rq_state := Rq_Issued\<rparr>) fb)"
    by (rule put_status_ok[OF assms(1-3)]) simp
  let ?rs = "update_where (\<lambda>r. rq_id r = rq_id rq) (\<lambda>r. r\<lparr>rq_state := Rq_Issued\<rparr>) (fb_requests fb)"
  have mine: "rq\<lparr>rq_state := Rq_Issued\<rparr> \<in> set ?rs" using assms(2) by (force simp: set_update_where)
  have rs: "fb_requests fb' = ?rs" and vs: "fb_invoices fb' = insert_row v (fb_invoices fb)"
    using P(1,2) assms(4) by simp_all
  have "\<forall>r \<in> set ?rs. rq_id r < fb_next fb'" using ok P(3) unfolding books_ok_def put_request_simps by force
  moreover have "\<forall>w \<in> set (insert_row v (fb_invoices fb)). \<exists>r \<in> set ?rs. rq_id r = in_request w
      \<and> rq_payment r = in_payment w \<and> rq_state r = Rq_Issued"
    using ok mine P(4,5) assms(4,5) unfolding books_ok_def put_request_simps
    by (auto intro: bexI[of _ "rq\<lparr>rq_state := Rq_Issued\<rparr>"])
  moreover have "\<forall>w \<in> set (insert_row v (fb_invoices fb)). \<forall>u \<in> set (insert_row v (fb_invoices fb)). in_request w = in_request u \<longrightarrow> w = u"
    using assms(1) P(4,11) unfolding books_ok_def by auto
  ultimately show ?thesis using ok unfolding books_ok_def put_request_simps rs vs by blast
qed

lemma books_ok_cong:
  assumes "books_ok fb" "fb_requests fb' = fb_requests fb" "fb_invoices fb' = fb_invoices fb" "fb_next fb' = fb_next fb"
  shows "books_ok fb'"
  using assms(1) unfolding books_ok_def assms(2-4) .

lemma resolve_ok:
  assumes "resolveUncertain adapterFor rid rqid st fb = (r, fb')" "books_ok fb"
  shows "books_ok fb'"
proof (cases "fb' = fb")
  case False
  then obtain rq rate result where rq: "read_doubt rid rqid st fb = Inr (rq, rate)" "rq_state rq = Rq_Uncertain"
    and w: "write_resolution result rq rate fb = (r, fb')"
    using assms(1) unfolding resolveUncertain_def by (auto split: sum.splits if_splits option.splits)
  have m: "rq \<in> set (fb_requests fb)"
    using rq(1) by (auto simp: read_doubt_def split: option.splits dest!: find_by_SomeD)
  consider (refused) reason where "fb' = refuse_request (rq_id rq) Rq_Failed reason fb"
    | (issued) d cust ns v where "persistIssued rq d rate cust (Some ns) fb = Inr (v, fb')"
    using w False by (auto simp: write_resolution_def commit_def split: provider_result.splits option.splits sum.splits)
  thus ?thesis
  proof cases
    case refused
    thus ?thesis unfolding refused refuse_request_def by (intro put_status_ok[OF assms(2) m]) (use rq(2) in auto)
  next
    case issued
    show ?thesis by (rule persist_ok[OF assms(2) m _ refl refl issued]) (use rq(2) in auto)
  qed
qed (use assms in simp)

lemma fiscal_step_ok:
  assumes "fiscal_step fb fb'" "books_ok fb"
  shows "books_ok fb'"
  using assms
proof (induction rule: fiscal_step.induct)
  case (prepared table_name rid bid pid provider nonce st fb x fb')
  obtain rq d b where x: "x = (rq, d, b)" by (cases x)
  show ?case using insert_request_ok prepare_issue_InrD(2,3)[OF prepared.hyps[unfolded x]] prepared.prems by blast
next
  case (sent rq fb)
  show ?case unfolding mark_sent_def using sent by (intro put_status_ok) auto
next
  case (recorded rq fb rq0 d rate cust answer v fb')
  show ?case by (rule persist_ok[OF recorded.prems recorded.hyps(1) _ recorded.hyps(3-5)]) (use recorded.hyps(2) in auto)
next
  case (refused rq fb status reason)
  show ?case unfolding refuse_request_def using refused by (intro put_status_ok) auto
next
  case (resolved adapterFor rid rqid st fb r fb')
  show ?case by (rule resolve_ok[OF resolved.hyps resolved.prems])
qed (erule books_ok_cong, simp_all)+

lemma fiscal_steps_ok: "fiscal_step\<^sup>*\<^sup>* fb fb' \<Longrightarrow> books_ok fb \<Longrightarrow> books_ok fb'"
  by (induction rule: rtranclp_induct) (auto intro: fiscal_step_ok)

text \<open>A whole call is a sequence of such transactions.\<close>

lemma issueForPayment_steps:
  assumes "issueForPayment adapterFor table_name rid bid pid cust provider nonce st fb = (r, fb')"
  shows "fiscal_step\<^sup>*\<^sup>* fb fb'"
proof (cases "prepare_issue table_name rid bid pid provider nonce st fb")
  case (Inl e)
  thus ?thesis using assms by (simp add: issueForPayment_def)
next
  case (Inr x)
  then obtain rq d b fb1 where p: "prepare_issue table_name rid bid pid provider nonce st fb = Inr ((rq, d, b), fb1)"
    by (cases x) auto
  note P = prepare_issue_InrD[OF p]
  have m: "rq \<in> set (fb_requests fb1)" using insert_request_simps(1)[OF P(2)] by simp
  let ?fb2 = "mark_sent (rq_id rq) fb1"
  have s: "fiscal_step\<^sup>*\<^sup>* fb ?fb2"
    using prepared[OF p] sent[OF m P(4)] by (meson converse_rtranclp_into_rtranclp rtranclp.rtrancl_refl)
  let ?rq = "rq\<lparr>rq_state := Rq_Sent, rq_attempts := rq_attempts rq + 1\<rparr>"
  have m2: "?rq \<in> set (fb_requests ?fb2)" "rq_state ?rq = Rq_Sent" "rq_id rq = rq_id ?rq" "rq_payment rq = rq_payment ?rq"
    using m by (auto simp: mark_sent_def set_update_where image_iff intro!: bexI[of _ rq])
  consider (same) "fb' = ?fb2"
    | (issued) answer v where "persistIssued rq d (fx_rate_ves_per_unit b) cust answer ?fb2 = Inr (v, fb')"
    | (refused) status reason where "fb' = refuse_request (rq_id ?rq) status reason ?fb2" "status \<in> {Rq_Failed, Rq_Uncertain}"
    using assms p
    by (auto simp: issueForPayment_def sendAndRecord_def commit_def Let_def
        split: if_splits option.splits provider_result.splits sum.splits)
  thus ?thesis
  proof cases
    case issued
    thus ?thesis using s recorded[OF m2(1-4) issued] by (rule_tac rtranclp.rtrancl_into_rtrancl)
  next
    case refused
    thus ?thesis using s fiscal_step.refused[OF m2(1,2) refused(2), of reason] by (auto intro: rtranclp.rtrancl_into_rtrancl)
  qed (use s in simp)
qed


section \<open>The books follow the allocation\<close>

lemma tax_of_simps: "dt_vat_bps (tax_of g) = bg_vat_bps g" "dt_base (tax_of g) = bg_base g" "dt_vat (tax_of g) = bg_vat g"
  by (simp_all add: tax_of_def)

lemma tax_at:
  assumes "distinct (map bg_vat_bps gs)" "i < length gs" "\<And>g. g \<in> set gs \<Longrightarrow> 0 \<le> bg_base g \<and> 0 \<le> bg_vat g"
  shows "sum_over (\<lambda>t. dt_vat_bps t = bg_vat_bps (gs ! i)) dt_base (map tax_of (filter (\<lambda>g. bg_base g > 0 \<or> bg_vat g > 0) gs))
      = bg_base (gs ! i)
   \<and> sum_over (\<lambda>t. dt_vat_bps t = bg_vat_bps (gs ! i)) dt_vat (map tax_of (filter (\<lambda>g. bg_base g > 0 \<or> bg_vat g > 0) gs))
      = bg_vat (gs ! i)"
  using assms
proof (induction gs arbitrary: i)
  case (Cons g gs)
  have z: "sum_over (\<lambda>t. dt_vat_bps t = bg_vat_bps g) f (map tax_of (filter (\<lambda>g. bg_base g > 0 \<or> bg_vat g > 0) gs)) = 0" for f
  proof (rule sum_over_zero)
    fix t assume "t \<in> set (map tax_of (filter (\<lambda>g. bg_base g > 0 \<or> bg_vat g > 0) gs))"
    then obtain h where h: "h \<in> set gs" "t = tax_of h" by auto
    have "bg_vat_bps h \<noteq> bg_vat_bps g" using Cons.prems(1) h(1) by (metis distinct.simps(2) image_eqI list.simps(9) set_map)
    thus "dt_vat_bps t \<noteq> bg_vat_bps g" by (simp add: h(2) tax_of_def)
  qed
  show ?case
  proof (cases i)
    case 0
    thus ?thesis using z Cons.prems(3)[of g] by (auto simp: tax_of_simps)
  next
    case (Suc j)
    hence "j < length gs" "bg_vat_bps g \<noteq> bg_vat_bps (gs ! j)" using Cons.prems(1,2) by auto
    thus ?thesis using Cons.IH[of j] Cons.prems Suc by (auto simp: tax_of_simps)
  qed
qed simp

lemma stateForBill_cong: "fb_invoices fb' = fb_invoices fb \<Longrightarrow> stateForBill rid bid st fb' = stateForBill rid bid st fb"
proof -
  assume "fb_invoices fb' = fb_invoices fb"
  hence "declared_on bid fb' = declared_on bid fb" by (simp add: declared_on_def)
  thus ?thesis unfolding stateForBill_def by (simp only:)
qed

lemma declared_at_append: "declared_at f v (ds @ [d]) = declared_at f v ds + sum_over (\<lambda>t. dt_vat_bps t = v) f (dr_taxes d)"
  by (simp add: declared_at_def)

text \<open>What a new document takes out of the derived state is what it declares.\<close>

lemma stateForBill_after:
  assumes "stateForBill rid bid st fb = Inr (b, ls, s)" "fb_invoices fb' = insert_row v (fb_invoices fb)" "in_bill v = bid"
  shows "stateForBill rid bid st fb' = Inr (b, ls,
     \<lparr>dc_groups = map (\<lambda>g. \<lparr>bg_vat_bps = bg_vat_bps g,
         bg_base = bg_base g - sum_over (\<lambda>t. dt_vat_bps t = bg_vat_bps g) dt_base (dr_taxes (in_draft v)),
         bg_vat = bg_vat g - sum_over (\<lambda>t. dt_vat_bps t = bg_vat_bps g) dt_vat (dr_taxes (in_draft v))\<rparr>) (dc_groups s),
      dc_service = dc_service s - dr_service (in_draft v)\<rparr>)"
proof -
  have d: "declared_on bid fb' = declared_on bid fb @ [in_draft v]"
    using assms(2,3) by (simp add: declared_on_def insert_row_def select_def)
  show ?thesis using assms(1) unfolding stateForBill_def Let_def d
    by (auto simp: result_simps declared_at_append split: option.splits)
qed

lemma pair_up_rates: "length ps = 2 * length gs \<Longrightarrow> map bg_vat_bps (pair_up gs ps) = map bg_vat_bps gs"
  by (induction gs ps rule: pair_up.induct) (auto simp: )

lemma stateForBill_rates:
  assumes "stateForBill rid bid st fb = Inr (b, ls, s)"
  shows "distinct (map bg_vat_bps (dc_groups s))"
proof -
  obtain s0 s1 where s0: "stateFromLines ls (service_charge_minor b) = Inr s0"
    and s1: "(if bill_currency b \<noteq> ''VES'' then toVes s0 (total_due_ves b) else Inr s0) = Inr s1"
    and r: "map bg_vat_bps (dc_groups s) = map bg_vat_bps (dc_groups s1)"
    using assms by (auto simp: stateForBill_def result_simps Let_def comp_def split: option.splits)
  have "map bg_vat_bps (dc_groups s0) = map fst (tax_group_rows ls)"
    by (simp add: stateFromLines_InrD(1)[OF s0] comp_def split_beta)
  moreover have "distinct (map fst (tax_group_rows ls))"
    by (simp add: tax_group_rows_def comp_def)
  moreover have "map bg_vat_bps (dc_groups s1) = map bg_vat_bps (dc_groups s0)"
    using s1 by (auto simp: toVes_def result_simps Let_def length_buckets pair_up_rates split: if_splits)
  ultimately show ?thesis using r by simp
qed

lemma issued_invoice:
  assumes "issueForPayment adapterFor table_name rid bid pid cust provider nonce st fb = (Inr (Reply_Issued v), fb')"
  obtains d b where "payment_draft table_name rid bid pid st fb = Inr (d, b)" "in_draft v = d" "in_bill v = bid" "in_payment v = pid"
    "in_restaurant v = rid" "in_customer v = cust" "fb_invoices fb' = insert_row v (fb_invoices fb)"
proof -
  obtain rq d b fb1 where p: "prepare_issue table_name rid bid pid provider nonce st fb = Inr ((rq, d, b), fb1)"
    using assms by (auto simp: issueForPayment_def split: sum.splits)
  note P = prepare_issue_InrD[OF p]
  obtain answer where i: "persistIssued rq d (fx_rate_ves_per_unit b) cust answer (mark_sent (rq_id rq) fb1) = Inr (v, fb')"
    using assms p
    by (auto simp: issueForPayment_def sendAndRecord_def commit_def Let_def
        split: if_splits option.splits provider_result.splits sum.splits)
  note I = persistIssued_InrD[OF i]
  show thesis
    by (rule that[OF P(1)]) (use I P insert_request_simps[OF P(2)] in \<open>simp_all add: mark_sent_def\<close>)
qed

lemma payment_draft_InrD:
  assumes "payment_draft table_name rid bid pid st fb = Inr (d, b)"
  obtains ls s p basis sl rem where "stateForBill rid bid st fb = Inr (b, ls, s)"
    "p \<in> set (payments st)" "pay_id p = pid" "pay_restaurant p = rid" "pay_bill p = bid" "pay_status p = Succeeded"
    "amount_ves p \<le> outstandingOf s" "buildDraft s (amount_ves p) basis sl (table_name (bill_table b)) = Inr (d, rem)"
proof -
  obtain b' ls s where s: "stateForBill rid bid st fb = Inr (b', ls, s)"
    and c: "(case find_by (\<lambda>p. pay_id p = pid \<and> pay_restaurant p = rid \<and> pay_bill p = bid) (payments st) of
       None \<Rightarrow> Inl (Pay_E Payment_Not_Found)
     | Some p \<Rightarrow>
         if pay_status p \<noteq> Succeeded then Inl (Pay_E (Payment_State_Invalid (pay_status p) Succeeded))
         else if amount_ves p > outstandingOf s then Inl (Fiscal_E Fiscal_Nothing_To_Declare)
         else
           and_then (invoice_lines b' p ls st) (\<lambda>(basis, sourceLines).
           and_then (buildDraft s (amount_ves p) basis sourceLines (table_name (bill_table b'))) (\<lambda>(d, _).
           Inr (d, b')))) = Inr (d, b)"
    using assms unfolding payment_draft_def and_then_Inr_iff by auto
  obtain p where p: "find_by (\<lambda>p. pay_id p = pid \<and> pay_restaurant p = rid \<and> pay_bill p = bid) (payments st) = Some p"
      "pay_status p = Succeeded" "amount_ves p \<le> outstandingOf s"
    and d: "and_then (invoice_lines b' p ls st) (\<lambda>(basis, sourceLines).
           and_then (buildDraft s (amount_ves p) basis sourceLines (table_name (bill_table b'))) (\<lambda>(d, _). Inr (d, b'))) = Inr (d, b)"
    using c by (auto split: option.splits if_splits)
  thus thesis using find_by_SomeD[OF p(1)] s by (auto simp: result_simps intro: that)
qed

text \<open>C35: A request for a payment's invoice that is answered with a document found a settled
  payment, added that one document to the books with exactly the amount paid as its total,
  and lowered what the bill has left to declare, recomputed from the books, by exactly that
  amount.\<close>

lemma issued_document_is_the_payment:
  assumes "issueForPayment adapterFor table_name rid bid pid cust provider nonce st fb = (Inr (Reply_Issued v), fb')"
    and "store_inv st" "stateForBill rid bid st fb = Inr (b, ls, s)" "well_stocked s"
  shows "\<exists>p s'. p \<in> set (payments st) \<and> pay_id p = pid \<and> pay_status p = Succeeded \<and> dr_total (in_draft v) = amount_ves p
     \<and> fb_invoices fb' = fb_invoices fb @ [v] \<and> in_payment v = pid
     \<and> stateForBill rid bid st fb' = Inr (b, ls, s') \<and> well_stocked s'
     \<and> outstandingOf s' = outstandingOf s - amount_ves p"
proof -
  obtain d b' where pd: "payment_draft table_name rid bid pid st fb = Inr (d, b')" and v: "in_draft v = d" "in_bill v = bid"
      "in_payment v = pid" "fb_invoices fb' = insert_row v (fb_invoices fb)"
    by (rule issued_invoice[OF assms(1)])
  obtain p basis sl rem where p: "p \<in> set (payments st)" "pay_id p = pid" "pay_status p = Succeeded"
      "buildDraft s (amount_ves p) basis sl (table_name (bill_table b)) = Inr (d, rem)"
    by (rule payment_draft_InrD[OF pd]) (use assms(3) in auto)
  have pos: "0 \<le> amount_ves p" using assms(2) p(1) by (auto simp: store_inv_def inv_payments_def payment_checks_def)
  obtain iv where D: "declares s (amount_ves p) iv rem" and dd: "dr_service d = iv_service iv" "dr_total d = iv_total iv"
      "dr_taxes d = map tax_of (filter (\<lambda>g. bg_base g > 0 \<or> bg_vat g > 0) (iv_groups iv))"
    by (rule buildDraft_InrD[OF p(4) assms(4) pos])
  note G = declares_groups[OF D assms(4)]
  have len: "length (iv_groups iv) = length (dc_groups s)" using D by (simp add: declares_def)
  have dis: "distinct (map bg_vat_bps (iv_groups iv))" using stateForBill_rates[OF assms(3)] G(3) by simp
  have rate: "bg_vat_bps (iv_groups iv ! i) = bg_vat_bps (dc_groups s ! i)" if "i < length (dc_groups s)" for i
    using arg_cong[OF G(3), of "\<lambda>xs. xs ! i"] that len by simp
  let ?taken = "map (\<lambda>g. \<lparr>bg_vat_bps = bg_vat_bps g,
         bg_base = bg_base g - sum_over (\<lambda>t. dt_vat_bps t = bg_vat_bps g) dt_base (dr_taxes d),
         bg_vat = bg_vat g - sum_over (\<lambda>t. dt_vat_bps t = bg_vat_bps g) dt_vat (dr_taxes d)\<rparr>) (dc_groups s)"
  have "?taken ! i = dc_groups rem ! i" if "i < length (dc_groups s)" for i
    using tax_at[OF dis _ G(1), of i] that len rate[OF that] declares_nth[OF D that] D
    by (simp add: dd declares_def take_from_def)
  hence "?taken = dc_groups rem" using D len by (intro nth_equalityI) (simp_all add: declares_def)
  moreover have "dc_service s - dr_service d = dc_service rem" using D dd by (simp add: declares_def)
  ultimately have "stateForBill rid bid st fb' = Inr (b, ls, rem)"
    using stateForBill_after[OF assms(3) v(4,2)] v(1) by simp
  thus ?thesis using p declares_next[OF assms(4) D] D dd v(1,3,4)
    by (intro exI[of _ p] exI[of _ rem]) (simp add: declares_def insert_row_def)
qed

section \<open>A table with two rates\<close>

definition tasca_bill :: bill where
  "tasca_bill = dinner_bill\<lparr>total_due := 900, subtotal_minor := 800, vat_minor := 80, service_charge_minor := 20,
     service_charge_bps := Some 250, total_due_ves := 900\<rparr>"

definition tasca_store :: store where
  "tasca_store = dinner_store\<lparr>bills := [tasca_bill], items := [dinner_line 10 300 1,
     (dinner_line 11 500 1)\<lparr>item_tax_category := TAXABLE, item_vat_bps := Some 1600\<rparr>]\<rparr>"

definition one_dish_each :: split_request where
  "one_dish_each = \<lparr>req_mode = ITEMS, req_participants = [diner ''ana'', diner ''beto''],
     req_claims = [\<lparr>claim_item = 10, claim_people = [''ana''], claim_quantity = None\<rparr>,
                   \<lparr>claim_item = 11, claim_people = [''beto''], claim_quantity = None\<rparr>]\<rparr>"

definition tasca_books :: fiscal_books where
  "tasca_books = \<lparr>fb_rifs = [(7, Some ''J123456789'')], fb_requests = [], fb_invoices = [], fb_deliveries = [],
     fb_numbering = imprenta, fb_next = 1\<rparr>"

definition final_consumer :: customer where
  "final_consumer = \<lparr>cu_name = None, cu_tax_id = None, cu_email = None\<rparr>"

definition no_printer :: "string \<Rightarrow> adapter option" where "no_printer p = None"

definition no_names :: "nat \<Rightarrow> string option" where "no_names t = None"

text \<open>Ana claims the exempt dish, pays her share and asks for her invoice.\<close>

definition ana_pays :: "error + (nat \<times> store)" where
  "ana_pays =
     and_then (createSplit 7 tasca_bill (items tasca_store) one_dish_each STAFF tasca_store) (\<lambda>(spid, st1).
     and_then (processSplitPayment 7 ((cash (share_amount_ves (hd (shares st1))) 0)\<lparr>tp_share := Some (share_id (hd (shares st1)))\<rparr>) st1)
       (\<lambda>(rc, st2). Inr (rc_payment rc, st2)))"

lemma exempt_diner_declares_vat:
  "(case ana_pays of Inl e \<Rightarrow> False | Inr (pid, st) \<Rightarrow>
     (case issueForPayment no_printer no_names 7 1 pid final_consumer OWN ''k'' st tasca_books of
        (Inr (Reply_Issued v), fb) \<Rightarrow>
          let d = in_draft v in
          dr_basis d = ITEMISED \<and> map dl_vat_bps (dr_lines d) = [0] \<and> dr_vat d = 5
          \<and> sum_list (map dl_base (dr_lines d)) = 300 \<and> dr_subtotal d = 332
      | _ \<Rightarrow> False))"
  by code_simp

text \<open>Three diners pay a third each; their requests are prepared before any is recorded.\<close>

definition three_thirds :: "error + store" where
  "three_thirds =
     and_then (processSplitPayment 7 (cash 300 0) tasca_store) (\<lambda>(r1, st1).
     and_then (processSplitPayment 7 (cash 300 0) st1) (\<lambda>(r2, st2).
     and_then (processSplitPayment 7 (cash 300 0) st2) (\<lambda>(r3, st3). Inr st3)))"

definition record_own :: "fiscal_request \<times> draft \<times> bill \<Rightarrow> fiscal_books \<Rightarrow> error + fiscal_books" where
  "record_own x fb =
     (case x of (rq, d, b) \<Rightarrow>
        and_then (persistIssued rq d (fx_rate_ves_per_unit b) final_consumer None (mark_sent (rq_id rq) fb)) (\<lambda>(v, fb'). Inr fb'))"

definition crossed_requests :: "store \<Rightarrow> error + fiscal_books" where
  "crossed_requests st =
     (case map pay_id (payments st) of
        [p, q, r] \<Rightarrow>
          and_then (prepare_issue no_names 7 1 p OWN ''a'' st tasca_books) (\<lambda>(x, fb1).
          and_then (prepare_issue no_names 7 1 q OWN ''b'' st fb1) (\<lambda>(y, fb2).
          and_then (prepare_issue no_names 7 1 r OWN ''c'' st fb2) (\<lambda>(z, fb3).
          fold_ok record_own [x, y, z] fb3)))
      | _ \<Rightarrow> Inl (General Plain_Error))"

lemma crossed_documents_misdeclare:
  "(case three_thirds of Inl e \<Rightarrow> False | Inr st \<Rightarrow>
     (case crossed_requests st of Inl e \<Rightarrow> False | Inr fb \<Rightarrow>
        map (dr_total \<circ> in_draft) (fb_invoices fb) = [300, 300, 300]
        \<and> sum_list (map (dr_service \<circ> in_draft) (fb_invoices fb)) = 21
        \<and> (case stateForBill 7 1 st fb of Inl e \<Rightarrow> False | Inr (b, ls, s) \<Rightarrow> dc_service s = - 1)))"
  by code_simp

lemma unnumbered_request_is_stranded:
  "(case three_thirds of Inl e \<Rightarrow> False | Inr st \<Rightarrow>
     (case issueForPayment no_printer no_names 7 1 (pay_id (hd (payments st))) final_consumer OWN ''a'' st
             (tasca_books\<lparr>fb_numbering := imprenta\<lparr>nb_series := []\<rparr>\<rparr>) of
        (Inl e, fb) \<Rightarrow>
          let fb' = fb\<lparr>fb_numbering := imprenta\<rparr>; rq = hd (fb_requests fb) in
          e = Fiscal_E Fiscal_Series_Missing
          \<and> fst (issueForPayment no_printer no_names 7 1 (pay_id (hd (payments st))) final_consumer OWN ''b'' st fb')
              = Inl (Fiscal_E Fiscal_Already_Requested)
          \<and> fst (resolveUncertain no_printer 7 (rq_id rq) st fb') = Inr (Reply_Unchanged Rq_Sent)
      | _ \<Rightarrow> False))"
  by code_simp

text \<open>A printer that never says anything, and one that numbers by the key.\<close>

definition silent_printer :: "string \<Rightarrow> adapter option" where
  "silent_printer p = Some \<lparr>ad_issue = (\<lambda>k d c. Throws (Some ''ETIMEDOUT'') None), ad_lookup = (\<lambda>k. Throws None (Some 503))\<rparr>"

definition one_third :: "error + nat \<times> store" where
  "one_third = and_then (processSplitPayment 7 (cash 300 0) tasca_store) (\<lambda>(r1, st1). Inr (rc_payment r1, st1))"

text \<open>Two people resolve the same doubt; the printer finds the document for one of them only.\<close>

lemma crossed_resolutions_document_twice:
  "(case one_third of Inl e \<Rightarrow> False | Inr (pid, st) \<Rightarrow>
     (case issueForPayment silent_printer no_names 7 1 pid final_consumer ''imprenta'' ''a'' st tasca_books of
        (Inr (Reply_Refused Rq_Uncertain _), fb) \<Rightarrow>
          (case read_doubt 7 1 st fb of Inl e \<Rightarrow> False | Inr (rq, rate) \<Rightarrow>
             let fb1 = snd (write_resolution (Result_Issued \<lparr>dn_control = ''00-77'', dn_document = ''F-77''\<rparr>) rq rate fb);
                 fb2 = snd (write_resolution (Result_Rejected None) rq rate fb1);
                 fb3 = snd (issueForPayment no_printer no_names 7 1 pid final_consumer OWN ''b'' st fb2)
             in map in_payment (fb_invoices fb3) = [pid, pid] \<and> map rq_state (fb_requests fb3) = [Rq_Failed, Rq_Issued])
      | _ \<Rightarrow> False))"
  by code_simp


lemma inv_tasca: "store_inv tasca_store"
  by (simp add: tasca_store_def tasca_bill_def dinner_store_def dinner_bill_def empty_store_def store_inv_def inv_parts
      bill_checks_def payment_ledger_drift_def bill_split_share_drift_def one_active_def ledger_total_def keyed_def)

lemma sound_tasca: "sound tasca_store"
  using inv_tasca
  by (simp add: sound_def inv_log_def items_agree_def lines_of_def tasca_store_def tasca_bill_def dinner_store_def
      empty_store_def dinner_bill_def dinner_line_def item_subtotal_def)

lemma issued_document_is_the_payment_witness:
  "\<exists>pid st v fb s s'. issueForPayment no_printer no_names 7 1 pid final_consumer OWN ''a'' st tasca_books = (Inr (Reply_Issued v), fb)
     \<and> fb_invoices fb = [v] \<and> (\<exists>p \<in> set (payments st). dr_total (in_draft v) = amount_ves p) \<and> outstandingOf s' < outstandingOf s"
proof -
  have c: "(case one_third of Inl e \<Rightarrow> False | Inr (pid, st) \<Rightarrow>
     (case stateForBill 7 1 st tasca_books of Inl e \<Rightarrow> False | Inr (b, ls, s) \<Rightarrow> well_stocked s
       \<and> (case issueForPayment no_printer no_names 7 1 pid final_consumer OWN ''a'' st tasca_books of
            (Inr (Reply_Issued v), fb) \<Rightarrow> True | _ \<Rightarrow> False)))" by code_simp
  then obtain pid st where o: "one_third = Inr (pid, st)" by (auto split: sum.splits)
  have c2: "(case stateForBill 7 1 st tasca_books of Inl e \<Rightarrow> False | Inr (b, ls, s) \<Rightarrow> well_stocked s
       \<and> (case issueForPayment no_printer no_names 7 1 pid final_consumer OWN ''a'' st tasca_books of
            (Inr (Reply_Issued v), fb) \<Rightarrow> True | _ \<Rightarrow> False))" using c by (simp only: o sum.case prod.case)
  then obtain b ls s where s: "stateForBill 7 1 st tasca_books = Inr (b, ls, s)"
    by (cases "stateForBill 7 1 st tasca_books") auto
  have c3: "well_stocked s \<and> (case issueForPayment no_printer no_names 7 1 pid final_consumer OWN ''a'' st tasca_books of
            (Inr (Reply_Issued v), fb) \<Rightarrow> True | _ \<Rightarrow> False)" using c2 by (simp only: s sum.case prod.case)
  then obtain v fb where i: "issueForPayment no_printer no_names 7 1 pid final_consumer OWN ''a'' st tasca_books = (Inr (Reply_Issued v), fb)"
    by (auto split: sum.splits prod.splits issue_reply.splits)
  obtain rc where "processSplitPayment 7 (cash 300 0) tasca_store = Inr (rc, st)" using o by (auto simp: one_third_def result_simps)
  hence inv: "store_inv st" using till_sound[OF sound_tasca] by (auto simp: sound_def)
  obtain p s' where P: "p \<in> set (payments st)" "dr_total (in_draft v) = amount_ves p" "fb_invoices fb = fb_invoices tasca_books @ [v]"
      "outstandingOf s' = outstandingOf s - amount_ves p"
    using issued_document_is_the_payment[OF i inv s] c3 by auto
  have "0 < amount_ves p" using inv P(1) by (auto simp: store_inv_def inv_payments_def payment_checks_def)
  thus ?thesis using i P by (intro exI[of _ pid] exI[of _ st] exI[of _ v] exI[of _ fb] exI[of _ s] exI[of _ s'])
      (auto simp: tasca_books_def)
qed

text \<open>The document written when a doubt is resolved is nobody's: the stored draft does not
  hold the customer.\<close>

lemma resolved_document_has_no_customer:
  assumes "resolveUncertain adapterFor rid rqid st fb = (Inr (Reply_Issued v), fb')"
  shows "in_customer v = final_consumer \<and> fb_deliveries fb' = fb_deliveries fb"
proof -
  obtain rq d rate ns where p: "persistIssued rq d rate final_consumer (Some ns) fb = Inr (v, fb')"
    using assms
    by (auto simp: resolveUncertain_def write_resolution_def commit_def final_consumer_def
        split: sum.splits if_splits option.splits provider_result.splits)
  have "fb_deliveries fb' = fb_deliveries fb"
    using p by (auto simp: persistIssued_def numbers_for_def write_invoice_def insert_invoice_def invoice_row_def result_simps
        Let_def final_consumer_def scheduleDelivery_def put_request_def split: if_splits)
  thus ?thesis using persistIssued_InrD(8)[OF p] by simp
qed

section \<open>Silence is kept as doubt\<close>

fun no_decision :: "adapter_reply \<Rightarrow> bool" where
  "no_decision (Says_Issued ns) = (trim (dn_document ns) = [] \<or> trim (dn_control ns) = [])"
| "no_decision (Says_Rejected r) = False"
| "no_decision (Says_Uncertain r) = True"
| "no_decision Says_Something_Else = True"
| "no_decision (Throws c None) = True"
| "no_decision (Throws c (Some s)) = (s \<in> {408, 425, 429} \<or> s div 100 = 5)"

lemma no_decision_uncertain:
  "no_decision r \<Longrightarrow> \<exists>c. provider_issue r = Result_Uncertain c" "no_decision r \<Longrightarrow> \<exists>c. provider_lookup r = Result_Uncertain c"
  by (cases r rule: no_decision.cases; auto simp: assertIssued_def fiscal_indeterminate_def)+

lemma requested_is_refused:
  assumes "q \<in> set (fb_requests fb)" "rq_payment q = pid" "rq_state q \<noteq> Rq_Failed"
  shows "\<exists>e. issueForPayment adapterFor table_name rid bid pid cust provider nonce st fb = (Inl e, fb)"
proof -
  have "\<exists>e. prepare_issue table_name rid bid pid provider nonce st fb = Inl e"
  proof (cases "payment_draft table_name rid bid pid st fb")
    case (Inr x)
    obtain d b where "x = (d, b)" by (cases x)
    moreover have "list_ex (\<lambda>q. rq_payment q = pid \<and> rq_state q \<noteq> Rq_Failed) (fb_requests fb)"
      using assms by (auto simp: list_ex_iff)
    ultimately show ?thesis using Inr by (auto simp: prepare_issue_def insert_request_def rethrow_def Let_def)
  qed (auto simp: prepare_issue_def)
  thus ?thesis by (auto simp: issueForPayment_def)
qed

lemma silent_printer_leaves_a_doubt:
  assumes "issueForPayment adapterFor table_name rid bid pid cust provider nonce st fb = (Inr reply, fb')"
    and "provider \<noteq> OWN" "adapterFor provider = Some ad"
    and "\<forall>k d c. no_decision (ad_issue ad k d c)" "\<forall>k. no_decision (ad_lookup ad k)"
  shows "(\<exists>r. reply = Reply_Refused Rq_Uncertain r) \<and> fb_invoices fb' = fb_invoices fb
     \<and> (\<exists>q \<in> set (fb_requests fb'). rq_payment q = pid \<and> rq_state q = Rq_Uncertain)
     \<and> (\<exists>e. issueForPayment adapterFor2 table_name2 rid2 bid2 pid cust2 provider2 nonce2 st2 fb' = (Inl e, fb'))"
proof -
  obtain rq d b fb1 where p: "prepare_issue table_name rid bid pid provider nonce st fb = Inr ((rq, d, b), fb1)"
    and s: "sendAndRecord adapterFor rq d (fx_rate_ves_per_unit b) cust fb1 = (Inr reply, fb')"
    using assms(1,2) by (auto simp: issueForPayment_def split: sum.splits)
  note P = prepare_issue_InrD[OF p]
  obtain c where "provider_issue (ad_issue ad (rq_key rq) d cust) = Result_Uncertain c" using no_decision_uncertain(1) assms(4) by blast
  moreover obtain c' where "provider_lookup (ad_lookup ad (rq_key rq)) = Result_Uncertain c'"
    using no_decision_uncertain(2) assms(5) by blast
  ultimately have r: "reply = Reply_Refused Rq_Uncertain c'"
    and fb': "fb' = refuse_request (rq_id rq) Rq_Uncertain (reason_or ''UNKNOWN'' c') (mark_sent (rq_id rq) fb1)"
    using s assms(3) P(8) by (simp_all add: sendAndRecord_def Let_def)
  have m: "rq\<lparr>rq_state := Rq_Uncertain, rq_attempts := rq_attempts rq + 1, rq_error := Some (reason_or ''UNKNOWN'' c')\<rparr> \<in> set (fb_requests fb')"
    using insert_request_simps(1)[OF P(2)] unfolding fb'
    by (auto simp: refuse_request_def mark_sent_def set_update_where image_iff intro!: bexI[of _ rq])
  have "fb_invoices fb' = fb_invoices fb"
    using insert_request_simps(2)[OF P(2)] unfolding fb' by (simp add: refuse_request_def mark_sent_def)
  thus ?thesis using r m P(5) requested_is_refused[OF m] by (auto intro!: bexI[OF _ m])
qed

lemma silent_printer_leaves_a_doubt_witness:
  "\<exists>pid st fb. snd (issueForPayment silent_printer no_names 7 1 pid final_consumer ''imprenta'' ''a'' st tasca_books) = fb
     \<and> (\<exists>q \<in> set (fb_requests fb). rq_payment q = pid \<and> rq_state q = Rq_Uncertain)"
proof -
  let ?run = "\<lambda>pid st. issueForPayment silent_printer no_names 7 1 pid final_consumer ''imprenta'' ''a'' st tasca_books"
  have "(case one_third of Inl e \<Rightarrow> False | Inr (pid, st) \<Rightarrow> isr (fst (?run pid st)))" by code_simp
  then obtain pid st where "isr (fst (?run pid st))" by (auto split: sum.splits)
  then obtain reply fb where r: "?run pid st = (Inr reply, fb)" by (cases "?run pid st") (auto elim: isr_E)
  let ?ad = "\<lparr>ad_issue = (\<lambda>k d c. Throws (Some ''ETIMEDOUT'') None), ad_lookup = (\<lambda>k. Throws None (Some 503))\<rparr>"
  have "silent_printer ''imprenta'' = Some ?ad" "''imprenta'' \<noteq> OWN" by (simp_all add: silent_printer_def OWN_def)
  thus ?thesis using silent_printer_leaves_a_doubt[OF r, of ?ad] r by (intro exI[of _ pid] exI[of _ st] exI[of _ fb]) auto
qed

text \<open>A dish three people share is worth more on their invoices than on the bill.\<close>

lemma shared_dish_overcounts:
  "claimed_portion 3 (dinner_line 10 100 1) = Inr 34 \<and> 3 * 34 > item_subtotal (dinner_line 10 100 1)"
  by code_simp

end
