(* ===== verification/Calendar.thy ===== *)
theory Calendar
  imports Prelude
begin

text \<open>
  Calendar dates as the billing service computes them (\<open>addMonths\<close> and \<open>addDays\<close> of
  services/platformBilling.js, over JavaScript's UTC dates).  ISO dates of four-digit years
  compare as text the way dates compare, so the order on dates is an instance of
  \<open>linorder\<close>.  The lemmas show that adding months lands on a valid later date, on the
  same day of the month or on its last one.
\<close>

datatype date = Date (year: int) (month: nat) (day: nat)

instantiation date :: linorder
begin

definition less_date :: "date \<Rightarrow> date \<Rightarrow> bool" where
  "less_date a b \<longleftrightarrow> year a < year b \<or> year a = year b \<and> (month a < month b \<or> month a = month b \<and> day a < day b)"

definition less_eq_date :: "date \<Rightarrow> date \<Rightarrow> bool" where
  "less_eq_date a b \<longleftrightarrow> year a < year b \<or> year a = year b \<and> (month a < month b \<or> month a = month b \<and> day a \<le> day b)"

instance
  by intro_classes (auto simp: less_date_def less_eq_date_def intro: date.expand)

end

definition is_leap :: "int \<Rightarrow> bool" where
  "is_leap y \<longleftrightarrow> y mod 4 = 0 \<and> (y mod 100 \<noteq> 0 \<or> y mod 400 = 0)"

definition days_in_month :: "int \<Rightarrow> nat \<Rightarrow> nat" where
  "days_in_month y m = (if m = 2 then (if is_leap y then 29 else 28) else if m \<in> {4, 6, 9, 11} then 30 else 31)"

definition valid_date :: "date \<Rightarrow> bool" where
  "valid_date d \<longleftrightarrow> 1 \<le> month d \<and> month d \<le> 12 \<and> 1 \<le> day d \<and> day d \<le> days_in_month (year d) (month d)"

definition addMonths :: "date \<Rightarrow> nat \<Rightarrow> date" where
  "addMonths d months =
     (let t = month d - 1 + months;
          y = year d + int (t div 12);
          m = t mod 12 + 1
      in Date y m (min (day d) (days_in_month y m)))"

fun next_day :: "date \<Rightarrow> date" where
  "next_day (Date y m d) =
     (if d < days_in_month y m then Date y m (d + 1) else if m < 12 then Date y (m + 1) 1 else Date (y + 1) 1 1)"

fun previous_day :: "date \<Rightarrow> date" where
  "previous_day (Date y m d) =
     (if 1 < d then Date y m (d - 1) else if 1 < m then Date y (m - 1) (days_in_month y (m - 1)) else Date (y - 1) 12 31)"

definition addDays :: "date \<Rightarrow> int \<Rightarrow> date" where
  "addDays d n = (if 0 \<le> n then (next_day ^^ nat n) d else (previous_day ^^ nat (- n)) d)"

lemma month_length: "28 \<le> days_in_month y m" "days_in_month y m \<le> 31"
  by (auto simp: days_in_month_def)

lemma addMonths_valid:
  assumes "valid_date d"
  shows "valid_date (addMonths d n)"
  using assms order.trans[OF _ month_length(1), of 1]
  by (auto simp: valid_date_def addMonths_def Let_def min_def)

lemma addMonths_later:
  assumes "valid_date d" "0 < n"
  shows "d < addMonths d n"
proof -
  let ?t = "month d - 1 + n"
  have m: "1 \<le> month d" "month d \<le> 12" using assms(1) by (auto simp: valid_date_def)
  have "?t = 12 * (?t div 12) + ?t mod 12" by simp
  show ?thesis
  proof (cases "?t div 12 = 0")
    case True
    hence "?t mod 12 = ?t" using \<open>?t = 12 * (?t div 12) + ?t mod 12\<close> by simp
    thus ?thesis using True m assms(2) by (simp add: addMonths_def Let_def less_date_def)
  next
    case False
    thus ?thesis by (simp add: addMonths_def Let_def less_date_def)
  qed
qed

lemma addMonths_day:
  "day (addMonths d n) \<le> day d"
  "day (addMonths d n) = day d \<or> day (addMonths d n) = days_in_month (year (addMonths d n)) (month (addMonths d n))"
  by (simp_all add: addMonths_def Let_def min_def)

text \<open>Steps of a month compose when the day exists in every month.\<close>

lemma addMonths_add:
  assumes "day d \<le> 28" "1 \<le> month d"
  shows "addMonths (addMonths d a) b = addMonths d (a + b)"
proof -
  have k: "min (day d) (days_in_month y m) = day d" for y m using assms(1) month_length(1)[of y m] by simp
  let ?s = "month d - 1 + a"
  have "?s mod 12 + b + 12 * (?s div 12) = month d - 1 + (a + b)" by simp
  hence e: "(?s mod 12 + b) div 12 + ?s div 12 = (month d - 1 + (a + b)) div 12"
    "(?s mod 12 + b) mod 12 = (month d - 1 + (a + b)) mod 12"
    by (metis div_mult_self2 zero_neq_numeral add.commute, metis mod_mult_self2)
  have "addMonths d a = Date (year d + int (?s div 12)) (?s mod 12 + 1) (day d)"
    by (simp only: addMonths_def Let_def k)
  hence "addMonths (addMonths d a) b
      = Date (year d + int (?s div 12) + int ((?s mod 12 + b) div 12)) ((?s mod 12 + b) mod 12 + 1) (day d)"
    by (simp add: addMonths_def[of "Date _ _ _"] Let_def k)
  thus ?thesis using e by (simp add: addMonths_def[of d] Let_def k add.assoc flip: of_nat_add)
qed

lemma next_day_later: "valid_date d \<Longrightarrow> d < next_day d"
  by (cases d) (auto simp: less_date_def)

lemma next_day_valid: "valid_date d \<Longrightarrow> valid_date (next_day d)"
  by (cases d) (auto simp: valid_date_def days_in_month_def)

lemma addDays_later:
  assumes "valid_date d" "0 < n"
  shows "d < addDays d n"
proof -
  have "valid_date ((next_day ^^ k) d) \<and> d \<le> (next_day ^^ k) d \<and> (0 < k \<longrightarrow> d < (next_day ^^ k) d)" for k
  proof (induction k)
    case (Suc k)
    hence "(next_day ^^ k) d < next_day ((next_day ^^ k) d)" using next_day_later by blast
    thus ?case using Suc next_day_valid by (auto intro: order.strict_trans1 less_imp_le)
  qed (use assms in simp)
  thus ?thesis using assms(2) by (simp add: addDays_def)
qed

text \<open>A subscription that starts on the 31st is renewed from the last day of February and
  stays there: the day of the month is not remembered.\<close>

lemma month_end_drifts:
  "addMonths (addMonths (Date 2027 1 31) 1) 1 = Date 2027 3 28" "addMonths (Date 2027 1 31) 2 = Date 2027 3 31"
  by code_simp+

end
