(* ===== verification/Plans.thy ===== *)
theory Plans
  imports Calendar
begin

text \<open>
  What a plan includes and what it refuses (services/entitlements.js), the gate of
  middleware/plan.js, \<open>canIssue\<close> of services/fiscalInvoicing.js and the change of plan of
  services/plans.js.  Tiers are ordered as they are sold; the lemmas show that the table of
  inclusions grows along that order, so that an upgrade takes nothing away.
\<close>

section \<open>Tiers and capabilities\<close>

datatype tier = TRIAL | STARTER | PRO | ENTERPRISE

datatype capability =
    C_Bills | C_Splitting | C_Declared_Mobile_Payment | C_C2p_Charge | C_Guest_Ordering
  | C_Tip_Reports | C_Menu_Ocr | C_Mfa | C_Fiscal_Invoicing

definition TIERS :: "tier list" where "TIERS = [TRIAL, STARTER, PRO, ENTERPRISE]"

definition CAPABILITIES :: "capability list" where
  "CAPABILITIES = [C_Bills, C_Splitting, C_Declared_Mobile_Payment, C_C2p_Charge, C_Guest_Ordering,
     C_Tip_Reports, C_Menu_Ocr, C_Mfa, C_Fiscal_Invoicing]"

fun INCLUDED :: "capability \<Rightarrow> tier list" where
  "INCLUDED C_Bills = TIERS"
| "INCLUDED C_Splitting = TIERS"
| "INCLUDED C_Declared_Mobile_Payment = TIERS"
| "INCLUDED C_C2p_Charge = [STARTER, PRO, ENTERPRISE]"
| "INCLUDED C_Guest_Ordering = [STARTER, PRO, ENTERPRISE]"
| "INCLUDED C_Tip_Reports = [PRO, ENTERPRISE]"
| "INCLUDED C_Menu_Ocr = [PRO, ENTERPRISE]"
| "INCLUDED C_Mfa = [PRO, ENTERPRISE]"
| "INCLUDED C_Fiscal_Invoicing = [ENTERPRISE]"

definition ENFORCED :: "capability list" where "ENFORCED = [C_Fiscal_Invoicing]"

definition tierIncludes :: "tier \<Rightarrow> capability \<Rightarrow> bool" where
  "tierIncludes t c = (t \<in> set (INCLUDED c))"

definition capabilitiesFor :: "tier \<Rightarrow> (capability \<times> bool) list" where
  "capabilitiesFor t = map (\<lambda>c. (c, tierIncludes t c)) CAPABILITIES"

definition isAllowed :: "tier \<Rightarrow> capability \<Rightarrow> bool" where
  "isAllowed t c = (if c \<notin> set ENFORCED then True else tierIncludes t c)"

definition tiersOffering :: "capability \<Rightarrow> tier list" where
  "tiersOffering c = INCLUDED c"

text \<open>The order in which the tiers are sold.\<close>

fun rank :: "tier \<Rightarrow> nat" where
  "rank TRIAL = 0" | "rank STARTER = 1" | "rank PRO = 2" | "rank ENTERPRISE = 3"

lemma rank_inj: "rank a = rank b \<Longrightarrow> a = b"
  by (cases a; cases b) simp_all

instantiation tier :: linorder
begin

definition less_tier :: "tier \<Rightarrow> tier \<Rightarrow> bool" where "less_tier a b \<longleftrightarrow> rank a < rank b"

definition less_eq_tier :: "tier \<Rightarrow> tier \<Rightarrow> bool" where "less_eq_tier a b \<longleftrightarrow> rank a \<le> rank b"

instance by intro_classes (auto simp: less_tier_def less_eq_tier_def intro: rank_inj)

end

definition diff :: "tier \<Rightarrow> tier \<Rightarrow> capability list \<times> capability list" where
  "diff from to =
     (filter (\<lambda>c. \<not> tierIncludes from c \<and> tierIncludes to c) CAPABILITIES,
      filter (\<lambda>c. tierIncludes from c \<and> \<not> tierIncludes to c) CAPABILITIES)"

lemma tiers_include_upwards:
  assumes "from \<le> to" "tierIncludes from c"
  shows "tierIncludes to c"
  using assms by (cases "from"; cases to; cases c) (simp_all add: less_eq_tier_def tierIncludes_def TIERS_def)

lemma mem_CAPABILITIES [simp]: "c \<in> set CAPABILITIES"
  by (cases c) (simp_all add: CAPABILITIES_def)

section \<open>The gate\<close>

definition canIssue :: "tier \<Rightarrow> bool \<Rightarrow> bool \<Rightarrow> string \<Rightarrow> bool" where
  "canIssue t hasSeries hasRif provider =
     (if \<not> isAllowed t C_Fiscal_Invoicing then False
      else if provider = [] then False
      else if \<not> hasRif then False
      else if provider = ''own'' then hasSeries else True)"

definition activeProvider :: "string \<Rightarrow> bool \<Rightarrow> string" where
  "activeProvider configured mockEnabled = (if configured \<noteq> [] then configured else if mockEnabled then ''mock'' else [])"

definition assertPlanAllows :: "tier option \<Rightarrow> capability \<Rightarrow> error + tier" where
  "assertPlanAllows t c =
     (case t of
        None \<Rightarrow> Inl (General Restaurant_Not_Found)
      | Some t \<Rightarrow> if isAllowed t c then Inr t else Inl (Plan_E Plan_Upgrade_Required))"

section \<open>Changing the plan\<close>

record client =
  cl_id :: nat
  cl_name :: string
  cl_tier :: tier
  cl_trial_ends :: "date option"

record plan_change =
  pc_before :: client
  pc_after :: client
  pc_gained :: "capability list"
  pc_lost :: "capability list"
  pc_breaking :: "capability list"

text \<open>\<open>used\<close> counts what the restaurant already did with a capability, \<open>today\<close> is the day of
  \<open>NOW()\<close>.\<close>

definition breaking_of :: "(capability \<Rightarrow> nat) \<Rightarrow> tier \<Rightarrow> tier \<Rightarrow> capability list" where
  "breaking_of used from to = filter (\<lambda>c. c \<in> set ENFORCED \<and> 0 < used c) (snd (diff from to))"

definition moved_client :: "tier \<Rightarrow> nat option \<Rightarrow> date \<Rightarrow> client \<Rightarrow> client" where
  "moved_client to trialDays today c =
     c\<lparr>cl_tier := to,
       cl_trial_ends := (if to \<noteq> TRIAL then None
                         else case trialDays of Some n \<Rightarrow> Some (addDays today (int n)) | None \<Rightarrow> cl_trial_ends c)\<rparr>"

definition change_plan :: "(capability \<Rightarrow> nat) \<Rightarrow> nat \<Rightarrow> tier \<Rightarrow> nat option \<Rightarrow> bool \<Rightarrow> date \<Rightarrow> client table
     \<Rightarrow> error + plan_change \<times> client table" where
  "change_plan used rid to trialDays force today cs =
     (case find_by (\<lambda>c. cl_id c = rid) cs of
        None \<Rightarrow> Inl (General Restaurant_Not_Found)
      | Some c \<Rightarrow>
          let breaking = breaking_of used (cl_tier c) to in
          if breaking \<noteq> [] \<and> \<not> force then Inl (Plan_E Plan_Downgrade_Blocked)
          else Inr (\<lparr>pc_before = c, pc_after = moved_client to trialDays today c,
                     pc_gained = fst (diff (cl_tier c) to), pc_lost = snd (diff (cl_tier c) to), pc_breaking = breaking\<rparr>,
                    update_where (\<lambda>x. cl_id x = rid) (moved_client to trialDays today) cs))"

lemma plan_change_keeps_what_is_used:
  assumes "change_plan used rid to trialDays force today cs = Inr (r, cs')"
  shows "(cl_tier (pc_before r) \<le> to \<longrightarrow> pc_lost r = [] \<and> pc_breaking r = [])
     \<and> (\<forall>c. isAllowed (cl_tier (pc_before r)) c \<and> 0 < used c \<longrightarrow> force \<or> isAllowed to c)
     \<and> (to \<noteq> TRIAL \<longrightarrow> cl_trial_ends (pc_after r) = None)
     \<and> find_by (\<lambda>c. cl_id c = rid) cs' = Some (pc_after r) \<and> cl_tier (pc_after r) = to
     \<and> (\<forall>x \<in> set cs'. cl_id x \<noteq> rid \<longrightarrow> x \<in> set cs)"
proof -
  obtain c where c: "find_by (\<lambda>c. cl_id c = rid) cs = Some c"
    and b: "breaking_of used (cl_tier c) to = [] \<or> force"
    and r: "r = \<lparr>pc_before = c, pc_after = moved_client to trialDays today c, pc_gained = fst (diff (cl_tier c) to),
              pc_lost = snd (diff (cl_tier c) to), pc_breaking = breaking_of used (cl_tier c) to\<rparr>"
    and cs': "cs' = update_where (\<lambda>x. cl_id x = rid) (moved_client to trialDays today) cs"
    using assms by (auto simp: change_plan_def Let_def split: option.splits if_splits)
  have "pc_lost r = [] \<and> pc_breaking r = []" if "cl_tier c \<le> to"
    using tiers_include_upwards[OF that] by (auto simp: r diff_def breaking_of_def filter_empty_conv)
  moreover have "force \<or> isAllowed to k" if "isAllowed (cl_tier c) k" "0 < used k" for k
  proof (rule ccontr)
    assume n: "\<not> (force \<or> isAllowed to k)"
    hence e: "k \<in> set ENFORCED" "\<not> tierIncludes to k" "tierIncludes (cl_tier c) k"
      using that by (auto simp: isAllowed_def split: if_splits)
    hence "k \<in> set (breaking_of used (cl_tier c) to)" using that(2) by (simp add: breaking_of_def diff_def)
    thus False using b n by auto
  qed
  moreover have "find_by (\<lambda>c. cl_id c = rid) cs' = Some (pc_after r)"
    using find_by_hit[OF c, of "moved_client to trialDays today"] find_by_SomeD[OF c]
      find_by_update[of "\<lambda>c. cl_id c = rid" "moved_client to trialDays today" "\<lambda>x. cl_id x = rid" cs]
    by (simp add: r cs' c moved_client_def)
  ultimately show ?thesis by (auto simp: r cs' set_update_where moved_client_def)
qed

lemma plan_change_keeps_what_is_used_witness:
  "\<exists>r cs'. change_plan (\<lambda>c. 3) 7 STARTER None True (Date 2026 3 1)
       [\<lparr>cl_id = 7, cl_name = ''Tasca'', cl_tier = ENTERPRISE, cl_trial_ends = None\<rparr>] = Inr (r, cs')
     \<and> pc_breaking r = [C_Fiscal_Invoicing] \<and> cl_tier (pc_after r) = STARTER"
proof -
  let ?cs = "[\<lparr>cl_id = 7, cl_name = ''Tasca'', cl_tier = ENTERPRISE, cl_trial_ends = None\<rparr>]"
  have "(case change_plan (\<lambda>c. 3) 7 STARTER None True (Date 2026 3 1) ?cs of Inl e \<Rightarrow> False
      | Inr (r, cs') \<Rightarrow> pc_breaking r = [C_Fiscal_Invoicing])" by code_simp
  then obtain r cs' where r: "change_plan (\<lambda>c. 3) 7 STARTER None True (Date 2026 3 1) ?cs = Inr (r, cs')"
    "pc_breaking r = [C_Fiscal_Invoicing]" by (auto split: sum.splits)
  thus ?thesis using plan_change_keeps_what_is_used[OF r(1)] by blast
qed

end
