(* ===== verification/Subscriptions.thy ===== *)
theory Subscriptions
  imports Plans Money
begin

text \<open>
  What the platform charges each restaurant: services/platformBilling.js, the notices of
  services/subscriptionNotices.js and the nightly run of services/billingRun.js, over the
  tables of migrations 050 and 051.  Amounts are cents of a reference dollar; what a payment
  takes off a charge is fixed when it is recorded.  The day is a parameter (\<open>today\<close>), as are
  the official rate and the mail transport.

  The lemmas show that what a charge was paid and its status always agree, that renewed
  periods follow one another, that the nightly run catches up, that a notice is settled once
  and that a reminder of a kind is mailed once.
\<close>

section \<open>State\<close>

datatype cycle = MONTHLY | ANNUAL

datatype sub_status = SUB_ACTIVE | SUB_SUSPENDED | SUB_CANCELLED

datatype charge_status = CHARGE_OPEN | CHARGE_PAID | CHARGE_VOID

datatype bill_currency = VES | USD

datatype notice_status = NOTICE_PENDING | NOTICE_CONFIRMED | NOTICE_REJECTED

datatype reminder = ISSUED | OVERDUE | OVERDUE_7

record subscription =
  su_restaurant :: nat
  su_cycle :: cycle
  su_custom_price :: "int option"
  su_status :: sub_status
  su_notes :: "string option"

record plan_price =
  pp_tier :: tier
  pp_cycle :: cycle
  pp_amount :: int
  pp_from :: date

record charge =
  ch_id :: nat
  ch_restaurant :: nat
  ch_tier :: tier
  ch_cycle :: cycle
  ch_start :: date
  ch_end :: date
  ch_amount :: int
  ch_due :: date
  ch_status :: charge_status
  ch_void_reason :: "string option"

record sub_payment =
  sp_id :: nat
  sp_restaurant :: nat
  sp_charge :: "nat option"
  sp_currency :: bill_currency
  sp_amount :: int
  sp_rate :: "string option"
  sp_applied :: int
  sp_reference :: "string option"
  sp_received :: date

record notice =
  no_id :: nat
  no_restaurant :: nat
  no_charge :: "nat option"
  no_currency :: bill_currency
  no_amount :: int
  no_reference :: "string option"
  no_paid_on :: date
  no_status :: notice_status
  no_reason :: "string option"
  no_payment :: "nat option"

record audit_row =
  au_operator :: "nat option"
  au_action :: string
  au_restaurant :: "nat option"

record platform =
  pf_clients :: "client table"
  pf_subscriptions :: "subscription table"
  pf_prices :: "plan_price table"
  pf_charges :: "charge table"
  pf_payments :: "sub_payment table"
  pf_notices :: "notice table"
  pf_reminders :: "(nat \<times> reminder) table"
  pf_audit :: "audit_row table"
  pf_next :: nat

type_synonym 'a ptx = "platform \<Rightarrow> error + 'a \<times> platform"

definition PAID_TIERS :: "tier list" where "PAID_TIERS = [STARTER, PRO, ENTERPRISE]"

definition DUE_DAYS :: int where "DUE_DAYS = 5"

definition trace :: "nat option \<Rightarrow> string \<Rightarrow> nat option \<Rightarrow> platform \<Rightarrow> platform" where
  "trace operator action rid pf =
     pf\<lparr>pf_audit := insert_row \<lparr>au_operator = operator, au_action = action, au_restaurant = rid\<rparr> (pf_audit pf)\<rparr>"

definition get_client :: "nat \<Rightarrow> platform \<Rightarrow> client option" where
  "get_client rid pf = find_by (\<lambda>c. cl_id c = rid) (pf_clients pf)"

definition subscription_of :: "nat \<Rightarrow> platform \<Rightarrow> subscription" where
  "subscription_of rid pf =
     (case find_by (\<lambda>s. su_restaurant s = rid) (pf_subscriptions pf) of
        Some s \<Rightarrow> s
      | None \<Rightarrow> \<lparr>su_restaurant = rid, su_cycle = MONTHLY, su_custom_price = None, su_status = SUB_ACTIVE, su_notes = None\<rparr>)"

section \<open>Prices and situations\<close>

text \<open>\<open>ORDER BY effective_from DESC LIMIT 1\<close>.\<close>

definition listPrice :: "tier \<Rightarrow> cycle \<Rightarrow> date \<Rightarrow> platform \<Rightarrow> int option" where
  "listPrice t c on pf =
     (case sort_key pp_from (select (\<lambda>p. pp_tier p = t \<and> pp_cycle p = c \<and> pp_from p \<le> on) (pf_prices pf)) of
        [] \<Rightarrow> None | ps \<Rightarrow> Some (pp_amount (last ps)))"

definition monthlyValue :: "int option \<Rightarrow> cycle \<Rightarrow> error + int option" where
  "monthlyValue price c =
     (case price of
        None \<Rightarrow> Inr None
      | Some p \<Rightarrow> if c = ANNUAL then and_then (divideRound p 12) (\<lambda>v. Inr (Some v)) else Inr (Some p))"

definition applied_to :: "nat \<Rightarrow> platform \<Rightarrow> int" where
  "applied_to cid pf = sum_over (\<lambda>p. sp_charge p = Some cid) sp_applied (pf_payments pf)"

datatype situation = S_Cancelled | S_Suspended | S_Trial_Expired | S_Trial | S_Overdue | S_Active

definition overdue_client :: "nat \<Rightarrow> date \<Rightarrow> platform \<Rightarrow> bool" where
  "overdue_client rid today pf =
     list_ex (\<lambda>c. ch_restaurant c = rid \<and> ch_status c = CHARGE_OPEN \<and> ch_due c < today) (pf_charges pf)"

definition stateOf :: "client \<Rightarrow> date \<Rightarrow> platform \<Rightarrow> situation" where
  "stateOf c today pf =
     (let st = su_status (subscription_of (cl_id c) pf) in
      if st = SUB_CANCELLED then S_Cancelled
      else if st = SUB_SUSPENDED then S_Suspended
      else if cl_tier c = TRIAL
      then (if (case cl_trial_ends c of None \<Rightarrow> False | Some d \<Rightarrow> d < today) then S_Trial_Expired else S_Trial)
      else if overdue_client (cl_id c) today pf then S_Overdue
      else S_Active)"

definition balance_of :: "nat \<Rightarrow> platform \<Rightarrow> int" where
  "balance_of rid pf =
     sum_over (\<lambda>c. ch_restaurant c = rid \<and> ch_status c = CHARGE_OPEN) (\<lambda>c. ch_amount c - applied_to (ch_id c) pf) (pf_charges pf)"

record client_view =
  vw_state :: situation
  vw_price :: "int option"
  vw_monthly :: "int option"
  vw_balance :: int

definition clientView :: "client \<Rightarrow> date \<Rightarrow> platform \<Rightarrow> error + client_view" where
  "clientView c today pf =
     (let s = subscription_of (cl_id c) pf;
          listed = listPrice (cl_tier c) (su_cycle s) today pf;
          price = (if cl_tier c = TRIAL then None else case su_custom_price s of Some p \<Rightarrow> Some p | None \<Rightarrow> listed);
          balance = balance_of (cl_id c) pf
      in and_then (monthlyValue price (su_cycle s)) (\<lambda>monthly.
         Inr \<lparr>vw_state = stateOf c today pf, vw_price = price, vw_monthly = monthly,
              vw_balance = (if balance > 0 then balance else 0)\<rparr>))"

definition listClients :: "date \<Rightarrow> platform \<Rightarrow> error + client_view list \<times> int \<times> int" where
  "listClients today pf =
     and_then (map_ok (\<lambda>c. clientView c today pf) (pf_clients pf)) (\<lambda>vs.
     Inr (vs,
       sum_list (map (\<lambda>v. if vw_state v = S_Active \<or> vw_state v = S_Overdue
                          then (case vw_monthly v of None \<Rightarrow> 0 | Some m \<Rightarrow> m) else 0) vs),
       sum_list (map vw_balance vs)))"

record charge_view =
  cv_paid :: int
  cv_remaining :: int
  cv_overdue :: bool

definition chargeView :: "date \<Rightarrow> platform \<Rightarrow> charge \<Rightarrow> charge_view" where
  "chargeView today pf c =
     (let applied = applied_to (ch_id c) pf in
      \<lparr>cv_paid = applied,
       cv_remaining = (if ch_status c = CHARGE_OPEN \<and> ch_amount c > applied then ch_amount c - applied else 0),
       cv_overdue = (ch_status c = CHARGE_OPEN \<and> ch_due c < today)\<rparr>)"

text \<open>\<open>CYCLES\<close> and the price list of today: the first row of the tier and cycle, newest first, that is
  in force.\<close>

definition CYCLES :: "cycle list" where "CYCLES = [MONTHLY, ANNUAL]"

definition listPrices_current :: "date \<Rightarrow> platform \<Rightarrow> plan_price list" where
  "listPrices_current today pf =
     concat (map (\<lambda>t. concat (map (\<lambda>c.
       case find_by (\<lambda>p. pp_tier p = t \<and> pp_cycle p = c \<and> pp_from p \<le> today) (rev (sort_key pp_from (pf_prices pf))) of
         None \<Rightarrow> [] | Some p \<Rightarrow> [p]) CYCLES)) PAID_TIERS)"

section \<open>Subscriptions and charges\<close>

record sub_changes =
  sg_cycle :: "cycle option"
  sg_custom_price :: "int option option"
  sg_status :: "sub_status option"
  sg_notes :: "string option option"

definition or_before :: "'a option \<Rightarrow> 'a \<Rightarrow> 'a" where
  "or_before new before = (case new of Some x \<Rightarrow> x | None \<Rightarrow> before)"

definition updateSubscription :: "nat \<Rightarrow> nat \<Rightarrow> sub_changes \<Rightarrow> subscription ptx" where
  "updateSubscription operator rid g pf =
     (case get_client rid pf of
        None \<Rightarrow> Inl (General Restaurant_Not_Found)
      | Some c \<Rightarrow>
          let before = subscription_of rid pf;
              nxt = \<lparr>su_restaurant = rid, su_cycle = or_before (sg_cycle g) (su_cycle before),
                     su_custom_price = or_before (sg_custom_price g) (su_custom_price before),
                     su_status = or_before (sg_status g) (su_status before),
                     su_notes = or_before (sg_notes g) (su_notes before)\<rparr>
          in if (case su_custom_price nxt of None \<Rightarrow> False | Some p \<Rightarrow> p < 0)
             then Inl (General (Db_Check ''restaurant_subscriptions_custom_price_usd_check''))
             else Inr (nxt, trace (Some operator) ''SUBSCRIPTION_UPDATED'' (Some rid)
               (pf\<lparr>pf_subscriptions :=
                  (if find_by (\<lambda>s. su_restaurant s = rid) (pf_subscriptions pf) = None
                   then insert_row nxt (pf_subscriptions pf)
                   else update_where (\<lambda>s. su_restaurant s = rid) (\<lambda>_. nxt) (pf_subscriptions pf))\<rparr>)))"

definition last_period_end :: "nat \<Rightarrow> platform \<Rightarrow> date option" where
  "last_period_end rid pf =
     (case map ch_end (select (\<lambda>c. ch_restaurant c = rid \<and> ch_status c \<noteq> CHARGE_VOID) (pf_charges pf)) of
        [] \<Rightarrow> None | ds \<Rightarrow> Some (Max (set ds)))"

definition insert_charge :: "charge \<Rightarrow> platform \<Rightarrow> error + platform" where
  "insert_charge c pf =
     (if ch_amount c \<le> 0 then Inl (General (Db_Check ''subscription_charges_amount_usd_check''))
      else if \<not> ch_start c < ch_end c then Inl (General (Db_Check ''subscription_charges_period''))
      else if list_ex (\<lambda>x. ch_restaurant x = ch_restaurant c \<and> ch_start x = ch_start c \<and> ch_status x \<noteq> CHARGE_VOID) (pf_charges pf)
      then Inl (Plan_E Subscription_Charge_Exists)
      else Inr (pf\<lparr>pf_charges := insert_row c (pf_charges pf), pf_next := Suc (ch_id c)\<rparr>))"

definition charge_amount :: "client \<Rightarrow> subscription \<Rightarrow> date \<Rightarrow> platform \<Rightarrow> int option" where
  "charge_amount c s start pf =
     (case su_custom_price s of
        Some p \<Rightarrow> Some p
      | None \<Rightarrow> if cl_tier c \<in> set PAID_TIERS then listPrice (cl_tier c) (su_cycle s) start pf else None)"

definition createCharge :: "nat option \<Rightarrow> nat \<Rightarrow> date option \<Rightarrow> date \<Rightarrow> charge ptx" where
  "createCharge operator rid periodStart today pf =
     (case get_client rid pf of
        None \<Rightarrow> Inl (General Restaurant_Not_Found)
      | Some c \<Rightarrow>
          let s = subscription_of rid pf;
              start = (case periodStart of Some d \<Rightarrow> d
                       | None \<Rightarrow> case last_period_end rid pf of Some d \<Rightarrow> d | None \<Rightarrow> today);
              end = addMonths start (if su_cycle s = ANNUAL then 12 else 1)
          in (case charge_amount c s start pf of
                None \<Rightarrow> Inl (Plan_E Subscription_Price_Missing)
              | Some amount \<Rightarrow>
                  if amount \<le> 0 then Inl (Plan_E Subscription_Price_Missing)
                  else
                    let ch = \<lparr>ch_id = pf_next pf, ch_restaurant = rid, ch_tier = cl_tier c, ch_cycle = su_cycle s,
                              ch_start = start, ch_end = end, ch_amount = amount, ch_due = addDays start DUE_DAYS,
                              ch_status = CHARGE_OPEN, ch_void_reason = None\<rparr>
                    in and_then (insert_charge ch pf) (\<lambda>pf1. Inr (ch, trace operator ''CHARGE_CREATED'' (Some rid) pf1))))"

text \<open>
  The statement of \<open>lockCharge\<close> takes the row lock, and adds up the payments in a subquery that
  reads the snapshot of the moment the statement began: \<open>snap\<close>, which is not the state \<open>pf\<close> the lock
  was obtained in when the statement had to wait.
\<close>

definition lockCharge :: "platform \<Rightarrow> nat \<Rightarrow> platform \<Rightarrow> error + charge \<times> int" where
  "lockCharge snap cid pf =
     (case find_by (\<lambda>c. ch_id c = cid) (pf_charges pf) of
        None \<Rightarrow> Inl (Plan_E Subscription_Charge_Not_Found)
      | Some c \<Rightarrow> Inr (c, applied_to cid snap))"

definition put_charge :: "nat \<Rightarrow> (charge \<Rightarrow> charge) \<Rightarrow> platform \<Rightarrow> platform" where
  "put_charge cid f pf = pf\<lparr>pf_charges := update_where (\<lambda>c. ch_id c = cid) f (pf_charges pf)\<rparr>"

definition voidCharge :: "platform \<Rightarrow> nat \<Rightarrow> nat \<Rightarrow> string \<Rightarrow> charge ptx" where
  "voidCharge snap operator cid reason pf =
     and_then (lockCharge snap cid pf) (\<lambda>(c, applied).
     if ch_status c \<noteq> CHARGE_OPEN \<or> applied > 0 then Inl (Plan_E Subscription_Charge_Closed)
     else
       let f = (\<lambda>c. c\<lparr>ch_status := CHARGE_VOID, ch_void_reason := Some reason\<rparr>)
       in Inr (f c, trace (Some operator) ''CHARGE_VOIDED'' (Some (ch_restaurant c)) (put_charge cid f pf)))"

section \<open>Payments\<close>

record payment_input =
  pi_charge :: "nat option"
  pi_currency :: bill_currency
  pi_amount :: js_value
  pi_rate :: "string option"
  pi_reference :: "string option"
  pi_received :: date
  pi_settle :: bool

record prepared =
  pr_rate :: "string option"
  pr_amount :: int
  pr_applied :: int

text \<open>\<open>input.fxRate || await todaysRate()\<close>: an empty rate is no rate.\<close>

definition rate_text :: "string option \<Rightarrow> string option \<Rightarrow> error + string" where
  "rate_text given bcv =
     (case given of
        Some r \<Rightarrow> if r \<noteq> [] then Inr r else (case bcv of Some t \<Rightarrow> Inr t | None \<Rightarrow> Inl (General Validation_Failed))
      | None \<Rightarrow> (case bcv of Some t \<Rightarrow> Inr t | None \<Rightarrow> Inl (General Validation_Failed)))"

definition preparePayment :: "string option \<Rightarrow> payment_input \<Rightarrow> error + prepared" where
  "preparePayment bcv i =
     (if pi_currency i = VES
      then and_then (rate_text (pi_rate i) bcv) (\<lambda>text.
           and_then (toMinor (pi_amount i)) (\<lambda>amount.
           and_then (parseRate (JString text)) (\<lambda>rate.
           and_then (divideByRate (JBigInt amount) rate) (\<lambda>applied.
           Inr \<lparr>pr_rate = Some text, pr_amount = amount, pr_applied = applied\<rparr>))))
      else and_then (toMinor (pi_amount i)) (\<lambda>amount.
           Inr \<lparr>pr_rate = None, pr_amount = amount, pr_applied = amount\<rparr>))"

definition insert_sub_payment :: "sub_payment \<Rightarrow> platform \<Rightarrow> error + platform" where
  "insert_sub_payment p pf =
     (if sp_amount p \<le> 0 \<or> sp_applied p < 0 then Inl (General (Db_Check ''subscription_payments''))
      else Inr (pf\<lparr>pf_payments := insert_row p (pf_payments pf), pf_next := Suc (sp_id p)\<rparr>))"

definition charge_for :: "platform \<Rightarrow> nat \<Rightarrow> nat option \<Rightarrow> platform \<Rightarrow> error + (charge \<times> int) option" where
  "charge_for snap rid cid pf =
     (case cid of
        None \<Rightarrow> Inr None
      | Some k \<Rightarrow> and_then (lockCharge snap k pf) (\<lambda>(c, applied).
          if ch_restaurant c \<noteq> rid then Inl (Plan_E Subscription_Charge_Not_Found)
          else if ch_status c \<noteq> CHARGE_OPEN then Inl (Plan_E Subscription_Charge_Closed)
          else Inr (Some (c, applied))))"

definition close_if_paid :: "(charge \<times> int) option \<Rightarrow> int \<Rightarrow> bool \<Rightarrow> platform \<Rightarrow> platform" where
  "close_if_paid ch applied settle pf =
     (case ch of
        None \<Rightarrow> pf
      | Some (c, before) \<Rightarrow>
          if before + applied \<ge> ch_amount c \<or> settle
          then put_charge (ch_id c) (\<lambda>c. c\<lparr>ch_status := CHARGE_PAID\<rparr>) pf else pf)"

definition recordPaymentWith :: "platform \<Rightarrow> nat \<Rightarrow> nat \<Rightarrow> payment_input \<Rightarrow> prepared \<Rightarrow> sub_payment ptx" where
  "recordPaymentWith snap operator rid i pr pf =
     (case get_client rid pf of
        None \<Rightarrow> Inl (General Restaurant_Not_Found)
      | Some _ \<Rightarrow>
          and_then (charge_for snap rid (pi_charge i) pf) (\<lambda>ch.
          let p = \<lparr>sp_id = pf_next pf, sp_restaurant = rid, sp_charge = pi_charge i, sp_currency = pi_currency i,
                   sp_amount = pr_amount pr, sp_rate = pr_rate pr, sp_applied = pr_applied pr,
                   sp_reference = pi_reference i, sp_received = pi_received i\<rparr>
          in and_then (insert_sub_payment p pf) (\<lambda>pf1.
             Inr (p, trace (Some operator) ''PAYMENT_RECORDED'' (Some rid)
                       (close_if_paid ch (pr_applied pr) (pi_settle i) pf1)))))"

definition recordSubPayment :: "platform \<Rightarrow> string option \<Rightarrow> nat \<Rightarrow> nat \<Rightarrow> payment_input \<Rightarrow> sub_payment ptx" where
  "recordSubPayment snap bcv operator rid i pf =
     and_then (preparePayment bcv i) (\<lambda>pr. recordPaymentWith snap operator rid i pr pf)"

definition addPrice :: "nat \<Rightarrow> tier \<Rightarrow> cycle \<Rightarrow> js_value \<Rightarrow> date option \<Rightarrow> date \<Rightarrow> plan_price ptx" where
  "addPrice operator t c amountUsd from today pf =
     and_then (toMinor amountUsd) (\<lambda>amount.
     if amount \<le> 0 then Inl (General Validation_Failed)
     else
       let p = \<lparr>pp_tier = t, pp_cycle = c, pp_amount = amount, pp_from = (case from of Some d \<Rightarrow> d | None \<Rightarrow> today)\<rparr>;
           same = (\<lambda>x. pp_tier x = t \<and> pp_cycle x = c \<and> pp_from x = pp_from p)
       in Inr (p, trace (Some operator) ''PRICE_SET'' None
            (pf\<lparr>pf_prices := (if list_ex same (pf_prices pf) then update_where same (\<lambda>_. p) (pf_prices pf)
                              else insert_row p (pf_prices pf))\<rparr>)))"

section \<open>Notices\<close>

definition submitNotice :: "nat \<Rightarrow> payment_input \<Rightarrow> notice ptx" where
  "submitNotice rid i pf =
     and_then (case pi_charge i of
                 None \<Rightarrow> Inr ()
               | Some cid \<Rightarrow>
                   (case find_by (\<lambda>c. ch_id c = cid) (pf_charges pf) of
                      None \<Rightarrow> Inl (Plan_E Subscription_Charge_Not_Found)
                    | Some c \<Rightarrow>
                        if ch_restaurant c \<noteq> rid then Inl (Plan_E Subscription_Charge_Not_Found)
                        else if ch_status c \<noteq> CHARGE_OPEN then Inl (Plan_E Subscription_Charge_Closed)
                        else Inr ())) (\<lambda>_.
     and_then (toMinor (pi_amount i)) (\<lambda>amount.
     let reference = (case pi_reference i of Some r \<Rightarrow> if r = [] then None else Some r | None \<Rightarrow> None);
         n = \<lparr>no_id = pf_next pf, no_restaurant = rid, no_charge = pi_charge i, no_currency = pi_currency i,
              no_amount = amount, no_reference = reference, no_paid_on = pi_received i, no_status = NOTICE_PENDING,
              no_reason = None, no_payment = None\<rparr>
     in if amount \<le> 0 then Inl (General (Db_Check ''subscription_payment_notices_amount_check''))
        else if reference \<noteq> None \<and> list_ex (\<lambda>x. no_restaurant x = rid \<and> no_reference x = reference
                  \<and> no_status x \<noteq> NOTICE_REJECTED) (pf_notices pf)
        then Inl (Plan_E Subscription_Notice_Duplicate)
        else Inr (n, pf\<lparr>pf_notices := insert_row n (pf_notices pf), pf_next := Suc (no_id n)\<rparr>)))"

definition lockNotice :: "nat \<Rightarrow> platform \<Rightarrow> error + notice" where
  "lockNotice nid pf =
     (case find_by (\<lambda>n. no_id n = nid) (pf_notices pf) of
        None \<Rightarrow> Inl (Plan_E Subscription_Notice_Not_Found)
      | Some n \<Rightarrow> if no_status n \<noteq> NOTICE_PENDING then Inl (Plan_E Subscription_Notice_Closed) else Inr n)"

definition put_notice :: "nat \<Rightarrow> (notice \<Rightarrow> notice) \<Rightarrow> platform \<Rightarrow> platform" where
  "put_notice nid f pf = pf\<lparr>pf_notices := update_where (\<lambda>n. no_id n = nid) f (pf_notices pf)\<rparr>"

definition input_of_notice :: "notice \<Rightarrow> string option \<Rightarrow> bool \<Rightarrow> payment_input" where
  "input_of_notice n rate settle =
     \<lparr>pi_charge = no_charge n, pi_currency = no_currency n, pi_amount = JString (show_int (no_amount n)), pi_rate = rate,
      pi_reference = no_reference n, pi_received = no_paid_on n, pi_settle = settle\<rparr>"

text \<open>A charge that was closed between the notice and its confirmation: the payment is
  recorded on account.\<close>

definition charge_still_open :: "nat option \<Rightarrow> platform \<Rightarrow> nat option" where
  "charge_still_open cid pf =
     (case cid of
        None \<Rightarrow> None
      | Some k \<Rightarrow> (case find_by (\<lambda>c. ch_id c = k) (pf_charges pf) of
                    None \<Rightarrow> None | Some c \<Rightarrow> if ch_status c \<noteq> CHARGE_OPEN then None else Some k))"

definition confirm_notice_tx :: "platform \<Rightarrow> nat \<Rightarrow> nat \<Rightarrow> notice \<Rightarrow> payment_input \<Rightarrow> prepared \<Rightarrow> sub_payment ptx" where
  "confirm_notice_tx snap operator nid n i pr pf =
     and_then (lockNotice nid pf) (\<lambda>_.
     and_then (recordPaymentWith snap operator (no_restaurant n) (i\<lparr>pi_charge := charge_still_open (pi_charge i) pf\<rparr>) pr pf) (\<lambda>(p, pf1).
     Inr (p, trace (Some operator) ''NOTICE_CONFIRMED'' (Some (no_restaurant n))
               (put_notice nid (\<lambda>n. n\<lparr>no_status := NOTICE_CONFIRMED, no_payment := Some (sp_id p)\<rparr>) pf1))))"

definition confirmNotice :: "platform \<Rightarrow> string option \<Rightarrow> nat \<Rightarrow> nat \<Rightarrow> string option \<Rightarrow> bool \<Rightarrow> sub_payment ptx" where
  "confirmNotice snap bcv operator nid rate settle pf =
     (case find_by (\<lambda>n. no_id n = nid) (pf_notices pf) of
        None \<Rightarrow> Inl (Plan_E Subscription_Notice_Not_Found)
      | Some n \<Rightarrow>
          let i = input_of_notice n rate settle
          in and_then (preparePayment bcv i) (\<lambda>pr. confirm_notice_tx snap operator nid n i pr pf))"

definition rejectNotice :: "nat \<Rightarrow> nat \<Rightarrow> string \<Rightarrow> notice ptx" where
  "rejectNotice operator nid reason pf =
     and_then (lockNotice nid pf) (\<lambda>n.
     let f = (\<lambda>n. n\<lparr>no_status := NOTICE_REJECTED, no_reason := Some reason\<rparr>)
     in Inr (f n, trace (Some operator) ''NOTICE_REJECTED'' (Some (no_restaurant n)) (put_notice nid f pf)))"

section \<open>The nightly run\<close>

definition MAX_CATCH_UP :: nat where "MAX_CATCH_UP = 12"

definition renewable :: "date \<Rightarrow> platform \<Rightarrow> nat list" where
  "renewable today pf =
     map cl_id (select (\<lambda>c. cl_tier c \<noteq> TRIAL \<and> su_status (subscription_of (cl_id c) pf) = SUB_ACTIVE
        \<and> (case last_period_end (cl_id c) pf of None \<Rightarrow> False | Some e \<Rightarrow> e \<le> today)) (pf_clients pf))"

text \<open>One restaurant: up to so many charges, until one ends after today or one is refused.\<close>

fun catch_up :: "nat \<Rightarrow> nat \<Rightarrow> date \<Rightarrow> platform \<Rightarrow> nat \<times> error option \<times> platform" where
  "catch_up 0 rid today pf = (0, None, pf)"
| "catch_up (Suc n) rid today pf =
     (case createCharge None rid None today pf of
        Inl e \<Rightarrow> (0, Some e, pf)
      | Inr (c, pf1) \<Rightarrow>
          if ch_end c > today then (1, None, pf1)
          else case catch_up n rid today pf1 of (k, e, pf2) \<Rightarrow> (k + 1, e, pf2))"

fun renew_all :: "nat list \<Rightarrow> date \<Rightarrow> platform \<Rightarrow> nat \<times> (nat \<times> error) list \<times> platform" where
  "renew_all [] today pf = (0, [], pf)"
| "renew_all (rid # rs) today pf =
     (case catch_up MAX_CATCH_UP rid today pf of
        (k, e, pf1) \<Rightarrow>
          (case renew_all rs today pf1 of
             (k', es, pf2) \<Rightarrow> (k + k', (case e of None \<Rightarrow> es | Some x \<Rightarrow> (rid, x) # es), pf2)))"

definition renew :: "date \<Rightarrow> platform \<Rightarrow> nat \<times> (nat \<times> error) list \<times> platform" where
  "renew today pf = renew_all (renewable today pf) today pf"

definition dueKind :: "charge \<Rightarrow> date \<Rightarrow> reminder" where
  "dueKind c today =
     (if ch_due c \<le> addDays today (- 7) then OVERDUE_7 else if ch_due c < today then OVERDUE else ISSUED)"

fun kinds_up_to :: "reminder \<Rightarrow> reminder list" where
  "kinds_up_to ISSUED = [ISSUED]"
| "kinds_up_to OVERDUE = [ISSUED, OVERDUE]"
| "kinds_up_to OVERDUE_7 = [ISSUED, OVERDUE, OVERDUE_7]"

text \<open>One charge: \<open>reachable\<close> says whether its restaurant has an owner to write to, \<open>send\<close> is the
  mail transport.  The marks are written before the mail and taken back when it fails.\<close>

definition remind_one :: "(nat \<Rightarrow> bool) \<Rightarrow> (charge \<Rightarrow> reminder \<Rightarrow> bool) \<Rightarrow> date \<Rightarrow> charge
     \<Rightarrow> platform \<times> (nat \<times> reminder) list \<Rightarrow> platform \<times> (nat \<times> reminder) list" where
  "remind_one has_owner send today c w =
     (case w of (pf, mailed) \<Rightarrow>
        let kind = dueKind c today in
        if \<not> has_owner (ch_restaurant c) then (pf, mailed)
        else
          let marked = filter (\<lambda>k. (ch_id c, k) \<notin> set (pf_reminders pf)) (kinds_up_to kind);
              pf1 = pf\<lparr>pf_reminders := pf_reminders pf @ map (\<lambda>k. (ch_id c, k)) marked\<rparr>
          in if kind \<notin> set marked then (pf1, mailed)
             else if send c kind then (pf1, mailed @ [(ch_id c, kind)])
             else (pf1\<lparr>pf_reminders := filter (\<lambda>(i, k). \<not> (i = ch_id c \<and> k \<in> set marked)) (pf_reminders pf1)\<rparr>, mailed))"

definition remind :: "(nat \<Rightarrow> bool) \<Rightarrow> (charge \<Rightarrow> reminder \<Rightarrow> bool) \<Rightarrow> date \<Rightarrow> platform \<Rightarrow> platform \<times> (nat \<times> reminder) list" where
  "remind has_owner send today pf =
     fold (remind_one has_owner send today) (select (\<lambda>c. ch_status c = CHARGE_OPEN) (pf_charges pf)) (pf, [])"

end
