(* ===== verification/Subscription_Books.thy ===== *)
theory Subscription_Books
  imports Subscriptions
begin

text \<open>
  What holds of the platform's books whatever the operators, the restaurants and the nightly run
  commit, one transaction after another: charges and payments agree, a period is charged once, a
  notice is settled once, renewed periods follow one another and a reminder is mailed once.  The
  last section runs two transactions across each other and shows what a stale sum does.
\<close>

section \<open>The invariant\<close>

definition charge_ok :: "platform \<Rightarrow> charge \<Rightarrow> bool" where
  "charge_ok pf c \<longleftrightarrow> ch_id c < pf_next pf \<and> 0 < ch_amount c \<and> ch_start c < ch_end c
     \<and> (ch_status c = CHARGE_OPEN \<longrightarrow> applied_to (ch_id c) pf < ch_amount c)
     \<and> (ch_status c = CHARGE_VOID \<longrightarrow> applied_to (ch_id c) pf = 0)"

definition sub_payment_ok :: "platform \<Rightarrow> sub_payment \<Rightarrow> bool" where
  "sub_payment_ok pf p \<longleftrightarrow> sp_id p < pf_next pf \<and> 0 < sp_amount p \<and> 0 \<le> sp_applied p
     \<and> (\<forall>k. sp_charge p = Some k \<longrightarrow> (\<exists>c \<in> set (pf_charges pf). ch_id c = k \<and> ch_restaurant c = sp_restaurant p))"

definition pays_notice :: "sub_payment \<Rightarrow> notice \<Rightarrow> bool" where
  "pays_notice p n \<longleftrightarrow> no_payment n = Some (sp_id p) \<and> sp_restaurant p = no_restaurant n \<and> sp_currency p = no_currency n
     \<and> sp_amount p = no_amount n \<and> sp_reference p = no_reference n"

definition notice_ok :: "platform \<Rightarrow> notice \<Rightarrow> bool" where
  "notice_ok pf n \<longleftrightarrow> no_id n < pf_next pf
     \<and> (if no_status n = NOTICE_CONFIRMED then \<exists>p \<in> set (pf_payments pf). pays_notice p n else no_payment n = None)"

definition one_live_charge :: "charge table \<Rightarrow> bool" where
  "one_live_charge cs \<longleftrightarrow> (\<forall>c \<in> set cs. \<forall>d \<in> set cs. ch_status c \<noteq> CHARGE_VOID \<longrightarrow> ch_status d \<noteq> CHARGE_VOID
     \<longrightarrow> ch_restaurant c = ch_restaurant d \<longrightarrow> ch_start c = ch_start d \<longrightarrow> c = d)"

definition one_notice_each :: "notice table \<Rightarrow> bool" where
  "one_notice_each ns \<longleftrightarrow> (\<forall>n \<in> set ns. \<forall>m \<in> set ns. no_payment n \<noteq> None \<longrightarrow> no_payment n = no_payment m \<longrightarrow> n = m)"

definition platform_ok :: "platform \<Rightarrow> bool" where
  "platform_ok pf \<longleftrightarrow> keyed ch_id (pf_charges pf) \<and> keyed sp_id (pf_payments pf) \<and> keyed no_id (pf_notices pf)
     \<and> (\<forall>c \<in> set (pf_charges pf). charge_ok pf c) \<and> (\<forall>p \<in> set (pf_payments pf). sub_payment_ok pf p)
     \<and> (\<forall>n \<in> set (pf_notices pf). notice_ok pf n) \<and> one_live_charge (pf_charges pf) \<and> one_notice_each (pf_notices pf)"

text \<open>The invariant reads four fields.\<close>

lemma platform_ok_cong:
  assumes "pf_charges pf' = pf_charges pf" "pf_payments pf' = pf_payments pf" "pf_notices pf' = pf_notices pf"
    "pf_next pf' = pf_next pf"
  shows "platform_ok pf' = platform_ok pf"
  using assms by (simp add: platform_ok_def charge_ok_def sub_payment_ok_def notice_ok_def applied_to_def)

lemma platform_ok_trace [simp]: "platform_ok (trace o1 a r pf) = platform_ok pf"
  by (rule platform_ok_cong) (simp_all add: trace_def)

lemma trace_fields [simp]:
  "pf_charges (trace o1 a r pf) = pf_charges pf" "pf_payments (trace o1 a r pf) = pf_payments pf"
  "pf_notices (trace o1 a r pf) = pf_notices pf" "pf_next (trace o1 a r pf) = pf_next pf"
  "pf_clients (trace o1 a r pf) = pf_clients pf" "pf_subscriptions (trace o1 a r pf) = pf_subscriptions pf"
  "pf_prices (trace o1 a r pf) = pf_prices pf" "pf_reminders (trace o1 a r pf) = pf_reminders pf"
  "applied_to k (trace o1 a r pf) = applied_to k pf"
  by (simp_all add: trace_def applied_to_def)

lemma applied_nonneg: "platform_ok pf \<Longrightarrow> 0 \<le> applied_to k pf"
  unfolding applied_to_def by (rule sum_over_nonneg) (auto simp: platform_ok_def sub_payment_ok_def)

lemma applied_fresh: "platform_ok pf \<Longrightarrow> pf_next pf \<le> k \<Longrightarrow> applied_to k pf = 0"
  unfolding applied_to_def
  by (rule sum_over_zero) (fastforce simp: platform_ok_def sub_payment_ok_def charge_ok_def)

section \<open>Charges\<close>

lemma insert_charge_ok:
  assumes ok: "platform_ok pf" and ins: "insert_charge ch pf = Inr pf'"
    and ch: "ch_id ch = pf_next pf" "ch_status ch = CHARGE_OPEN"
  shows "platform_ok pf'"
proof -
  have pf': "pf' = pf\<lparr>pf_charges := insert_row ch (pf_charges pf), pf_next := Suc (pf_next pf)\<rparr>"
    and g: "0 < ch_amount ch" "ch_start ch < ch_end ch"
      "\<forall>x \<in> set (pf_charges pf). ch_restaurant x = ch_restaurant ch \<longrightarrow> ch_start x = ch_start ch \<longrightarrow> ch_status x = CHARGE_VOID"
    using ins ch by (auto simp: insert_charge_def list_ex_iff split: if_splits)
  have a: "applied_to k pf' = applied_to k pf" for k by (simp add: pf' applied_to_def)
  have "keyed ch_id (pf_charges pf')"
    using ok ch by (auto simp: pf' platform_ok_def charge_ok_def intro!: keyed_insert)
  moreover have "\<forall>c \<in> set (pf_charges pf'). charge_ok pf' c"
    using ok ch g applied_fresh[OF ok, of "pf_next pf"] by (auto simp: platform_ok_def charge_ok_def a) (auto simp: pf' less_Suc_eq)
  moreover have "\<forall>p \<in> set (pf_payments pf'). sub_payment_ok pf' p"
    using ok by (fastforce simp: pf' platform_ok_def sub_payment_ok_def)
  moreover have "\<forall>n \<in> set (pf_notices pf'). notice_ok pf' n"
    using ok by (auto simp: pf' platform_ok_def notice_ok_def less_Suc_eq)
  moreover have "one_live_charge (pf_charges pf')"
    using ok g(3) by (auto simp: pf' platform_ok_def one_live_charge_def)
  ultimately show ?thesis using ok by (simp add: platform_ok_def pf')
qed

lemma createCharge_InrE:
  assumes "createCharge operator rid start today pf = Inr (ch, pf')"
  obtains pf1 where "insert_charge ch pf = Inr pf1" "ch_id ch = pf_next pf" "ch_status ch = CHARGE_OPEN"
    "ch_restaurant ch = rid" "pf' = trace operator ''CHARGE_CREATED'' (Some rid) pf1"
    "ch_start ch = (case start of Some d \<Rightarrow> d | None \<Rightarrow> case last_period_end rid pf of Some d \<Rightarrow> d | None \<Rightarrow> today)"
    "ch_end ch = addMonths (ch_start ch) (if su_cycle (subscription_of rid pf) = ANNUAL then 12 else 1)"
    "ch_due ch = addDays (ch_start ch) DUE_DAYS" "0 < ch_amount ch"
  using assms
  by (auto simp: createCharge_def Let_def result_simps split: option.splits if_splits)

lemma createCharge_ok: "platform_ok pf \<Longrightarrow> createCharge operator rid start today pf = Inr (ch, pf') \<Longrightarrow> platform_ok pf'"
  by (erule createCharge_InrE) (simp add: insert_charge_ok)

lemma catch_up_ok: "catch_up n rid today pf = (k, e, pf') \<Longrightarrow> platform_ok pf \<Longrightarrow> platform_ok pf'"
proof (induction n arbitrary: pf k e)
  case (Suc n)
  thus ?case by (auto simp: createCharge_ok split: sum.splits prod.splits if_splits)
qed simp

lemma renew_all_ok: "renew_all rs today pf = (k, es, pf') \<Longrightarrow> platform_ok pf \<Longrightarrow> platform_ok pf'"
proof (induction rs arbitrary: pf k es)
  case (Cons r rs)
  thus ?case using catch_up_ok by (auto split: prod.splits)
qed simp

text \<open>Closing a charge: what is written is its status.\<close>

lemma close_charge_ok:
  assumes ok: "platform_ok pf" and f: "\<And>c. ch_id (f c) = ch_id c" "\<And>c. ch_restaurant (f c) = ch_restaurant c"
    "\<And>c. ch_start (f c) = ch_start c" "\<And>c. ch_end (f c) = ch_end c" "\<And>c. ch_amount (f c) = ch_amount c"
    and st: "\<And>c. ch_status (f c) = s" "s \<noteq> CHARGE_OPEN"
    and void: "s = CHARGE_VOID \<Longrightarrow> applied_to k pf = 0"
    and live: "\<And>c. c \<in> set (pf_charges pf) \<Longrightarrow> ch_id c = k \<Longrightarrow> ch_status c \<noteq> CHARGE_VOID"
  shows "platform_ok (put_charge k f pf)"
proof -
  let ?pf = "put_charge k f pf"
  have a: "applied_to j ?pf = applied_to j pf" for j by (simp add: put_charge_def applied_to_def)
  have c: "set (pf_charges ?pf) = (\<lambda>c. if ch_id c = k then f c else c) ` set (pf_charges pf)"
    by (simp add: put_charge_def set_update_where)
  have "keyed ch_id (pf_charges ?pf)"
    using ok f(1) by (auto simp: put_charge_def platform_ok_def intro!: keyed_update)
  moreover have "\<forall>c \<in> set (pf_charges ?pf). charge_ok ?pf c"
    using ok f st void by (auto simp: c platform_ok_def charge_ok_def a) (auto simp: put_charge_def)
  moreover have "\<forall>p \<in> set (pf_payments ?pf). sub_payment_ok ?pf p"
  proof
    fix p assume "p \<in> set (pf_payments ?pf)"
    hence p: "sub_payment_ok pf p" using ok by (simp add: put_charge_def platform_ok_def)
    have "\<exists>c \<in> set (pf_charges ?pf). ch_id c = j \<and> ch_restaurant c = sp_restaurant p" if "sp_charge p = Some j" for j
    proof -
      obtain d where "d \<in> set (pf_charges pf)" "ch_id d = j" "ch_restaurant d = sp_restaurant p"
        using p \<open>sp_charge p = Some j\<close> by (auto simp: sub_payment_ok_def)
      hence "(if ch_id d = k then f d else d) \<in> set (pf_charges ?pf)" by (auto simp: c)
      thus ?thesis using f \<open>ch_id d = j\<close> \<open>ch_restaurant d = sp_restaurant p\<close> by (metis (full_types))
    qed
    thus "sub_payment_ok ?pf p" using p by (simp add: sub_payment_ok_def put_charge_def)
  qed
  moreover have "\<forall>n \<in> set (pf_notices ?pf). notice_ok ?pf n"
    using ok by (auto simp: put_charge_def platform_ok_def notice_ok_def)
  moreover have "one_live_charge (pf_charges ?pf)"
  proof -
    have l: "one_live_charge (pf_charges pf)" and key: "keyed ch_id (pf_charges pf)" using ok by (simp_all add: platform_ok_def)
    have "ch_id c = ch_id d \<and> c = d"
      if "c \<in> set (pf_charges pf)" "d \<in> set (pf_charges pf)" "ch_restaurant c = ch_restaurant d" "ch_start c = ch_start d"
        "ch_status c \<noteq> CHARGE_VOID" "ch_status d \<noteq> CHARGE_VOID" for c d
      using l that by (auto simp: one_live_charge_def)
    thus ?thesis using f st live unfolding one_live_charge_def c
      by (smt (verit, best) image_iff)
  qed
  ultimately show ?thesis using ok by (simp add: platform_ok_def put_charge_def)
qed

section \<open>Payments\<close>

text \<open>A payment put down for a charge that stays open leaves less than the charge unpaid; one that covers
  it closes it in the same transaction, so the intermediate state is looked at charge by charge.\<close>

lemma applied_insert:
  "applied_to k (pf\<lparr>pf_payments := insert_row p (pf_payments pf), pf_next := m\<rparr>)
     = applied_to k pf + (if sp_charge p = Some k then sp_applied p else 0)"
  by (simp add: applied_to_def table_simps)

lemma recordPaymentWith_InrE:
  assumes "recordPaymentWith snap operator rid i pr pf = Inr (p, pf')"
  obtains ch where "charge_for snap rid (pi_charge i) pf = Inr ch" "0 < pr_amount pr" "0 \<le> pr_applied pr"
    "p = \<lparr>sp_id = pf_next pf, sp_restaurant = rid, sp_charge = pi_charge i, sp_currency = pi_currency i,
          sp_amount = pr_amount pr, sp_rate = pr_rate pr, sp_applied = pr_applied pr,
          sp_reference = pi_reference i, sp_received = pi_received i\<rparr>"
    "pf' = trace (Some operator) ''PAYMENT_RECORDED'' (Some rid) (close_if_paid ch (pr_applied pr) (pi_settle i)
             (pf\<lparr>pf_payments := insert_row p (pf_payments pf), pf_next := Suc (pf_next pf)\<rparr>))"
  using assms
  by (auto simp: recordPaymentWith_def insert_sub_payment_def Let_def result_simps split: option.splits if_splits)

lemma charge_for_InrD:
  assumes "charge_for snap rid k pf = Inr ch"
  shows "(k = None \<longrightarrow> ch = None) \<and> (\<forall>j. k = Some j \<longrightarrow> (\<exists>c. ch = Some (c, applied_to j snap) \<and> c \<in> set (pf_charges pf)
     \<and> ch_id c = j \<and> ch_restaurant c = rid \<and> ch_status c = CHARGE_OPEN))"
  using assms
  by (auto simp: charge_for_def lockCharge_def result_simps split: option.splits if_splits dest!: find_by_SomeD)

lemma insert_payment_ok:
  assumes ok: "platform_ok pf"
    and p: "sp_id p = pf_next pf" "0 < sp_amount p" "0 \<le> sp_applied p"
    and c: "\<And>k. sp_charge p = Some k \<Longrightarrow> \<exists>c \<in> set (pf_charges pf). ch_id c = k \<and> ch_restaurant c = sp_restaurant p
      \<and> ch_status c \<noteq> CHARGE_VOID \<and> (ch_status c = CHARGE_OPEN \<longrightarrow> applied_to k pf + sp_applied p < ch_amount c)"
  shows "platform_ok (pf\<lparr>pf_payments := insert_row p (pf_payments pf), pf_next := Suc (pf_next pf)\<rparr>)" (is "platform_ok ?pf")
proof -
  have key: "keyed ch_id (pf_charges pf)" using ok by (simp add: platform_ok_def)
  have "charge_ok ?pf d" if d: "d \<in> set (pf_charges pf)" for d
  proof -
    have o: "charge_ok pf d" using ok d by (simp add: platform_ok_def)
    show ?thesis
    proof (cases "sp_charge p = Some (ch_id d)")
      case True
      then obtain e where e: "e \<in> set (pf_charges pf)" "ch_id e = ch_id d" "ch_status e \<noteq> CHARGE_VOID"
        "ch_status e = CHARGE_OPEN \<longrightarrow> applied_to (ch_id d) pf + sp_applied p < ch_amount e" using c by blast
      have "e = d" using keyed_unique[OF key e(1) d e(2)] .
      thus ?thesis using o e True by (auto simp: charge_ok_def applied_insert)
    qed (use o in \<open>auto simp: charge_ok_def applied_insert\<close>)
  qed
  moreover have "sub_payment_ok ?pf q" if "q \<in> set (insert_row p (pf_payments pf))" for q
  proof (cases "q = p")
    case True
    have "\<exists>c \<in> set (pf_charges pf). ch_id c = k \<and> ch_restaurant c = sp_restaurant p" if "sp_charge p = Some k" for k
      using c[OF that] by blast
    thus ?thesis using True p by (simp add: sub_payment_ok_def)
  next
    case False
    hence "sub_payment_ok pf q" using ok that by (simp add: platform_ok_def)
    thus ?thesis by (simp add: sub_payment_ok_def)
  qed
  moreover have "notice_ok ?pf n" if "n \<in> set (pf_notices pf)" for n
    using ok that by (auto simp: platform_ok_def notice_ok_def less_Suc_eq split: if_splits)
  moreover have "keyed sp_id (insert_row p (pf_payments pf))"
    using ok p(1) by (auto simp: platform_ok_def sub_payment_ok_def intro!: keyed_insert)
  ultimately show ?thesis using ok by (simp add: platform_ok_def)
qed

lemma recordPaymentWith_ok:
  assumes ok: "platform_ok pf" and rec: "recordPaymentWith pf operator rid i pr pf = Inr (p, pf')"
  shows "platform_ok pf'"
proof -
  obtain ch where ch: "charge_for pf rid (pi_charge i) pf = Inr ch" and amt: "0 < pr_amount pr" "0 \<le> pr_applied pr"
    and p: "p = \<lparr>sp_id = pf_next pf, sp_restaurant = rid, sp_charge = pi_charge i, sp_currency = pi_currency i,
          sp_amount = pr_amount pr, sp_rate = pr_rate pr, sp_applied = pr_applied pr,
          sp_reference = pi_reference i, sp_received = pi_received i\<rparr>"
    and pf': "pf' = trace (Some operator) ''PAYMENT_RECORDED'' (Some rid) (close_if_paid ch (pr_applied pr) (pi_settle i)
             (pf\<lparr>pf_payments := insert_row p (pf_payments pf), pf_next := Suc (pf_next pf)\<rparr>))"
    using rec by (rule recordPaymentWith_InrE)
  note key = charge_for_InrD[OF ch]
  show ?thesis
  proof (cases "pi_charge i")
    case None
    hence "platform_ok (pf\<lparr>pf_payments := insert_row p (pf_payments pf), pf_next := Suc (pf_next pf)\<rparr>)"
      by (intro insert_payment_ok[OF ok]) (simp_all add: p amt)
    thus ?thesis using key None by (simp add: pf' close_if_paid_def)
  next
    case (Some k)
    then obtain c where c: "ch = Some (c, applied_to k pf)" "c \<in> set (pf_charges pf)" "ch_id c = k" "ch_restaurant c = rid"
      "ch_status c = CHARGE_OPEN" using key by blast
    let ?f = "\<lambda>c. c\<lparr>ch_status := CHARGE_PAID\<rparr>"
    have one: "d = c" if "d \<in> set (pf_charges pf)" "ch_id d = k" for d
      using ok keyed_unique[of ch_id "pf_charges pf" d c] that c by (simp add: platform_ok_def)
    show ?thesis
    proof (cases "applied_to k pf + pr_applied pr \<ge> ch_amount c \<or> pi_settle i")
      case True
      have closed: "platform_ok (put_charge k ?f pf)"
        using one c(5) by (intro close_charge_ok[OF ok]) auto
      have "?f c \<in> set (pf_charges (put_charge k ?f pf))"
        using c by (auto simp: put_charge_def set_update_where intro!: image_eqI[of _ _ c])
      hence "platform_ok ((put_charge k ?f pf)\<lparr>pf_payments := insert_row p (pf_payments (put_charge k ?f pf)),
          pf_next := Suc (pf_next (put_charge k ?f pf))\<rparr>)"
        using c Some by (intro insert_payment_ok[OF closed])
          (auto simp: p amt put_charge_def intro!: bexI[of _ "?f c"])
      moreover have "close_if_paid ch (pr_applied pr) (pi_settle i)
            (pf\<lparr>pf_payments := insert_row p (pf_payments pf), pf_next := Suc (pf_next pf)\<rparr>)
          = (put_charge k ?f pf)\<lparr>pf_payments := insert_row p (pf_payments (put_charge k ?f pf)),
              pf_next := Suc (pf_next (put_charge k ?f pf))\<rparr>"
        using True c by (cases pf) (simp add: close_if_paid_def put_charge_def)
      ultimately show ?thesis by (simp add: pf')
    next
      case False
      have "platform_ok (pf\<lparr>pf_payments := insert_row p (pf_payments pf), pf_next := Suc (pf_next pf)\<rparr>)"
        using c Some False by (intro insert_payment_ok[OF ok]) (auto simp: p amt intro!: bexI[of _ c])
      thus ?thesis using False c by (simp add: pf' close_if_paid_def)
    qed
  qed
qed

lemma voidCharge_ok:
  assumes ok: "platform_ok pf" and v: "voidCharge pf operator k reason pf = Inr (c, pf')"
  shows "platform_ok pf'"
proof -
  obtain d where d: "d \<in> set (pf_charges pf)" "ch_id d = k" "ch_status d = CHARGE_OPEN" "applied_to k pf \<le> 0"
    and pf': "pf' = trace (Some operator) ''CHARGE_VOIDED'' (Some (ch_restaurant d))
       (put_charge k (\<lambda>c. c\<lparr>ch_status := CHARGE_VOID, ch_void_reason := Some reason\<rparr>) pf)"
    using v by (auto simp: voidCharge_def lockCharge_def Let_def result_simps not_less
        split: option.splits if_splits dest!: find_by_SomeD)
  have "ch_status e \<noteq> CHARGE_VOID" if "e \<in> set (pf_charges pf)" "ch_id e = k" for e
    using ok keyed_unique[of ch_id "pf_charges pf" e d] that d by (simp add: platform_ok_def)
  thus ?thesis using d(4) applied_nonneg[OF ok, of k] by (simp add: pf') (intro close_charge_ok[OF ok], auto)
qed

section \<open>Notices\<close>

lemma submitNotice_ok:
  assumes ok: "platform_ok pf" and r: "submitNotice rid i pf = Inr (n, pf')"
  shows "platform_ok pf'"
proof -
  have n: "no_id n = pf_next pf" "no_payment n = None" "no_status n = NOTICE_PENDING"
    and pf': "pf' = pf\<lparr>pf_notices := insert_row n (pf_notices pf), pf_next := Suc (pf_next pf)\<rparr>"
    using r by (auto simp: submitNotice_def Let_def result_simps split: if_splits)
  have "keyed no_id (insert_row n (pf_notices pf))"
    using ok n(1) by (auto simp: platform_ok_def notice_ok_def intro!: keyed_insert)
  moreover have "one_notice_each (insert_row n (pf_notices pf))"
    using ok n(2) by (auto simp: platform_ok_def one_notice_each_def)
  moreover have "notice_ok pf' m" if "m \<in> set (insert_row n (pf_notices pf))" for m
    using ok n that by (auto simp: pf' platform_ok_def notice_ok_def less_Suc_eq split: if_splits)
  moreover have "charge_ok pf' c" if "c \<in> set (pf_charges pf)" for c
    using ok that by (auto simp: pf' platform_ok_def charge_ok_def less_Suc_eq applied_to_def)
  moreover have "sub_payment_ok pf' p" if "p \<in> set (pf_payments pf)" for p
    using ok that by (auto simp: pf' platform_ok_def sub_payment_ok_def less_Suc_eq)
  ultimately show ?thesis using ok by (simp add: platform_ok_def pf')
qed

text \<open>What a review writes on its notice.\<close>

lemma put_notice_ok:
  assumes ok: "platform_ok pf" and f: "\<And>n. no_id (f n) = no_id n"
    and new: "\<And>n. n \<in> set (pf_notices pf) \<Longrightarrow> no_id n = k \<Longrightarrow> notice_ok pf (f n)
      \<and> (no_payment (f n) \<noteq> None \<longrightarrow> (\<forall>m \<in> set (pf_notices pf). no_payment m \<noteq> no_payment (f n)))"
  shows "platform_ok (put_notice k f pf)"
proof -
  let ?pf = "put_notice k f pf"
  have s: "set (pf_notices ?pf) = (\<lambda>n. if no_id n = k then f n else n) ` set (pf_notices pf)"
    by (simp add: put_notice_def set_update_where)
  have n: "notice_ok ?pf m" if "m \<in> set (pf_notices ?pf)" for m
  proof -
    have "notice_ok pf m" using that ok new by (auto simp: s platform_ok_def)
    thus ?thesis by (simp add: put_notice_def notice_ok_def)
  qed
  have key: "keyed no_id (pf_notices pf)" using ok by (simp add: platform_ok_def)
  hence "keyed no_id (pf_notices ?pf)" using f by (auto simp: put_notice_def intro!: keyed_update)
  moreover have "one_notice_each (pf_notices ?pf)"
    unfolding one_notice_each_def s
  proof (intro ballI impI, elim imageE)
    fix a b n m
    assume h: "no_payment a \<noteq> None" "no_payment a = no_payment b"
      and n: "a = (if no_id n = k then f n else n)" "n \<in> set (pf_notices pf)"
      and m: "b = (if no_id m = k then f m else m)" "m \<in> set (pf_notices pf)"
    show "a = b"
    proof (cases "no_id n = k"; cases "no_id m = k")
      assume "no_id n = k" "no_id m = k"
      thus ?thesis using n m keyed_unique[OF key n(2) m(2)] by simp
    next
      assume k: "no_id n = k" "no_id m \<noteq> k"
      hence "no_payment m \<noteq> no_payment (f n)" using new[OF n(2) k(1)] h(1) n(1) m(2) by simp
      thus ?thesis using h(2) n(1) m(1) k by simp
    next
      assume k: "no_id n \<noteq> k" "no_id m = k"
      hence "no_payment n \<noteq> no_payment (f m)" using new[OF m(2) k(2)] h m(1) n by simp
      thus ?thesis using h(2) n(1) m(1) k by simp
    next
      assume "no_id n \<noteq> k" "no_id m \<noteq> k"
      moreover have "one_notice_each (pf_notices pf)" using ok by (simp add: platform_ok_def)
      ultimately show ?thesis using h n m by (simp add: one_notice_each_def)
    qed
  qed
  moreover have "charge_ok ?pf c = charge_ok pf c" "sub_payment_ok ?pf p = sub_payment_ok pf p" for c p
    by (simp_all add: put_notice_def charge_ok_def sub_payment_ok_def applied_to_def)
  ultimately show ?thesis using ok n by (auto simp: platform_ok_def) (simp_all add: put_notice_def)
qed

lemma rejectNotice_ok:
  assumes ok: "platform_ok pf" and r: "rejectNotice operator k reason pf = Inr (n, pf')"
  shows "platform_ok pf'"
proof -
  obtain m where m: "m \<in> set (pf_notices pf)" "no_id m = k" "no_status m = NOTICE_PENDING"
    and pf': "pf' = trace (Some operator) ''NOTICE_REJECTED'' (Some (no_restaurant m))
       (put_notice k (\<lambda>n. n\<lparr>no_status := NOTICE_REJECTED, no_reason := Some reason\<rparr>) pf)"
    using r by (auto simp: rejectNotice_def lockNotice_def Let_def result_simps
        split: option.splits if_splits dest!: find_by_SomeD)
  have one: "e = m" if "e \<in> set (pf_notices pf)" "no_id e = k" for e
    using ok keyed_unique[of no_id "pf_notices pf" e m] that m by (simp add: platform_ok_def)
  have "notice_ok pf m" using ok m by (simp add: platform_ok_def)
  hence "notice_ok pf (m\<lparr>no_status := NOTICE_REJECTED, no_reason := Some reason\<rparr>)"
    "no_payment m = None" using m by (simp_all add: notice_ok_def)
  hence "platform_ok (put_notice k (\<lambda>n. n\<lparr>no_status := NOTICE_REJECTED, no_reason := Some reason\<rparr>) pf)"
    using one by (intro put_notice_ok[OF ok]) simp_all
  thus ?thesis by (simp add: pf')
qed

lemma confirmNotice_InrE:
  assumes "confirmNotice snap bcv operator k rate settle pf = Inr (p, pf')"
  obtains n pr pf1 where "n \<in> set (pf_notices pf)" "no_id n = k" "no_status n = NOTICE_PENDING"
    "preparePayment bcv (input_of_notice n rate settle) = Inr pr" "find_by (\<lambda>n. no_id n = k) (pf_notices pf) = Some n"
    "recordPaymentWith snap operator (no_restaurant n)
       ((input_of_notice n rate settle)\<lparr>pi_charge := charge_still_open (no_charge n) pf\<rparr>) pr pf = Inr (p, pf1)"
    "pf' = trace (Some operator) ''NOTICE_CONFIRMED'' (Some (no_restaurant n))
       (put_notice k (\<lambda>n. n\<lparr>no_status := NOTICE_CONFIRMED, no_payment := Some (sp_id p)\<rparr>) pf1)"
  using assms
  by (auto simp: confirmNotice_def confirm_notice_tx_def lockNotice_def Let_def result_simps input_of_notice_def
      split: option.splits if_splits dest: find_by_SomeD)

lemma preparePayment_amount:
  "preparePayment bcv (input_of_notice n rate settle) = Inr pr \<Longrightarrow> pr_amount pr = no_amount n"
  by (auto simp: preparePayment_def input_of_notice_def result_simps simp del: toMinor.simps split: if_splits)

lemma recordPaymentWith_effect:
  assumes "recordPaymentWith snap operator rid i pr pf = Inr (p, pf')"
  shows "pf_payments pf' = insert_row p (pf_payments pf) \<and> pf_notices pf' = pf_notices pf \<and> pf_next pf' = Suc (pf_next pf)
     \<and> sp_id p = pf_next pf \<and> sp_restaurant p = rid \<and> sp_currency p = pi_currency i \<and> sp_amount p = pr_amount pr
     \<and> sp_reference p = pi_reference i \<and> sp_applied p = pr_applied pr \<and> sp_charge p = pi_charge i"
  using assms
  by (elim recordPaymentWith_InrE) (auto simp: close_if_paid_def put_charge_def split: option.splits)

lemma confirmNotice_ok:
  assumes ok: "platform_ok pf" and c: "confirmNotice pf bcv operator k rate settle pf = Inr (p, pf')"
  shows "platform_ok pf'"
proof -
  obtain n pr pf1 where n: "n \<in> set (pf_notices pf)" "no_id n = k" "no_status n = NOTICE_PENDING"
    and pr: "preparePayment bcv (input_of_notice n rate settle) = Inr pr"
    and rec: "recordPaymentWith pf operator (no_restaurant n)
       ((input_of_notice n rate settle)\<lparr>pi_charge := charge_still_open (no_charge n) pf\<rparr>) pr pf = Inr (p, pf1)"
    and pf': "pf' = trace (Some operator) ''NOTICE_CONFIRMED'' (Some (no_restaurant n))
       (put_notice k (\<lambda>n. n\<lparr>no_status := NOTICE_CONFIRMED, no_payment := Some (sp_id p)\<rparr>) pf1)"
    using c by (rule confirmNotice_InrE)
  note e = recordPaymentWith_effect[OF rec]
  have ok1: "platform_ok pf1" by (rule recordPaymentWith_ok[OF ok rec])
  have one: "m = n" if "m \<in> set (pf_notices pf1)" "no_id m = k" for m
    using ok keyed_unique[of no_id "pf_notices pf" m n] that n e by (simp add: platform_ok_def)
  have "notice_ok pf1 (n\<lparr>no_status := NOTICE_CONFIRMED, no_payment := Some (sp_id p)\<rparr>)"
    using ok n e preparePayment_amount[OF pr]
    by (auto simp: notice_ok_def pays_notice_def platform_ok_def input_of_notice_def less_Suc_eq)
  moreover have "no_payment m \<noteq> Some (sp_id p)" if "m \<in> set (pf_notices pf1)" for m
  proof
    assume a: "no_payment m = Some (sp_id p)"
    have "notice_ok pf m" using ok that e by (simp add: platform_ok_def)
    then obtain q where "q \<in> set (pf_payments pf)" "sp_id q = pf_next pf"
      using a e by (auto simp: notice_ok_def pays_notice_def split: if_splits)
    thus False using ok by (auto simp: platform_ok_def sub_payment_ok_def)
  qed
  ultimately have "platform_ok (put_notice k (\<lambda>n. n\<lparr>no_status := NOTICE_CONFIRMED, no_payment := Some (sp_id p)\<rparr>) pf1)"
    using one by (intro put_notice_ok[OF ok1]) auto
  thus ?thesis by (simp add: pf')
qed

section \<open>Everything the platform commits\<close>

inductive platform_step :: "platform \<Rightarrow> platform \<Rightarrow> bool" where
  subscribe: "updateSubscription o1 rid g pf = Inr (x, pf') \<Longrightarrow> platform_step pf pf'"
| change: "change_plan used rid to days force today (pf_clients pf) = Inr (x, cs) \<Longrightarrow> platform_step pf (pf\<lparr>pf_clients := cs\<rparr>)"
| charge: "createCharge o2 rid start today pf = Inr (c, pf') \<Longrightarrow> platform_step pf pf'"
| void: "voidCharge pf o1 k reason pf = Inr (c, pf') \<Longrightarrow> platform_step pf pf'"
| pay: "recordSubPayment pf bcv o1 rid i pf = Inr (p, pf') \<Longrightarrow> platform_step pf pf'"
| price: "addPrice o1 t cyc amt from today pf = Inr (y, pf') \<Longrightarrow> platform_step pf pf'"
| submit: "submitNotice rid i pf = Inr (n, pf') \<Longrightarrow> platform_step pf pf'"
| confirm: "confirmNotice pf bcv o1 k rate settle pf = Inr (p, pf') \<Longrightarrow> platform_step pf pf'"
| reject: "rejectNotice o1 k reason pf = Inr (n, pf') \<Longrightarrow> platform_step pf pf'"
| renews: "renew today pf = (m, es, pf') \<Longrightarrow> platform_step pf pf'"
| reminds: "remind has_owner send today pf = (pf', mails) \<Longrightarrow> platform_step pf pf'"

abbreviation platform_runs :: "platform \<Rightarrow> platform \<Rightarrow> bool" where
  "platform_runs \<equiv> platform_step\<^sup>*\<^sup>*"

definition fresh_platform :: "client table \<Rightarrow> platform" where
  "fresh_platform cs = \<lparr>pf_clients = cs, pf_subscriptions = [], pf_prices = [], pf_charges = [], pf_payments = [],
     pf_notices = [], pf_reminders = [], pf_audit = [], pf_next = 0\<rparr>"

lemma remind_books:
  "remind has_owner send today pf = (pf', mails) \<Longrightarrow> pf_charges pf' = pf_charges pf \<and> pf_payments pf' = pf_payments pf
     \<and> pf_notices pf' = pf_notices pf \<and> pf_next pf' = pf_next pf"
proof -
  have "pf_charges (fst (fold (remind_one has_owner send today) cs w)) = pf_charges (fst w)
      \<and> pf_payments (fst (fold (remind_one has_owner send today) cs w)) = pf_payments (fst w)
      \<and> pf_notices (fst (fold (remind_one has_owner send today) cs w)) = pf_notices (fst w)
      \<and> pf_next (fst (fold (remind_one has_owner send today) cs w)) = pf_next (fst w)" for cs w
    by (induction cs arbitrary: w) (auto simp: remind_one_def Let_def split: prod.splits)
  from this[of "select (\<lambda>c. ch_status c = CHARGE_OPEN) (pf_charges pf)" "(pf, [])"]
  show "remind has_owner send today pf = (pf', mails) \<Longrightarrow> ?thesis" by (simp add: remind_def)
qed

lemma quiet_steps:
  "updateSubscription o1 rid g pf = Inr (x, pf') \<Longrightarrow> pf_charges pf' = pf_charges pf \<and> pf_payments pf' = pf_payments pf
     \<and> pf_notices pf' = pf_notices pf \<and> pf_next pf' = pf_next pf"
  "addPrice o1 t cyc amt from today pf = Inr (y, pf') \<Longrightarrow> pf_charges pf' = pf_charges pf \<and> pf_payments pf' = pf_payments pf
     \<and> pf_notices pf' = pf_notices pf \<and> pf_next pf' = pf_next pf"
  by (auto simp: updateSubscription_def addPrice_def Let_def result_simps split: option.splits if_splits)

lemma platform_step_ok: "platform_step pf pf' \<Longrightarrow> platform_ok pf \<Longrightarrow> platform_ok pf'"
proof (induction rule: platform_step.induct)
  case subscribe
  thus ?case using quiet_steps(1) platform_ok_cong by blast
next
  case (change used rid to days force today pf x cs)
  thus ?case by (simp add: platform_ok_cong[of "pf\<lparr>pf_clients := cs\<rparr>" pf])
next
  case charge
  thus ?case by (rule createCharge_ok[rotated])
next
  case void
  thus ?case by (rule voidCharge_ok[rotated])
next
  case (pay bcv o1 rid i pf p pf')
  thus ?case by (auto simp: recordSubPayment_def result_simps intro: recordPaymentWith_ok)
next
  case price
  thus ?case using quiet_steps(2) platform_ok_cong by blast
next
  case submit
  thus ?case by (rule submitNotice_ok[rotated])
next
  case confirm
  thus ?case by (rule confirmNotice_ok[rotated])
next
  case reject
  thus ?case by (rule rejectNotice_ok[rotated])
next
  case renews
  thus ?case by (auto simp: renew_def dest: renew_all_ok)
next
  case reminds
  thus ?case using remind_books platform_ok_cong by blast
qed

lemma platform_runs_ok:
  assumes "platform_runs (fresh_platform cs) pf"
  shows "platform_ok pf"
  using assms
proof (induction rule: rtranclp_induct)
  case base
  show ?case by (simp add: platform_ok_def fresh_platform_def one_live_charge_def one_notice_each_def)
qed (rule platform_step_ok)


section \<open>A notice is settled once\<close>

definition notice_closed :: "nat \<Rightarrow> platform \<Rightarrow> bool" where
  "notice_closed k pf =
     (case find_by (\<lambda>n. no_id n = k) (pf_notices pf) of None \<Rightarrow> False | Some n \<Rightarrow> no_status n \<noteq> NOTICE_PENDING)"

lemma charging_keeps_notices:
  "createCharge o2 rid start today pf = Inr (c, pf') \<Longrightarrow> pf_notices pf' = pf_notices pf"
  by (erule createCharge_InrE) (auto simp: insert_charge_def split: if_splits)

lemma catch_up_notices: "catch_up n rid today pf = (k, e, pf') \<Longrightarrow> pf_notices pf' = pf_notices pf"
proof (induction n arbitrary: pf k e)
  case (Suc n)
  thus ?case using charging_keeps_notices by (auto split: sum.splits prod.splits if_splits)
qed simp

lemma renew_all_notices: "renew_all rs today pf = (k, es, pf') \<Longrightarrow> pf_notices pf' = pf_notices pf"
proof (induction rs arbitrary: pf k es)
  case (Cons r rs)
  thus ?case using catch_up_notices by (auto split: prod.splits)
qed simp

lemma notice_closed_same: "pf_notices pf' = pf_notices pf \<Longrightarrow> notice_closed k pf' = notice_closed k pf"
  by (simp add: notice_closed_def)

lemma notice_closed_put:
  assumes "\<And>n. no_id (f n) = no_id n" "\<And>n. no_status (f n) \<noteq> NOTICE_PENDING" "notice_closed k pf"
  shows "notice_closed k (put_notice j f pf)"
  using assms by (auto simp: notice_closed_def put_notice_def find_by_update split: option.splits)

lemma closed_stays_step: "platform_step pf pf' \<Longrightarrow> notice_closed k pf \<Longrightarrow> notice_closed k pf'"
proof (induction rule: platform_step.induct)
  case subscribe
  thus ?case using quiet_steps(1) notice_closed_same by blast
next
  case change
  thus ?case by (simp add: notice_closed_def)
next
  case charge
  thus ?case using charging_keeps_notices notice_closed_same by blast
next
  case void
  thus ?case by (auto simp: voidCharge_def Let_def result_simps notice_closed_def put_charge_def split: if_splits)
next
  case pay
  thus ?case by (auto simp: recordSubPayment_def result_simps notice_closed_def dest!: recordPaymentWith_effect)
next
  case price
  thus ?case using quiet_steps(2) notice_closed_same by blast
next
  case (submit rid i pf n pf')
  hence "pf_notices pf' = insert_row n (pf_notices pf)"
    by (auto simp: submitNotice_def Let_def result_simps split: if_splits)
  thus ?case using submit(2) by (auto simp: notice_closed_def table_simps split: option.splits)
next
  case (confirm pf bcv o1 j rate settle p pf')
  then obtain n pr pf1 where
    rec: "recordPaymentWith pf o1 (no_restaurant n)
       ((input_of_notice n rate settle)\<lparr>pi_charge := charge_still_open (no_charge n) pf\<rparr>) pr pf = Inr (p, pf1)"
    and pf': "pf' = trace (Some o1) ''NOTICE_CONFIRMED'' (Some (no_restaurant n))
       (put_notice j (\<lambda>n. n\<lparr>no_status := NOTICE_CONFIRMED, no_payment := Some (sp_id p)\<rparr>) pf1)"
    by (elim confirmNotice_InrE)
  have "notice_closed k pf1" using recordPaymentWith_effect[OF rec] confirm(2) by (simp add: notice_closed_def)
  hence "notice_closed k (put_notice j (\<lambda>n. n\<lparr>no_status := NOTICE_CONFIRMED, no_payment := Some (sp_id p)\<rparr>) pf1)"
    by (intro notice_closed_put) simp_all
  thus ?case by (simp add: pf' notice_closed_def)
next
  case (reject o1 j reason pf n pf')
  hence pf': "pf_notices pf' = pf_notices (put_notice j (\<lambda>n. n\<lparr>no_status := NOTICE_REJECTED, no_reason := Some reason\<rparr>) pf)"
    by (auto simp: rejectNotice_def Let_def result_simps)
  have "notice_closed k (put_notice j (\<lambda>n. n\<lparr>no_status := NOTICE_REJECTED, no_reason := Some reason\<rparr>) pf)"
    using reject(2) by (intro notice_closed_put) simp_all
  thus ?case by (simp add: pf' notice_closed_def)
next
  case renews
  thus ?case using renew_all_notices[THEN notice_closed_same] by (simp add: renew_def)
next
  case reminds
  thus ?case using remind_books notice_closed_same by blast
qed

lemma closed_stays: "platform_runs pf pf' \<Longrightarrow> notice_closed k pf \<Longrightarrow> notice_closed k pf'"
  by (induction rule: rtranclp_induct) (auto intro: closed_stays_step)

lemma closed_is_refused:
  assumes "notice_closed k pf"
  shows "\<not> isr (confirmNotice snap bcv o1 k rate settle pf)"
    "rejectNotice o1 k reason pf = Inl (Plan_E Subscription_Notice_Closed)"
proof -
  obtain n where n: "find_by (\<lambda>n. no_id n = k) (pf_notices pf) = Some n" "no_status n \<noteq> NOTICE_PENDING"
    using assms by (auto simp: notice_closed_def split: option.splits)
  hence l: "lockNotice k pf = Inl (Plan_E Subscription_Notice_Closed)" by (simp add: lockNotice_def)
  thus "rejectNotice o1 k reason pf = Inl (Plan_E Subscription_Notice_Closed)" by (simp add: rejectNotice_def)
  show "\<not> isr (confirmNotice snap bcv o1 k rate settle pf)"
    using n l by (cases "preparePayment bcv (input_of_notice n rate settle)")
      (simp_all add: confirmNotice_def confirm_notice_tx_def isr_def)
qed

text \<open>C39: Confirming a payment notice records one payment with the notice's restaurant, currency,
  amount and reference and marks the notice with it; whatever is committed afterwards, no
  second confirmation or rejection of it is accepted.\<close>

lemma notice_settled_once:
  assumes "confirmNotice pf bcv o1 k rate settle pf = Inr (p, pf1)" "platform_runs pf1 pf2"
  shows "(\<exists>n. find_by (\<lambda>n. no_id n = k) (pf_notices pf) = Some n \<and> no_status n = NOTICE_PENDING
       \<and> sp_restaurant p = no_restaurant n \<and> sp_currency p = no_currency n \<and> sp_amount p = no_amount n
       \<and> sp_reference p = no_reference n \<and> pf_payments pf1 = insert_row p (pf_payments pf)
       \<and> find_by (\<lambda>n. no_id n = k) (pf_notices pf1) = Some (n\<lparr>no_status := NOTICE_CONFIRMED, no_payment := Some (sp_id p)\<rparr>))
     \<and> \<not> isr (confirmNotice pf2 bcv' o2 k rate' settle' pf2)
     \<and> rejectNotice o2 k reason pf2 = Inl (Plan_E Subscription_Notice_Closed)"
proof -
  obtain n pr pf' where n: "no_id n = k" "no_status n = NOTICE_PENDING" "find_by (\<lambda>n. no_id n = k) (pf_notices pf) = Some n"
    and pr: "preparePayment bcv (input_of_notice n rate settle) = Inr pr"
    and rec: "recordPaymentWith pf o1 (no_restaurant n)
       ((input_of_notice n rate settle)\<lparr>pi_charge := charge_still_open (no_charge n) pf\<rparr>) pr pf = Inr (p, pf')"
    and pf1: "pf1 = trace (Some o1) ''NOTICE_CONFIRMED'' (Some (no_restaurant n))
       (put_notice k (\<lambda>n. n\<lparr>no_status := NOTICE_CONFIRMED, no_payment := Some (sp_id p)\<rparr>) pf')"
    using assms(1) by (elim confirmNotice_InrE)
  note e = recordPaymentWith_effect[OF rec]
  have f: "find_by (\<lambda>n. no_id n = k) (pf_notices pf1) = Some (n\<lparr>no_status := NOTICE_CONFIRMED, no_payment := Some (sp_id p)\<rparr>)"
    using n e by (simp add: pf1 put_notice_def find_by_update)
  hence "notice_closed k pf2" by (intro closed_stays[OF assms(2)]) (simp add: notice_closed_def)
  moreover have "pf_payments pf1 = insert_row p (pf_payments pf)" using e by (simp add: pf1 put_notice_def)
  ultimately show ?thesis
    using n e f preparePayment_amount[OF pr] by (auto simp: closed_is_refused input_of_notice_def)
qed

section \<open>The nightly run\<close>

fun chain :: "nat \<Rightarrow> date \<Rightarrow> nat \<Rightarrow> (date \<times> date) list" where
  "chain 0 s m = []"
| "chain (Suc k) s m = (s, addMonths s m) # chain k (addMonths s m) m"

abbreviation months_of :: "nat \<Rightarrow> platform \<Rightarrow> nat" where
  "months_of rid pf \<equiv> (if su_cycle (subscription_of rid pf) = ANNUAL then 12 else 1)"

definition live_ends :: "nat \<Rightarrow> platform \<Rightarrow> date list" where
  "live_ends rid pf = map ch_end (select (\<lambda>c. ch_restaurant c = rid \<and> ch_status c \<noteq> CHARGE_VOID) (pf_charges pf))"

lemma last_period_end_Max:
  "last_period_end rid pf = (if live_ends rid pf = [] then None else Some (Max (set (live_ends rid pf))))"
  unfolding last_period_end_def live_ends_def[symmetric] by (cases "live_ends rid pf") simp_all

lemma last_period_end_insert:
  assumes "last_period_end rid pf = Some s" "ch_restaurant c = rid" "ch_status c \<noteq> CHARGE_VOID" "s \<le> ch_end c"
    "pf_charges pf' = insert_row c (pf_charges pf)"
  shows "last_period_end rid pf' = Some (ch_end c)"
proof -
  have s: "s = Max (set (live_ends rid pf))" using assms(1) by (simp add: last_period_end_Max split: if_splits)
  have e: "live_ends rid pf' = live_ends rid pf @ [ch_end c]"
    using assms by (simp add: live_ends_def select_def insert_row_def)
  have "d \<le> ch_end c" if "d \<in> set (live_ends rid pf)" for d
    using Max_ge[OF finite_set that] s assms(4) by simp
  hence "Max (set (live_ends rid pf')) = ch_end c" by (intro Max_eqI) (auto simp: e)
  thus ?thesis by (simp add: last_period_end_Max e)
qed

lemma createCharge_next:
  assumes "createCharge o2 rid None today pf = Inr (c, pf')" "last_period_end rid pf = Some s"
  shows "ch_start c = s \<and> ch_end c = addMonths s (months_of rid pf) \<and> ch_restaurant c = rid \<and> ch_status c = CHARGE_OPEN
     \<and> pf_charges pf' = pf_charges pf @ [c] \<and> subscription_of rid pf' = subscription_of rid pf
     \<and> last_period_end rid pf' = Some (ch_end c)"
proof -
  obtain pf1 where i: "insert_charge c pf = Inr pf1" and c: "ch_status c = CHARGE_OPEN" "ch_restaurant c = rid"
    and pf': "pf' = trace o2 ''CHARGE_CREATED'' (Some rid) pf1"
    and d: "ch_start c = s" "ch_end c = addMonths s (months_of rid pf)"
    using assms(1) by (elim createCharge_InrE) (simp add: assms(2))
  have pf1: "pf1 = pf\<lparr>pf_charges := insert_row c (pf_charges pf), pf_next := Suc (ch_id c)\<rparr>" "ch_start c < ch_end c"
    using i by (auto simp: insert_charge_def split: if_splits)
  have e: "pf_charges pf' = insert_row c (pf_charges pf)" by (simp add: pf' pf1)
  show ?thesis using c d e pf1 last_period_end_insert[OF assms(2) c(2) _ _ e]
    by (simp add: pf' insert_row_def subscription_of_def)
qed

lemma catch_up_chain:
  assumes "catch_up n rid today pf = (k, e, pf')" "last_period_end rid pf = Some s"
  shows "k \<le> n \<and> (\<exists>cs. pf_charges pf' = pf_charges pf @ cs \<and> length cs = k
     \<and> map (\<lambda>c. (ch_start c, ch_end c)) cs = chain k s (months_of rid pf)
     \<and> (\<forall>c \<in> set cs. ch_restaurant c = rid \<and> ch_status c = CHARGE_OPEN) \<and> (\<forall>c \<in> set (butlast cs). ch_end c \<le> today)
     \<and> (e = None \<longrightarrow> k = n \<or> cs \<noteq> [] \<and> today < ch_end (last cs)))"
  using assms
proof (induction n arbitrary: pf k e s)
  case (Suc n)
  show ?case
  proof (cases "createCharge None rid None today pf")
    case (Inl x)
    thus ?thesis using Suc.prems(1) by auto
  next
    case (Inr r)
    then obtain c pf1 where c: "createCharge None rid None today pf = Inr (c, pf1)" by (cases r) simp
    note nx = createCharge_next[OF c Suc.prems(2)]
    show ?thesis
    proof (cases "ch_end c > today")
      case True
      hence "k = 1" "e = None" "pf' = pf1" using Suc.prems(1) c by auto
      thus ?thesis using nx True by (intro conjI exI[of _ "[c]"]) simp_all
    next
      case False
      then obtain j where u: "catch_up n rid today pf1 = (j, e, pf')" "k = Suc j"
        using Suc.prems(1) c by (auto split: prod.splits)
      obtain cs where cs: "j \<le> n" "pf_charges pf' = pf_charges pf1 @ cs" "length cs = j"
        "map (\<lambda>c. (ch_start c, ch_end c)) cs = chain j (ch_end c) (months_of rid pf1)"
        "\<forall>c \<in> set cs. ch_restaurant c = rid \<and> ch_status c = CHARGE_OPEN" "\<forall>c \<in> set (butlast cs). ch_end c \<le> today"
        "e = None \<longrightarrow> j = n \<or> cs \<noteq> [] \<and> today < ch_end (last cs)"
        using Suc.IH[OF u(1)] nx by blast
      thus ?thesis using nx u(2) False by (intro conjI exI[of _ "c # cs"]) auto
    qed
  qed
qed auto

text \<open>C40: The renewal of a restaurant creates consecutive open charges from where its last period
  ended, each as long as its cycle, at most twelve, stops with the first one that ends after
  today, and ends earlier only when a charge is refused.\<close>

lemma renewal_catches_up:
  assumes "catch_up MAX_CATCH_UP rid today pf = (k, e, pf')" "last_period_end rid pf = Some s"
  shows "k \<le> 12 \<and> (\<exists>cs. pf_charges pf' = pf_charges pf @ cs \<and> length cs = k
     \<and> map (\<lambda>c. (ch_start c, ch_end c)) cs = chain k s (months_of rid pf)
     \<and> (\<forall>c \<in> set cs. ch_restaurant c = rid \<and> ch_status c = CHARGE_OPEN) \<and> (\<forall>c \<in> set (butlast cs). ch_end c \<le> today)
     \<and> (e = None \<longrightarrow> k = 12 \<or> cs \<noteq> [] \<and> today < ch_end (last cs)))"
  using catch_up_chain[OF assms] by (simp only: MAX_CATCH_UP_def)

section \<open>Reminders\<close>

lemma remind_one_effect:
  assumes "remind_one has_owner send today c (pf, m) = (pf', m')"
  shows "set (pf_reminders pf) \<subseteq> set (pf_reminders pf') \<and> (m' = m \<or> (\<exists>k. m' = m @ [(ch_id c, k)]
     \<and> (ch_id c, k) \<notin> set (pf_reminders pf) \<and> (\<forall>j \<in> set (kinds_up_to k). (ch_id c, j) \<in> set (pf_reminders pf'))))"
  using assms by (auto simp: remind_one_def Let_def split: if_splits)

lemma kinds_up_to_refl [simp]: "k \<in> set (kinds_up_to k)"
  by (cases k) simp_all

lemma remind_fold_effect:
  assumes "fold (remind_one has_owner send today) cs (pf, m) = (pf', m')"
  shows "\<exists>new. m' = m @ new \<and> distinct new \<and> set (pf_reminders pf) \<subseteq> set (pf_reminders pf')
     \<and> (\<forall>x \<in> set new. x \<notin> set (pf_reminders pf) \<and> (\<forall>j \<in> set (kinds_up_to (snd x)). (fst x, j) \<in> set (pf_reminders pf')))"
  using assms
proof (induction cs arbitrary: pf m)
  case (Cons c cs)
  obtain pf1 m1 where one: "remind_one has_owner send today c (pf, m) = (pf1, m1)" by (metis surj_pair)
  note e = remind_one_effect[OF one]
  have "fold (remind_one has_owner send today) cs (pf1, m1) = (pf', m')" using Cons.prems one by simp
  then obtain new where n: "m' = m1 @ new" "distinct new" "set (pf_reminders pf1) \<subseteq> set (pf_reminders pf')"
    "\<forall>x \<in> set new. x \<notin> set (pf_reminders pf1) \<and> (\<forall>j \<in> set (kinds_up_to (snd x)). (fst x, j) \<in> set (pf_reminders pf'))"
    using Cons.IH by blast
  show ?case
  proof (cases "m1 = m")
    case True
    thus ?thesis using n e by (intro exI[of _ new]) blast
  next
    case False
    then obtain k where k: "m1 = m @ [(ch_id c, k)]" "(ch_id c, k) \<notin> set (pf_reminders pf)"
      "\<forall>j \<in> set (kinds_up_to k). (ch_id c, j) \<in> set (pf_reminders pf1)" using e by blast
    have "(ch_id c, k) \<notin> set new" using k(3) n(4) kinds_up_to_refl by blast
    thus ?thesis using n e k by (intro exI[of _ "(ch_id c, k) # new"]) auto
  qed
qed simp

lemma remind_effect:
  assumes "remind has_owner send today pf = (pf', mails)"
  shows "distinct mails" "set (pf_reminders pf) \<subseteq> set (pf_reminders pf')" "set mails \<inter> set (pf_reminders pf) = {}"
    "(i, k) \<in> set mails \<Longrightarrow> j \<in> set (kinds_up_to k) \<Longrightarrow> (i, j) \<in> set (pf_reminders pf')"
  using remind_fold_effect[OF assms[unfolded remind_def]] by force+

lemma renew_keeps_reminders:
  "createCharge o2 rid start today pf = Inr (c, pf') \<Longrightarrow> pf_reminders pf' = pf_reminders pf"
  "catch_up n rid today pf = (k, e, pf'') \<Longrightarrow> pf_reminders pf'' = pf_reminders pf"
proof -
  have c: "createCharge o2 rid start today pf = Inr (c, pf') \<Longrightarrow> pf_reminders pf' = pf_reminders pf" for o2 rid start today pf c pf'
    by (erule createCharge_InrE) (auto simp: insert_charge_def split: if_splits)
  thus "createCharge o2 rid start today pf = Inr (c, pf') \<Longrightarrow> pf_reminders pf' = pf_reminders pf" .
  show "catch_up n rid today pf = (k, e, pf'') \<Longrightarrow> pf_reminders pf'' = pf_reminders pf"
  proof (induction n arbitrary: pf k e)
    case (Suc n)
    thus ?case using c by (auto split: sum.splits prod.splits if_splits)
  qed simp
qed

lemma renew_all_reminders: "renew_all rs today pf = (k, es, pf') \<Longrightarrow> pf_reminders pf' = pf_reminders pf"
proof (induction rs arbitrary: pf k es)
  case (Cons r rs)
  thus ?case using renew_keeps_reminders(2) by (auto split: prod.splits)
qed simp

lemma record_keeps_reminders: "recordPaymentWith snap o1 rid i pr pf = Inr (p, pf') \<Longrightarrow> pf_reminders pf' = pf_reminders pf"
  by (elim recordPaymentWith_InrE) (auto simp: close_if_paid_def put_charge_def split: option.splits)

lemma reminders_grow_step: "platform_step pf pf' \<Longrightarrow> set (pf_reminders pf) \<subseteq> set (pf_reminders pf')"
proof (induction rule: platform_step.induct)
  case confirm
  thus ?case by (elim confirmNotice_InrE) (auto dest!: record_keeps_reminders simp: put_notice_def)
next
  case pay
  thus ?case by (auto simp: recordSubPayment_def result_simps dest!: record_keeps_reminders)
next
  case charge
  thus ?case by (simp add: renew_keeps_reminders(1))
next
  case renews
  thus ?case by (auto simp: renew_def dest: renew_all_reminders)
next
  case reminds
  thus ?case using remind_effect(2) by blast
qed (auto simp: updateSubscription_def voidCharge_def addPrice_def submitNotice_def rejectNotice_def put_charge_def
  put_notice_def Let_def result_simps split: option.splits if_splits)

lemma reminders_grow: "platform_runs pf pf' \<Longrightarrow> set (pf_reminders pf) \<subseteq> set (pf_reminders pf')"
  by (induction rule: rtranclp_induct) (auto dest: reminders_grow_step)

lemma reminders_mailed_once:
  assumes "remind has_owner send today pf = (pf1, mails)" "platform_runs pf1 pf2"
    "remind has_owner' send' tomorrow pf2 = (pf3, mails')"
  shows "distinct mails \<and> (\<forall>i k. (i, k) \<in> set mails \<longrightarrow> (\<forall>j \<in> set (kinds_up_to k). (i, j) \<notin> set mails'))"
  using remind_effect[OF assms(1)] remind_effect(3)[OF assms(3)] reminders_grow[OF assms(2)] by blast

section \<open>A small platform\<close>

text \<open>One restaurant on the PRO plan, its price, its first charge, a notice and two halves of the payment.\<close>

definition after :: "error + 'a \<times> platform \<Rightarrow> platform" where
  "after r = (case r of Inr (x, pf) \<Rightarrow> pf | Inl e \<Rightarrow> fresh_platform [])"

lemma after_Inr: "isr r \<Longrightarrow> \<exists>x. r = Inr (x, after r)"
  by (auto simp: isr_def after_def split: sum.splits)

definition bodega :: platform where
  "bodega = fresh_platform [\<lparr>cl_id = 7, cl_name = ''Bodega'', cl_tier = PRO, cl_trial_ends = None\<rparr>]"

definition priced :: platform where
  "priced = after (addPrice 1 PRO MONTHLY (JInt 2900) (Some (Date 2026 1 1)) (Date 2026 1 1) bodega)"

definition charged :: platform where
  "charged = after (createCharge (Some 1) 7 None (Date 2026 1 31) priced)"

definition half :: payment_input where
  "half = \<lparr>pi_charge = Some 0, pi_currency = USD, pi_amount = JString ''1500'', pi_rate = None,
     pi_reference = Some ''0042'', pi_received = Date 2026 2 1, pi_settle = False\<rparr>"

definition half_paid :: platform where
  "half_paid = after (recordSubPayment charged None 1 7 half charged)"

definition noticed :: platform where
  "noticed = after (submitNotice 7 half charged)"

definition confirmed :: platform where
  "confirmed = after (confirmNotice noticed None 1 1 None False noticed)"

lemma bodega_runs:
  "platform_runs bodega charged" "platform_runs bodega half_paid" "platform_runs bodega noticed"
proof -
  have "isr (addPrice 1 PRO MONTHLY (JInt 2900) (Some (Date 2026 1 1)) (Date 2026 1 1) bodega)" by code_simp
  hence p: "platform_step bodega priced" unfolding priced_def using after_Inr platform_step.price by meson
  have "isr (createCharge (Some 1) 7 None (Date 2026 1 31) priced)" by code_simp
  hence "platform_step priced charged" unfolding charged_def using after_Inr platform_step.charge by meson
  with p show c: "platform_runs bodega charged" by (simp add: rtranclp.rtrancl_into_rtrancl)
  have "isr (recordSubPayment charged None 1 7 half charged)" by code_simp
  hence "platform_step charged half_paid" unfolding half_paid_def using after_Inr platform_step.pay by meson
  with c show "platform_runs bodega half_paid" by (rule rtranclp.rtrancl_into_rtrancl)
  have "isr (submitNotice 7 half charged)" by code_simp
  hence "platform_step charged noticed" unfolding noticed_def using after_Inr platform_step.submit by meson
  with c show "platform_runs bodega noticed" by (rule rtranclp.rtrancl_into_rtrancl)
qed


lemma notice_settled_once_witness:
  "\<exists>p. confirmNotice noticed None 1 1 None False noticed = Inr (p, confirmed) \<and> sp_amount p = 1500
     \<and> \<not> isr (confirmNotice confirmed None 2 1 None True confirmed)
     \<and> rejectNotice 2 1 ''no'' confirmed = Inl (Plan_E Subscription_Notice_Closed)"
proof -
  have "isr (confirmNotice noticed None 1 1 None False noticed)" by code_simp
  then obtain p where p: "confirmNotice noticed None 1 1 None False noticed = Inr (p, confirmed)"
    unfolding confirmed_def using after_Inr by blast
  have "(case confirmNotice noticed None 1 1 None False noticed of Inl e \<Rightarrow> False | Inr (p, pf) \<Rightarrow> sp_amount p = 1500)" by code_simp
  hence "sp_amount p = 1500" by (simp only: p sum.case prod.case)
  thus ?thesis using p notice_settled_once[OF p rtranclp.rtrancl_refl] by blast
qed

lemma renewal_catches_up_witness:
  "\<exists>e pf'. catch_up MAX_CATCH_UP 7 (Date 2026 5 1) charged = (3, e, pf') \<and> length (pf_charges pf') = 4"
proof -
  obtain k e pf' where u: "catch_up MAX_CATCH_UP 7 (Date 2026 5 1) charged = (k, e, pf')" by (metis surj_pair)
  have "fst (catch_up MAX_CATCH_UP 7 (Date 2026 5 1) charged) = 3" by code_simp
  hence k: "k = 3" by (simp only: u fst_conv)
  have l: "last_period_end 7 charged = Some (Date 2026 2 28)" by code_simp
  have "length (pf_charges charged) = 1" by code_simp
  moreover obtain cs where "pf_charges pf' = pf_charges charged @ cs" "length cs = k"
    using renewal_catches_up[OF u l] by blast
  ultimately show ?thesis using u k by simp
qed

definition reminded :: "platform \<times> (nat \<times> reminder) list" where
  "reminded = remind (\<lambda>r. True) (\<lambda>c k. True) (Date 2026 2 20) charged"

lemma reminders_mailed_once_witness:
  "snd reminded = [(0, OVERDUE_7)] \<and> snd (remind (\<lambda>r. True) (\<lambda>c k. True) (Date 2026 2 21) (fst reminded)) = []"
proof -
  let ?again = "remind (\<lambda>r. True) (\<lambda>c k. True) (Date 2026 2 21) (fst reminded)"
  have m: "snd reminded = [(0, OVERDUE_7)]" by code_simp
  have n: "list_all (\<lambda>x. fst x = 0 \<and> snd x \<in> set (kinds_up_to OVERDUE_7)) (snd ?again)" by code_simp
  have "remind (\<lambda>r. True) (\<lambda>c k. True) (Date 2026 2 20) charged = (fst reminded, snd reminded)" by (simp add: reminded_def)
  from reminders_mailed_once[OF this rtranclp.rtrancl_refl surjective_pairing]
  have no: "(0, j) \<notin> set (snd ?again)" if "j \<in> set (kinds_up_to OVERDUE_7)" for j using that by (auto simp: m)
  have "x \<notin> set (snd ?again)" for x
    using no[of "snd x"] n by (cases x) (auto simp: list_all_iff simp del: kinds_up_to.simps)
  hence "snd ?again = []" by (metis last_in_set)
  thus ?thesis using m by simp
qed

section \<open>Transactions across each other\<close>

text \<open>The void's statement waits for the payment's lock and adds up the payments it saw before.\<close>

definition crossed_void :: "error + charge \<times> platform" where
  "crossed_void = voidCharge charged 1 0 ''mistake'' half_paid"

definition crossed_halves :: "error + sub_payment \<times> platform" where
  "crossed_halves = recordSubPayment charged None 2 7 half half_paid"

lemma stale_sums_break_the_books:
  "isr crossed_void \<and> map ch_status (pf_charges (after crossed_void)) = [CHARGE_VOID] \<and> applied_to 0 (after crossed_void) = 1500
   \<and> voidCharge half_paid 1 0 ''mistake'' half_paid = Inl (Plan_E Subscription_Charge_Closed)
   \<and> isr crossed_halves \<and> map (\<lambda>c. (ch_status c, ch_amount c)) (pf_charges (after crossed_halves)) = [(CHARGE_OPEN, 2900)]
   \<and> applied_to 0 (after crossed_halves) = 3000"
proof (intro conjI)
  show "isr crossed_void" by code_simp
  show "map ch_status (pf_charges (after crossed_void)) = [CHARGE_VOID]" by code_simp
  show "applied_to 0 (after crossed_void) = 1500" by code_simp
  show "voidCharge half_paid 1 0 ''mistake'' half_paid = Inl (Plan_E Subscription_Charge_Closed)" by code_simp
  show "isr crossed_halves" by code_simp
  show "map (\<lambda>c. (ch_status c, ch_amount c)) (pf_charges (after crossed_halves)) = [(CHARGE_OPEN, 2900)]" by code_simp
  show "applied_to 0 (after crossed_halves) = 3000" by code_simp
qed

end
