(* ===== verification/Totp.thy ===== *)
theory Totp
  imports Prelude "HOL-Library.Word"
begin

text \<open>
  One-time passwords as services/totp.js computes them, on the 32-bit integers JavaScript's shifts
  work on: base32 both ways, the code of a thirty-second step, and \<open>verify\<close> with its memory of the
  last step used.  HMAC-SHA1 is the runtime's: the function \<open>hmac\<close> of a key and a message.

  The accumulator of both base32 loops is never masked, so it wraps; the lemmas show that the bits
  the loops still need survive, and that decoding what was encoded gives the bytes back.
\<close>

unbundle bit_operations_syntax

type_synonym byte = "8 word"
type_synonym w32 = "32 word"

section \<open>Base 32\<close>

definition BASE32_ALPHABET :: string where
  "BASE32_ALPHABET = ''ABCDEFGHIJKLMNOPQRSTUVWXYZ234567''"

definition b32_char :: "w32 \<Rightarrow> char" where
  "b32_char w = BASE32_ALPHABET ! unat (w AND 31)"

text \<open>\<open>while (bits >= 5)\<close>: one character per five bits, from the top of what is pending.\<close>

fun b32_emit :: "nat \<Rightarrow> w32 \<Rightarrow> string" where
  "b32_emit bits acc = (if bits < 5 then [] else b32_char (drop_bit (bits - 5) acc) # b32_emit (bits - 5) acc)"

declare b32_emit.simps [simp del]

fun b32_encode_from :: "nat \<Rightarrow> w32 \<Rightarrow> byte list \<Rightarrow> string" where
  "b32_encode_from bits acc [] = (if bits > 0 then [b32_char (push_bit (5 - bits) acc)] else [])"
| "b32_encode_from bits acc (b # bs) =
     (let acc' = push_bit 8 acc OR ucast b in
      b32_emit (bits + 8) acc' @ b32_encode_from ((bits + 8) mod 5) acc' bs)"

definition base32Encode :: "byte list \<Rightarrow> string" where
  "base32Encode buffer = b32_encode_from 0 0 buffer"

definition index_of :: "char \<Rightarrow> string \<Rightarrow> nat option" where
  "index_of c s = (let i = length (takeWhile (\<lambda>x. x \<noteq> c) s) in if i < length s then Some i else None)"

text \<open>\<open>toUpperCase()\<close>, the padding off the end, then every space out.\<close>

definition b32_clean :: "string \<Rightarrow> string" where
  "b32_clean s = filter (\<lambda>c. \<not> is_space c) (rev (dropWhile (\<lambda>c. c = CHR ''='') (rev (map upper s))))"

fun b32_decode_from :: "nat \<Rightarrow> w32 \<Rightarrow> string \<Rightarrow> error + byte list" where
  "b32_decode_from bits acc [] = Inr []"
| "b32_decode_from bits acc (c # cs) =
     (case index_of c BASE32_ALPHABET of
        None \<Rightarrow> Inl (General Plain_Error)
      | Some i \<Rightarrow>
          let acc' = push_bit 5 acc OR of_nat i in
          if bits + 5 \<ge> 8
          then and_then (b32_decode_from (bits + 5 - 8) acc' cs) (\<lambda>bs.
               Inr (ucast (drop_bit (bits + 5 - 8) acc' AND 255) # bs))
          else b32_decode_from (bits + 5) acc' cs)"

definition base32Decode :: "string \<Rightarrow> error + byte list" where
  "base32Decode input = b32_decode_from 0 0 (b32_clean input)"

section \<open>Codes\<close>

definition DIGITS :: nat where "DIGITS = 6"

definition STEP_SECONDS :: int where "STEP_SECONDS = 30"

definition DEFAULT_WINDOW :: int where "DEFAULT_WINDOW = 1"

definition stepAt :: "int \<Rightarrow> int" where
  "stepAt atMs = atMs div (1000 * STEP_SECONDS)"

text \<open>\<open>writeBigUInt64BE\<close>: eight bytes, the high one first; it throws outside the range.\<close>

definition big_endian_64 :: "int \<Rightarrow> error + byte list" where
  "big_endian_64 n =
     (if n < 0 \<or> n \<ge> 2 ^ 64 then Inl (General Plain_Error)
      else Inr (map (\<lambda>k. word_of_int (n div 2 ^ (8 * k))) (rev [0..<8])))"

text \<open>A byte past the end reads as \<open>undefined\<close>, which the masks turn into 0.\<close>

definition byte_at :: "byte list \<Rightarrow> nat \<Rightarrow> w32" where
  "byte_at ds i = (if i < length ds then ucast (ds ! i) else 0)"

definition truncated :: "byte list \<Rightarrow> w32" where
  "truncated digest =
     (let offset = unat (byte_at digest (length digest - 1) AND 15) in
      push_bit 24 (byte_at digest offset AND 0x7F) OR push_bit 16 (byte_at digest (offset + 1) AND 0xFF)
      OR push_bit 8 (byte_at digest (offset + 2) AND 0xFF) OR (byte_at digest (offset + 3) AND 0xFF))"

text \<open>The remainder of JavaScript, which has the sign of the dividend, of the signed 32-bit number.\<close>

definition js_remainder :: "int \<Rightarrow> int \<Rightarrow> int" where
  "js_remainder a b = (if a < 0 then - ((- a) mod b) else a mod b)"

definition pad_start :: "nat \<Rightarrow> char \<Rightarrow> string \<Rightarrow> string" where
  "pad_start n c s = replicate (n - length s) c @ s"

definition code_of_digest :: "byte list \<Rightarrow> string" where
  "code_of_digest digest = pad_start DIGITS CHR ''0'' (show_int (js_remainder (sint (truncated digest)) (10 ^ DIGITS)))"

definition codeForStep :: "(byte list \<Rightarrow> byte list \<Rightarrow> byte list) \<Rightarrow> string \<Rightarrow> int \<Rightarrow> error + string" where
  "codeForStep hmac secret step =
     and_then (base32Decode secret) (\<lambda>key.
     and_then (big_endian_64 step) (\<lambda>counter.
     Inr (code_of_digest (hmac key counter))))"

definition six_digits :: "string \<Rightarrow> bool" where
  "six_digits s \<longleftrightarrow> length s = 6 \<and> list_all is_digit s"

text \<open>The loop over the offsets: a step already used is skipped, an unreadable secret ends it.\<close>

fun try_steps :: "(int \<Rightarrow> error + string) \<Rightarrow> string \<Rightarrow> int option \<Rightarrow> int list \<Rightarrow> int option" where
  "try_steps code submitted notBefore [] = None"
| "try_steps code submitted notBefore (step # steps) =
     (if (case notBefore of None \<Rightarrow> False | Some n \<Rightarrow> step \<le> n) then try_steps code submitted notBefore steps
      else case code step of
             Inl e \<Rightarrow> None
           | Inr expected \<Rightarrow> if expected = submitted then Some step else try_steps code submitted notBefore steps)"

definition verify_code :: "(byte list \<Rightarrow> byte list \<Rightarrow> byte list) \<Rightarrow> string \<Rightarrow> string \<Rightarrow> int \<Rightarrow> int \<Rightarrow> int option \<Rightarrow> int option" where
  "verify_code hmac secret code atMs window notBefore =
     (let submitted = trim code in
      if \<not> six_digits submitted then None
      else try_steps (codeForStep hmac secret) submitted notBefore (map (\<lambda>off. stepAt atMs + off) [- window..window]))"

section \<open>The bits of an accumulator\<close>

text \<open>The low \<open>k\<close> bits, the highest first.\<close>

definition low_bits :: "nat \<Rightarrow> 'a::len word \<Rightarrow> bool list" where
  "low_bits k w = map (bit w) (rev [0..<k])"

lemma length_low_bits [simp]: "length (low_bits k w) = k"
  by (simp add: low_bits_def)

lemma nth_low_bits: "i < k \<Longrightarrow> low_bits k w ! i = bit w (k - Suc i)"
  by (simp add: low_bits_def rev_nth)

lemma low_bits_eqI: "(\<And>i. i < k \<Longrightarrow> bit v i = bit w i) \<Longrightarrow> low_bits k v = low_bits k w"
  by (auto simp: low_bits_def)

lemma low_bits_split: "low_bits (k + m) w = low_bits k (drop_bit m w) @ low_bits m w"
proof (rule nth_equalityI)
  fix i assume "i < length (low_bits (k + m) w)"
  hence i: "i < k + m" by simp
  show "low_bits (k + m) w ! i = (low_bits k (drop_bit m w) @ low_bits m w) ! i"
    by (cases "i < k") (use i in \<open>auto simp: nth_low_bits nth_append bit_drop_bit_eq not_less add.commute\<close>)
qed simp

lemma low_bits_push:
  fixes v u :: "'a::len word"
  assumes "b + m \<le> LENGTH('a)" "\<And>i. m \<le> i \<Longrightarrow> \<not> bit u i"
  shows "low_bits (b + m) (push_bit m v OR u) = low_bits b v @ low_bits m u"
proof -
  have "low_bits b (drop_bit m (push_bit m v OR u)) = low_bits b v"
    using assms by (intro low_bits_eqI) (auto simp: bit_simps)
  moreover have "low_bits m (push_bit m v OR u) = low_bits m u"
    by (intro low_bits_eqI) (auto simp: bit_simps)
  ultimately show ?thesis by (simp add: low_bits_split)
qed

lemma low_bits_zero: "low_bits k 0 = replicate k False"
  by (rule nth_equalityI) (simp_all add: nth_low_bits)

lemma small_word_bits: "n < 2 ^ m \<Longrightarrow> m \<le> i \<Longrightarrow> \<not> bit (of_nat n :: 'a::len word) i"
  using less_le_trans[of n "2 ^ m" "2 ^ i"] by (auto simp: bit_of_nat_iff bit_iff_odd[of n])

lemma alphabet_length [simp]: "length BASE32_ALPHABET = 32"
  by (simp add: BASE32_ALPHABET_def)

lemma alphabet_index: "n < 32 \<Longrightarrow> index_of (BASE32_ALPHABET ! n) BASE32_ALPHABET = Some n"
proof -
  have "list_all (\<lambda>n. index_of (BASE32_ALPHABET ! n) BASE32_ALPHABET = Some n) [0..<32]" by code_simp
  thus "n < 32 \<Longrightarrow> ?thesis" by (simp add: list_all_iff)
qed

lemma index_of_less: "index_of c s = Some i \<Longrightarrow> i < length s"
  by (auto simp: index_of_def Let_def split: if_splits)

definition char_bits :: "char \<Rightarrow> bool list" where
  "char_bits c = low_bits 5 (of_nat (the (index_of c BASE32_ALPHABET)) :: w32)"

lemma and_mask_word: "w AND 31 = take_bit 5 w" "w AND 255 = take_bit 8 w" for w :: w32
  by (simp_all add: take_bit_eq_mask mask_eq_exp_minus_1)

lemma unat_and_31: "unat (w AND 31 :: w32) < 32"
proof -
  have "unat (w AND 31) = take_bit 5 (unat w)" by (simp only: and_mask_word unsigned_take_bit_eq)
  thus ?thesis using take_bit_nat_less_exp[of 5 "unat w"] by simp
qed

lemma low_bits_byte: "low_bits 8 (ucast (w AND 255) :: byte) = low_bits 8 (w :: w32)"
  unfolding and_mask_word by (auto simp: low_bits_def bit_ucast_iff bit_take_bit_iff)

lemma char_bits_b32_char: "char_bits (b32_char w) = low_bits 5 w"
proof -
  have "low_bits 5 (w AND 31) = low_bits 5 w" unfolding and_mask_word by (intro low_bits_eqI) (simp add: bit_take_bit_iff)
  thus ?thesis by (simp add: char_bits_def b32_char_def alphabet_index[OF unat_and_31])
qed

section \<open>Encoding\<close>

lemma b32_emit_bits: "low_bits bits acc = concat (map char_bits (b32_emit bits acc)) @ low_bits (bits mod 5) acc"
proof (induction bits acc rule: b32_emit.induct)
  case (1 bits acc)
  show ?case
  proof (cases "bits < 5")
    case False
    hence b: "bits = 5 + (bits - 5)" by simp
    have "low_bits bits acc = low_bits 5 (drop_bit (bits - 5) acc) @ low_bits (bits - 5) acc"
      by (subst (1) b) (rule low_bits_split)
    moreover have "bits mod 5 = (bits - 5) mod 5" using False by (simp add: mod_if)
    ultimately show ?thesis using 1[OF False] False
      by (simp add: b32_emit.simps[of bits] char_bits_b32_char)
  qed (simp add: b32_emit.simps[of bits])
qed

lemma b32_encode_from_bits:
  assumes "bits < 5"
  shows "\<exists>p<5. concat (map char_bits (b32_encode_from bits acc bs))
     = low_bits bits acc @ concat (map (low_bits 8) bs) @ replicate p False"
  using assms
proof (induction bs arbitrary: bits acc)
  case Nil
  show ?case
  proof (cases "bits > 0")
    case True
    have "low_bits (bits + (5 - bits)) (push_bit (5 - bits) acc OR 0) = low_bits bits acc @ low_bits (5 - bits) (0 :: w32)"
      using Nil by (intro low_bits_push) simp_all
    thus ?thesis using True Nil by (intro exI[of _ "5 - bits"]) (simp add: char_bits_b32_char low_bits_zero)
  next
    case False
    thus ?thesis by (intro exI[of _ 0]) (simp add: low_bits_def)
  qed
next
  case (Cons b bs)
  let ?v = "push_bit 8 acc OR ucast b"
  have "low_bits 8 (ucast b :: w32) = low_bits 8 b" by (auto simp: low_bits_def bit_ucast_iff)
  moreover have "low_bits (bits + 8) ?v = low_bits bits acc @ low_bits 8 (ucast b :: w32)"
    using Cons.prems by (intro low_bits_push) (auto simp: bit_ucast_iff dest: bit_imp_le_length)
  ultimately have e: "low_bits bits acc @ low_bits 8 b
      = concat (map char_bits (b32_emit (bits + 8) ?v)) @ low_bits ((bits + 8) mod 5) ?v"
    using b32_emit_bits[of "bits + 8" ?v] by simp
  obtain p where "p < 5" "concat (map char_bits (b32_encode_from ((bits + 8) mod 5) ?v bs))
      = low_bits ((bits + 8) mod 5) ?v @ concat (map (low_bits 8) bs) @ replicate p False"
    using Cons.IH[of "(bits + 8) mod 5" ?v] by auto
  thus ?case using e by (intro exI[of _ p]) (simp add: Let_def flip: append_assoc)
qed

lemma b32_char_in: "b32_char w \<in> set BASE32_ALPHABET"
  using unat_and_31[of w] by (simp add: b32_char_def)

lemma b32_encode_chars: "set (b32_encode_from bits acc bs) \<subseteq> set BASE32_ALPHABET"
proof -
  have e: "set (b32_emit n v) \<subseteq> set BASE32_ALPHABET" for n v
    by (induction n v rule: b32_emit.induct) (subst b32_emit.simps, auto simp: b32_char_in)
  show ?thesis using e by (induction bs arbitrary: bits acc) (auto simp: b32_char_in Let_def)
qed

section \<open>Decoding\<close>

lemma b32_decode_from_bits:
  assumes "set cs \<subseteq> set BASE32_ALPHABET" "bits < 8"
  shows "\<exists>out rest. b32_decode_from bits acc cs = Inr out \<and> length rest < 8
     \<and> low_bits bits acc @ concat (map char_bits cs) = concat (map (low_bits 8) out) @ rest"
  using assms
proof (induction cs arbitrary: bits acc)
  case Nil
  thus ?case by (intro exI[of _ "[]"] exI[of _ "low_bits bits acc"]) simp
next
  case (Cons c cs)
  obtain n where n: "n < 32" "BASE32_ALPHABET ! n = c" using Cons.prems(1) by (auto simp: in_set_conv_nth)
  hence i: "index_of c BASE32_ALPHABET = Some n" using alphabet_index by blast
  let ?v = "push_bit 5 acc OR of_nat n"
  have "\<not> bit (of_nat n :: w32) j" if "5 \<le> j" for j
    by (rule small_word_bits[OF _ that]) (use n(1) in simp)
  hence b: "low_bits (bits + 5) ?v = low_bits bits acc @ char_bits c"
    using Cons.prems(2) by (simp add: low_bits_push char_bits_def i)
  show ?case
  proof (cases "bits + 5 \<ge> 8")
    case True
    let ?r = "bits + 5 - 8"
    let ?byte = "ucast (drop_bit ?r ?v AND 255) :: byte"
    have "?r < 8" using Cons.prems(2) by simp
    then obtain out rest where o: "b32_decode_from ?r ?v cs = Inr out" "length rest < 8"
      "low_bits ?r ?v @ concat (map char_bits cs) = concat (map (low_bits 8) out) @ rest"
      using Cons.IH[of ?r ?v] Cons.prems by auto
    have "low_bits 8 ?byte = low_bits 8 (drop_bit ?r ?v)" by (rule low_bits_byte)
    moreover have "low_bits (8 + ?r) ?v = low_bits 8 (drop_bit ?r ?v) @ low_bits ?r ?v" by (rule low_bits_split)
    moreover have "8 + ?r = bits + 5" using True by simp
    ultimately have e: "low_bits bits acc @ char_bits c = low_bits 8 ?byte @ low_bits ?r ?v" using b by (simp only:)
    have "low_bits bits acc @ concat (map char_bits (c # cs)) = (low_bits 8 ?byte @ low_bits ?r ?v) @ concat (map char_bits cs)"
      unfolding e[symmetric] by simp
    also have "\<dots> = concat (map (low_bits 8) (?byte # out)) @ rest" unfolding append_assoc o(3) by simp
    finally show ?thesis using o(1,2) True i
      by (intro exI[of _ "?byte # out"] exI[of _ rest]) (simp del: map_eq_Cons_conv add: Let_def)
  next
    case False
    then obtain out rest where "b32_decode_from (bits + 5) ?v cs = Inr out" "length rest < 8"
      "low_bits (bits + 5) ?v @ concat (map char_bits cs) = concat (map (low_bits 8) out) @ rest"
      using Cons.IH[of "bits + 5" ?v] Cons.prems by auto
    thus ?thesis using False i b by (intro exI[of _ out] exI[of _ rest]) (simp add: Let_def)
  qed
qed

lemma low_bits_inj: "low_bits 8 (a :: byte) = low_bits 8 b \<Longrightarrow> a = b"
proof (rule bit_word_eqI)
  fix n assume e: "low_bits 8 a = low_bits 8 b" "n < LENGTH(8)"
  hence "low_bits 8 a ! (7 - n) = low_bits 8 b ! (7 - n)" by simp
  thus "bit a n = bit b n" using e(2) by (simp add: nth_low_bits)
qed

lemma bytes_of_bits_unique:
  assumes "concat (map (low_bits 8) (as :: byte list)) @ xs = concat (map (low_bits 8) bs) @ ys" "length xs < 8" "length ys < 8"
  shows "as = bs"
  using assms
proof (induction as arbitrary: bs)
  case Nil
  have "bs = []" using arg_cong[OF Nil(1), of length] Nil(2) by (cases bs) auto
  thus ?case by simp
next
  case (Cons a as)
  show ?case
  proof (cases bs)
    case Nil
    thus ?thesis using arg_cong[OF Cons.prems(1), of length] Cons.prems(3) by simp
  next
    case (Cons b bs')
    hence "low_bits 8 a = low_bits 8 b" "concat (map (low_bits 8) as) @ xs = concat (map (low_bits 8) bs') @ ys"
      using Cons.prems(1) by simp_all
    thus ?thesis using Cons.IH[OF _ Cons.prems(2,3)] local.Cons low_bits_inj by simp
  qed
qed

lemma alphabet_plain:
  assumes "c \<in> set BASE32_ALPHABET"
  shows "upper c = c" "c \<noteq> CHR ''=''" "\<not> is_space c"
proof -
  have "list_all (\<lambda>c. upper c = c \<and> c \<noteq> CHR ''='' \<and> \<not> is_space c) BASE32_ALPHABET" by code_simp
  thus "upper c = c" "c \<noteq> CHR ''=''" "\<not> is_space c" using assms by (auto simp: list_all_iff)
qed

lemma b32_clean_alphabet: "set s \<subseteq> set BASE32_ALPHABET \<Longrightarrow> b32_clean s = s"
proof -
  assume s: "set s \<subseteq> set BASE32_ALPHABET"
  have "map upper s = s" using s alphabet_plain(1) by (intro map_idI) blast
  moreover have "dropWhile (\<lambda>c. c = CHR ''='') (rev s) = rev s"
    using s alphabet_plain(2) by (cases "rev s") (auto simp: rev_eq_Cons_iff)
  moreover have "filter (\<lambda>c. \<not> is_space c) s = s" using s alphabet_plain(3) by (intro filter_True) blast
  ultimately show ?thesis by (simp add: b32_clean_def)
qed

lemma base32_decode_encode:
  "base32Decode (base32Encode bs) = Inr bs"
proof -
  let ?cs = "b32_encode_from 0 0 bs"
  obtain p where p: "p < 5" "concat (map char_bits ?cs) = low_bits 0 (0 :: w32) @ concat (map (low_bits 8) bs) @ replicate p False"
    using b32_encode_from_bits[of 0 0 bs] by auto
  obtain out rest where o: "b32_decode_from 0 0 ?cs = Inr out" "length rest < 8"
    "low_bits 0 (0 :: w32) @ concat (map char_bits ?cs) = concat (map (low_bits 8) out) @ rest"
    using b32_decode_from_bits[OF b32_encode_chars[of 0 0 bs], of 0 0] by auto
  have "concat (map (low_bits 8) out) @ rest = concat (map (low_bits 8) bs) @ replicate p False"
    using o(3) p(2) by (simp add: low_bits_def)
  hence "out = bs" by (rule bytes_of_bits_unique) (use o(2) p(1) in simp_all)
  thus ?thesis using o(1) b32_clean_alphabet[OF b32_encode_chars] by (simp add: base32Decode_def base32Encode_def)
qed

lemma b32_clean_spelling:
  assumes "filter (\<lambda>c. \<not> is_space c) (map upper t) = cs" "set cs \<subseteq> set BASE32_ALPHABET"
  shows "b32_clean (t @ replicate k CHR ''='') = cs"
proof -
  have plain: "upper c \<noteq> CHR ''=''" if "c \<in> set t" for c
  proof
    assume "upper c = CHR ''=''"
    hence "CHR ''='' \<in> set (filter (\<lambda>c. \<not> is_space c) (map upper t))" using that by (force simp: is_space_def)
    thus False using assms alphabet_plain(2) by blast
  qed
  have pad: "map upper (replicate k CHR ''='') = replicate k CHR ''=''" by (simp add: upper_def map_replicate)
  have "dropWhile (\<lambda>c. c = CHR ''='') (rev (map upper t)) = rev (map upper t)"
    unfolding dropWhile_eq_self_iff
  proof (cases "rev (map upper t)")
    case (Cons c cs)
    hence "c \<in> set (map upper t)" using hd_in_set[of "rev (map upper t)"] by simp
    thus "rev (map upper t) = [] \<or> hd (rev (map upper t)) \<noteq> CHR ''=''" using plain Cons by auto
  qed simp
  hence "dropWhile (\<lambda>c. c = CHR ''='') (rev (map upper (t @ replicate k CHR ''=''))) = rev (map upper t)"
    by (simp add: pad dropWhile_append rev_map [symmetric] del: rev_map map_replicate)
  thus ?thesis using assms(1) by (simp add: b32_clean_def)
qed

text \<open>C29: Decoding a secret typed back in any casing, with spaces and padding, gives the bytes
  that were encoded, although the accumulators of both loops overflow.\<close>

lemma base32_round_trip:
  assumes "filter (\<lambda>c. \<not> is_space c) (map upper t) = base32Encode bs"
  shows "base32Decode (t @ replicate k CHR ''='') = Inr bs"
  using base32_decode_encode[of bs] b32_clean_spelling[OF assms] b32_clean_alphabet b32_encode_chars[of 0 0 bs]
  by (simp add: base32Decode_def base32Encode_def)

lemma base32_round_trip_witness:
  "base32Decode ''ae bag==='' = Inr [1, 2, 3]"
proof -
  have "base32Encode [1, 2, 3] = ''AEBAG''"
    by (simp add: base32Encode_def b32_emit.simps b32_char_def BASE32_ALPHABET_def)
  moreover have "filter (\<lambda>c. \<not> is_space c) (map upper ''ae bag'') = ''AEBAG''" by code_simp
  ultimately show ?thesis using base32_round_trip[of "''ae bag''" "[1, 2, 3]" 3] by (simp add: numeral_3_eq_3)
qed

section \<open>The code of a step\<close>

lemma masked_bits:
  "\<not> bit (w AND 0x7F :: w32) 7" "\<not> bit (w AND 0xFF :: w32) 15" "\<not> bit (w AND 0xFF :: w32) 23" "\<not> bit (w AND 0xFF :: w32) 31"
  unfolding bit_and_iff by simp_all

lemma push_bit_31: "bit (push_bit k w :: w32) 31 \<longleftrightarrow> k \<le> 31 \<and> bit w (31 - k)"
  by (simp add: bit_push_bit_iff)

lemma truncated_bit_31: "\<not> bit (truncated ds) 31"
  using masked_bits unfolding truncated_def Let_def bit_or_iff push_bit_31 by simp

lemma truncated_nonneg: "0 \<le> sint (truncated ds)"
  using truncated_bit_31[of ds] bit_last_iff[of "truncated ds"] by simp

lemma show_nat_length: "n < 10 ^ k \<Longrightarrow> 0 < k \<Longrightarrow> length (show_nat n) \<le> k"
proof (induction n arbitrary: k rule: show_nat.induct)
  case (1 n)
  show ?case
  proof (cases "n < 10")
    case True
    thus ?thesis using 1 by (subst show_nat.simps) simp
  next
    case False
    hence "1 < k" using 1(2,3) by (cases k) (auto simp: less_Suc_eq)
    hence "n div 10 < 10 ^ (k - 1)" "0 < k - 1" using 1(2) by (cases k, auto simp: less_mult_imp_div_less mult.commute)
    hence "length (show_nat (n div 10)) \<le> k - 1" using 1(1)[OF False] by blast
    thus ?thesis using False \<open>1 < k\<close> by (subst show_nat.simps) simp
  qed
qed

lemma six_digits_pad: "list_all is_digit d \<Longrightarrow> length d \<le> 6 \<Longrightarrow> six_digits (pad_start 6 CHR ''0'' d)"
  by (auto simp: six_digits_def pad_start_def list_all_iff is_digit_def)

lemma code_of_digest_digits: "six_digits (code_of_digest ds)"
proof -
  let ?n = "sint (truncated ds) mod 10 ^ DIGITS"
  have n: "0 \<le> ?n" "?n < 10 ^ DIGITS" by (simp_all add: DIGITS_def)
  have "nat ?n < 10 ^ 6" using n by (simp add: DIGITS_def nat_less_iff)
  hence "length (show_nat (nat ?n)) \<le> 6" by (rule show_nat_length) simp
  moreover have "show_int ?n = show_nat (nat ?n)" using n(1) by (metis show_int_def not_less)
  hence "code_of_digest ds = pad_start 6 CHR ''0'' (show_nat (nat ?n))"
    using truncated_nonneg[of ds] by (simp add: code_of_digest_def js_remainder_def DIGITS_def)
  ultimately show ?thesis using six_digits_pad[OF show_nat_digits] by simp
qed

section \<open>Verifying\<close>

lemma try_steps_SomeD:
  "try_steps code submitted nb steps = Some s \<Longrightarrow> s \<in> set steps \<and> code s = Inr submitted \<and> (\<forall>n. nb = Some n \<longrightarrow> n < s)"
  by (induction steps) (auto split: if_splits option.splits sum.splits)

lemma verify_SomeD:
  assumes "verify_code hmac secret code atMs window nb = Some s"
  shows "codeForStep hmac secret s = Inr (trim code) \<and> \<bar>s - stepAt atMs\<bar> \<le> window \<and> (\<forall>n. nb = Some n \<longrightarrow> n < s)"
  using assms try_steps_SomeD by (auto simp: verify_code_def Let_def split: if_splits) fastforce+

text \<open>The code of the step a phone shows is accepted, unless its step was used, or the code of an
  earlier step of the window happens to be the same.\<close>

lemma try_steps_hit:
  assumes "s \<in> set steps" "code s = Inr submitted" "\<And>n. nb = Some n \<Longrightarrow> n < s" "\<forall>t \<in> set steps. isr (code t)"
  shows "\<exists>t. try_steps code submitted nb steps = Some t"
  using assms by (induction steps) (auto simp: isr_def split: sum.splits option.splits)

lemma six_digits_trim: "six_digits s \<Longrightarrow> trim s = s"
  by (rule trim_id) (auto simp: six_digits_def list_all_iff dest: digit_not_space)

lemma one_time_codes:
  assumes code: "codeForStep hmac secret (stepAt atMs) = Inr code"
    and range: "1 \<le> stepAt atMs" "stepAt atMs < 2 ^ 64 - 1"
    and used: "\<And>n. notBefore = Some n \<Longrightarrow> n < stepAt atMs"
  shows "six_digits code \<and> (\<exists>s. verify_code hmac secret code atMs DEFAULT_WINDOW notBefore = Some s
     \<and> codeForStep hmac secret s = Inr code \<and> \<bar>s - stepAt atMs\<bar> \<le> 1 \<and> (\<forall>n. notBefore = Some n \<longrightarrow> n < s)
     \<and> (\<forall>code' atMs' window s'. verify_code hmac secret code' atMs' window (Some s) = Some s' \<longrightarrow> s < s'))"
proof -
  obtain key where key: "base32Decode secret = Inr key" using code by (auto simp: codeForStep_def result_simps)
  have six: "six_digits code" using code by (auto simp: codeForStep_def result_simps code_of_digest_digits)
  let ?steps = "map (\<lambda>off. stepAt atMs + off) [- DEFAULT_WINDOW..DEFAULT_WINDOW]"
  have r: "\<forall>t \<in> set ?steps. isr (codeForStep hmac secret t)"
    using key range by (auto simp: codeForStep_def big_endian_64_def isr_def DEFAULT_WINDOW_def)
  have "stepAt atMs \<in> set ?steps" by (auto simp: DEFAULT_WINDOW_def)
  from try_steps_hit[OF this code used r]
  obtain s where s: "verify_code hmac secret code atMs DEFAULT_WINDOW notBefore = Some s"
    using six by (auto simp: verify_code_def six_digits_trim)
  from verify_SomeD[OF s] have "codeForStep hmac secret s = Inr code" "\<bar>s - stepAt atMs\<bar> \<le> 1" "\<forall>n. notBefore = Some n \<longrightarrow> n < s"
    using six by (simp_all add: six_digits_trim DEFAULT_WINDOW_def)
  thus ?thesis using s six verify_SomeD by blast
qed

text \<open>A stand-in for the HMAC: twenty bytes that depend on the key and on the counter.\<close>

definition toy_hmac :: "byte list \<Rightarrow> byte list \<Rightarrow> byte list" where
  "toy_hmac key msg = map (\<lambda>i. of_nat i + last msg + hd key) [0..<20]"

definition toy_secret :: string where "toy_secret = base32Encode [1, 2, 3, 250, 7]"

lemma one_time_codes_witness:
  "\<exists>code s. codeForStep toy_hmac toy_secret (stepAt 1700000000000) = Inr code
     \<and> verify_code toy_hmac toy_secret code 1700000000000 DEFAULT_WINDOW (Some 3) = Some s
     \<and> verify_code toy_hmac toy_secret code 1700000000000 DEFAULT_WINDOW (Some s) \<noteq> Some s"
proof -
  have s: "stepAt 1700000000000 = 56666666" by (simp add: stepAt_def STEP_SECONDS_def)
  then obtain code where code: "codeForStep toy_hmac toy_secret (stepAt 1700000000000) = Inr code"
    by (simp add: codeForStep_def toy_secret_def base32_decode_encode big_endian_64_def)
  have u: "n < stepAt 1700000000000" if "Some 3 = Some n" for n using that s by simp
  have "1 \<le> stepAt 1700000000000" "stepAt 1700000000000 < 2 ^ 64 - 1" by (simp_all add: s)
  from one_time_codes[OF code this u] obtain t
    where t: "verify_code toy_hmac toy_secret code 1700000000000 DEFAULT_WINDOW (Some 3) = Some t"
      "verify_code toy_hmac toy_secret code 1700000000000 DEFAULT_WINDOW (Some t) = Some t \<Longrightarrow> t < t" by meson
  have "verify_code toy_hmac toy_secret code 1700000000000 DEFAULT_WINDOW (Some t) \<noteq> Some t" using t(2) by blast
  with code t(1) show ?thesis by (intro exI conjI)
qed

text \<open>The first vector of RFC 4226.\<close>

lemma rfc_vector:
  "code_of_digest [0xCC, 0x93, 0xCF, 0x18, 0x50, 0x8D, 0x94, 0x93, 0x4C, 0x64, 0xB6, 0x5D, 0x8B, 0xA7, 0x66, 0x7F, 0xB7, 0xCD, 0xE4, 0xB0]
     = ''755224''"
  by (simp add: code_of_digest_def truncated_def byte_at_def js_remainder_def DIGITS_def show_int_def show_nat.simps digit_char_def pad_start_def)
    code_simp

end
