(* ===== verification/Accounts.thy ===== *)
theory Accounts
  imports Totp Store
begin

text \<open>
  Signing in: services/auth.js, services/mfa.js and services/loginThrottle.js.  An operation is an
  \<open>act\<close>: it takes the accounts and returns an answer or an error \<^emph>\<open>and\<close> the accounts it left behind,
  because what was written outside a transaction stays when a later step throws.  \<open>withTransaction\<close>
  is connectors/base.js: a body that throws is rolled back.

  What belongs to the runtime and to the libraries is a field of \<open>runtime\<close>: Argon2, SHA-256, HMAC,
  the signed tokens, the sealed box, the availability of Redis and the configuration.  Fresh
  identifiers and random secrets are arguments or the next row number; instants are milliseconds.
\<close>

section \<open>State\<close>

record user =
  us_id :: nat
  us_restaurant :: nat
  us_email :: string
  us_password :: string
  us_role :: staff_role
  us_active :: bool
  us_display_name :: "string option"
  us_mfa_secret :: "string option"
  us_mfa_enabled :: "int option"
  us_mfa_last_step :: "int option"

record refresh_session =
  se_id :: nat
  se_user :: nat
  se_restaurant :: nat
  se_hash :: string
  se_expires :: int
  se_revoked :: "int option"

record recovery_code =
  rv_user :: nat
  rv_restaurant :: nat
  rv_hash :: string
  rv_used :: "int option"

record invitation =
  iv_id :: nat
  iv_restaurant_id :: nat
  iv_email :: string
  iv_role :: staff_role
  iv_hash :: string
  iv_invited_by :: nat
  iv_expires :: int
  iv_accepted :: "nat option"
  iv_revoked :: bool

text \<open>A Redis counter with its expiry.\<close>

record failures =
  fa_key :: string
  fa_count :: nat
  fa_until :: int

record accounts =
  ac_users :: "user table"
  ac_sessions :: "refresh_session table"
  ac_codes :: "recovery_code table"
  ac_invitations :: "invitation table"
  ac_failures :: "failures table"
  ac_next :: nat

record refresh_claims =
  rf_type :: string
  rf_jti :: "nat option"

record runtime =
  rt_hash :: "string \<Rightarrow> string"
  rt_password_ok :: "string \<Rightarrow> string \<Rightarrow> bool"
  rt_password_hash :: "string \<Rightarrow> string"
  rt_hmac :: "byte list \<Rightarrow> byte list \<Rightarrow> byte list"
  rt_seal :: "string \<Rightarrow> string"
  rt_open :: "string \<Rightarrow> error + string"
  rt_sign_refresh :: "nat \<Rightarrow> nat \<Rightarrow> staff_role \<Rightarrow> nat \<Rightarrow> string"
  rt_read_refresh :: "string \<Rightarrow> int \<Rightarrow> refresh_claims option"
  rt_sign_challenge :: "nat \<Rightarrow> int \<Rightarrow> string"
  rt_read_challenge :: "string \<Rightarrow> int \<Rightarrow> nat option"
  rt_redis_up :: bool
  rt_fail_closed :: bool
  rt_max_failures :: nat
  rt_window_ms :: int
  rt_refresh_ttl_ms :: int

section \<open>Acts and transactions\<close>

type_synonym 'a act = "accounts \<Rightarrow> (error + 'a) \<times> accounts"

definition give :: "'a \<Rightarrow> 'a act" where "give x s = (Inr x, s)"

definition fail_with :: "error \<Rightarrow> 'a act" where "fail_with e s = (Inl e, s)"

definition change :: "(accounts \<Rightarrow> accounts) \<Rightarrow> unit act" where "change f s = (Inr (), f s)"

definition act_then :: "'a act \<Rightarrow> ('a \<Rightarrow> 'b act) \<Rightarrow> 'b act" where
  "act_then m f s = (case m s of (Inl e, s') \<Rightarrow> (Inl e, s') | (Inr x, s') \<Rightarrow> f x s')"

definition withTransaction :: "'a act \<Rightarrow> 'a act" where
  "withTransaction body s = (case body s of (Inl e, s') \<Rightarrow> (Inl e, s) | (Inr x, s') \<Rightarrow> (Inr x, s'))"

definition get_user :: "nat \<Rightarrow> accounts \<Rightarrow> user option" where
  "get_user uid s = find_by (\<lambda>u. us_id u = uid) (ac_users s)"

definition put_user :: "nat \<Rightarrow> (user \<Rightarrow> user) \<Rightarrow> accounts \<Rightarrow> accounts" where
  "put_user uid f s = s\<lparr>ac_users := update_where (\<lambda>u. us_id u = uid) f (ac_users s)\<rparr>"

definition unauthorized :: error where "unauthorized = Account_E Invalid_Credentials"

section \<open>The counter of failed logins\<close>

definition keyFor :: "runtime \<Rightarrow> string \<Rightarrow> string" where
  "keyFor rt email = ''auth:acct:'' @ rt_hash rt (map lower (trim email))"

definition failure_count :: "string \<Rightarrow> int \<Rightarrow> accounts \<Rightarrow> nat" where
  "failure_count key now s =
     (case find_by (\<lambda>f. fa_key f = key \<and> now < fa_until f) (ac_failures s) of None \<Rightarrow> 0 | Some f \<Rightarrow> fa_count f)"

definition assertNotThrottled :: "runtime \<Rightarrow> string \<Rightarrow> int \<Rightarrow> unit act" where
  "assertNotThrottled rt email now s =
     (if \<not> rt_redis_up rt
      then (if rt_fail_closed rt then (Inl (General Rate_Limiter_Unavailable), s) else (Inr (), s))
      else if failure_count (keyFor rt email) now s \<ge> rt_max_failures rt then (Inl (General Rate_Limited), s)
      else (Inr (), s))"

definition set_failures :: "string \<Rightarrow> nat \<Rightarrow> int \<Rightarrow> accounts \<Rightarrow> accounts" where
  "set_failures key n until s =
     s\<lparr>ac_failures := insert_row \<lparr>fa_key = key, fa_count = n, fa_until = until\<rparr> (delete_where (\<lambda>f. fa_key f = key) (ac_failures s))\<rparr>"

definition recordFailure :: "runtime \<Rightarrow> string \<Rightarrow> int \<Rightarrow> accounts \<Rightarrow> accounts" where
  "recordFailure rt email now s =
     (let key = keyFor rt email in
      if rt_redis_up rt then set_failures key (failure_count key now s + 1) (now + rt_window_ms rt) s else s)"

definition clearFailures :: "runtime \<Rightarrow> string \<Rightarrow> accounts \<Rightarrow> accounts" where
  "clearFailures rt email s =
     (if rt_redis_up rt then s\<lparr>ac_failures := delete_where (\<lambda>f. fa_key f = keyFor rt email) (ac_failures s)\<rparr> else s)"

section \<open>Sessions\<close>

record issued =
  is_refresh_token :: string
  is_user :: nat
  is_role :: staff_role
  is_restaurant :: nat

definition insert_session :: "refresh_session \<Rightarrow> unit act" where
  "insert_session r s =
     (if list_ex (\<lambda>x. se_hash x = se_hash r) (ac_sessions s) then (Inl (General (Db_Unique ''refresh_sessions_token_hash_key'')), s)
      else (Inr (), s\<lparr>ac_sessions := insert_row r (ac_sessions s), ac_next := Suc (se_id r)\<rparr>))"

definition issueSession :: "runtime \<Rightarrow> user \<Rightarrow> int \<Rightarrow> issued act" where
  "issueSession rt u now s =
     (let jti = ac_next s;
          token = rt_sign_refresh rt (us_id u) (us_restaurant u) (us_role u) jti
      in act_then (insert_session \<lparr>se_id = jti, se_user = us_id u, se_restaurant = us_restaurant u,
             se_hash = rt_hash rt token, se_expires = now + rt_refresh_ttl_ms rt, se_revoked = None\<rparr>)
           (\<lambda>_. give \<lparr>is_refresh_token = token, is_user = us_id u, is_role = us_role u, is_restaurant = us_restaurant u\<rparr>) s)"

definition revoke_where :: "(refresh_session \<Rightarrow> bool) \<Rightarrow> int \<Rightarrow> accounts \<Rightarrow> accounts" where
  "revoke_where P now s =
     s\<lparr>ac_sessions := update_where (\<lambda>r. P r \<and> se_revoked r = None) (\<lambda>r. r\<lparr>se_revoked := Some now\<rparr>) (ac_sessions s)\<rparr>"

definition revokeSession :: "nat \<Rightarrow> int \<Rightarrow> accounts \<Rightarrow> accounts" where
  "revokeSession jti now s = revoke_where (\<lambda>r. se_id r = jti) now s"

definition revokeAllSessionsForUser :: "nat \<Rightarrow> int \<Rightarrow> nat act" where
  "revokeAllSessionsForUser uid now s =
     (Inr (length (select (\<lambda>r. se_user r = uid \<and> se_revoked r = None) (ac_sessions s))),
      revoke_where (\<lambda>r. se_user r = uid) now s)"

section \<open>The second factor\<close>

text \<open>Ten random bytes, printed in two groups; compared without dashes, case or spaces.\<close>

definition generateRecoveryCode :: "byte list \<Rightarrow> string" where
  "generateRecoveryCode bytes = (let raw = base32Encode bytes in take 8 raw @ ''-'' @ take 8 (drop 8 raw))"

definition normaliseRecoveryCode :: "string \<Rightarrow> string" where
  "normaliseRecoveryCode c = filter (\<lambda>x. x \<in> set BASE32_ALPHABET) (map upper c)"

fun insert_codes :: "recovery_code list \<Rightarrow> recovery_code table \<Rightarrow> error + recovery_code table" where
  "insert_codes [] t = Inr t"
| "insert_codes (c # cs) t =
     (if list_ex (\<lambda>x. rv_user x = rv_user c \<and> rv_hash x = rv_hash c) t
      then Inl (General (Db_Unique ''user_mfa_recovery_codes_unique''))
      else insert_codes cs (insert_row c t))"

definition issueRecoveryCodes :: "runtime \<Rightarrow> nat \<Rightarrow> nat \<Rightarrow> byte list list \<Rightarrow> string list act" where
  "issueRecoveryCodes rt uid rid random s =
     (let codes = map generateRecoveryCode random;
          rows = map (\<lambda>c. \<lparr>rv_user = uid, rv_restaurant = rid, rv_hash = rt_hash rt (normaliseRecoveryCode c), rv_used = None\<rparr>) codes
      in case insert_codes rows (delete_where (\<lambda>c. rv_user c = uid) (ac_codes s)) of
           Inl e \<Rightarrow> (Inl e, s)
         | Inr t \<Rightarrow> (Inr codes, s\<lparr>ac_codes := t\<rparr>))"

definition open_secret :: "runtime \<Rightarrow> user \<Rightarrow> error + string" where
  "open_secret rt u = (case us_mfa_secret u of None \<Rightarrow> Inl (General Plain_Error) | Some b \<Rightarrow> rt_open rt b)"

datatype via_code = Via_Totp | Via_Recovery_Code

text \<open>The recovery code is claimed by the UPDATE that spends it.\<close>

definition consume :: "runtime \<Rightarrow> user \<Rightarrow> string \<Rightarrow> int \<Rightarrow> via_code option act" where
  "consume rt u code now s =
     (case open_secret rt u of
        Inl e \<Rightarrow> (Inl e, s)
      | Inr secret \<Rightarrow>
          (case verify_code (rt_hmac rt) secret code now DEFAULT_WINDOW (us_mfa_last_step u) of
             Some step \<Rightarrow> (Inr (Some Via_Totp), put_user (us_id u) (\<lambda>x. x\<lparr>us_mfa_last_step := Some step\<rparr>) s)
           | None \<Rightarrow>
               let spent = (\<lambda>c. rv_user c = us_id u \<and> rv_hash c = rt_hash rt (normaliseRecoveryCode code) \<and> rv_used c = None)
               in if list_ex spent (ac_codes s)
                  then (Inr (Some Via_Recovery_Code), s\<lparr>ac_codes := update_where spent (\<lambda>c. c\<lparr>rv_used := Some now\<rparr>) (ac_codes s)\<rparr>)
                  else (Inr None, s)))"

definition beginEnrolment :: "runtime \<Rightarrow> nat \<Rightarrow> nat \<Rightarrow> string \<Rightarrow> string act" where
  "beginEnrolment rt uid rid secret s =
     (let mine = (\<lambda>u. us_id u = uid \<and> us_restaurant u = rid \<and> us_mfa_enabled u = None) in
      if \<not> list_ex mine (ac_users s) then (Inl (Account_E Mfa_Already_Enabled), s)
      else (Inr secret, s\<lparr>ac_users := update_where mine
              (\<lambda>u. u\<lparr>us_mfa_secret := Some (rt_seal rt secret), us_mfa_enabled := None, us_mfa_last_step := None\<rparr>) (ac_users s)\<rparr>))"

definition user_of :: "nat \<Rightarrow> nat \<Rightarrow> accounts \<Rightarrow> user option" where
  "user_of uid rid s = find_by (\<lambda>u. us_id u = uid \<and> us_restaurant u = rid) (ac_users s)"

definition confirmEnrolment :: "runtime \<Rightarrow> nat \<Rightarrow> nat \<Rightarrow> string \<Rightarrow> byte list list \<Rightarrow> int \<Rightarrow> string list act" where
  "confirmEnrolment rt uid rid code random now =
     withTransaction (\<lambda>s.
       case user_of uid rid s of
         None \<Rightarrow> (Inl (Account_E Mfa_Not_Enrolled), s)
       | Some u \<Rightarrow>
           if us_mfa_secret u = None then (Inl (Account_E Mfa_Not_Enrolled), s)
           else if us_mfa_enabled u \<noteq> None then (Inl (Account_E Mfa_Already_Enabled), s)
           else
             (case open_secret rt u of
                Inl e \<Rightarrow> (Inl e, s)
              | Inr secret \<Rightarrow>
                  (case verify_code (rt_hmac rt) secret code now DEFAULT_WINDOW None of
                     None \<Rightarrow> (Inl (Account_E Mfa_Code_Invalid), s)
                   | Some step \<Rightarrow>
                       issueRecoveryCodes rt uid rid random
                         (put_user uid (\<lambda>x. x\<lparr>us_mfa_enabled := Some now, us_mfa_last_step := Some step\<rparr>) s))))"

text \<open>The check both \<open>disable\<close> and \<open>regenerateRecoveryCodes\<close> start with.\<close>

definition with_code :: "runtime \<Rightarrow> nat \<Rightarrow> nat \<Rightarrow> string \<Rightarrow> int \<Rightarrow> unit act" where
  "with_code rt uid rid code now s =
     (case user_of uid rid s of
        None \<Rightarrow> (Inl (Account_E Mfa_Not_Enabled), s)
      | Some u \<Rightarrow>
          if us_mfa_enabled u = None then (Inl (Account_E Mfa_Not_Enabled), s)
          else act_then (consume rt u code now)
                 (\<lambda>via. if via = None then fail_with (Account_E Mfa_Code_Invalid) else give ()) s)"

definition disable :: "runtime \<Rightarrow> nat \<Rightarrow> nat \<Rightarrow> string \<Rightarrow> int \<Rightarrow> unit act" where
  "disable rt uid rid code now =
     withTransaction (act_then (with_code rt uid rid code now) (\<lambda>_. change (\<lambda>s.
       (put_user uid (\<lambda>x. x\<lparr>us_mfa_secret := None, us_mfa_enabled := None, us_mfa_last_step := None\<rparr>) s)
         \<lparr>ac_codes := delete_where (\<lambda>c. rv_user c = uid) (ac_codes s)\<rparr>)))"

definition regenerateRecoveryCodes :: "runtime \<Rightarrow> nat \<Rightarrow> nat \<Rightarrow> string \<Rightarrow> byte list list \<Rightarrow> int \<Rightarrow> string list act" where
  "regenerateRecoveryCodes rt uid rid code random now =
     withTransaction (act_then (with_code rt uid rid code now) (\<lambda>_. issueRecoveryCodes rt uid rid random))"

definition mfa_status :: "nat \<Rightarrow> nat \<Rightarrow> accounts \<Rightarrow> error + int option \<times> nat" where
  "mfa_status uid rid s =
     (case user_of uid rid s of
        None \<Rightarrow> Inl (General Not_Found)
      | Some u \<Rightarrow> Inr (us_mfa_enabled u, length (select (\<lambda>c. rv_user c = uid \<and> rv_used c = None) (ac_codes s))))"

section \<open>Signing in\<close>

datatype login_answer = Session issued | Challenge string

definition user_by_email :: "string \<Rightarrow> accounts \<Rightarrow> user option" where
  "user_by_email email s = find_by (\<lambda>u. map lower (us_email u) = map lower email) (ac_users s)"

definition login :: "runtime \<Rightarrow> string \<Rightarrow> string \<Rightarrow> int \<Rightarrow> login_answer act" where
  "login rt email password now =
     act_then (assertNotThrottled rt email now) (\<lambda>_ s.
       case user_by_email email s of
         None \<Rightarrow> (Inl unauthorized, recordFailure rt email now s)
       | Some u \<Rightarrow>
           if \<not> us_active u \<or> \<not> rt_password_ok rt (us_password u) password
           then (Inl unauthorized, recordFailure rt email now s)
           else
             let s1 = clearFailures rt email s in
             if us_mfa_enabled u \<noteq> None then (Inr (Challenge (rt_sign_challenge rt (us_id u) now)), s1)
             else act_then (issueSession rt u now) (\<lambda>i. give (Session i)) s1)"

definition mfa_login_tx :: "runtime \<Rightarrow> nat \<Rightarrow> string \<Rightarrow> int \<Rightarrow> (issued \<times> via_code) option act" where
  "mfa_login_tx rt uid code now s =
     (case get_user uid s of
        None \<Rightarrow> (Inr None, s)
      | Some u \<Rightarrow>
          if \<not> us_active u \<or> us_mfa_enabled u = None then (Inr None, s)
          else act_then (consume rt u code now) (\<lambda>via.
                 case via of
                   None \<Rightarrow> give None
                 | Some v \<Rightarrow> act_then (issueSession rt u now) (\<lambda>i. give (Some (i, v)))) s)"

definition completeMfaLogin :: "runtime \<Rightarrow> string \<Rightarrow> string \<Rightarrow> int \<Rightarrow> issued act" where
  "completeMfaLogin rt challenge code now s =
     (case rt_read_challenge rt challenge now of
        None \<Rightarrow> (Inl unauthorized, s)
      | Some uid \<Rightarrow>
          act_then (assertNotThrottled rt (show_nat uid) now) (\<lambda>_.
          act_then (withTransaction (mfa_login_tx rt uid code now)) (\<lambda>session s1.
            case session of
              None \<Rightarrow> (Inl unauthorized, recordFailure rt (show_nat uid) now s1)
            | Some (i, v) \<Rightarrow> (Inr i, clearFailures rt (show_nat uid) s1))) s)"

text \<open>\<open>refresh\<close>: the claim of the old session, the reuse of a revoked one, the session that follows.\<close>

definition refresh_tx :: "runtime \<Rightarrow> string \<Rightarrow> nat \<Rightarrow> int \<Rightarrow> issued act" where
  "refresh_tx rt token jti now s =
     (let named = (\<lambda>r. se_id r = jti \<and> se_hash r = rt_hash rt token);
          claimable = (\<lambda>r. named r \<and> se_revoked r = None \<and> now < se_expires r)
      in case find_by claimable (ac_sessions s) of
           None \<Rightarrow>
             (case find_by named (ac_sessions s) of
                None \<Rightarrow> (Inl unauthorized, s)
              | Some r \<Rightarrow>
                  if se_revoked r = None then (Inl unauthorized, s)
                  else (Inl unauthorized, revoke_where (\<lambda>x. se_user x = se_user r) now s))
         | Some r \<Rightarrow>
             let s1 = s\<lparr>ac_sessions := update_where claimable (\<lambda>x. x\<lparr>se_revoked := Some now\<rparr>) (ac_sessions s)\<rparr> in
             (case get_user (se_user r) s1 of
                None \<Rightarrow> (Inl unauthorized, s1)
              | Some u \<Rightarrow> if \<not> us_active u then (Inl unauthorized, s1) else issueSession rt u now s1))"

definition refresh :: "runtime \<Rightarrow> string \<Rightarrow> int \<Rightarrow> issued act" where
  "refresh rt token now s =
     (case rt_read_refresh rt token now of
        None \<Rightarrow> (Inl unauthorized, s)
      | Some c \<Rightarrow>
          if rf_type c \<noteq> ''refresh'' then (Inl unauthorized, s)
          else (case rf_jti c of None \<Rightarrow> (Inl unauthorized, s) | Some jti \<Rightarrow> withTransaction (refresh_tx rt token jti now) s))"

section \<open>One's own account\<close>

definition currentUser :: "nat \<Rightarrow> accounts \<Rightarrow> error + user" where
  "currentUser uid s =
     (case get_user uid s of None \<Rightarrow> Inl unauthorized | Some u \<Rightarrow> if us_active u then Inr u else Inl unauthorized)"

definition setOwnDisplayName :: "nat \<Rightarrow> string option \<Rightarrow> user act" where
  "setOwnDisplayName uid displayName s =
     (let trimmed = (case displayName of Some d \<Rightarrow> trim d | None \<Rightarrow> []);
          name = (if trimmed = [] then None else Some trimmed)
      in case currentUser uid s of
           Inl e \<Rightarrow> (Inl e, s)
         | Inr u \<Rightarrow> (Inr (u\<lparr>us_display_name := name\<rparr>), put_user uid (\<lambda>x. x\<lparr>us_display_name := name\<rparr>) s))"

definition changeOwnPassword :: "runtime \<Rightarrow> nat \<Rightarrow> string \<Rightarrow> string \<Rightarrow> int \<Rightarrow> (issued \<times> nat) act" where
  "changeOwnPassword rt uid current new now s =
     (case currentUser uid s of
        Inl e \<Rightarrow> (Inl e, s)
      | Inr u \<Rightarrow>
          if \<not> rt_password_ok rt (us_password u) current then (Inl unauthorized, s)
          else if current = new then (Inl (Account_E Password_Unchanged), s)
          else act_then (change (put_user uid (\<lambda>x. x\<lparr>us_password := rt_password_hash rt new\<rparr>))) (\<lambda>_.
               act_then (revokeAllSessionsForUser uid now) (\<lambda>revoked.
               act_then (issueSession rt u now) (\<lambda>i. give (i, revoked)))) s)"

end
