(* ===== verification/Staff.thy ===== *)
theory Staff
  imports Accounts
begin

text \<open>
  The people of a restaurant (services/staff.js) and the invitations that bring them in
  (services/staffInvitations.js), over the accounts of the previous theory.  The actor of an operation
  is what the access token says, an id and a role, which may be up to fifteen minutes old; nothing
  below assumes that it still agrees with the table.
\<close>

section \<open>Who may act on whom\<close>

record actor =
  at_id :: nat
  at_role :: staff_role

fun RANK :: "staff_role \<Rightarrow> nat" where
  "RANK OWNER = 3" | "RANK MANAGER = 2" | "RANK CASHIER = 1" | "RANK WAITER = 1"

definition outranks :: "staff_role \<Rightarrow> staff_role \<Rightarrow> bool" where
  "outranks actorRole targetRole = (if actorRole = OWNER then True else RANK actorRole > RANK targetRole)"

definition assertMayAssign :: "staff_role \<Rightarrow> staff_role \<Rightarrow> error + unit" where
  "assertMayAssign actorRole role =
     (if actorRole = OWNER then Inr ()
      else if \<not> RANK actorRole > RANK role then Inl (Account_E Staff_Role_Too_High) else Inr ())"

definition lockTarget :: "nat \<Rightarrow> actor \<Rightarrow> nat \<Rightarrow> accounts \<Rightarrow> error + user" where
  "lockTarget rid actor uid s =
     (case user_of uid rid s of
        None \<Rightarrow> Inl (Account_E Staff_Not_Found)
      | Some target \<Rightarrow>
          if us_id target = at_id actor then Inl (Account_E Staff_Self_Forbidden)
          else if \<not> outranks (at_role actor) (us_role target) then Inl (Account_E Staff_Outranked)
          else Inr target)"

definition is_owner :: "nat \<Rightarrow> user \<Rightarrow> bool" where
  "is_owner rid u \<longleftrightarrow> us_restaurant u = rid \<and> us_role u = OWNER \<and> us_active u"

definition assertOwnerRemains :: "nat \<Rightarrow> nat \<Rightarrow> accounts \<Rightarrow> error + unit" where
  "assertOwnerRemains rid excluding s =
     (if length (select (\<lambda>u. is_owner rid u \<and> us_id u \<noteq> excluding) (ac_users s)) = 0
      then Inl (Account_E Staff_Last_Owner) else Inr ())"

section \<open>The staff of a restaurant\<close>

text \<open>Both unique indexes on the address: in the restaurant, and (migration 002) in the platform.\<close>

definition insert_user :: "user \<Rightarrow> accounts \<Rightarrow> error + accounts" where
  "insert_user u s =
     (if list_ex (\<lambda>x. us_restaurant x = us_restaurant u \<and> map lower (us_email x) = map lower (us_email u)) (ac_users s)
      then Inl (General (Db_Unique ''users_restaurant_email_idx''))
      else if list_ex (\<lambda>x. map lower (us_email x) = map lower (us_email u)) (ac_users s)
      then Inl (General (Db_Unique ''users_email_unique_idx''))
      else Inr (s\<lparr>ac_users := insert_row u (ac_users s), ac_next := Suc (us_id u)\<rparr>))"

definition new_user :: "nat \<Rightarrow> nat \<Rightarrow> string \<Rightarrow> string \<Rightarrow> staff_role \<Rightarrow> string option \<Rightarrow> user" where
  "new_user uid rid email hash role name =
     \<lparr>us_id = uid, us_restaurant = rid, us_email = email, us_password = hash, us_role = role, us_active = True,
      us_display_name = name, us_mfa_secret = None, us_mfa_enabled = None, us_mfa_last_step = None\<rparr>"

fun unique_violation :: "error \<Rightarrow> bool" where
  "unique_violation (General (Db_Unique k)) = True"
| "unique_violation _ = False"

definition createStaff :: "runtime \<Rightarrow> nat \<Rightarrow> actor \<Rightarrow> string \<Rightarrow> string \<Rightarrow> staff_role \<Rightarrow> user act" where
  "createStaff rt rid actor email password role s =
     (case assertMayAssign (at_role actor) role of
        Inl e \<Rightarrow> (Inl e, s)
      | Inr _ \<Rightarrow>
          let u = new_user (ac_next s) rid email (rt_password_hash rt password) role None
          in (case insert_user u s of
                Inl e \<Rightarrow> (Inl (if unique_violation e then Account_E Staff_Email_Taken else e), s)
              | Inr s' \<Rightarrow> (Inr u, s')))"

definition or_keep :: "'a option \<Rightarrow> 'a \<Rightarrow> 'a" where
  "or_keep new old = (case new of None \<Rightarrow> old | Some x \<Rightarrow> x)"

definition update_tx :: "nat \<Rightarrow> actor \<Rightarrow> nat \<Rightarrow> staff_role option \<Rightarrow> bool option \<Rightarrow> (user \<times> staff_role) act" where
  "update_tx rid actor uid role active s =
     (case lockTarget rid actor uid s of
        Inl e \<Rightarrow> (Inl e, s)
      | Inr target \<Rightarrow>
          let leavingOwner = (us_role target = OWNER \<and> ((role \<noteq> None \<and> role \<noteq> Some OWNER) \<or> active = Some False));
              f = (\<lambda>u. u\<lparr>us_role := or_keep role (us_role u), us_active := or_keep active (us_active u)\<rparr>)
          in (case (if leavingOwner then assertOwnerRemains rid (us_id target) s else Inr ()) of
                Inl e \<Rightarrow> (Inl e, s)
              | Inr _ \<Rightarrow>
                  (Inr (f target, us_role target),
                   s\<lparr>ac_users := update_where (\<lambda>u. us_id u = uid \<and> us_restaurant u = rid) f (ac_users s)\<rparr>)))"

definition updateStaff :: "nat \<Rightarrow> actor \<Rightarrow> nat \<Rightarrow> staff_role option \<Rightarrow> bool option \<Rightarrow> int \<Rightarrow> (user \<times> nat) act" where
  "updateStaff rid actor uid role active now s =
     (case (case role of None \<Rightarrow> Inr () | Some r \<Rightarrow> assertMayAssign (at_role actor) r) of
        Inl e \<Rightarrow> (Inl e, s)
      | Inr _ \<Rightarrow>
          act_then (withTransaction (update_tx rid actor uid role active)) (\<lambda>(updated, previous).
            if active = Some False \<or> (role \<noteq> None \<and> role \<noteq> Some previous)
            then act_then (revokeAllSessionsForUser uid now) (\<lambda>n. give (updated, n))
            else give (updated, 0)) s)"

definition resetStaffPassword :: "runtime \<Rightarrow> nat \<Rightarrow> actor \<Rightarrow> nat \<Rightarrow> string \<Rightarrow> int \<Rightarrow> nat act" where
  "resetStaffPassword rt rid actor uid password now =
     act_then (withTransaction (\<lambda>s.
       case lockTarget rid actor uid s of
         Inl e \<Rightarrow> (Inl e, s)
       | Inr _ \<Rightarrow> (Inr (), s\<lparr>ac_users := update_where (\<lambda>u. us_id u = uid \<and> us_restaurant u = rid)
                             (\<lambda>u. u\<lparr>us_password := rt_password_hash rt password\<rparr>) (ac_users s)\<rparr>)))
       (\<lambda>_. revokeAllSessionsForUser uid now)"

section \<open>Invitations\<close>

definition TTL_DAYS :: int where "TTL_DAYS = 7"

definition open_invitation :: "invitation \<Rightarrow> bool" where
  "open_invitation i \<longleftrightarrow> iv_accepted i = None \<and> \<not> iv_revoked i"

definition invite_tx :: "runtime \<Rightarrow> nat \<Rightarrow> actor \<Rightarrow> string \<Rightarrow> staff_role \<Rightarrow> string \<Rightarrow> int \<Rightarrow> invitation act" where
  "invite_tx rt rid actor email role token now s =
     (if list_ex (\<lambda>u. us_restaurant u = rid \<and> map lower (us_email u) = map lower email) (ac_users s)
      then (Inl (Account_E Staff_Email_Taken), s)
      else
        let same = (\<lambda>i. iv_restaurant_id i = rid \<and> map lower (iv_email i) = map lower email \<and> open_invitation i);
            old = update_where same (\<lambda>i. i\<lparr>iv_revoked := True\<rparr>) (ac_invitations s);
            inv = \<lparr>iv_id = ac_next s, iv_restaurant_id = rid, iv_email = email, iv_role = role, iv_hash = rt_hash rt token,
                   iv_invited_by = at_id actor, iv_expires = now + TTL_DAYS * 86400000, iv_accepted = None, iv_revoked = False\<rparr>
        in if list_ex (\<lambda>i. iv_hash i = iv_hash inv) old
           then (Inl (General (Db_Unique ''staff_invitations_token_hash_key'')), s)
           else (Inr inv, s\<lparr>ac_invitations := insert_row inv old, ac_next := Suc (iv_id inv)\<rparr>))"

definition createInvitation :: "runtime \<Rightarrow> nat \<Rightarrow> actor \<Rightarrow> string \<Rightarrow> staff_role \<Rightarrow> string \<Rightarrow> int \<Rightarrow> invitation act" where
  "createInvitation rt rid actor email role token now s =
     (case assertMayAssign (at_role actor) role of
        Inl e \<Rightarrow> (Inl e, s)
      | Inr _ \<Rightarrow> withTransaction (invite_tx rt rid actor email role token now) s)"

definition listInvitations :: "nat \<Rightarrow> int \<Rightarrow> accounts \<Rightarrow> invitation list" where
  "listInvitations rid now s =
     rev (select (\<lambda>i. iv_restaurant_id i = rid \<and> open_invitation i \<and> now < iv_expires i) (ac_invitations s))"

text \<open>Read without a lock, then written without looking again: the CHECK
  \<open>staff_invitations_closed_check\<close> stops the revocation of one that was accepted in between.\<close>

definition read_revocable :: "nat \<Rightarrow> actor \<Rightarrow> nat \<Rightarrow> accounts \<Rightarrow> error + unit" where
  "read_revocable rid actor k s =
     (case find_by (\<lambda>i. iv_id i = k \<and> iv_restaurant_id i = rid \<and> open_invitation i) (ac_invitations s) of
        None \<Rightarrow> Inl (Account_E Staff_Invitation_Not_Found)
      | Some i \<Rightarrow> assertMayAssign (at_role actor) (iv_role i))"

definition write_revoked :: "nat \<Rightarrow> nat \<Rightarrow> unit act" where
  "write_revoked rid k s =
     (let mine = (\<lambda>i. iv_id i = k \<and> iv_restaurant_id i = rid) in
      if list_ex (\<lambda>i. mine i \<and> iv_accepted i \<noteq> None) (ac_invitations s)
      then (Inl (General (Db_Check ''staff_invitations_closed_check'')), s)
      else (Inr (), s\<lparr>ac_invitations := update_where mine (\<lambda>i. i\<lparr>iv_revoked := True\<rparr>) (ac_invitations s)\<rparr>))"

definition revokeInvitation :: "nat \<Rightarrow> actor \<Rightarrow> nat \<Rightarrow> unit act" where
  "revokeInvitation rid actor k s =
     (case read_revocable rid actor k s of Inl e \<Rightarrow> (Inl e, s) | Inr _ \<Rightarrow> write_revoked rid k s)"

definition usable :: "runtime \<Rightarrow> string \<Rightarrow> int \<Rightarrow> invitation \<Rightarrow> bool" where
  "usable rt token now i \<longleftrightarrow> iv_hash i = rt_hash rt token \<and> open_invitation i \<and> now < iv_expires i"

definition previewInvitation :: "runtime \<Rightarrow> string \<Rightarrow> int \<Rightarrow> accounts \<Rightarrow> error + invitation" where
  "previewInvitation rt token now s =
     (case find_by (usable rt token now) (ac_invitations s) of
        None \<Rightarrow> Inl (Account_E Invitation_Invalid) | Some i \<Rightarrow> Inr i)"

definition accept_tx :: "runtime \<Rightarrow> string \<Rightarrow> string \<Rightarrow> string option \<Rightarrow> int \<Rightarrow> issued act" where
  "accept_tx rt token password name now s =
     (case find_by (usable rt token now) (ac_invitations s) of
        None \<Rightarrow> (Inl (Account_E Invitation_Invalid), s)
      | Some i \<Rightarrow>
          let trimmed = (case name of None \<Rightarrow> [] | Some n \<Rightarrow> trim n);
              u = new_user (ac_next s) (iv_restaurant_id i) (iv_email i) (rt_password_hash rt password) (iv_role i)
                    (if trimmed = [] then None else Some trimmed)
          in (case insert_user u s of
                Inl e \<Rightarrow> (Inl (if unique_violation e then Account_E Invitation_Email_In_Use else e), s)
              | Inr s1 \<Rightarrow>
                  issueSession rt u now (s1\<lparr>ac_invitations :=
                    update_where (\<lambda>x. iv_id x = iv_id i) (\<lambda>x. x\<lparr>iv_accepted := Some (us_id u)\<rparr>) (ac_invitations s1)\<rparr>)))"

definition acceptInvitation :: "runtime \<Rightarrow> string \<Rightarrow> string \<Rightarrow> string option \<Rightarrow> int \<Rightarrow> issued act" where
  "acceptInvitation rt token password name now = withTransaction (accept_tx rt token password name now)"

end
