(* ===== verification/Account_Contract.thy ===== *)
theory Account_Contract
  imports Staff
begin

text \<open>
  What the operations of Accounts and Staff promise together.  \<open>accounts_ok\<close> is the invariant of the
  tables (the keys and the UNIQUE constraints); \<open>evolves U\<close> is what any operation leaves true of the
  rows that were there, \<open>U\<close> being what it may change of a user.
  The contract an operation meets is the locale \<open>account_contract\<close>, proved once for every operation but
  \<open>updateStaff\<close> and interpreted twice: these operations leave everybody's standing alone, and they leave
  everybody's identity alone, which is all that \<open>updateStaff\<close> does.
\<close>

section \<open>The invariant\<close>

definition accounts_ok :: "accounts \<Rightarrow> bool" where
  "accounts_ok s \<longleftrightarrow>
     keyed us_id (ac_users s) \<and> keyed se_id (ac_sessions s) \<and> keyed se_hash (ac_sessions s) \<and>
     keyed iv_id (ac_invitations s) \<and> keyed iv_hash (ac_invitations s) \<and>
     (\<forall>u \<in> set (ac_users s). us_id u < ac_next s) \<and> (\<forall>r \<in> set (ac_sessions s). se_id r < ac_next s) \<and>
     (\<forall>i \<in> set (ac_invitations s). iv_id i < ac_next s)"

definition carried :: "('a \<Rightarrow> 'a \<Rightarrow> bool) \<Rightarrow> 'a table \<Rightarrow> 'a table \<Rightarrow> bool" where
  "carried R t t' \<longleftrightarrow> (\<forall>x \<in> set t. \<exists>y \<in> set t'. R x y)"

lemma carried_refl: "(\<And>x. R x x) \<Longrightarrow> carried R t t"
  by (auto simp: carried_def)

lemma carried_trans: "(\<And>x y z. R x y \<Longrightarrow> R y z \<Longrightarrow> R x z) \<Longrightarrow> carried R t t' \<Longrightarrow> carried R t' t'' \<Longrightarrow> carried R t t''"
  by (fastforce simp: carried_def)

lemma carried_insert: "(\<And>x. R x x) \<Longrightarrow> carried R t (insert_row r t)"
  by (auto simp: carried_def)

lemma carried_update:
  assumes "\<And>x. R x x" "\<And>x. x \<in> set t \<Longrightarrow> P x \<Longrightarrow> R x (f x)"
  shows "carried R t (update_where P f t)"
  unfolding carried_def
proof (rule ballI)
  fix x assume "x \<in> set t"
  thus "\<exists>y \<in> set (update_where P f t). R x y"
    by (intro bexI[of _ "if P x then f x else x"]) (simp_all add: assms set_update_where)
qed

text \<open>What later states keep of a user, of a session and of an invitation.\<close>

definition same_identity :: "user \<Rightarrow> user \<Rightarrow> bool" where
  "same_identity u v \<longleftrightarrow> us_id v = us_id u \<and> us_restaurant v = us_restaurant u \<and> us_email v = us_email u"

definition same_standing :: "user \<Rightarrow> user \<Rightarrow> bool" where
  "same_standing u v \<longleftrightarrow> same_identity u v \<and> us_role v = us_role u \<and> us_active v = us_active u"

definition session_kept :: "refresh_session \<Rightarrow> refresh_session \<Rightarrow> bool" where
  "session_kept r q \<longleftrightarrow> se_id q = se_id r \<and> se_user q = se_user r \<and> se_hash q = se_hash r \<and> se_expires q = se_expires r \<and>
     (se_revoked r \<noteq> None \<longrightarrow> se_revoked q = se_revoked r)"

definition invitation_kept :: "invitation \<Rightarrow> invitation \<Rightarrow> bool" where
  "invitation_kept i j \<longleftrightarrow> iv_id j = iv_id i \<and> iv_hash j = iv_hash i \<and> iv_role j = iv_role i \<and>
     (iv_accepted i \<noteq> None \<longrightarrow> iv_accepted j = iv_accepted i) \<and> (iv_revoked i \<longrightarrow> iv_revoked j)"

definition evolves :: "(user \<Rightarrow> user \<Rightarrow> bool) \<Rightarrow> accounts \<Rightarrow> accounts \<Rightarrow> bool" where
  "evolves U s s' \<longleftrightarrow> accounts_ok s' \<and> ac_next s \<le> ac_next s' \<and> carried U (ac_users s) (ac_users s') \<and>
     carried session_kept (ac_sessions s) (ac_sessions s') \<and> carried invitation_kept (ac_invitations s) (ac_invitations s')"

lemmas kept_defs = same_identity_def same_standing_def session_kept_def invitation_kept_def

lemma kept_refl [simp]: "same_identity u u" "same_standing u u" "session_kept r r" "invitation_kept i i"
  by (simp_all add: kept_defs)

lemma session_kept_trans: "session_kept a b \<Longrightarrow> session_kept b c \<Longrightarrow> session_kept a c"
  by (auto simp: session_kept_def)

lemma invitation_kept_trans: "invitation_kept a b \<Longrightarrow> invitation_kept b c \<Longrightarrow> invitation_kept a c"
  by (auto simp: invitation_kept_def)

section \<open>The contract of an operation\<close>

lemma act_then_eq: "act_then m f s = (case fst (m s) of Inl e \<Rightarrow> (Inl e, snd (m s)) | Inr x \<Rightarrow> f x (snd (m s)))"
  by (simp add: act_then_def split: prod.split sum.split)

lemma withTransaction_eq: "withTransaction m s = (case fst (m s) of Inl e \<Rightarrow> (Inl e, s) | Inr x \<Rightarrow> (Inr x, snd (m s)))"
  by (simp add: withTransaction_def split: prod.split sum.split)

definition meets :: "(user \<Rightarrow> user \<Rightarrow> bool) \<Rightarrow> (accounts \<Rightarrow> accounts) \<Rightarrow> bool" where
  "meets U f \<longleftrightarrow> (\<forall>s. accounts_ok s \<longrightarrow> evolves U s (f s))"

lemma meetsD: "meets U f \<Longrightarrow> accounts_ok s \<Longrightarrow> evolves U s (f s)"
  by (simp add: meets_def)

lemma evolves_ok: "evolves U s t \<Longrightarrow> accounts_ok t"
  by (simp add: evolves_def)

locale account_contract =
  fixes U :: "user \<Rightarrow> user \<Rightarrow> bool"
  assumes U_standing: "same_standing u v \<Longrightarrow> U u v" and U_trans: "U a b \<Longrightarrow> U b c \<Longrightarrow> U a c"
begin

lemma U_refl: "U u u"
  by (simp add: U_standing)

lemma stay: "accounts_ok s \<Longrightarrow> evolves U s s"
  by (simp add: evolves_def carried_refl U_refl)

lemma go: "evolves U s t \<Longrightarrow> evolves U t t' \<Longrightarrow> evolves U s t'"
  by (auto simp: evolves_def intro: carried_trans[OF U_trans] carried_trans[OF session_kept_trans] carried_trans[OF invitation_kept_trans])

lemma meets_compose: "meets U f \<Longrightarrow> meets U g \<Longrightarrow> meets U (\<lambda>s. g (f s))"
proof (unfold meets_def, intro allI impI)
  fix s
  assume f: "\<forall>s. accounts_ok s \<longrightarrow> evolves U s (f s)" and g: "\<forall>s. accounts_ok s \<longrightarrow> evolves U s (g s)" and s: "accounts_ok s"
  have 1: "evolves U s (f s)" using f s by simp
  have "evolves U (f s) (g (f s))" using g evolves_ok[OF 1] by simp
  thus "evolves U s (g (f s))" by (rule go[OF 1])
qed

lemma meets_same: "meets U (\<lambda>s. s)"
  by (simp add: meets_def stay)

lemma meets_if: "meets U f \<Longrightarrow> meets U g \<Longrightarrow> meets U (\<lambda>s. if P s then f s else g s)"
  by (simp add: meets_def)

lemma meets_act_then:
  assumes "meets U (\<lambda>s. snd (m s))" "\<And>x. meets U (\<lambda>s. snd (f x s))"
  shows "meets U (\<lambda>s. snd (act_then m f s))"
proof (unfold meets_def, intro allI impI)
  fix s assume "accounts_ok s"
  hence 1: "evolves U s (snd (m s))" by (rule meetsD[OF assms(1)])
  show "evolves U s (snd (act_then m f s))"
  proof (cases "fst (m s)")
    case (Inl e) thus ?thesis using 1 by (simp add: act_then_eq)
  next
    case (Inr x) thus ?thesis using go[OF 1 meetsD[OF assms(2) evolves_ok[OF 1]]] by (simp add: act_then_eq)
  qed
qed

lemma meets_transaction: "meets U (\<lambda>s. snd (m s)) \<Longrightarrow> meets U (\<lambda>s. snd (withTransaction m s))"
  by (simp add: meets_def withTransaction_eq stay split: sum.split)

lemma meets_users:
  assumes "\<And>u. us_id (f u) = us_id u" "\<And>u. P u \<Longrightarrow> U u (f u)"
  shows "meets U (\<lambda>s. s\<lparr>ac_users := update_where P f (ac_users s)\<rparr>)"
  using assms by (auto simp: meets_def evolves_def accounts_ok_def keyed_update carried_refl set_update_where
      intro!: carried_update U_refl)

lemma meets_user: "(\<And>u. us_id (f u) = us_id u) \<Longrightarrow> (\<And>u. U u (f u)) \<Longrightarrow> meets U (put_user uid f)"
  using meets_users[of f "\<lambda>u. us_id u = uid"] by (simp add: put_user_def [abs_def])

lemma evolves_codes: "accounts_ok s \<Longrightarrow> evolves U s (s\<lparr>ac_codes := t\<rparr>)"
  by (auto simp: evolves_def accounts_ok_def carried_refl U_refl)

lemma evolves_failures: "accounts_ok s \<Longrightarrow> evolves U s (s\<lparr>ac_failures := t\<rparr>)"
  by (auto simp: evolves_def accounts_ok_def carried_refl U_refl)

lemma meets_revoke: "meets U (revoke_where P now)"
  by (auto simp: meets_def revoke_where_def evolves_def accounts_ok_def keyed_update carried_refl U_refl set_update_where
      session_kept_def intro!: carried_update)

lemma meets_invitations:
  assumes "\<And>i. iv_id (f i) = iv_id i \<and> iv_hash (f i) = iv_hash i" "\<And>i. P i \<Longrightarrow> invitation_kept i (f i)"
  shows "meets U (\<lambda>s. s\<lparr>ac_invitations := update_where P f (ac_invitations s)\<rparr>)"
  using assms by (auto simp: meets_def evolves_def accounts_ok_def keyed_update carried_refl set_update_where U_refl
      intro!: carried_update)

lemma insert_session_evolves:
  assumes "accounts_ok s" "se_id r = ac_next s"
  shows "evolves U s (snd (insert_session r s))"
proof -
  have "se_id r \<notin> se_id ` set (ac_sessions s)" using assms by (auto simp: accounts_ok_def)
  moreover have "se_hash r \<notin> se_hash ` set (ac_sessions s)" if "\<not> list_ex (\<lambda>x. se_hash x = se_hash r) (ac_sessions s)"
    using that by (auto simp: list_ex_iff)
  ultimately show ?thesis
    using assms by (auto simp: insert_session_def stay evolves_def accounts_ok_def keyed_insert carried_refl U_refl less_Suc_eq
        intro: carried_insert)
qed

lemma meets_issueSession: "meets U (\<lambda>s. snd (issueSession rt u now s))"
proof (unfold meets_def, intro allI impI)
  fix s assume s: "accounts_ok s"
  have a: "snd (act_then m (\<lambda>_. give z) s) = snd (m s)" for m :: "unit act" and z :: issued
    by (simp add: act_then_eq give_def split: sum.split)
  show "evolves U s (snd (issueSession rt u now s))"
    unfolding issueSession_def Let_def a by (rule insert_session_evolves[OF s]) simp
qed

lemma insert_user_evolves:
  assumes "accounts_ok s" "us_id u = ac_next s" "insert_user u s = Inr s'"
  shows "evolves U s s'"
proof -
  have "us_id u \<notin> us_id ` set (ac_users s)" using assms(1,2) by (auto simp: accounts_ok_def)
  moreover have "s' = s\<lparr>ac_users := insert_row u (ac_users s), ac_next := Suc (us_id u)\<rparr>"
    using assms(3) by (simp add: insert_user_def split: if_splits)
  ultimately show ?thesis
    using assms(1,2) by (auto simp: evolves_def accounts_ok_def keyed_insert carried_refl U_refl less_Suc_eq
        intro: carried_insert)
qed

lemma meets_recordFailure: "meets U (recordFailure rt email now)"
  by (simp add: meets_def recordFailure_def set_failures_def Let_def stay evolves_failures)

lemma meets_clearFailures: "meets U (clearFailures rt email)"
  by (simp add: meets_def clearFailures_def stay evolves_failures)

lemma meets_assertNotThrottled: "meets U (\<lambda>s. snd (assertNotThrottled rt email now s))"
  by (simp add: meets_def assertNotThrottled_def stay)

lemma meets_consume: "meets U (\<lambda>s. snd (consume rt u code now s))"
proof -
  have "meets U (put_user (us_id u) (\<lambda>x. x\<lparr>us_mfa_last_step := Some step\<rparr>))" for step
    by (rule meets_user) (auto simp: kept_defs intro: U_standing)
  thus ?thesis
    by (auto simp: meets_def consume_def Let_def stay evolves_codes split: sum.split option.split)
qed

lemma meets_issueRecoveryCodes: "meets U (\<lambda>s. snd (issueRecoveryCodes rt uid rid random s))"
  by (simp add: meets_def issueRecoveryCodes_def Let_def stay evolves_codes split: sum.split)

text \<open>The operations of Accounts and the invitations: none of them changes the standing of anybody.\<close>

lemma meets_login: "meets U (\<lambda>s. snd (login rt email password now s))"
  unfolding login_def
proof (rule meets_act_then[OF meets_assertNotThrottled], unfold meets_def, intro allI impI)
  fix s assume s: "accounts_ok s"
  have session: "evolves U s (snd (act_then (issueSession rt u now) (\<lambda>i. give (Session i)) (clearFailures rt email s)))" for u
  proof -
    have "meets U (\<lambda>s. snd (act_then (issueSession rt u now) (\<lambda>i. give (Session i)) s))"
      by (rule meets_act_then[OF meets_issueSession]) (simp add: give_def meets_same)
    from meetsD[OF meets_compose[OF meets_clearFailures this] s] show ?thesis .
  qed
  show "evolves U s (snd (case user_by_email email s of None \<Rightarrow> (Inl unauthorized, recordFailure rt email now s)
      | Some u \<Rightarrow> if \<not> us_active u \<or> \<not> rt_password_ok rt (us_password u) password
          then (Inl unauthorized, recordFailure rt email now s)
          else let s1 = clearFailures rt email s in
            if us_mfa_enabled u \<noteq> None then (Inr (Challenge (rt_sign_challenge rt (us_id u) now)), s1)
            else act_then (issueSession rt u now) (\<lambda>i. give (Session i)) s1))"
    using s session by (simp add: meetsD[OF meets_recordFailure] meetsD[OF meets_clearFailures] Let_def split: option.split)
qed

lemma meets_give: "meets U (\<lambda>s. snd (give x s))"
  by (simp add: give_def meets_same)

lemma meets_fail: "meets U (\<lambda>s. snd (fail_with e s))"
  by (simp add: fail_with_def meets_same)

lemma meets_answer: "meets U (\<lambda>s. snd (m s)) \<Longrightarrow> meets U (\<lambda>s. snd (act_then m (\<lambda>x. give (h x)) s))"
  by (rule meets_act_then[OF _ meets_give])

lemma meets_completeMfaLogin: "meets U (\<lambda>s. snd (completeMfaLogin rt challenge code now s))"
proof -
  have session: "meets U (\<lambda>s. snd ((case via of None \<Rightarrow> give None
      | Some v \<Rightarrow> act_then (issueSession rt u now) (\<lambda>i. give (Some (i, v)))) s))" for u and via :: "via_code option"
    by (cases via) (simp_all add: meets_give meets_answer meets_issueSession)
  have "meets U (\<lambda>s. snd (mfa_login_tx rt uid code now s))" for uid
    unfolding meets_def mfa_login_tx_def
    using meetsD[OF meets_act_then[OF meets_consume session]] by (auto simp: stay split: option.split)
  hence tx: "meets U (\<lambda>s. snd (withTransaction (mfa_login_tx rt uid code now) s))" for uid
    by (rule meets_transaction)
  have after: "meets U (\<lambda>s. snd (case x of None \<Rightarrow> (Inl unauthorized, recordFailure rt k now s)
      | Some (i, v) \<Rightarrow> (Inr i, clearFailures rt k s)))" for k and x :: "(issued \<times> via_code) option"
    by (cases x) (auto simp: meets_recordFailure meets_clearFailures split: prod.split)
  show ?thesis
    unfolding completeMfaLogin_def
    using meetsD[OF meets_act_then[OF meets_assertNotThrottled meets_act_then[OF tx after]]]
    by (auto simp: meets_def stay split: option.split)
qed

lemma meets_claim: "meets U (\<lambda>s. s\<lparr>ac_sessions := update_where (\<lambda>r. P r \<and> se_revoked r = None \<and> Q r)
    (\<lambda>r. r\<lparr>se_revoked := Some now\<rparr>) (ac_sessions s)\<rparr>)"
  by (auto simp: meets_def evolves_def accounts_ok_def keyed_update carried_refl U_refl set_update_where session_kept_def
      intro!: carried_update)

lemma meets_refresh: "meets U (\<lambda>s. snd (refresh rt token now s))"
proof -
  have "meets U (\<lambda>s. snd (refresh_tx rt token jti now s))" for jti
    unfolding meets_def
  proof (intro allI impI)
    fix s assume s: "accounts_ok s"
    let ?s1 = "s\<lparr>ac_sessions := update_where (\<lambda>r. (se_id r = jti \<and> se_hash r = rt_hash rt token) \<and> se_revoked r = None \<and> now < se_expires r)
      (\<lambda>x. x\<lparr>se_revoked := Some now\<rparr>) (ac_sessions s)\<rparr>"
    have 1: "evolves U s ?s1" by (rule meetsD[OF meets_claim s])
    have "evolves U s (snd (issueSession rt u now ?s1))" for u
      by (rule go[OF 1 meetsD[OF meets_issueSession evolves_ok[OF 1]]])
    thus "evolves U s (snd (refresh_tx rt token jti now s))"
      using s 1 by (simp add: refresh_tx_def Let_def stay meetsD[OF meets_revoke] split: option.split)
  qed
  from meetsD[OF meets_transaction[OF this]] show ?thesis
    by (simp add: meets_def refresh_def stay split: option.split)
qed

lemma meets_revokeAll: "meets U (\<lambda>s. snd (revokeAllSessionsForUser uid now s))"
  by (simp add: revokeAllSessionsForUser_def meets_revoke)

lemma meets_quiet: "(\<And>u. us_id (f u) = us_id u) \<Longrightarrow> (\<And>u. same_standing u (f u)) \<Longrightarrow> meets U (put_user uid f)"
  by (rule meets_user) (auto intro: U_standing)

lemma meets_setOwnDisplayName: "meets U (\<lambda>s. snd (setOwnDisplayName uid name s))"
  using meetsD[OF meets_quiet] by (auto simp: meets_def setOwnDisplayName_def Let_def stay kept_defs split: sum.split)

lemma meets_changeOwnPassword: "meets U (\<lambda>s. snd (changeOwnPassword rt uid current new now s))"
proof -
  have "meets U (\<lambda>s. snd (change (put_user uid (\<lambda>x. x\<lparr>us_password := rt_password_hash rt new\<rparr>)) s))"
    by (simp add: change_def, rule meets_quiet) (simp_all add: kept_defs)
  hence "meets U (\<lambda>s. snd (act_then (change (put_user uid (\<lambda>x. x\<lparr>us_password := rt_password_hash rt new\<rparr>))) (\<lambda>_.
      act_then (revokeAllSessionsForUser uid now) (\<lambda>revoked. act_then (issueSession rt u now) (\<lambda>i. give (i, revoked)))) s))" for u
    by (rule meets_act_then) (rule meets_act_then[OF meets_revokeAll meets_answer[OF meets_issueSession]])
  thus ?thesis by (simp add: meets_def changeOwnPassword_def stay split: sum.split)
qed

lemma meets_beginEnrolment: "meets U (\<lambda>s. snd (beginEnrolment rt uid rid secret s))"
proof -
  have "meets U (\<lambda>s. s\<lparr>ac_users := update_where P (\<lambda>u. u\<lparr>us_mfa_secret := b, us_mfa_enabled := None, us_mfa_last_step := None\<rparr>) (ac_users s)\<rparr>)"
    for P b
    by (rule meets_users) (auto simp: kept_defs intro: U_standing)
  from meetsD[OF this] show ?thesis by (simp add: meets_def beginEnrolment_def Let_def stay)
qed

lemma meets_confirmEnrolment: "meets U (\<lambda>s. snd (confirmEnrolment rt uid rid code random now s))"
  unfolding confirmEnrolment_def
proof (rule meets_transaction)
  have "meets U (put_user uid (\<lambda>x. x\<lparr>us_mfa_enabled := Some now, us_mfa_last_step := Some step\<rparr>))" for step
    by (rule meets_quiet) (simp_all add: kept_defs)
  note run = meetsD[OF meets_compose[OF this meets_issueRecoveryCodes]]
  show "meets U (\<lambda>s. snd (case user_of uid rid s of
         None \<Rightarrow> (Inl (Account_E Mfa_Not_Enrolled), s)
       | Some u \<Rightarrow>
           if us_mfa_secret u = None then (Inl (Account_E Mfa_Not_Enrolled), s)
           else if us_mfa_enabled u \<noteq> None then (Inl (Account_E Mfa_Already_Enabled), s)
           else
             (case open_secret rt u of
                Inl e \<Rightarrow> (Inl e, s)
              | Inr secret \<Rightarrow>
                  (case verify_code (rt_hmac rt) secret code now DEFAULT_WINDOW None of
                     None \<Rightarrow> (Inl (Account_E Mfa_Code_Invalid), s)
                   | Some step \<Rightarrow>
                       issueRecoveryCodes rt uid rid random
                         (put_user uid (\<lambda>x. x\<lparr>us_mfa_enabled := Some now, us_mfa_last_step := Some step\<rparr>) s)))))"
    by (simp add: meets_def stay run split: option.split sum.split)
qed

lemma meets_with_code: "meets U (\<lambda>s. snd (with_code rt uid rid code now s))"
proof -
  have "meets U (\<lambda>s. snd (act_then (consume rt u code now)
      (\<lambda>via. if via = None then fail_with (Account_E Mfa_Code_Invalid) else give ()) s))" for u
    by (rule meets_act_then[OF meets_consume]) (simp add: meets_fail meets_give)
  from meetsD[OF this] show ?thesis by (simp add: meets_def with_code_def stay split: option.split)
qed

lemma meets_disable: "meets U (\<lambda>s. snd (disable rt uid rid code now s))"
  unfolding disable_def
proof (rule meets_transaction, rule meets_act_then[OF meets_with_code], unfold meets_def change_def, intro allI impI)
  fix s assume s: "accounts_ok s"
  let ?s1 = "put_user uid (\<lambda>x. x\<lparr>us_mfa_secret := None, us_mfa_enabled := None, us_mfa_last_step := None\<rparr>) s"
  have 1: "evolves U s ?s1" by (rule meetsD[OF meets_quiet s]) (simp_all add: kept_defs)
  show "evolves U s (snd (Inr (), ?s1\<lparr>ac_codes := delete_where (\<lambda>c. rv_user c = uid) (ac_codes s)\<rparr>))"
    using go[OF 1 evolves_codes[OF evolves_ok[OF 1]]] by simp
qed

lemma meets_regenerate: "meets U (\<lambda>s. snd (regenerateRecoveryCodes rt uid rid code random now s))"
  unfolding regenerateRecoveryCodes_def
  by (rule meets_transaction, rule meets_act_then[OF meets_with_code meets_issueRecoveryCodes])

lemma meets_createStaff: "meets U (\<lambda>s. snd (createStaff rt rid actor email password role s))"
  using insert_user_evolves[of _ "new_user n rid email (rt_password_hash rt password) role None" for n]
  by (auto simp: meets_def createStaff_def Let_def stay new_user_def split: sum.split)

lemma meets_resetStaffPassword: "meets U (\<lambda>s. snd (resetStaffPassword rt rid actor uid password now s))"
  unfolding resetStaffPassword_def
proof (rule meets_act_then[OF meets_transaction meets_revokeAll], unfold meets_def, intro allI impI)
  fix s assume s: "accounts_ok s"
  have "evolves U s (s\<lparr>ac_users := update_where (\<lambda>u. us_id u = uid \<and> us_restaurant u = rid)
      (\<lambda>u. u\<lparr>us_password := rt_password_hash rt password\<rparr>) (ac_users s)\<rparr>)"
    by (rule meetsD[OF meets_users s]) (auto simp: kept_defs intro: U_standing)
  thus "evolves U s (snd (case lockTarget rid actor uid s of Inl e \<Rightarrow> (Inl e, s)
      | Inr _ \<Rightarrow> (Inr (), s\<lparr>ac_users := update_where (\<lambda>u. us_id u = uid \<and> us_restaurant u = rid)
          (\<lambda>u. u\<lparr>us_password := rt_password_hash rt password\<rparr>) (ac_users s)\<rparr>)))"
    by (simp add: stay s split: sum.split)
qed

lemma meets_write_revoked: "meets U (\<lambda>s. snd (write_revoked rid k s))"
proof -
  have "meets U (\<lambda>s. s\<lparr>ac_invitations := update_where (\<lambda>i. iv_id i = k \<and> iv_restaurant_id i = rid) (\<lambda>i. i\<lparr>iv_revoked := True\<rparr>) (ac_invitations s)\<rparr>)"
    by (rule meets_invitations) (simp_all add: invitation_kept_def)
  from meetsD[OF this] show ?thesis by (simp add: meets_def write_revoked_def Let_def stay)
qed

lemma meets_revokeInvitation: "meets U (\<lambda>s. snd (revokeInvitation rid actor k s))"
  using meetsD[OF meets_write_revoked] by (simp add: meets_def revokeInvitation_def stay split: sum.split)

lemma meets_createInvitation: "meets U (\<lambda>s. snd (createInvitation rt rid actor email role token now s))"
proof -
  have "meets U (\<lambda>s. snd (invite_tx rt rid actor email role token now s))"
    unfolding meets_def
  proof (intro allI impI)
    fix s assume s: "accounts_ok s"
    let ?same = "\<lambda>i. iv_restaurant_id i = rid \<and> map lower (iv_email i) = map lower email \<and> open_invitation i"
    let ?t = "s\<lparr>ac_invitations := update_where ?same (\<lambda>i. i\<lparr>iv_revoked := True\<rparr>) (ac_invitations s)\<rparr>"
    let ?i = "\<lparr>iv_id = ac_next s, iv_restaurant_id = rid, iv_email = email, iv_role = role, iv_hash = rt_hash rt token,
      iv_invited_by = at_id actor, iv_expires = now + TTL_DAYS * 86400000, iv_accepted = None, iv_revoked = False\<rparr>"
    have 1: "evolves U s ?t" by (rule meetsD[OF meets_invitations s]) (simp_all add: invitation_kept_def)
    have 2: "evolves U ?t (?t\<lparr>ac_invitations := insert_row ?i (ac_invitations ?t), ac_next := Suc (ac_next s)\<rparr>)"
      if "\<not> list_ex (\<lambda>i. iv_hash i = rt_hash rt token) (ac_invitations ?t)"
    proof -
      have "iv_id ?i \<notin> iv_id ` set (ac_invitations ?t)" "iv_hash ?i \<notin> iv_hash ` set (ac_invitations ?t)"
        using that evolves_ok[OF 1] by (auto simp: accounts_ok_def list_ex_iff)
      thus ?thesis using evolves_ok[OF 1] by (auto simp: evolves_def accounts_ok_def keyed_insert carried_refl U_refl less_Suc_eq
        intro: carried_insert)
    qed
    show "evolves U s (snd (invite_tx rt rid actor email role token now s))"
      using s go[OF 1 2] by (auto simp: invite_tx_def Let_def stay)
  qed
  from meetsD[OF meets_transaction[OF this]] show ?thesis by (simp add: meets_def createInvitation_def stay split: sum.split)
qed

lemma meets_acceptInvitation: "meets U (\<lambda>s. snd (acceptInvitation rt token password name now s))"
  unfolding acceptInvitation_def
proof (rule meets_transaction, unfold meets_def, intro allI impI)
  fix s assume s: "accounts_ok s"
  show "evolves U s (snd (accept_tx rt token password name now s))"
  proof (cases "find_by (usable rt token now) (ac_invitations s)")
    case None thus ?thesis by (simp add: accept_tx_def stay s)
  next
    case (Some i)
    define u where "u = new_user (ac_next s) (iv_restaurant_id i) (iv_email i) (rt_password_hash rt password) (iv_role i)
      (if (case name of None \<Rightarrow> [] | Some n \<Rightarrow> trim n) = [] then None else Some (case name of None \<Rightarrow> [] | Some n \<Rightarrow> trim n))"
    show ?thesis
    proof (cases "insert_user u s")
      case (Inl e) thus ?thesis using Some s by (simp add: accept_tx_def u_def Let_def stay)
    next
      case (Inr s1)
      have 1: "evolves U s s1" by (rule insert_user_evolves[OF s _ Inr]) (simp add: u_def new_user_def)
      have open_i: "open_invitation i" "i \<in> set (ac_invitations s)"
        using find_by_SomeD[OF Some] by (simp_all add: usable_def)
      have inv: "ac_invitations s1 = ac_invitations s" using Inr by (auto simp: insert_user_def split: if_splits)
      let ?s2 = "s1\<lparr>ac_invitations := update_where (\<lambda>x. iv_id x = iv_id i) (\<lambda>x. x\<lparr>iv_accepted := Some (us_id u)\<rparr>) (ac_invitations s1)\<rparr>"
      have only: "iv_accepted x = None" if "x \<in> set (ac_invitations s1)" "iv_id x = iv_id i" for x
        using that open_i s keyed_unique[of iv_id "ac_invitations s" x i] by (simp add: inv accounts_ok_def open_invitation_def)
      have 2: "evolves U s1 ?s2"
        using evolves_ok[OF 1] only open_i
        by (auto simp: evolves_def accounts_ok_def keyed_update carried_refl U_refl set_update_where invitation_kept_def open_invitation_def
            intro!: carried_update)
      have "evolves U s (snd (issueSession rt u now ?s2))"
        by (rule go[OF 1 go[OF 2 meetsD[OF meets_issueSession evolves_ok[OF 2]]]])
      thus ?thesis using Some Inr by (simp add: accept_tx_def u_def Let_def)
    qed
  qed
qed

end

interpretation standing: account_contract same_standing
  by unfold_locales (auto simp: kept_defs)

interpretation identity: account_contract same_identity
  by unfold_locales (auto simp: kept_defs)

text \<open>\<open>updateStaff\<close> writes a role or a standing.\<close>

lemma update_tx_result:
  assumes "update_tx rid actor uid role active s = (Inr (v, previous), s')"
  obtains target where "user_of uid rid s = Some target" "us_id target \<noteq> at_id actor"
    "outranks (at_role actor) (us_role target)" "previous = us_role target"
    "us_role target = OWNER \<and> ((role \<noteq> None \<and> role \<noteq> Some OWNER) \<or> active = Some False) \<Longrightarrow>
       \<exists>u \<in> set (ac_users s). is_owner rid u \<and> us_id u \<noteq> uid"
    "v = target\<lparr>us_role := or_keep role (us_role target), us_active := or_keep active (us_active target)\<rparr>"
    "s' = s\<lparr>ac_users := update_where (\<lambda>u. us_id u = uid \<and> us_restaurant u = rid)
       (\<lambda>u. u\<lparr>us_role := or_keep role (us_role u), us_active := or_keep active (us_active u)\<rparr>) (ac_users s)\<rparr>"
proof -
  obtain target where t: "lockTarget rid actor uid s = Inr target"
    using assms by (auto simp: update_tx_def split: sum.splits)
  have lock: "user_of uid rid s = Some target" "us_id target \<noteq> at_id actor" "outranks (at_role actor) (us_role target)"
    using t by (auto simp: lockTarget_def split: option.splits if_splits)
  have id: "us_id target = uid" using find_by_SomeD[OF lock(1)[unfolded user_of_def]] by simp
  let ?leaving = "us_role target = OWNER \<and> ((role \<noteq> None \<and> role \<noteq> Some OWNER) \<or> active = Some False)"
  have res: "(if ?leaving then assertOwnerRemains rid uid s else Inr ()) = Inr ()"
    using assms unfolding update_tx_def t Let_def sum.case id
    by (cases "if ?leaving then assertOwnerRemains rid uid s else Inr ()") simp_all
  have "\<exists>u \<in> set (ac_users s). is_owner rid u \<and> us_id u \<noteq> uid" if "?leaving"
  proof -
    have "select (\<lambda>u. is_owner rid u \<and> us_id u \<noteq> uid) (ac_users s) \<noteq> []"
      using res that by (auto simp: assertOwnerRemains_def split: if_splits)
    hence "set (select (\<lambda>u. is_owner rid u \<and> us_id u \<noteq> uid) (ac_users s)) \<noteq> {}" by (simp only: set_empty not_False_eq_True)
    thus ?thesis by auto
  qed
  moreover have eqs: "(Inr (target\<lparr>us_role := or_keep role (us_role target), us_active := or_keep active (us_active target)\<rparr>, us_role target),
      s\<lparr>ac_users := update_where (\<lambda>u. us_id u = uid \<and> us_restaurant u = rid)
       (\<lambda>u. u\<lparr>us_role := or_keep role (us_role u), us_active := or_keep active (us_active u)\<rparr>) (ac_users s)\<rparr>)
      = (Inr (v, previous) :: error + user \<times> staff_role, s')"
    using assms unfolding update_tx_def t Let_def sum.case id res .
  ultimately show thesis
    by (intro that[of target]) (use lock eqs[unfolded prod.inject sum.inject] in blast)+
qed

lemma update_tx_evolves:
  assumes "accounts_ok s" "update_tx rid actor uid role active s = (Inr x, s')"
  shows "evolves same_identity s s'"
proof -
  obtain v previous where x: "x = (v, previous)" by (cases x)
  have "meets same_identity (\<lambda>s. s\<lparr>ac_users := update_where (\<lambda>u. us_id u = uid \<and> us_restaurant u = rid)
       (\<lambda>u. u\<lparr>us_role := or_keep role (us_role u), us_active := or_keep active (us_active u)\<rparr>) (ac_users s)\<rparr>)"
    by (rule identity.meets_users) (simp_all add: kept_defs)
  note run = meetsD[OF this assms(1)]
  show ?thesis by (rule update_tx_result[OF assms(2)[unfolded x]]) (simp only: run)
qed

lemma meets_updateStaff: "meets same_identity (\<lambda>s. snd (updateStaff rid actor uid role active now s))"
proof -
  have "meets same_identity (\<lambda>s. snd (withTransaction (update_tx rid actor uid role active) s))"
  proof (unfold meets_def withTransaction_eq, intro allI impI)
    fix s assume s: "accounts_ok s"
    show "evolves same_identity s (snd (case fst (update_tx rid actor uid role active s) of Inl e \<Rightarrow> (Inl e, s)
      | Inr x \<Rightarrow> (Inr x, snd (update_tx rid actor uid role active s))))"
      using update_tx_evolves[OF s, of rid actor uid role active _ "snd (update_tx rid actor uid role active s)"]
      by (cases "fst (update_tx rid actor uid role active s)") (auto simp: identity.stay s prod_eq_iff)
  qed
  moreover have "meets same_identity (\<lambda>s. snd ((case p of (updated, previous) \<Rightarrow>
            if active = Some False \<or> (role \<noteq> None \<and> role \<noteq> Some previous)
            then act_then (revokeAllSessionsForUser uid now) (\<lambda>n. give (updated, n))
            else give (updated, 0)) s))" for p :: "user \<times> staff_role"
    by (cases p) (simp add: identity.meets_give identity.meets_answer identity.meets_revokeAll)
  ultimately have "meets same_identity (\<lambda>s. snd (act_then (withTransaction (update_tx rid actor uid role active))
       (\<lambda>(updated, previous).
            if active = Some False \<or> (role \<noteq> None \<and> role \<noteq> Some previous)
            then act_then (revokeAllSessionsForUser uid now) (\<lambda>n. give (updated, n))
            else give (updated, 0)) s))"
    by (rule identity.meets_act_then)
  from meetsD[OF this] show ?thesis
    by (simp add: meets_def updateStaff_def identity.stay split: sum.split)
qed

end
