(* ===== verification/Account_Books.thy ===== *)
theory Account_Books
  imports Account_Contract
begin

text \<open>
  The properties of signing in and of the staff.  \<open>request_step\<close> is one request to auth.js, mfa.js,
  staff.js or staffInvitations.js, taken to its end whether it answered or threw; the requests of a
  history come in any order, from actors whose tokens say anything, at any instants.
\<close>

section \<open>Requests\<close>

inductive request_step :: "runtime \<Rightarrow> accounts \<Rightarrow> accounts \<Rightarrow> bool" for rt where
  by_login: "request_step rt s (snd (login rt email password now s))"
| by_second_factor: "request_step rt s (snd (completeMfaLogin rt challenge code now s))"
| by_refresh: "request_step rt s (snd (refresh rt token now s))"
| by_logout: "request_step rt s (revokeSession jti now s)"
| by_logout_all: "request_step rt s (snd (revokeAllSessionsForUser uid now s))"
| by_name: "request_step rt s (snd (setOwnDisplayName uid name s))"
| by_password: "request_step rt s (snd (changeOwnPassword rt uid current new now s))"
| by_enrol: "request_step rt s (snd (beginEnrolment rt uid rid secret s))"
| by_confirm: "request_step rt s (snd (confirmEnrolment rt uid rid code random now s))"
| by_disable: "request_step rt s (snd (disable rt uid rid code now s))"
| by_codes: "request_step rt s (snd (regenerateRecoveryCodes rt uid rid code random now s))"
| by_create: "request_step rt s (snd (createStaff rt rid actor email password role s))"
| by_update: "request_step rt s (snd (updateStaff rid actor uid role' active now s))"
| by_reset: "request_step rt s (snd (resetStaffPassword rt rid actor uid password now s))"
| by_invite: "request_step rt s (snd (createInvitation rt rid actor email role token now s))"
| by_withdraw: "request_step rt s (snd (revokeInvitation rid actor k s))"
| by_late_withdraw: "request_step rt s (snd (write_revoked rid k s))"
| by_accept: "request_step rt s (snd (acceptInvitation rt token password name now s))"

text \<open>Any request keeps the invariant and the identities; all but one keep the standing of everybody.\<close>

lemmas quiet_requests =
  standing.meets_login standing.meets_completeMfaLogin standing.meets_refresh standing.meets_revoke
  standing.meets_revokeAll standing.meets_setOwnDisplayName standing.meets_changeOwnPassword
  standing.meets_beginEnrolment standing.meets_confirmEnrolment standing.meets_disable standing.meets_regenerate
  standing.meets_createStaff standing.meets_resetStaffPassword standing.meets_createInvitation
  standing.meets_revokeInvitation standing.meets_write_revoked standing.meets_acceptInvitation

lemma step_cases:
  assumes "request_step rt s s'" "accounts_ok s"
  shows "evolves same_standing s s' \<or> (\<exists>rid actor uid role active now. s' = snd (updateStaff rid actor uid role active now s))"
  using assms
proof cases
  case (by_logout jti now)
  thus ?thesis using assms(2) by (auto simp: revokeSession_def intro: quiet_requests [THEN meetsD])
next
  case (by_update rid actor uid role' active now)
  thus ?thesis by blast
qed (auto intro: quiet_requests [THEN meetsD])

lemma evolves_weaken: "evolves same_standing s s' \<Longrightarrow> evolves same_identity s s'"
  by (auto simp: evolves_def carried_def same_standing_def)

lemma step_evolves: "request_step rt s s' \<Longrightarrow> accounts_ok s \<Longrightarrow> evolves same_identity s s'"
  using step_cases evolves_weaken meetsD[OF meets_updateStaff] by blast

lemma steps_evolve:
  assumes "(request_step rt)\<^sup>*\<^sup>* s s'" "accounts_ok s"
  shows "evolves same_identity s s'"
  using assms
proof (induction rule: rtranclp_induct)
  case base
  thus ?case by (simp add: identity.stay)
next
  case (step t u)
  thus ?case using identity.go step_evolves evolves_ok by blast
qed

section \<open>Owners\<close>

lemma updateStaff_tx:
  obtains "snd (updateStaff rid actor uid role active now s) = s"
  | v previous t where "update_tx rid actor uid role active s = (Inr (v, previous), t)"
      "snd (updateStaff rid actor uid role active now s) =
         (if active = Some False \<or> (role \<noteq> None \<and> role \<noteq> Some previous) then revoke_where (\<lambda>r. se_user r = uid) now t else t)"
proof (cases "fst (update_tx rid actor uid role active s)")
  case (Inl e)
  thus thesis using that(1) by (simp add: updateStaff_def act_then_eq withTransaction_eq split: sum.splits)
next
  case (Inr x)
  obtain v previous where x: "x = (v, previous)" by (cases x)
  obtain t where tx: "update_tx rid actor uid role active s = (Inr (v, previous), t)"
    using Inr x by (cases "update_tx rid actor uid role active s") simp
  show thesis
  proof (cases "case role of None \<Rightarrow> Inr () | Some r \<Rightarrow> assertMayAssign (at_role actor) r")
    case (Inl e)
    show thesis by (rule that(1)) (simp add: updateStaff_def Inl)
  next
    case (Inr y)
    show thesis
      by (rule that(2)[OF tx]) (auto simp: updateStaff_def Inr tx act_then_eq withTransaction_eq revokeAllSessionsForUser_def give_def)
  qed
qed

lemma revoke_where_users [simp]: "ac_users (revoke_where P now s) = ac_users s"
  by (simp add: revoke_where_def)

lemma updateStaff_keeps_owner:
  assumes "accounts_ok s" "\<exists>u \<in> set (ac_users s). is_owner rid u"
  shows "\<exists>u \<in> set (ac_users (snd (updateStaff rid' actor uid role active now s))). is_owner rid u"
proof (cases rule: updateStaff_tx[of rid' actor uid role active now s])
  case 1
  thus ?thesis using assms(2) by simp
next
  case (2 v previous t)
  obtain o1 where o1: "o1 \<in> set (ac_users s)" "is_owner rid o1" using assms(2) by blast
  let ?f = "\<lambda>u. u\<lparr>us_role := or_keep role (us_role u), us_active := or_keep active (us_active u)\<rparr>"
  let ?P = "\<lambda>u. us_id u = uid \<and> us_restaurant u = rid'"
  show ?thesis
  proof (rule update_tx_result[OF 2(1)])
    fix target
    assume target: "user_of uid rid' s = Some target"
      and guard: "us_role target = OWNER \<and> ((role \<noteq> None \<and> role \<noteq> Some OWNER) \<or> active = Some False) \<Longrightarrow>
        \<exists>u \<in> set (ac_users s). is_owner rid' u \<and> us_id u \<noteq> uid"
      and t: "t = s\<lparr>ac_users := update_where ?P ?f (ac_users s)\<rparr>"
    have users: "ac_users (snd (updateStaff rid' actor uid role active now s)) = update_where ?P ?f (ac_users s)"
      using 2(2) t by simp
    have kept: "\<exists>u \<in> set (update_where ?P ?f (ac_users s)). is_owner rid u" if "x \<in> set (ac_users s)" "is_owner rid x" "\<not> ?P x" for x
      using that by (intro bexI[of _ x]) (auto simp: set_update_where image_iff intro!: bexI[of _ x])
    show ?thesis
    proof (cases "?P o1")
      case False thus ?thesis using kept[OF o1] by (simp add: users)
    next
      case True
      have "target = o1"
        using find_by_SomeD[OF target[unfolded user_of_def]] True o1(1) assms(1) keyed_unique[of us_id "ac_users s"]
        by (simp add: accounts_ok_def)
      show ?thesis
      proof (cases "is_owner rid (?f o1)")
        case True
        have "?f o1 \<in> set (update_where ?P ?f (ac_users s))" using o1(1) \<open>?P o1\<close> by (auto simp: set_update_where image_iff)
        thus ?thesis using True by (simp only: users) blast
      next
        case False
        hence "\<exists>u \<in> set (ac_users s). is_owner rid' u \<and> us_id u \<noteq> uid"
          using guard o1(2) \<open>target = o1\<close> by (auto simp: is_owner_def or_keep_def split: option.splits)
        moreover have "rid' = rid" using o1(2) \<open>?P o1\<close> by (simp add: is_owner_def)
        ultimately obtain x where "x \<in> set (ac_users s)" "is_owner rid x" "\<not> ?P x" by blast
        thus ?thesis using kept unfolding users by blast
      qed
    qed
  qed
qed

lemma step_keeps_owner:
  assumes "request_step rt s s'" "accounts_ok s" "\<exists>u \<in> set (ac_users s). is_owner rid u"
  shows "\<exists>u \<in> set (ac_users s'). is_owner rid u"
  using step_cases[OF assms(1,2)]
proof
  assume "evolves same_standing s s'"
  thus ?thesis using assms(3) by (fastforce simp: evolves_def carried_def kept_defs is_owner_def)
next
  assume "\<exists>rid actor uid role active now. s' = snd (updateStaff rid actor uid role active now s)"
  thus ?thesis using updateStaff_keeps_owner[OF assms(2,3)] by blast
qed

text \<open>C22: A restaurant that has an active owner has one after any sequence of requests to the
  sign-in, second-factor, staff and invitation services, whatever the actors' tokens say.\<close>

theorem restaurant_keeps_an_owner:
  assumes "accounts_ok s" "\<exists>u \<in> set (ac_users s). is_owner rid u" "(request_step rt)\<^sup>*\<^sup>* s s'"
  shows "\<exists>u \<in> set (ac_users s'). is_owner rid u"
  using assms(3)
proof (induction rule: rtranclp_induct)
  case base
  show ?case by (rule assms(2))
next
  case (step t u)
  show ?case by (rule step_keeps_owner[OF step(2) evolves_ok[OF steps_evolve[OF step(1) assms(1)]] step(3)])
qed

section \<open>A house to try it on\<close>

text \<open>Two owners and a cashier, who has a second factor; the library parts are readable stand-ins.\<close>

definition plain_runtime :: runtime where
  "plain_runtime = \<lparr>rt_hash = (\<lambda>x. ''#'' @ x), rt_password_ok = (\<lambda>h p. h = p), rt_password_hash = (\<lambda>p. p),
     rt_hmac = (\<lambda>_ _. replicate 20 0), rt_seal = (\<lambda>x. x), rt_open = (\<lambda>x. Inr x),
     rt_sign_refresh = (\<lambda>uid rid role jti. ''r'' @ show_nat jti),
     rt_read_refresh = (\<lambda>t now. Some \<lparr>rf_type = ''refresh'', rf_jti = Some (read_nat (tl t))\<rparr>),
     rt_sign_challenge = (\<lambda>uid now. show_nat uid), rt_read_challenge = (\<lambda>c now. Some (read_nat c)),
     rt_redis_up = True, rt_fail_closed = True, rt_max_failures = 2, rt_window_ms = 900000, rt_refresh_ttl_ms = 1000000\<rparr>"

definition house_user :: "nat \<Rightarrow> string \<Rightarrow> staff_role \<Rightarrow> user" where
  "house_user k email role = new_user k 1 email ''secret'' role None"

definition house :: accounts where
  "house = \<lparr>ac_users = [house_user 1 ''ana'' OWNER, house_user 2 ''bea'' OWNER,
       (house_user 3 ''cai'' CASHIER)\<lparr>us_mfa_secret := Some ''AAAA'', us_mfa_enabled := Some 0, us_mfa_last_step := Some 0\<rparr>],
     ac_sessions = [\<lparr>se_id = 4, se_user = 2, se_restaurant = 1, se_hash = ''#r4'', se_expires = 1000, se_revoked = None\<rparr>,
       \<lparr>se_id = 5, se_user = 2, se_restaurant = 1, se_hash = ''#r5'', se_expires = 1000, se_revoked = Some 7\<rparr>],
     ac_codes = [\<lparr>rv_user = 3, rv_restaurant = 1, rv_hash = ''#ABCD'', rv_used = None\<rparr>],
     ac_invitations = [\<lparr>iv_id = 6, iv_restaurant_id = 1, iv_email = ''dan'', iv_role = WAITER, iv_hash = ''#inv'',
       iv_invited_by = 1, iv_expires = 1000, iv_accepted = None, iv_revoked = False\<rparr>],
     ac_failures = [], ac_next = 7\<rparr>"

lemma house_ok: "accounts_ok house"
  by (simp add: accounts_ok_def keyed_def house_def house_user_def new_user_def)

lemma house_owned: "\<exists>u \<in> set (ac_users house). is_owner 1 u"
  by (simp add: house_def house_user_def new_user_def is_owner_def)

definition removed_owner :: "(error + user \<times> nat) \<times> accounts" where
  "removed_owner = updateStaff 1 \<lparr>at_id = 1, at_role = OWNER\<rparr> 2 (Some WAITER) (Some False) 50 house"

theorem restaurant_keeps_an_owner_witness:
  "(\<exists>u \<in> set (ac_users (snd removed_owner)). is_owner 1 u) \<and> isr (fst removed_owner)"
proof
  have "request_step plain_runtime house (snd removed_owner)"
    unfolding removed_owner_def by (rule by_update)
  thus "\<exists>u \<in> set (ac_users (snd removed_owner)). is_owner 1 u"
    by (intro restaurant_keeps_an_owner[OF house_ok house_owned, of plain_runtime]) simp
  show "isr (fst removed_owner)"
    by code_simp
qed

section \<open>Rank\<close>

lemma revoked_or_not:
  assumes "(Inr (v, n), s') = (if b then act_then (revokeAllSessionsForUser uid now) (\<lambda>n. give (w, n)) t else give (w, 0) t)"
  shows "w = v \<and> s' = (if b then revoke_where (\<lambda>r. se_user r = uid) now t else t)"
  using assms by (cases b) (simp_all add: act_then_eq give_def revokeAllSessionsForUser_def)

lemma updateStaff_success:
  assumes "updateStaff rid actor uid role active now s = (Inr (v, n), s')"
  obtains previous t where "update_tx rid actor uid role active s = (Inr (v, previous), t)"
    "s' = (if active = Some False \<or> (role \<noteq> None \<and> role \<noteq> Some previous) then revoke_where (\<lambda>r. se_user r = uid) now t else t)"
    "(case role of None \<Rightarrow> Inr () | Some r \<Rightarrow> assertMayAssign (at_role actor) r) = Inr ()"
proof (cases "case role of None \<Rightarrow> Inr () | Some r \<Rightarrow> assertMayAssign (at_role actor) r")
  case (Inl e)
  thus thesis using assms by (simp add: updateStaff_def)
next
  case may: (Inr y)
  obtain r t where r: "update_tx rid actor uid role active s = (r, t)" by (cases "update_tx rid actor uid role active s")
  show thesis
  proof (cases r)
    case (Inl e)
    thus thesis using assms by (simp add: updateStaff_def may r act_then_eq withTransaction_eq)
  next
    case (Inr x)
    obtain w previous where x: "x = (w, previous)" by (cases x)
    let ?out = "active = Some False \<or> (role \<noteq> None \<and> role \<noteq> Some previous)"
    have "updateStaff rid actor uid role active now s
        = (if ?out then act_then (revokeAllSessionsForUser uid now) (\<lambda>n. give (w, n)) t else give (w, 0) t)"
      unfolding updateStaff_def may sum.case act_then_eq[of "withTransaction _"] withTransaction_eq r Inr x fst_conv snd_conv prod.case
      by (rule if_distrib [of "\<lambda>f. f t"])
    note both = revoked_or_not[OF assms[symmetric, unfolded this]]
    show thesis
      by (rule that[of previous t]) (use both r Inr x may in simp_all)
  qed
qed

definition live :: "nat \<Rightarrow> refresh_session \<Rightarrow> bool" where
  "live uid r \<longleftrightarrow> se_user r = uid \<and> se_revoked r = None"

lemma live_after_revoke: "\<not> list_ex (live uid) (ac_sessions (revoke_where (\<lambda>r. se_user r = uid) now s))"
proof -
  have "\<not> list_ex (live uid) (update_where (\<lambda>r. se_user r = uid \<and> se_revoked r = None) (\<lambda>r. r\<lparr>se_revoked := Some now\<rparr>) t)" for t
    by (induction t) (auto simp: live_def)
  thus ?thesis by (simp add: revoke_where_def)
qed

text \<open>C23: A change of a person's role or standing that succeeds was made by another person, an
  owner or one of higher rank than the target had and than the target gets; it changes
  nobody else, and when the role changed or the person was deactivated no session of theirs
  is left live.\<close>

theorem staff_change_follows_rank:
  assumes "accounts_ok s" "updateStaff rid actor uid role active now s = (Inr (v, n), s')"
  shows "\<exists>target. user_of uid rid s = Some target \<and> us_id target \<noteq> at_id actor \<and>
     (at_role actor = OWNER \<or> RANK (us_role target) < RANK (at_role actor) \<and> RANK (us_role v) < RANK (at_role actor)) \<and>
     user_of uid rid s' = Some v \<and> {u \<in> set (ac_users s'). us_id u \<noteq> uid} = {u \<in> set (ac_users s). us_id u \<noteq> uid} \<and>
     (us_role v \<noteq> us_role target \<or> active = Some False \<longrightarrow> \<not> list_ex (live uid) (ac_sessions s'))"
proof -
  obtain previous t where tx: "update_tx rid actor uid role active s = (Inr (v, previous), t)"
    and s': "s' = (if active = Some False \<or> (role \<noteq> None \<and> role \<noteq> Some previous) then revoke_where (\<lambda>r. se_user r = uid) now t else t)"
    and may: "(case role of None \<Rightarrow> Inr () | Some r \<Rightarrow> assertMayAssign (at_role actor) r) = Inr ()"
    by (rule updateStaff_success[OF assms(2)])
  show ?thesis
  proof (rule update_tx_result[OF tx])
    fix target
    assume lock: "user_of uid rid s = Some target" "us_id target \<noteq> at_id actor" "outranks (at_role actor) (us_role target)"
      and previous: "previous = us_role target"
      and v: "v = target\<lparr>us_role := or_keep role (us_role target), us_active := or_keep active (us_active target)\<rparr>"
      and t: "t = s\<lparr>ac_users := update_where (\<lambda>u. us_id u = uid \<and> us_restaurant u = rid)
       (\<lambda>u. u\<lparr>us_role := or_keep role (us_role u), us_active := or_keep active (us_active u)\<rparr>) (ac_users s)\<rparr>"
    have rank: "at_role actor = OWNER \<or> RANK (us_role target) < RANK (at_role actor) \<and> RANK (us_role v) < RANK (at_role actor)"
      using lock(3) may by (auto simp: v outranks_def assertMayAssign_def or_keep_def split: option.splits if_splits)
    have users: "ac_users s' = ac_users t" by (simp add: s')
    have "user_of uid rid t = Some v"
      using lock(1) find_by_SomeD[OF lock(1)[unfolded user_of_def]] by (simp add: user_of_def t v find_by_update)
    hence found: "user_of uid rid s' = Some v" by (simp add: user_of_def users)
    have others: "{u \<in> set (ac_users s'). us_id u \<noteq> uid} = {u \<in> set (ac_users s). us_id u \<noteq> uid}"
      by (auto simp: users t set_update_where image_iff)
    have "us_role v \<noteq> us_role target \<or> active = Some False \<longrightarrow> \<not> list_ex (live uid) (ac_sessions s')"
      by (auto simp: s' v previous or_keep_def live_after_revoke split: option.splits)
    thus ?thesis using lock(1,2) rank found others by blast
  qed
qed

theorem staff_change_follows_rank_witness:
  "user_of 2 1 (snd removed_owner) = Some ((house_user 2 ''bea'' WAITER)\<lparr>us_active := False\<rparr>) \<and>
   \<not> list_ex (live 2) (ac_sessions (snd removed_owner)) \<and> list_ex (live 2) (ac_sessions house)"
proof (intro conjI)
  have run: "updateStaff 1 \<lparr>at_id = 1, at_role = OWNER\<rparr> 2 (Some WAITER) (Some False) 50 house
      = (Inr ((house_user 2 ''bea'' WAITER)\<lparr>us_active := False\<rparr>, 1), snd removed_owner)"
    by code_simp
  note rule = staff_change_follows_rank[OF house_ok run]
  show "user_of 2 1 (snd removed_owner) = Some ((house_user 2 ''bea'' WAITER)\<lparr>us_active := False\<rparr>)"
    and "\<not> list_ex (live 2) (ac_sessions (snd removed_owner))"
    using rule by auto
  show "list_ex (live 2) (ac_sessions house)" by code_simp
qed

end
