(* ===== verification/Session_Books.thy ===== *)
theory Session_Books
  imports Account_Books
begin

text \<open>
  Sessions, the second factor, the counter of failed logins and the invitations: what a credential is
  good for, and that it is good for it once.
\<close>

section \<open>Refresh tokens\<close>

definition claimable :: "runtime \<Rightarrow> string \<Rightarrow> int \<Rightarrow> refresh_session \<Rightarrow> bool" where
  "claimable rt token now r \<longleftrightarrow> se_hash r = rt_hash rt token \<and> se_revoked r = None \<and> now < se_expires r"

lemma issueSession_Inr:
  assumes "issueSession rt u now s = (Inr i, s')"
  shows "is_user i = us_id u \<and> is_role i = us_role u \<and> is_restaurant i = us_restaurant u \<and> ac_users s' = ac_users s \<and>
    ac_codes s' = ac_codes s \<and> ac_invitations s' = ac_invitations s \<and> ac_failures s' = ac_failures s \<and>
    ac_sessions s' = insert_row \<lparr>se_id = ac_next s, se_user = us_id u, se_restaurant = us_restaurant u,
      se_hash = rt_hash rt (is_refresh_token i), se_expires = now + rt_refresh_ttl_ms rt, se_revoked = None\<rparr> (ac_sessions s)"
  using assms by (auto simp: issueSession_def Let_def act_then_eq insert_session_def give_def split: if_splits)

lemma refresh_Inr:
  assumes "refresh rt token now s = (Inr i, s')"
  obtains jti r u s1 where "find_by (\<lambda>r. (se_id r = jti \<and> se_hash r = rt_hash rt token) \<and> se_revoked r = None \<and> now < se_expires r) (ac_sessions s) = Some r"
    "s1 = s\<lparr>ac_sessions := update_where (\<lambda>r. (se_id r = jti \<and> se_hash r = rt_hash rt token) \<and> se_revoked r = None \<and> now < se_expires r)
        (\<lambda>x. x\<lparr>se_revoked := Some now\<rparr>) (ac_sessions s)\<rparr>"
    "get_user (se_user r) s = Some u" "us_active u" "issueSession rt u now s1 = (Inr i, s')"
proof -
  obtain jti where "withTransaction (refresh_tx rt token jti now) s = (Inr i, s')"
    using assms by (auto simp: refresh_def split: option.splits if_splits)
  hence tx: "refresh_tx rt token jti now s = (Inr i, s')"
    by (auto simp: withTransaction_def split: prod.splits sum.splits)
  have same: "get_user k (s\<lparr>ac_sessions := t\<rparr>) = get_user k s" for k t by (simp add: get_user_def)
  show thesis
    using tx by (auto simp: refresh_tx_def Let_def same split: option.splits if_splits intro!: that)
qed

lemma select_insert: "select P (insert_row r t) = select P t @ (if P r then [r] else [])"
  by (simp add: select_def insert_row_def)

lemma length_select_spend:
  assumes "keyed se_id t" "find_by P t = Some r" "\<And>x. P x \<Longrightarrow> se_id x = se_id r \<and> se_revoked x = None"
  shows "length (select (live k) t) = length (select (live k) (update_where P (\<lambda>x. x\<lparr>se_revoked := Some now\<rparr>) t)) + (if se_user r = k then 1 else 0)"
  using assms
proof (induction t)
  case Nil thus ?case by (simp add: find_by_def)
next
  case (Cons x t)
  show ?case
  proof (cases "P x")
    case True
    hence x: "x = r" using Cons.prems(2) by (simp add: find_by_def)
    have "\<not> P y" if y: "y \<in> set t" for y
    proof
      assume "P y"
      hence "se_id y = se_id r" using Cons.prems(3) by blast
      thus False using y Cons.prems(1) x by (auto simp: keyed_def image_iff)
    qed
    hence "update_where P (\<lambda>x. x\<lparr>se_revoked := Some now\<rparr>) t = t" by (simp add: update_where_def map_idI)
    thus ?thesis using x True Cons.prems(3)[OF True] by (simp add: select_def live_def)
  next
    case False
    hence "length (select (live k) t) = length (select (live k) (update_where P (\<lambda>x. x\<lparr>se_revoked := Some now\<rparr>) t)) + (if se_user r = k then 1 else 0)"
      using Cons.prems by (intro Cons.IH) (simp_all add: find_by_def keyed_def)
    thus ?thesis using False by (simp add: select_def)
  qed
qed

lemma spent_is_refused:
  assumes "accounts_ok s" "r \<in> set (ac_sessions s)" "se_hash r = rt_hash rt token" "se_revoked r \<noteq> None"
  shows "refresh rt token now s = (Inl unauthorized, s)"
proof -
  have only: "se_revoked x \<noteq> None" if "x \<in> set (ac_sessions s)" "se_hash x = rt_hash rt token" for x
    using that assms keyed_unique[of se_hash "ac_sessions s" x r] by (simp add: accounts_ok_def)
  have "find_by (\<lambda>r. (se_id r = jti \<and> se_hash r = rt_hash rt token) \<and> se_revoked r = None \<and> now < se_expires r) (ac_sessions s) = None" for jti
    using only by (auto simp: find_by_None)
  hence "fst (refresh_tx rt token jti now s) = Inl unauthorized" for jti
    by (simp add: refresh_tx_def Let_def split: option.split)
  thus ?thesis by (simp add: refresh_def withTransaction_eq split: option.split)
qed

text \<open>C24: Refreshing succeeds only with a live, unexpired session of an active user, answers for
  that user with the role in the table, leaves every user with as many live sessions as
  before, and the same token is refused in every later state, whatever happened in between.\<close>

theorem refreshed_token_is_spent:
  assumes "accounts_ok s" "refresh rt token now s = (Inr i, s')" "(request_step rt)\<^sup>*\<^sup>* s' t"
  shows "(\<exists>r u. find_by (claimable rt token now) (ac_sessions s) = Some r \<and> get_user (se_user r) s = Some u \<and> us_active u \<and>
            is_user i = us_id u \<and> is_role i = us_role u) \<and>
     (\<forall>k. length (select (live k) (ac_sessions s')) = length (select (live k) (ac_sessions s))) \<and>
     refresh rt token later t = (Inl unauthorized, t)"
proof (rule refresh_Inr[OF assms(2)])
  fix jti r u s1
  let ?P = "\<lambda>r. (se_id r = jti \<and> se_hash r = rt_hash rt token) \<and> se_revoked r = None \<and> now < se_expires r"
  assume r: "find_by ?P (ac_sessions s) = Some r"
    and s1: "s1 = s\<lparr>ac_sessions := update_where ?P (\<lambda>x. x\<lparr>se_revoked := Some now\<rparr>) (ac_sessions s)\<rparr>"
    and u: "get_user (se_user r) s = Some u" "us_active u" and issued: "issueSession rt u now s1 = (Inr i, s')"
  have sess: "ac_sessions s1 = update_where ?P (\<lambda>x. x\<lparr>se_revoked := Some now\<rparr>) (ac_sessions s)" by (simp add: s1)
  note rD = find_by_SomeD[OF r] and issue = issueSession_Inr[OF issued]
  have found: "find_by (claimable rt token now) (ac_sessions s) = Some r"
    by (rule find_by_keyed[where k = se_hash]) (use assms(1) rD in \<open>simp_all add: accounts_ok_def claimable_def\<close>)
  have owner: "us_id u = se_user r" using u(1) by (auto simp: get_user_def dest: find_by_SomeD)
  have count: "length (select (live k) (ac_sessions s')) = length (select (live k) (ac_sessions s))" for k
  proof -
    have "length (select (live k) (ac_sessions s)) = length (select (live k) (ac_sessions s1)) + (if se_user r = k then 1 else 0)"
      unfolding sess by (rule length_select_spend[OF _ r]) (use assms(1) rD in \<open>auto simp: accounts_ok_def\<close>)
    thus ?thesis using issue owner by (simp add: select_insert live_def)
  qed
  have "r\<lparr>se_revoked := Some now\<rparr> \<in> set (ac_sessions s')"
    using issue rD by (auto simp: s1 set_update_where image_iff)
  moreover have ok': "accounts_ok s'"
    using evolves_ok[OF meetsD[OF standing.meets_refresh assms(1), of rt token now]] assms(2) by simp
  ultimately obtain q where "q \<in> set (ac_sessions t)" "session_kept (r\<lparr>se_revoked := Some now\<rparr>) q" "accounts_ok t"
    using steps_evolve[OF assms(3) ok'] by (auto simp: evolves_def carried_def)
  hence "refresh rt token later t = (Inl unauthorized, t)"
    by (intro spent_is_refused[of t q]) (use rD in \<open>simp_all add: session_kept_def\<close>)
  thus ?thesis using found u owner issue count by auto
qed

definition renewed :: "(error + issued) \<times> accounts" where
  "renewed = refresh plain_runtime ''r4'' 50 house"

theorem refreshed_token_is_spent_witness:
  "isr (fst renewed) \<and> refresh plain_runtime ''r4'' 60 (snd renewed) = (Inl unauthorized, snd renewed)"
proof -
  have run: "isr (fst renewed)" by code_simp
  then obtain i where i: "refresh plain_runtime ''r4'' 50 house = (Inr i, snd renewed)"
    unfolding renewed_def by (auto elim: isr_E simp: prod_eq_iff)
  show ?thesis using run refreshed_token_is_spent[OF house_ok i rtranclp.rtrancl_refl, of 60] by simp
qed

theorem reuse_revokes_nothing:
  assumes "accounts_ok s" "rt_read_refresh rt token now = Some c" "rf_type c = ''refresh''" "rf_jti c = Some (se_id r)"
    "r \<in> set (ac_sessions s)" "se_hash r = rt_hash rt token" "se_revoked r \<noteq> None" "list_ex (live (se_user r)) (ac_sessions s)"
  shows "\<not> list_ex (live (se_user r)) (ac_sessions (snd (refresh_tx rt token (se_id r) now s))) \<and>
     list_ex (live (se_user r)) (ac_sessions (snd (refresh rt token now s)))"
proof
  have only: "x = r" if "x \<in> set (ac_sessions s)" "se_id x = se_id r" for x
    using that assms(1,5) keyed_unique[of se_id "ac_sessions s" x r] by (simp add: accounts_ok_def)
  have unclaimed: "find_by (\<lambda>x. (se_id x = se_id r \<and> se_hash x = rt_hash rt token) \<and> se_revoked x = None \<and> now < se_expires x) (ac_sessions s) = None"
    using only assms(7) by (auto simp: find_by_None)
  have named: "find_by (\<lambda>x. se_id x = se_id r \<and> se_hash x = rt_hash rt token) (ac_sessions s) = Some r"
    by (rule find_by_keyed[where k = se_id]) (use assms in \<open>simp_all add: accounts_ok_def\<close>)
  have "refresh_tx rt token (se_id r) now s = (Inl unauthorized, revoke_where (\<lambda>x. se_user x = se_user r) now s)"
    unfolding refresh_tx_def Let_def unclaimed named using assms(7) by (cases "se_revoked r") simp_all
  thus "\<not> list_ex (live (se_user r)) (ac_sessions (snd (refresh_tx rt token (se_id r) now s)))"
    by (simp add: live_after_revoke)
  show "list_ex (live (se_user r)) (ac_sessions (snd (refresh rt token now s)))"
    using spent_is_refused[OF assms(1,5,6,7)] assms(8) by simp
qed

theorem reuse_revokes_nothing_witness:
  "list_ex (live 2) (ac_sessions (snd (refresh plain_runtime ''r5'' 50 house)))"
proof -
  let ?r = "\<lparr>se_id = 5, se_user = 2, se_restaurant = 1, se_hash = ''#r5'', se_expires = 1000, se_revoked = Some 7\<rparr>"
  have "rt_read_refresh plain_runtime ''r5'' 50 = Some \<lparr>rf_type = ''refresh'', rf_jti = Some (se_id ?r)\<rparr>"
    by code_simp
  from reuse_revokes_nothing[OF house_ok this, of ?r] show ?thesis
    by (simp add: house_def plain_runtime_def live_def)
qed

section \<open>The second factor\<close>

lemma consume_Inr:
  assumes "consume rt u code now s = (Inr (Some v), s')"
  shows "(\<exists>secret step. open_secret rt u = Inr secret \<and>
           verify_code (rt_hmac rt) secret code now DEFAULT_WINDOW (us_mfa_last_step u) = Some step \<and>
           s' = put_user (us_id u) (\<lambda>x. x\<lparr>us_mfa_last_step := Some step\<rparr>) s) \<or>
         (\<exists>c \<in> set (ac_codes s). rv_user c = us_id u \<and> rv_hash c = rt_hash rt (normaliseRecoveryCode code) \<and> rv_used c = None \<and>
           c\<lparr>rv_used := Some now\<rparr> \<in> set (ac_codes s') \<and> ac_users s' = ac_users s)"
proof -
  let ?spent = "\<lambda>c. rv_user c = us_id u \<and> rv_hash c = rt_hash rt (normaliseRecoveryCode code) \<and> rv_used c = None"
  obtain secret where secret: "open_secret rt u = Inr secret"
    using assms by (auto simp: consume_def split: sum.splits)
  show ?thesis
  proof (cases "verify_code (rt_hmac rt) secret code now DEFAULT_WINDOW (us_mfa_last_step u)")
    case (Some step)
    thus ?thesis using assms secret by (simp add: consume_def)
  next
    case None
    hence "list_ex ?spent (ac_codes s)"
      and s': "s' = s\<lparr>ac_codes := update_where ?spent (\<lambda>c. c\<lparr>rv_used := Some now\<rparr>) (ac_codes s)\<rparr>"
      using assms secret by (simp_all add: consume_def Let_def split: if_splits)
    then obtain c where c: "c \<in> set (ac_codes s)" "?spent c" by (auto simp: list_ex_iff)
    have "c\<lparr>rv_used := Some now\<rparr> \<in> set (ac_codes s')"
      using c by (auto simp: s' set_update_where image_iff intro!: bexI[of _ c])
    thus ?thesis using c s' by auto
  qed
qed

text \<open>C25: Completing a challenge opens a session only for the active user it names, whose factor
  is on, and it spends what was typed: either a time code of a step later than the last one
  used, which becomes the last one, or an unused recovery code, which is marked used.\<close>

theorem second_factor_is_spent:
  assumes "completeMfaLogin rt challenge code now s = (Inr i, s')"
  shows "\<exists>u. rt_read_challenge rt challenge now = Some (us_id u) \<and> get_user (us_id u) s = Some u \<and> us_active u \<and>
     us_mfa_enabled u \<noteq> None \<and> is_user i = us_id u \<and> is_role i = us_role u \<and>
     ((\<exists>secret step. open_secret rt u = Inr secret \<and>
         verify_code (rt_hmac rt) secret code now DEFAULT_WINDOW (us_mfa_last_step u) = Some step \<and>
         (\<forall>last. us_mfa_last_step u = Some last \<longrightarrow> last < step) \<and>
         get_user (us_id u) s' = Some (u\<lparr>us_mfa_last_step := Some step\<rparr>)) \<or>
      (\<exists>c \<in> set (ac_codes s). rv_user c = us_id u \<and> rv_hash c = rt_hash rt (normaliseRecoveryCode code) \<and> rv_used c = None \<and>
         c\<lparr>rv_used := Some now\<rparr> \<in> set (ac_codes s')))"
proof -
  obtain uid v s1 where uid: "rt_read_challenge rt challenge now = Some uid"
    and tx: "mfa_login_tx rt uid code now s = (Inr (Some (i, v)), s1)" and s': "s' = clearFailures rt (show_nat uid) s1"
    using assms
    by (auto simp: completeMfaLogin_def act_then_def withTransaction_def assertNotThrottled_def
        split: option.splits prod.splits sum.splits if_splits)
  obtain u s2 where u: "get_user uid s = Some u" "us_active u" "us_mfa_enabled u \<noteq> None"
    and spent: "consume rt u code now s = (Inr (Some v), s2)" and issued: "issueSession rt u now s2 = (Inr i, s1)"
    using tx by (auto simp: mfa_login_tx_def act_then_def give_def split: option.splits prod.splits sum.splits if_splits)
  have id: "us_id u = uid" using u(1) by (auto simp: get_user_def dest: find_by_SomeD)
  note issue = issueSession_Inr[OF issued]
  have users: "get_user uid s' = get_user uid s2" and codes: "ac_codes s' = ac_codes s2"
    using issue by (simp_all add: s' clearFailures_def get_user_def)
  have new_step: "get_user uid (put_user uid (\<lambda>x. x\<lparr>us_mfa_last_step := Some step\<rparr>) s) = Some (u\<lparr>us_mfa_last_step := Some step\<rparr>)" for step
    using u(1) id by (simp add: get_user_def put_user_def find_by_update)
  show ?thesis
    using consume_Inr[OF spent]
  proof (elim disjE exE conjE)
    fix secret step
    assume a: "open_secret rt u = Inr secret"
      "verify_code (rt_hmac rt) secret code now DEFAULT_WINDOW (us_mfa_last_step u) = Some step"
      "s2 = put_user (us_id u) (\<lambda>x. x\<lparr>us_mfa_last_step := Some step\<rparr>) s"
    have "\<forall>last. us_mfa_last_step u = Some last \<longrightarrow> last < step"
      using verify_SomeD[OF a(2)] by auto
    thus ?thesis using uid u a id issue users new_step by (intro exI[of _ u]) auto
  next
    assume "\<exists>c \<in> set (ac_codes s). rv_user c = us_id u \<and> rv_hash c = rt_hash rt (normaliseRecoveryCode code) \<and> rv_used c = None \<and>
           c\<lparr>rv_used := Some now\<rparr> \<in> set (ac_codes s2) \<and> ac_users s2 = ac_users s"
    thus ?thesis using uid u id issue codes by (intro exI[of _ u]) auto
  qed
qed

definition by_code :: "(error + issued) \<times> accounts" where
  "by_code = completeMfaLogin plain_runtime ''3'' ''ab-cd'' 50 house"

theorem second_factor_is_spent_witness:
  "\<exists>i u. fst by_code = Inr i \<and> is_user i = us_id u \<and> get_user (us_id u) house = Some u \<and> us_mfa_enabled u \<noteq> None"
proof -
  have "isr (fst by_code)" by code_simp
  then obtain i where i: "fst by_code = Inr i" by (rule isr_E)
  hence "completeMfaLogin plain_runtime ''3'' ''ab-cd'' 50 house = (Inr i, snd by_code)"
    by (simp add: by_code_def prod_eq_iff)
  from second_factor_is_spent[OF this] i show ?thesis by blast
qed

theorem password_alone_opens_no_session:
  assumes "user_by_email email s = Some u" "us_mfa_enabled u \<noteq> None"
  shows "ac_sessions (snd (login rt email password now s)) = ac_sessions s \<and> fst (login rt email password now s) \<noteq> Inr (Session i) \<and>
     (fst (login rt email password now s) = Inr (Challenge c) \<longrightarrow>
        us_active u \<and> rt_password_ok rt (us_password u) password \<and> c = rt_sign_challenge rt (us_id u) now)"
  using assms
  by (auto simp: login_def act_then_eq assertNotThrottled_def recordFailure_def clearFailures_def set_failures_def Let_def)

theorem password_alone_opens_no_session_witness:
  "ac_sessions (snd (login plain_runtime ''cai'' ''secret'' 50 house)) = ac_sessions house"
proof -
  have "user_by_email ''cai'' house = Some ((house_user 3 ''cai'' CASHIER)\<lparr>us_mfa_secret := Some ''AAAA'', us_mfa_enabled := Some 0, us_mfa_last_step := Some 0\<rparr>)"
    by code_simp
  from password_alone_opens_no_session[OF this] show ?thesis by simp
qed

section \<open>The counter of failed logins\<close>

text \<open>Failing attempts at one address, each with its password and its instant.\<close>

definition attempts :: "runtime \<Rightarrow> string \<Rightarrow> (string \<times> int) list \<Rightarrow> accounts \<Rightarrow> accounts" where
  "attempts rt email ps s = fold (\<lambda>(p, at) s. snd (login rt email p at s)) ps s"

definition wrong_password :: "runtime \<Rightarrow> string \<Rightarrow> string \<Rightarrow> accounts \<Rightarrow> bool" where
  "wrong_password rt email p s \<longleftrightarrow>
     (\<forall>u. user_by_email email s = Some u \<longrightarrow> \<not> us_active u \<or> \<not> rt_password_ok rt (us_password u) p)"

text \<open>The counters of one address: none, or one with a count and an expiry.\<close>

definition counter :: "runtime \<Rightarrow> string \<Rightarrow> accounts \<Rightarrow> failures list" where
  "counter rt email s = select (\<lambda>f. fa_key f = keyFor rt email) (ac_failures s)"

lemma failure_count_counter:
  "failure_count (keyFor rt email) now s = 
     (case find_by (\<lambda>f. now < fa_until f) (counter rt email s) of None \<Rightarrow> 0 | Some f \<Rightarrow> fa_count f)"
proof -
  have "find_by (\<lambda>f. fa_key f = k \<and> now < fa_until f) t = find_by (\<lambda>f. now < fa_until f) (select (\<lambda>f. fa_key f = k) t)"
    for k and t :: "failures table"
    by (induction t) (auto simp: find_by_def select_def)
  thus ?thesis by (simp add: failure_count_def counter_def)
qed

lemma failed_login:
  assumes "rt_redis_up rt" "wrong_password rt email p s"
  shows "snd (login rt email p at s) = (if failure_count (keyFor rt email) at s \<ge> rt_max_failures rt then s
     else set_failures (keyFor rt email) (failure_count (keyFor rt email) at s + 1) (at + rt_window_ms rt) s)"
  using assms
  by (cases "user_by_email email s")
    (auto simp: login_def act_then_eq assertNotThrottled_def recordFailure_def Let_def wrong_password_def)

lemma counter_set [simp]:
  "counter rt email (set_failures (keyFor rt email) n until s) = [\<lparr>fa_key = keyFor rt email, fa_count = n, fa_until = until\<rparr>]"
  by (simp add: counter_def set_failures_def select_def insert_row_def delete_where_def)

lemma wrong_password_set [simp]: "wrong_password rt email p (set_failures k n until s) = wrong_password rt email p s"
  by (simp add: wrong_password_def user_by_email_def set_failures_def)

text \<open>After some failing attempts, all within one window of \<open>now\<close>, the counter has counted them up to the
  limit, and expires when the window of one of them does.\<close>

lemma attempts_counted:
  assumes "rt_redis_up rt" "counter rt email s = [] \<or> (\<exists>f. counter rt email s = [f] \<and> now < fa_until f \<and> fa_until f \<le> stop)"
    "\<forall>(p, at) \<in> set ps. wrong_password rt email p s \<and> at \<le> now \<and> now < at + rt_window_ms rt \<and> at + rt_window_ms rt \<le> stop"
  shows "failure_count (keyFor rt email) now (attempts rt email ps s) \<ge> min (rt_max_failures rt) (failure_count (keyFor rt email) now s + length ps) \<and>
     (\<forall>f \<in> set (counter rt email (attempts rt email ps s)). fa_until f \<le> stop)"
  using assms(2,3)
proof (induction ps arbitrary: s)
  case Nil
  thus ?case by (auto simp: attempts_def)
next
  case (Cons q ps)
  obtain p at where q: "q = (p, at)" by (cases q)
  have at: "wrong_password rt email p s" "at \<le> now" "now < at + rt_window_ms rt" "at + rt_window_ms rt \<le> stop"
    using Cons.prems(2) by (simp_all add: q)
  have count: "failure_count (keyFor rt email) at s = failure_count (keyFor rt email) now s"
    using Cons.prems(1) at(2) by (auto simp: failure_count_counter find_by_def)
  let ?s = "snd (login rt email p at s)"
  have step: "attempts rt email (q # ps) s = attempts rt email ps ?s" by (simp add: attempts_def q)
  have IH: "failure_count (keyFor rt email) now (attempts rt email ps ?s) \<ge> min (rt_max_failures rt) (failure_count (keyFor rt email) now ?s + length ps) \<and>
     (\<forall>f \<in> set (counter rt email (attempts rt email ps ?s)). fa_until f \<le> stop)"
    by (rule Cons.IH) (use Cons.prems at in \<open>auto simp: failed_login[OF assms(1) at(1)]\<close>)
  have "failure_count (keyFor rt email) now ?s \<ge> min (rt_max_failures rt) (failure_count (keyFor rt email) now s + 1)"
    using at count by (auto simp: failed_login[OF assms(1) at(1)] failure_count_counter[of rt email now "set_failures _ _ _ _"] find_by_def)
  thus ?case using IH unfolding step by auto
qed



section \<open>Invitations\<close>

lemma closed_invitation_is_refused:
  assumes "accounts_ok s" "v \<in> set (ac_invitations s)" "iv_hash v = rt_hash rt token" "iv_accepted v \<noteq> None \<or> iv_revoked v"
  shows "acceptInvitation rt token password name now s = (Inl (Account_E Invitation_Invalid), s)"
proof -
  have "\<not> open_invitation x" if "x \<in> set (ac_invitations s)" "iv_hash x = rt_hash rt token" for x
    using that assms keyed_unique[of iv_hash "ac_invitations s" x v] by (auto simp: accounts_ok_def open_invitation_def)
  hence "find_by (usable rt token now) (ac_invitations s) = None" by (auto simp: find_by_None usable_def)
  thus ?thesis by (simp add: acceptInvitation_def accept_tx_def withTransaction_def)
qed

lemma accept_Inr:
  assumes "acceptInvitation rt token password name now s = (Inr i, s')"
  obtains v u s1 s2 where "find_by (usable rt token now) (ac_invitations s) = Some v"
    "us_id u = ac_next s" "us_restaurant u = iv_restaurant_id v" "us_email u = iv_email v" "us_role u = iv_role v" "us_active u"
    "insert_user u s = Inr s1"
    "s2 = s1\<lparr>ac_invitations := update_where (\<lambda>x. iv_id x = iv_id v) (\<lambda>x. x\<lparr>iv_accepted := Some (us_id u)\<rparr>) (ac_invitations s1)\<rparr>"
    "issueSession rt u now s2 = (Inr i, s')"
proof -
  have tx: "accept_tx rt token password name now s = (Inr i, s')"
    using assms by (auto simp: acceptInvitation_def withTransaction_def split: prod.splits sum.splits)
  then obtain v where v: "find_by (usable rt token now) (ac_invitations s) = Some v"
    by (auto simp: accept_tx_def split: option.splits)
  define trimmed where "trimmed = (case name of None \<Rightarrow> [] | Some n \<Rightarrow> trim n)"
  define u where "u = new_user (ac_next s) (iv_restaurant_id v) (iv_email v) (rt_password_hash rt password) (iv_role v)
      (if trimmed = [] then None else Some trimmed)"
  have run: "accept_tx rt token password name now s = (case insert_user u s of
      Inl e \<Rightarrow> (Inl (if unique_violation e then Account_E Invitation_Email_In_Use else e), s)
    | Inr s1 \<Rightarrow> issueSession rt u now (s1\<lparr>ac_invitations :=
        update_where (\<lambda>x. iv_id x = iv_id v) (\<lambda>x. x\<lparr>iv_accepted := Some (us_id u)\<rparr>) (ac_invitations s1)\<rparr>))"
    unfolding accept_tx_def v u_def trimmed_def Let_def option.case by (rule refl)
  then obtain s1 where s1: "insert_user u s = Inr s1" using tx by (cases "insert_user u s") simp_all
  show thesis
    by (rule that[OF v _ _ _ _ _ s1 refl]) (use tx run s1 in \<open>simp_all add: u_def new_user_def\<close>)
qed

theorem invitation_accepted_once:
  assumes "accounts_ok s" "acceptInvitation rt token password name now s = (Inr i, s')" "(request_step rt)\<^sup>*\<^sup>* s' t"
  shows "(\<exists>v u. find_by (usable rt token now) (ac_invitations s) = Some v \<and> get_user (is_user i) s = None \<and>
            get_user (is_user i) s' = Some u \<and> us_restaurant u = iv_restaurant_id v \<and> us_email u = iv_email v \<and>
            us_role u = iv_role v \<and> us_active u) \<and>
     acceptInvitation rt token password' name' later t = (Inl (Account_E Invitation_Invalid), t)"
proof (rule accept_Inr[OF assms(2)])
  fix v u s1 s2
  assume v: "find_by (usable rt token now) (ac_invitations s) = Some v"
    and u: "us_id u = ac_next s" "us_restaurant u = iv_restaurant_id v" "us_email u = iv_email v" "us_role u = iv_role v" "us_active u"
    and s1: "insert_user u s = Inr s1"
    and s2: "s2 = s1\<lparr>ac_invitations := update_where (\<lambda>x. iv_id x = iv_id v) (\<lambda>x. x\<lparr>iv_accepted := Some (us_id u)\<rparr>) (ac_invitations s1)\<rparr>"
    and issued: "issueSession rt u now s2 = (Inr i, s')"
  note issue = issueSession_Inr[OF issued] and vD = find_by_SomeD[OF v]
  have s1_eq: "s1 = s\<lparr>ac_users := insert_row u (ac_users s), ac_next := Suc (us_id u)\<rparr>"
    using s1 by (simp add: insert_user_def split: if_splits)
  have fresh: "get_user (ac_next s) s = None"
    using assms(1) by (auto simp: get_user_def find_by_None accounts_ok_def)
  hence made: "get_user (is_user i) s' = Some u" "get_user (is_user i) s = None"
    using issue u(1) by (simp_all add: get_user_def s2 s1_eq find_by_insert)
  have "v\<lparr>iv_accepted := Some (us_id u)\<rparr> \<in> set (ac_invitations s')"
    using issue vD by (auto simp: s2 s1_eq set_update_where image_iff intro!: bexI[of _ v])
  moreover have ok': "accounts_ok s'"
    using evolves_ok[OF meetsD[OF standing.meets_acceptInvitation assms(1), of rt token password name now]] assms(2) by simp
  ultimately obtain w where "w \<in> set (ac_invitations t)" "invitation_kept (v\<lparr>iv_accepted := Some (us_id u)\<rparr>) w" "accounts_ok t"
    using steps_evolve[OF assms(3) ok'] by (auto simp: evolves_def carried_def)
  hence "acceptInvitation rt token password' name' later t = (Inl (Account_E Invitation_Invalid), t)"
    by (intro closed_invitation_is_refused[of t w]) (use vD in \<open>simp_all add: invitation_kept_def usable_def\<close>)
  thus ?thesis using v u made by blast
qed

definition joined :: "(error + issued) \<times> accounts" where
  "joined = acceptInvitation plain_runtime ''inv'' ''pw'' (Some '' Dan '') 50 house"

theorem invitation_accepted_once_witness:
  "isr (fst joined) \<and>
   acceptInvitation plain_runtime ''inv'' ''other'' None 60 (snd joined) = (Inl (Account_E Invitation_Invalid), snd joined)"
proof -
  have run: "isr (fst joined)" by code_simp
  then obtain i where "acceptInvitation plain_runtime ''inv'' ''pw'' (Some '' Dan '') 50 house = (Inr i, snd joined)"
    unfolding joined_def by (auto elim: isr_E simp: prod_eq_iff)
  from invitation_accepted_once[OF house_ok this rtranclp.rtrancl_refl, of "''other''" None 60] run show ?thesis by simp
qed

section \<open>The tables\<close>

theorem accounts_stay_well_formed:
  assumes "accounts_ok s" "(request_step rt)\<^sup>*\<^sup>* s t"
  shows "accounts_ok t \<and> carried same_identity (ac_users s) (ac_users t) \<and>
     carried session_kept (ac_sessions s) (ac_sessions t) \<and> carried invitation_kept (ac_invitations s) (ac_invitations t)"
  using steps_evolve[OF assms(2,1)] by (simp add: evolves_def)

theorem accounts_stay_well_formed_witness:
  "accounts_ok (snd joined) \<and> carried session_kept (ac_sessions house) (ac_sessions (snd joined))"
proof -
  have "request_step plain_runtime house (snd joined)" unfolding joined_def by (rule by_accept)
  from accounts_stay_well_formed[OF house_ok r_into_rtranclp[of "request_step plain_runtime", OF this]] show ?thesis by simp
qed

end
