(* ===== verification/Tips.thy ===== *)
theory Tips
  imports Settlement
begin

text \<open>
  What the restaurant owes its staff: services/tips.js.  The reports are driven from the rows of
  \<open>payment_transitions\<close> that reached SUCCEEDED inside a half-open window, joined with the payment and
  with its bill.  The instant of a transition row is a column the database writes; here it is
  \<open>at i\<close> for the \<open>i\<close>-th row.  The e-mail of a server, the name of a table and the dates a report
  repeats are not carried.
\<close>

section \<open>Definitions\<close>

definition IN_TILL_METHODS :: "payment_method set" where "IN_TILL_METHODS = {CASH}"

definition OWED_METHODS :: "payment_method set" where "OWED_METHODS = {payment_method.CARD, TRANSFER, PAGO_MOVIL, C2P}"

definition rateBps :: "int \<Rightarrow> int \<Rightarrow> int option" where
  "rateBps tips billed = (if billed \<le> 0 then None else Some ((tips * 10000) div billed))"

text \<open>The rows of a window: the join of the transitions with their payments.\<close>

definition settled_in :: "(nat \<Rightarrow> int) \<Rightarrow> nat \<Rightarrow> int \<Rightarrow> int \<Rightarrow> store \<Rightarrow> payment list" where
  "settled_in at rid from until st =
     concat (map (\<lambda>(i, t). filter (\<lambda>p. pay_id p = tr_payment t \<and> pay_restaurant p = tr_restaurant t \<and> pay_status p = Succeeded) (payments st))
       (filter (\<lambda>(i, t). tr_restaurant t = rid \<and> tr_to t = Succeeded \<and> from \<le> at i \<and> at i < until)
         (List.enumerate 0 (transitions st))))"

definition tipped_in :: "(nat \<Rightarrow> int) \<Rightarrow> nat \<Rightarrow> int \<Rightarrow> int \<Rightarrow> store \<Rightarrow> payment list" where
  "tipped_in at rid from until st = filter (\<lambda>p. 0 < tip_ves p) (settled_in at rid from until st)"

text \<open>With the bill of each payment.\<close>

definition with_bill :: "store \<Rightarrow> payment list \<Rightarrow> (payment \<times> bill) list" where
  "with_bill st ps = concat (map (\<lambda>p. map (\<lambda>b. (p, b))
     (filter (\<lambda>b. bill_id b = pay_bill p \<and> bill_restaurant b = pay_restaurant p) (bills st))) ps)"

text \<open>GROUP BY, and the sums every report takes of a group.\<close>

definition groups :: "('r \<Rightarrow> 'k) \<Rightarrow> 'r list \<Rightarrow> ('k \<times> 'r list) list" where
  "groups key rows = map (\<lambda>k. (k, filter (\<lambda>r. key r = k) rows)) (remdups (map key rows))"

definition tips_of :: "payment list \<Rightarrow> int" where "tips_of ps = sum_list (map tip_ves ps)"

definition billed_of :: "payment list \<Rightarrow> int" where "billed_of ps = sum_list (map amount_ves ps)"

record tip_line =
  tl_payments :: nat
  tl_tips_ves :: int
  tl_billed_ves :: int
  tl_rate_bps :: "int option"

definition line_for :: "payment list \<Rightarrow> tip_line" where
  "line_for ps = \<lparr>tl_payments = length ps, tl_tips_ves = tips_of ps, tl_billed_ves = billed_of ps,
     tl_rate_bps = rateBps (tips_of ps) (billed_of ps)\<rparr>"

definition tipsByServer :: "(nat \<Rightarrow> int) \<Rightarrow> nat \<Rightarrow> int \<Rightarrow> int \<Rightarrow> store \<Rightarrow> (nat option \<times> tip_line) list" where
  "tipsByServer at rid from until st =
     sort_key (\<lambda>l. - tl_tips_ves (snd l))
       (map (\<lambda>(k, rows). (k, line_for (map fst rows)))
         (groups (\<lambda>(p, b). served_by b) (with_bill st (tipped_in at rid from until st))))"

record unassigned_bill =
  ub_bill :: nat
  ub_table :: nat
  ub_status :: bill_status
  ub_line :: tip_line

definition unassignedBills :: "(nat \<Rightarrow> int) \<Rightarrow> nat \<Rightarrow> int \<Rightarrow> int \<Rightarrow> nat \<Rightarrow> store \<Rightarrow> unassigned_bill list" where
  "unassignedBills at rid from until limit st =
     take limit (sort_key (\<lambda>u. - tl_tips_ves (ub_line u))
       (map (\<lambda>(k, rows). \<lparr>ub_bill = fst k, ub_table = fst (snd k), ub_status = snd (snd k), ub_line = line_for (map fst rows)\<rparr>)
         (groups (\<lambda>(p, b). (bill_id b, bill_table b, bill_state b))
           (filter (\<lambda>(p, b). served_by b = None) (with_bill st (tipped_in at rid from until st))))))"

text \<open>One's own tips: every settled payment of one's bills counts, tipped or not.\<close>

definition tipsForServer :: "(nat \<Rightarrow> int) \<Rightarrow> nat \<Rightarrow> nat \<Rightarrow> int \<Rightarrow> int \<Rightarrow> store \<Rightarrow> tip_line \<times> nat" where
  "tipsForServer at rid uid from until st =
     (let ps = map fst (filter (\<lambda>(p, b). served_by b = Some uid) (with_bill st (settled_in at rid from until st)))
      in (line_for ps, card (set (map pay_bill ps))))"

fun method_name :: "payment_method \<Rightarrow> nat" where
  "method_name C2P = 0" | "method_name payment_method.CARD = 1" | "method_name CASH = 2" | "method_name OTHER_METHOD = 3"
| "method_name PAGO_MOVIL = 4" | "method_name SPLITE = 5" | "method_name TRANSFER = 6"

record tips_report =
  rp_total_ves :: int
  rp_billed_ves :: int
  rp_rate_bps :: "int option"
  rp_by_server :: "(nat option \<times> tip_line) list"
  rp_unassigned :: "unassigned_bill list"
  rp_in_till_ves :: int
  rp_owed_ves :: int
  rp_unclassified_ves :: int
  rp_by_method :: "(payment_method \<times> tip_line) list"

text \<open>The loop over the rows per method, which are read in the order of the method's name.\<close>

definition tips_where :: "(payment_method \<Rightarrow> bool) \<Rightarrow> (payment_method \<times> tip_line) list \<Rightarrow> int" where
  "tips_where P rows = sum_list (map (\<lambda>(m, l). if P m then tl_tips_ves l else 0) rows)"

definition tipsReport :: "(nat \<Rightarrow> int) \<Rightarrow> nat \<Rightarrow> int \<Rightarrow> int \<Rightarrow> store \<Rightarrow> tips_report" where
  "tipsReport at rid from until st =
     (let rows = map (\<lambda>(m, ps). (m, line_for ps))
                   (sort_key (\<lambda>g. method_name (fst g)) (groups pay_method (tipped_in at rid from until st)));
          total = tips_where (\<lambda>m. True) rows;
          billed = sum_list (map (\<lambda>(m, l). tl_billed_ves l) rows);
          byServer = tipsByServer at rid from until st
      in \<lparr>rp_total_ves = total, rp_billed_ves = billed, rp_rate_bps = rateBps total billed, rp_by_server = byServer,
          rp_unassigned = (if list_ex (\<lambda>(u, l). u = None) byServer then unassignedBills at rid from until 50 st else []),
          rp_in_till_ves = tips_where (\<lambda>m. m \<in> IN_TILL_METHODS) rows,
          rp_owed_ves = tips_where (\<lambda>m. m \<notin> IN_TILL_METHODS \<and> m \<in> OWED_METHODS) rows,
          rp_unclassified_ves = tips_where (\<lambda>m. m \<notin> IN_TILL_METHODS \<and> m \<notin> OWED_METHODS) rows,
          rp_by_method = rows\<rparr>)"

definition tipsForBill :: "nat \<Rightarrow> nat \<Rightarrow> store \<Rightarrow> int" where
  "tipsForBill rid bid st =
     sum_over (\<lambda>p. pay_restaurant p = rid \<and> pay_bill p = bid \<and> pay_status p = Succeeded) tip_ves (payments st)"

section \<open>Groups\<close>

lemma sum_groups:
  fixes g :: "'r \<Rightarrow> int"
  shows "sum_list (map (\<lambda>(k, rows). sum_list (map g rows)) (groups key xs)) = sum_list (map g xs)"
proof -
  have "(\<Sum>k\<leftarrow>ks. sum_list (map g (filter (\<lambda>r. key r = k) xs))) = sum_list (map g (filter (\<lambda>r. key r \<in> set ks) xs))"
    if "distinct ks" for ks
    using that
  proof (induction ks)
    case (Cons k ks)
    have "sum_list (map g (filter (\<lambda>r. key r \<in> set (k # ks)) xs))
        = sum_list (map g (filter (\<lambda>r. key r = k) xs)) + sum_list (map g (filter (\<lambda>r. key r \<in> set ks) xs))"
      using Cons.prems by (induction xs) auto
    thus ?case using Cons by simp
  qed simp
  note all = this[of "remdups (map key xs)"]
  have "filter (\<lambda>r. key r \<in> set (remdups (map key xs))) xs = xs" by (rule filter_True) simp
  thus ?thesis using all by (simp add: groups_def o_def split_def)
qed

lemma sum_sorted:
  fixes h :: "'a \<Rightarrow> int"
  shows "sum_list (map h (sort_key f xs)) = sum_list (map h xs)"
  by (metis mset_map mset_sort sum_mset_sum_list)

lemma tips_where_lines: "tips_where P (map (\<lambda>(k, ps). (k, line_for ps)) gs) = sum_list (map (\<lambda>(k, ps). if P k then tips_of ps else 0) gs)"
  by (induction gs) (auto simp: tips_where_def line_for_def)

lemma report_by_method:
  "tips_where P (rp_by_method (tipsReport at rid from until st))
     = sum_list (map (\<lambda>p. if P (pay_method p) then tip_ves p else 0) (tipped_in at rid from until st))"
proof -
  let ?xs = "tipped_in at rid from until st"
  have "tips_where P (rp_by_method (tipsReport at rid from until st))
      = sum_list (map (\<lambda>(k, ps). if P k then tips_of ps else 0) (groups pay_method ?xs))"
    by (simp add: tipsReport_def Let_def tips_where_lines sum_sorted)
  also have "\<dots> = sum_list (map (\<lambda>(k, ps). sum_list (map (\<lambda>p. if P (pay_method p) then tip_ves p else 0) ps)) (groups pay_method ?xs))"
  proof (intro arg_cong[of _ _ sum_list] map_cong refl)
    fix g assume "g \<in> set (groups pay_method ?xs)"
    then obtain k where g: "g = (k, filter (\<lambda>r. pay_method r = k) ?xs)" by (auto simp: groups_def)
    have "(if P k then tips_of ps else 0) = sum_list (map (\<lambda>p. if P (pay_method p) then tip_ves p else 0) ps)"
      if "\<forall>p \<in> set ps. pay_method p = k" for ps
      using that by (induction ps) (auto simp: tips_of_def)
    from this[of "filter (\<lambda>r. pay_method r = k) ?xs"]
    show "(case g of (k, ps) \<Rightarrow> if P k then tips_of ps else 0)
      = (case g of (k, ps) \<Rightarrow> sum_list (map (\<lambda>p. if P (pay_method p) then tip_ves p else 0) ps))"
      by (simp add: g)
  qed
  also have "\<dots> = sum_list (map (\<lambda>p. if P (pay_method p) then tip_ves p else 0) ?xs)" by (rule sum_groups)
  finally show ?thesis .
qed

lemma report_parts:
  "rp_total_ves (tipsReport at rid from until st) = tips_where (\<lambda>m. True) (rp_by_method (tipsReport at rid from until st))"
  "rp_in_till_ves (tipsReport at rid from until st) = tips_where (\<lambda>m. m \<in> IN_TILL_METHODS) (rp_by_method (tipsReport at rid from until st))"
  "rp_owed_ves (tipsReport at rid from until st)
     = tips_where (\<lambda>m. m \<notin> IN_TILL_METHODS \<and> m \<in> OWED_METHODS) (rp_by_method (tipsReport at rid from until st))"
  "rp_unclassified_ves (tipsReport at rid from until st)
     = tips_where (\<lambda>m. m \<notin> IN_TILL_METHODS \<and> m \<notin> OWED_METHODS) (rp_by_method (tipsReport at rid from until st))"
  by (simp_all add: tipsReport_def Let_def)

section \<open>One settlement per payment\<close>

lemma replay_settles_once:
  assumes "replay None ts = Some (Some s)"
  shows "length (filter (\<lambda>t. tr_to t = Succeeded) ts) \<le> 1 \<and>
    (s = Succeeded \<longrightarrow> length (filter (\<lambda>t. tr_to t = Succeeded) ts) = 1) \<and>
    (\<not> money_moved s \<longrightarrow> length (filter (\<lambda>t. tr_to t = Succeeded) ts) = 0)"
  using assms
proof (induction ts arbitrary: s rule: rev_induct)
  case (snoc t ts)
  obtain c where c: "replay None ts = Some c" "s = tr_to t"
      "case c of None \<Rightarrow> True | Some x \<Rightarrow> tr_to t \<in> set (ALLOWED_TRANSITIONS x)"
    using snoc.prems by (auto simp: replay_append split: option.splits if_splits)
  show ?case
  proof (cases c)
    case None
    have open_run: "replay (Some x) us \<noteq> Some None" for x us
      by (induction us arbitrary: x) auto
    have "ts = []" using c(1) None open_run by (cases ts) (auto split: if_splits)
    thus ?thesis using c(2) by (auto simp: money_moved_def)
  next
    case (Some x)
    have allowed: "s \<in> set (ALLOWED_TRANSITIONS x)" using c Some by simp
    note IH = snoc.IH[OF c(1)[unfolded Some]]
    show ?thesis using IH allowed c(2) by (cases x) (auto simp: money_moved_def)
  qed
qed simp

lemma filter_enumerate: "length (filter (\<lambda>(i, x). P x) (List.enumerate n xs)) = length (filter P xs)"
  by (induction xs arbitrary: n) auto

lemma sum_list_swap:
  fixes g :: "'a \<Rightarrow> 'b \<Rightarrow> int"
  shows "(\<Sum>x\<leftarrow>xs. \<Sum>y\<leftarrow>ys. g x y) = (\<Sum>y\<leftarrow>ys. \<Sum>x\<leftarrow>xs. g x y)"
  by (induction xs) (auto simp: sum_list_addf)

lemma sum_filter_if: "sum_list (map g (filter P xs)) = (\<Sum>x\<leftarrow>xs. if P x then (g x :: int) else 0)"
  by (induction xs) auto

lemma sum_concat: "sum_list (map g (concat (map f xs))) = (\<Sum>x\<leftarrow>xs. sum_list (map g (f x)) :: int)"
  by (induction xs) auto

text \<open>The position of the row that settled a payment, among the transitions.\<close>

definition settled_rows :: "store \<Rightarrow> payment \<Rightarrow> (nat \<times> transition) list" where
  "settled_rows st p = filter (\<lambda>(i, t). tr_payment t = pay_id p \<and> tr_to t = Succeeded) (List.enumerate 0 (transitions st))"

lemma one_settled_row:
  assumes "inv_log st" "p \<in> set (payments st)" "pay_status p = Succeeded"
  shows "\<exists>i t. settled_rows st p = [(i, t)] \<and> tr_restaurant t = pay_restaurant p"
proof -
  have h: "replay None (history (pay_id p) st) = Some (Some Succeeded)"
    using assms by (auto simp: inv_log_def)
  have "length (settled_rows st p) = length (filter (\<lambda>t. tr_to t = Succeeded) (history (pay_id p) st))"
    by (simp add: settled_rows_def filter_enumerate history_def conj_commute)
  also have "\<dots> = 1" using replay_settles_once[OF h] by simp
  finally obtain x where x: "settled_rows st p = [x]" by (auto simp: length_Suc_conv)
  obtain i t where it: "x = (i, t)" by (cases x)
  have "(i, t) \<in> set (settled_rows st p)" by (simp add: x it)
  hence "t \<in> set (history (pay_id p) st)"
    by (auto simp: settled_rows_def history_def in_set_enumerate_eq)
  hence "tr_restaurant t = pay_restaurant p" using assms(1,2) by (simp add: inv_log_def)
  thus ?thesis using x it by blast
qed

definition settled_at :: "(nat \<Rightarrow> int) \<Rightarrow> store \<Rightarrow> payment \<Rightarrow> int" where
  "settled_at at st p = at (fst (hd (settled_rows st p)))"

text \<open>A report reads each settled payment of the window once.\<close>

lemma settled_sum:
  assumes "inv_log st"
  shows "sum_list (map g (settled_in at rid from until st))
    = sum_over (\<lambda>p. pay_restaurant p = rid \<and> pay_status p = Succeeded \<and> from \<le> settled_at at st p \<and> settled_at at st p < until)
        (g :: payment \<Rightarrow> int) (payments st)"
proof -
  let ?rows = "List.enumerate 0 (transitions st)"
  let ?in = "\<lambda>(i, t). tr_restaurant t = rid \<and> tr_to t = Succeeded \<and> from \<le> at i \<and> at i < until"
  let ?joins = "\<lambda>t p. pay_id p = tr_payment t \<and> pay_restaurant p = tr_restaurant t \<and> pay_status p = Succeeded"
  let ?one = "\<lambda>p. pay_restaurant p = rid \<and> pay_status p = Succeeded \<and> from \<le> settled_at at st p \<and> settled_at at st p < until"
  have each: "(\<Sum>x\<leftarrow>?rows. if ?in x \<and> ?joins (snd x) p then g p else 0) = (if ?one p then g p else 0)"
    if p: "p \<in> set (payments st)" for p
  proof (cases "pay_status p = Succeeded")
    case True
    obtain i t where row: "settled_rows st p = [(i, t)]" "tr_restaurant t = pay_restaurant p"
      using one_settled_row[OF assms p True] by blast
    have "(\<Sum>x\<leftarrow>?rows. if ?in x \<and> ?joins (snd x) p then g p else 0)
        = (\<Sum>x\<leftarrow>?rows. if (case x of (i, t) \<Rightarrow> tr_payment t = pay_id p \<and> tr_to t = Succeeded)
            then (if ?in x \<and> ?joins (snd x) p then g p else 0) else 0)"
      by (intro arg_cong[of _ _ sum_list] map_cong refl) auto
    also have "\<dots> = (\<Sum>x\<leftarrow>settled_rows st p. if ?in x \<and> ?joins (snd x) p then g p else 0)"
      unfolding settled_rows_def by (rule sum_filter_if[symmetric])
    also have "\<dots> = (if ?one p then g p else 0)"
    proof -
      have "tr_payment t = pay_id p \<and> tr_to t = Succeeded"
        using row(1) by (auto simp: settled_rows_def filter_eq_Cons_iff)
      thus ?thesis using row True by (auto simp: settled_at_def)
    qed
    finally show ?thesis .
  next
    case False
    thus ?thesis by simp
  qed
  have "sum_list (map g (settled_in at rid from until st))
      = (\<Sum>x\<leftarrow>?rows. if ?in x then (\<Sum>p\<leftarrow>payments st. if ?joins (snd x) p then g p else 0) else 0)"
    unfolding settled_in_def sum_concat sum_filter_if by (intro arg_cong[of _ _ sum_list] map_cong refl) (auto simp: sum_filter_if)
  also have "\<dots> = (\<Sum>x\<leftarrow>?rows. \<Sum>p\<leftarrow>payments st. if ?in x \<and> ?joins (snd x) p then g p else 0)"
    by (intro arg_cong[of _ _ sum_list] map_cong refl) auto
  also have "\<dots> = (\<Sum>p\<leftarrow>payments st. \<Sum>x\<leftarrow>?rows. if ?in x \<and> ?joins (snd x) p then g p else 0)"
    by (rule sum_list_swap)
  also have "\<dots> = (\<Sum>p\<leftarrow>payments st. if ?one p then g p else 0)"
    by (intro arg_cong[of _ _ sum_list] map_cong refl each)
  finally show ?thesis by (simp add: sum_over_def sum_filter_if)
qed

section \<open>The report adds up\<close>

lemma settled_in_payments: "set (settled_in at rid from until st) \<subseteq> set (payments st)"
  by (auto simp: settled_in_def)

lemma filter_keyed:
  assumes "keyed k t" "r \<in> set t" "P r" "\<And>x. P x \<Longrightarrow> k x = k r"
  shows "filter P t = [r]"
  using assms(1,2)
proof (induction t)
  case (Cons x t)
  show ?case
  proof (cases "x = r")
    case True
    have "\<not> P y" if "y \<in> set t" for y
    proof
      assume "P y"
      hence "k y = k x" using assms(4) True by blast
      thus False using that Cons.prems(1) by (auto simp: keyed_def image_iff)
    qed
    thus ?thesis using True assms(3) by (simp add: filter_empty_conv)
  next
    case False
    hence "r \<in> set t" using Cons.prems(2) by simp
    hence "k x \<noteq> k r" using Cons.prems(1) by (auto simp: keyed_def image_iff)
    hence "\<not> P x" using assms(4) by blast
    thus ?thesis using Cons \<open>r \<in> set t\<close> by (simp add: keyed_def)
  qed
qed simp

lemma with_bill_fst:
  assumes "store_inv st" "set ps \<subseteq> set (payments st)"
  shows "map fst (with_bill st ps) = ps"
  using assms(2)
proof (induction ps)
  case (Cons p ps)
  obtain b where b: "b \<in> set (bills st)" "bill_id b = pay_bill p" "bill_restaurant b = pay_restaurant p"
    using assms(1) Cons.prems by (auto simp: store_inv_def inv_fk_def)
  have "filter (\<lambda>x. bill_id x = pay_bill p \<and> bill_restaurant x = pay_restaurant p) (bills st) = [b]"
    by (rule filter_keyed[of bill_id]) (use assms(1) b in \<open>simp_all add: store_inv_def inv_keys_def\<close>)
  hence "map fst (with_bill st [p]) = [p]" by (simp add: with_bill_def)
  thus ?case using Cons by (simp add: with_bill_def)
qed (simp add: with_bill_def)

lemma sum_with_bill:
  assumes "store_inv st" "set ps \<subseteq> set (payments st)"
  shows "sum_list (map (\<lambda>(p, b). g p :: int) (with_bill st ps)) = sum_list (map g ps)"
proof -
  have "sum_list (map (\<lambda>(p, b). g p) (with_bill st ps)) = sum_list (map g (map fst (with_bill st ps)))"
    by (simp add: o_def split_def)
  thus ?thesis by (simp add: with_bill_fst[OF assms])
qed

lemma tips_of_rows: "tl_tips_ves (line_for (map fst rows)) = sum_list (map (\<lambda>(p, b). tip_ves p) rows)"
  by (simp add: line_for_def tips_of_def o_def split_def)

lemma by_server_total:
  assumes "store_inv st"
  shows "sum_list (map (\<lambda>(u, l). tl_tips_ves l) (tipsByServer at rid from until st)) = tips_of (tipped_in at rid from until st)"
proof -
  let ?w = "with_bill st (tipped_in at rid from until st)"
  have sub: "set (tipped_in at rid from until st) \<subseteq> set (payments st)"
    using subsetD[OF settled_in_payments] by (auto simp: tipped_in_def)
  have "sum_list (map (\<lambda>(u, l). tl_tips_ves l) (tipsByServer at rid from until st))
      = sum_list (map (\<lambda>(k, rows). sum_list (map (\<lambda>(p, b). tip_ves p) rows)) (groups (\<lambda>(p, b). served_by b) ?w))"
    by (simp add: tipsByServer_def sum_sorted o_def split_def tips_of_rows[unfolded split_def])
  also have "\<dots> = sum_list (map (\<lambda>(p, b). tip_ves p) ?w)" by (rule sum_groups)
  also have "\<dots> = tips_of (tipped_in at rid from until st)"
    by (simp add: sum_with_bill[OF assms sub] tips_of_def)
  finally show ?thesis .
qed

lemma tips_tipped:
  assumes "inv_payments st"
  shows "tips_of (tipped_in at rid from until st) = sum_list (map tip_ves (settled_in at rid from until st))"
proof -
  have "sum_list (map tip_ves (filter (\<lambda>p. 0 < tip_ves p) ps)) = sum_list (map tip_ves ps)" if "\<forall>p \<in> set ps. 0 \<le> tip_ves p" for ps
    using that by (induction ps) auto
  moreover have "\<forall>p \<in> set (settled_in at rid from until st). 0 \<le> tip_ves p"
    using assms subsetD[OF settled_in_payments] by (fastforce simp: inv_payments_def payment_checks_def)
  ultimately show ?thesis by (simp add: tipped_in_def tips_of_def)
qed

lemma report_total:
  assumes "sound st"
  shows "rp_total_ves (tipsReport at rid from until st)
    = sum_over (\<lambda>p. pay_restaurant p = rid \<and> pay_status p = Succeeded \<and> from \<le> settled_at at st p \<and> settled_at at st p < until)
        tip_ves (payments st)"
proof -
  have "rp_total_ves (tipsReport at rid from until st) = tips_of (tipped_in at rid from until st)"
    unfolding report_parts(1) report_by_method by (simp add: tips_of_def)
  thus ?thesis using assms by (simp add: tips_tipped settled_sum sound_def store_inv_def)
qed

text \<open>The bills behind the line of nobody.\<close>

lemma by_server_line:
  assumes "(u, l) \<in> set (tipsByServer at rid from until st)"
  shows "tl_tips_ves l = sum_list (map (\<lambda>(p, b). tip_ves p) (filter (\<lambda>(p, b). served_by b = u) (with_bill st (tipped_in at rid from until st))))"
  using assms by (auto simp: tipsByServer_def groups_def tips_of_rows split_def)

lemma unassigned_total:
  assumes "length (unassignedBills at rid from until limit st) < limit"
  shows "sum_list (map (\<lambda>u. tl_tips_ves (ub_line u)) (unassignedBills at rid from until limit st))
    = sum_list (map (\<lambda>(p, b). tip_ves p) (filter (\<lambda>(p, b). served_by b = None) (with_bill st (tipped_in at rid from until st))))"
proof -
  let ?rows = "filter (\<lambda>(p, b). served_by b = None) (with_bill st (tipped_in at rid from until st))"
  let ?all = "map (\<lambda>(k, rows). \<lparr>ub_bill = fst k, ub_table = fst (snd k), ub_status = snd (snd k), ub_line = line_for (map fst rows)\<rparr>)
         (groups (\<lambda>(p, b). (bill_id b, bill_table b, bill_state b)) ?rows)"
  have "unassignedBills at rid from until limit st = sort_key (\<lambda>u. - tl_tips_ves (ub_line u)) ?all"
    using assms by (simp add: unassignedBills_def)
  hence "sum_list (map (\<lambda>u. tl_tips_ves (ub_line u)) (unassignedBills at rid from until limit st))
      = sum_list (map (\<lambda>(k, rows). sum_list (map (\<lambda>(p, b). tip_ves p) rows)) (groups (\<lambda>(p, b). (bill_id b, bill_table b, bill_state b)) ?rows))"
    by (simp add: sum_sorted o_def split_def tips_of_rows[unfolded split_def])
  thus ?thesis by (simp only: sum_groups)
qed

theorem tips_report_adds_up:
  fixes at :: "nat \<Rightarrow> int" and rid :: nat and since until :: int
  assumes "sound st"
  defines "r \<equiv> tipsReport at rid since until st"
  shows "rp_in_till_ves r + rp_owed_ves r + rp_unclassified_ves r = rp_total_ves r \<and>
     sum_list (map (\<lambda>(m, l). tl_tips_ves l) (rp_by_method r)) = rp_total_ves r \<and>
     sum_list (map (\<lambda>(u, l). tl_tips_ves l) (rp_by_server r)) = rp_total_ves r \<and>
     (\<forall>l. (None, l) \<in> set (rp_by_server r) \<longrightarrow> length (rp_unassigned r) < 50 \<longrightarrow>
        sum_list (map (\<lambda>u. tl_tips_ves (ub_line u)) (rp_unassigned r)) = tl_tips_ves l)"
proof (intro conjI allI impI)
  have total: "rp_total_ves r = tips_of (tipped_in at rid since until st)"
    unfolding r_def report_parts(1) report_by_method by (simp add: tips_of_def)
  have parts: "(if a \<in> IN_TILL_METHODS then x else 0) + (if a \<notin> IN_TILL_METHODS \<and> a \<in> OWED_METHODS then x else 0)
     + (if a \<notin> IN_TILL_METHODS \<and> a \<notin> OWED_METHODS then x else 0) = (x :: int)" for a x by simp
  show "rp_in_till_ves r + rp_owed_ves r + rp_unclassified_ves r = rp_total_ves r"
    unfolding total unfolding r_def report_parts report_by_method sum_list_addf[symmetric] parts tips_of_def by (rule refl)
  show "sum_list (map (\<lambda>(m, l). tl_tips_ves l) (rp_by_method r)) = rp_total_ves r"
    unfolding r_def report_parts(1) by (simp add: tips_where_def)
  have by_server: "rp_by_server r = tipsByServer at rid since until st" by (simp add: r_def tipsReport_def Let_def)
  show "sum_list (map (\<lambda>(u, l). tl_tips_ves l) (rp_by_server r)) = rp_total_ves r"
    using assms(1) by (simp add: by_server total by_server_total sound_def)
  fix l assume l: "(None, l) \<in> set (rp_by_server r)" "length (rp_unassigned r) < 50"
  have "list_ex (\<lambda>(u, l). u = None) (tipsByServer at rid since until st)" using l(1) by (auto simp: by_server list_ex_iff)
  hence "rp_unassigned r = unassignedBills at rid since until 50 st" by (simp add: r_def tipsReport_def Let_def)
  thus "sum_list (map (\<lambda>u. tl_tips_ves (ub_line u)) (rp_unassigned r)) = tl_tips_ves l"
    using l by (simp add: unassigned_total by_server_line by_server)
qed

text \<open>A dinner paid with a tip, in cash, at the instant 40.\<close>

definition tipped_dinner :: store where
  "tipped_dinner = (case processSplitPayment 7 (cash 1000 50) dinner_store of Inl e \<Rightarrow> dinner_store | Inr (rc, st) \<Rightarrow> st)"

lemma sound_tipped: "sound tipped_dinner"
proof -
  have "isr (processSplitPayment 7 (cash 1000 50) dinner_store)" by code_simp
  then obtain rc st where r: "processSplitPayment 7 (cash 1000 50) dinner_store = Inr (rc, st)" using isr_pair by blast
  hence "tipped_dinner = st" by (simp add: tipped_dinner_def)
  thus ?thesis using till_sound[OF sound_dinner r] by simp
qed

theorem tips_report_adds_up_witness:
  "rp_total_ves (tipsReport (\<lambda>i. 40) 7 0 100 tipped_dinner) = 50 \<and>
   rp_in_till_ves (tipsReport (\<lambda>i. 40) 7 0 100 tipped_dinner) + rp_owed_ves (tipsReport (\<lambda>i. 40) 7 0 100 tipped_dinner)
     + rp_unclassified_ves (tipsReport (\<lambda>i. 40) 7 0 100 tipped_dinner) = 50"
proof -
  have "rp_total_ves (tipsReport (\<lambda>i. 40) 7 0 100 tipped_dinner) = 50" by code_simp
  thus ?thesis using tips_report_adds_up[OF sound_tipped, of "\<lambda>i. 40" 7 0 100] by simp
qed

lemma tips_window:
  assumes "sound st" "a \<le> b" "b \<le> c"
  shows "rp_total_ves (tipsReport at rid a b st) + rp_total_ves (tipsReport at rid b c st) = rp_total_ves (tipsReport at rid a c st)"
proof -
  have "sum_over (\<lambda>p. P p \<and> a \<le> s p \<and> s p < b) g t + sum_over (\<lambda>p. P p \<and> b \<le> s p \<and> s p < c) g t
      = sum_over (\<lambda>p. P p \<and> a \<le> s p \<and> s p < c) g t" for P and s :: "payment \<Rightarrow> int" and g t
    using assms(2,3) by (induction t) (auto simp: sum_over_def)
  from this[of "\<lambda>p. pay_restaurant p = rid \<and> pay_status p = Succeeded" "settled_at at st"]
  show ?thesis by (simp add: report_total[OF assms(1)])
qed

end
