(* ===== verification/Guests.thy ===== *)
theory Guests
  imports Store
begin

text \<open>
  The diner's session (services/guest.js) and the contact a diner leaves (services/guestContacts.js).
  A session has a row in PostgreSQL and an entry in Redis; every call of Redis may fail, which the code
  swallows, so each operation takes whether it answered.  Instants are milliseconds, the two life times
  of the configuration are seconds, and the hash of a token is a parameter.  A header that is missing
  or is not shaped like a uuid is \<open>None\<close>.
\<close>

section \<open>Sessions\<close>

record guest_row =
  gr_id :: nat
  gr_restaurant :: nat
  gr_table :: nat
  gr_hash :: string
  gr_expires :: int
  gr_revoked :: "int option"

record guest_entry =
  ge_restaurant :: nat
  ge_table :: nat
  ge_hash :: string
  ge_absolute :: "int option"
  ge_until :: int

record guest_state =
  gs_rows :: "guest_row table"
  gs_cache :: "nat \<Rightarrow> guest_entry option"
  gs_next :: nat

record guest_config =
  gc_hash :: "string \<Rightarrow> string"
  gc_session_ttl :: int
  gc_max_age :: int

record guest_session =
  gn_id :: nat
  gn_restaurant :: nat
  gn_table :: nat

definition cappedTtl :: "guest_config \<Rightarrow> int \<Rightarrow> int \<Rightarrow> int" where
  "cappedTtl cfg absolute now =
     (let left = (absolute - now) div 1000 in if left \<le> 0 then 0 else min (gc_session_ttl cfg) left)"

text \<open>\<open>SET ... EX\<close>: Redis refuses a life of zero, and the code swallows the refusal.\<close>

definition cache_entry :: "bool \<Rightarrow> nat \<Rightarrow> guest_entry \<Rightarrow> int \<Rightarrow> int \<Rightarrow> guest_state \<Rightarrow> guest_state" where
  "cache_entry up sid e ttl now s =
     (if up \<and> 0 < ttl then s\<lparr>gs_cache := (gs_cache s)(sid \<mapsto> e\<lparr>ge_until := now + ttl * 1000\<rparr>)\<rparr> else s)"

definition readCache :: "bool \<Rightarrow> nat \<Rightarrow> int \<Rightarrow> guest_state \<Rightarrow> guest_entry option" where
  "readCache up sid now s =
     (if \<not> up then None
      else case gs_cache s sid of None \<Rightarrow> None | Some e \<Rightarrow> if now < ge_until e then Some e else None)"

text \<open>\<open>EXPIRE\<close> with what is left; a life of zero deletes the entry.\<close>

definition slide :: "guest_config \<Rightarrow> bool \<Rightarrow> nat \<Rightarrow> int \<Rightarrow> int \<Rightarrow> guest_state \<Rightarrow> guest_state" where
  "slide cfg up sid absolute now s =
     (if up then s\<lparr>gs_cache := (gs_cache s)(sid := map_option (\<lambda>e. e\<lparr>ge_until := now + cappedTtl cfg absolute now * 1000\<rparr>) (gs_cache s sid))\<rparr>
      else s)"

definition dropCache :: "bool \<Rightarrow> nat \<Rightarrow> guest_state \<Rightarrow> guest_state" where
  "dropCache up sid s = (if up then s\<lparr>gs_cache := (gs_cache s)(sid := None)\<rparr> else s)"

definition createGuestSession ::
  "guest_config \<Rightarrow> bool \<Rightarrow> nat \<Rightarrow> nat \<Rightarrow> string \<Rightarrow> int \<Rightarrow> guest_state \<Rightarrow> error + guest_session \<times> guest_state" where
  "createGuestSession cfg up rid tid token now s =
     (let sid = gs_next s; absolute = now + gc_max_age cfg * 1000 in
      if list_ex (\<lambda>r. gr_hash r = gc_hash cfg token) (gs_rows s) then Inl (General (Db_Unique ''guest_sessions_token_hash_key''))
      else Inr (\<lparr>gn_id = sid, gn_restaurant = rid, gn_table = tid\<rparr>,
        cache_entry up sid \<lparr>ge_restaurant = rid, ge_table = tid, ge_hash = gc_hash cfg token, ge_absolute = Some absolute, ge_until = 0\<rparr>
          (cappedTtl cfg absolute now) now
          (s\<lparr>gs_rows := insert_row \<lparr>gr_id = sid, gr_restaurant = rid, gr_table = tid, gr_hash = gc_hash cfg token,
               gr_expires = absolute, gr_revoked = None\<rparr> (gs_rows s), gs_next := Suc sid\<rparr>)))"

text \<open>The read of the row and the warming of the cache are two calls: another request may come between.\<close>

definition read_row :: "guest_config \<Rightarrow> nat \<Rightarrow> string \<Rightarrow> int \<Rightarrow> guest_state \<Rightarrow> guest_row option" where
  "read_row cfg sid token now s =
     (case find_by (\<lambda>r. gr_id r = sid \<and> gr_revoked r = None \<and> now < gr_expires r) (gs_rows s) of
        None \<Rightarrow> None
      | Some r \<Rightarrow> if gr_hash r \<noteq> gc_hash cfg token \<or> cappedTtl cfg (gr_expires r) now \<le> 0 then None else Some r)"

definition warm :: "guest_config \<Rightarrow> bool \<Rightarrow> guest_row \<Rightarrow> int \<Rightarrow> guest_state \<Rightarrow> guest_state" where
  "warm cfg up r now s =
     cache_entry up (gr_id r) \<lparr>ge_restaurant = gr_restaurant r, ge_table = gr_table r, ge_hash = gr_hash r,
       ge_absolute = Some (gr_expires r), ge_until = 0\<rparr> (cappedTtl cfg (gr_expires r) now) now s"

definition from_row :: "guest_config \<Rightarrow> bool \<Rightarrow> nat \<Rightarrow> string \<Rightarrow> int \<Rightarrow> guest_state \<Rightarrow> guest_session option \<times> guest_state" where
  "from_row cfg up sid token now s =
     (case read_row cfg sid token now s of
        None \<Rightarrow> (None, s)
      | Some r \<Rightarrow> (Some \<lparr>gn_id = sid, gn_restaurant = gr_restaurant r, gn_table = gr_table r\<rparr>, warm cfg up r now s))"

definition resolveGuestSession ::
  "guest_config \<Rightarrow> bool \<Rightarrow> bool \<Rightarrow> nat option \<Rightarrow> string \<Rightarrow> int \<Rightarrow> guest_state \<Rightarrow> guest_session option \<times> guest_state" where
  "resolveGuestSession cfg reads writes header token now s =
     (case header of
        None \<Rightarrow> (None, s)
      | Some sid \<Rightarrow>
          if token = [] then (None, s)
          else
            (case readCache reads sid now s of
               Some e \<Rightarrow>
                 if ge_hash e \<noteq> gc_hash cfg token then (None, s)
                 else
                   (case ge_absolute e of
                      None \<Rightarrow> from_row cfg writes sid token now (dropCache writes sid s)
                    | Some absolute \<Rightarrow>
                        if absolute \<le> now then (None, dropCache writes sid s)
                        else (Some \<lparr>gn_id = sid, gn_restaurant = ge_restaurant e, gn_table = ge_table e\<rparr>,
                              slide cfg writes sid absolute now s))
             | None \<Rightarrow> from_row cfg writes sid token now s))"

definition destroyGuestSession :: "bool \<Rightarrow> nat option \<Rightarrow> int \<Rightarrow> guest_state \<Rightarrow> guest_state" where
  "destroyGuestSession up header now s =
     (case header of
        None \<Rightarrow> s
      | Some sid \<Rightarrow> dropCache up sid (s\<lparr>gs_rows := update_where (\<lambda>r. gr_id r = sid \<and> gr_revoked r = None)
            (\<lambda>r. r\<lparr>gr_revoked := Some now\<rparr>) (gs_rows s)\<rparr>))"

text \<open>\<open>authenticateGuest\<close>: a missing header or token is one error, anything that does not resolve another.\<close>

definition authenticateGuest ::
  "guest_config \<Rightarrow> bool \<Rightarrow> bool \<Rightarrow> nat option option \<Rightarrow> string \<Rightarrow> int \<Rightarrow> guest_state \<Rightarrow> (error + guest_session) \<times> guest_state" where
  "authenticateGuest cfg reads writes header token now s =
     (case header of
        None \<Rightarrow> (Inl (Account_E Guest_Session_Missing), s)
      | Some h \<Rightarrow>
          if token = [] then (Inl (Account_E Guest_Session_Missing), s)
          else (case resolveGuestSession cfg reads writes h token now s of
                  (None, s') \<Rightarrow> (Inl (Account_E Guest_Session_Invalid), s')
                | (Some g, s') \<Rightarrow> (Inr g, s')))"

section \<open>Every run of requests\<close>

text \<open>Requests come in any order with Redis up or down, and Redis may lose or evict any entry.  \<open>overlapping\<close>
  adds the request that read its row before and warms the cache now.\<close>

inductive guest_step :: "guest_config \<Rightarrow> guest_state \<Rightarrow> guest_state \<Rightarrow> bool" for cfg where
  opened: "createGuestSession cfg up rid tid token now s = Inr (g, s') \<Longrightarrow> guest_step cfg s s'"
| resolved: "guest_step cfg s (snd (resolveGuestSession cfg reads writes header token now s))"
| ended: "guest_step cfg s (destroyGuestSession up header now s)"
| forgotten: "guest_step cfg s (s\<lparr>gs_cache := (gs_cache s)(sid := None)\<rparr>)"

inductive overlapping :: "guest_config \<Rightarrow> guest_state \<Rightarrow> guest_state \<Rightarrow> bool" for cfg where
  alone: "guest_step cfg s s' \<Longrightarrow> overlapping cfg s s'"
| late: "r \<in> set (gs_rows s) \<Longrightarrow> overlapping cfg s (warm cfg up (r\<lparr>gr_revoked := revoked\<rparr>) now s)"

definition agrees :: "guest_row table \<Rightarrow> nat \<Rightarrow> guest_entry \<Rightarrow> bool" where
  "agrees rows sid e \<longleftrightarrow> (\<exists>r \<in> set rows. gr_id r = sid \<and> gr_restaurant r = ge_restaurant e \<and> gr_table r = ge_table e \<and>
     gr_hash r = ge_hash e \<and> (\<forall>a. ge_absolute e = Some a \<longrightarrow> a = gr_expires r))"

definition guests_ok :: "guest_state \<Rightarrow> bool" where
  "guests_ok s \<longleftrightarrow> keyed gr_id (gs_rows s) \<and> (\<forall>r \<in> set (gs_rows s). gr_id r < gs_next s) \<and>
     (\<forall>sid e. gs_cache s sid = Some e \<longrightarrow> agrees (gs_rows s) sid e)"

lemma agrees_same: "agrees rows sid e \<Longrightarrow> agrees rows sid (e\<lparr>ge_until := t\<rparr>)"
  by (simp add: agrees_def)

lemma agrees_insert: "agrees rows sid e \<Longrightarrow> agrees (insert_row r rows) sid e"
  by (auto simp: agrees_def)

lemma agrees_revoked:
  assumes "agrees rows sid e"
  shows "agrees (update_where P (\<lambda>r. r\<lparr>gr_revoked := v\<rparr>) rows) sid e"
proof -
  obtain r where r: "r \<in> set rows" "gr_id r = sid" "gr_restaurant r = ge_restaurant e" "gr_table r = ge_table e"
      "gr_hash r = ge_hash e" "\<forall>a. ge_absolute e = Some a \<longrightarrow> a = gr_expires r"
    using assms by (auto simp: agrees_def)
  let ?r = "if P r then r\<lparr>gr_revoked := v\<rparr> else r"
  have "?r \<in> set (update_where P (\<lambda>r. r\<lparr>gr_revoked := v\<rparr>) rows)" using r(1) by (simp add: set_update_where)
  thus ?thesis using r(2-) unfolding agrees_def by (intro bexI[of _ ?r]) auto
qed

lemma agrees_entry:
  "r \<in> set rows \<Longrightarrow> agrees rows (gr_id r) \<lparr>ge_restaurant = gr_restaurant r, ge_table = gr_table r, ge_hash = gr_hash r,
     ge_absolute = Some (gr_expires r), ge_until = t\<rparr>"
  by (auto simp: agrees_def)

lemma cache_entry_ok: "guests_ok s \<Longrightarrow> agrees (gs_rows s) sid e \<Longrightarrow> guests_ok (cache_entry up sid e ttl now s)"
  by (auto simp: cache_entry_def guests_ok_def agrees_same)

lemma warm_ok: "guests_ok s \<Longrightarrow> r \<in> set (gs_rows s) \<Longrightarrow> guests_ok (warm cfg up (r\<lparr>gr_revoked := v\<rparr>) now s)"
  unfolding warm_def by (rule cache_entry_ok) (auto dest: agrees_entry)

lemma drop_ok: "guests_ok s \<Longrightarrow> guests_ok (dropCache up sid s)"
  by (auto simp: dropCache_def guests_ok_def)

lemma slide_ok: "guests_ok s \<Longrightarrow> guests_ok (slide cfg up sid absolute now s)"
  by (auto simp: slide_def guests_ok_def agrees_same split: if_splits)

lemma read_row_SomeD:
  assumes "read_row cfg sid token now s = Some r"
  shows "r \<in> set (gs_rows s) \<and> gr_id r = sid \<and> gr_revoked r = None \<and> now < gr_expires r \<and> gr_hash r = gc_hash cfg token"
  using assms by (auto simp: read_row_def split: option.splits if_splits dest!: find_by_SomeD)

lemma from_row_ok:
  assumes "guests_ok s"
  shows "guests_ok (snd (from_row cfg up sid token now s))"
proof (cases "read_row cfg sid token now s")
  case (Some r)
  have "warm cfg up (r\<lparr>gr_revoked := v\<rparr>) now s = warm cfg up r now s" for v by (simp add: warm_def)
  thus ?thesis using Some warm_ok[OF assms, of r cfg up "gr_revoked r" now] read_row_SomeD[OF Some] by (simp add: from_row_def)
qed (simp add: from_row_def assms)

lemma guest_resolve_ok: "guests_ok s \<Longrightarrow> guests_ok (snd (resolveGuestSession cfg reads writes header token now s))"
  by (simp add: resolveGuestSession_def from_row_ok drop_ok slide_ok split: option.split)

lemma create_ok:
  assumes "guests_ok s" "createGuestSession cfg up rid tid token now s = Inr (g, s')"
  shows "guests_ok s'"
proof -
  let ?r = "\<lparr>gr_id = gs_next s, gr_restaurant = rid, gr_table = tid, gr_hash = gc_hash cfg token,
               gr_expires = now + gc_max_age cfg * 1000, gr_revoked = None\<rparr>"
  let ?s1 = "s\<lparr>gs_rows := insert_row ?r (gs_rows s), gs_next := Suc (gs_next s)\<rparr>"
  have fresh: "gr_id ?r \<notin> gr_id ` set (gs_rows s)" using assms(1) by (auto simp: guests_ok_def)
  have "keyed gr_id (gs_rows ?s1)" using keyed_insert[OF _ fresh] assms(1) by (simp add: guests_ok_def)
  moreover have "\<forall>r \<in> set (gs_rows ?s1). gr_id r < gs_next ?s1" using assms(1) by (auto simp: guests_ok_def)
  moreover have "\<forall>sid e. gs_cache ?s1 sid = Some e \<longrightarrow> agrees (gs_rows ?s1) sid e"
    using assms(1) agrees_insert by (auto simp: guests_ok_def)
  ultimately have "guests_ok ?s1" unfolding guests_ok_def by blast
  moreover have "agrees (gs_rows ?s1) (gs_next s) \<lparr>ge_restaurant = rid, ge_table = tid, ge_hash = gc_hash cfg token,
      ge_absolute = Some (now + gc_max_age cfg * 1000), ge_until = 0\<rparr>"
    using agrees_entry[of ?r "gs_rows ?s1"] by simp
  ultimately show ?thesis
    using assms(2) cache_entry_ok by (auto simp: createGuestSession_def Let_def split: if_splits)
qed

lemma destroy_ok: "guests_ok s \<Longrightarrow> guests_ok (destroyGuestSession up header now s)"
proof (cases header)
  case (Some sid)
  assume "guests_ok s"
  hence "guests_ok (s\<lparr>gs_rows := update_where (\<lambda>r. gr_id r = sid \<and> gr_revoked r = None)
      (\<lambda>r. r\<lparr>gr_revoked := Some now\<rparr>) (gs_rows s)\<rparr>)"
    by (auto simp: guests_ok_def keyed_update agrees_revoked set_update_where)
  thus ?thesis using Some by (simp add: destroyGuestSession_def drop_ok)
qed (simp add: destroyGuestSession_def)

lemma guest_step_ok:
  assumes "guest_step cfg s s'" "guests_ok s"
  shows "guests_ok s'"
  using assms
proof (induction rule: guest_step.induct)
  case (forgotten s sid)
  thus ?case using drop_ok[of s True sid] by (simp add: dropCache_def)
qed (simp_all add: create_ok guest_resolve_ok destroy_ok)

lemma overlapping_ok: "overlapping cfg s s' \<Longrightarrow> guests_ok s \<Longrightarrow> guests_ok s'"
  by (induction rule: overlapping.induct) (auto intro: guest_step_ok warm_ok)

lemma overlaps_ok: "(overlapping cfg)\<^sup>*\<^sup>* s s' \<Longrightarrow> guests_ok s \<Longrightarrow> guests_ok s'"
  by (induction rule: rtranclp_induct) (auto intro: overlapping_ok)

section \<open>Who a session is\<close>

lemma cached_row:
  assumes "guests_ok s" "readCache up sid now s = Some e"
  obtains r where "r \<in> set (gs_rows s)" "gr_id r = sid" "gr_restaurant r = ge_restaurant e" "gr_table r = ge_table e"
    "gr_hash r = ge_hash e" "\<forall>a. ge_absolute e = Some a \<longrightarrow> a = gr_expires r"
proof -
  have "gs_cache s sid = Some e" using assms(2) by (auto simp: readCache_def split: if_splits option.splits)
  hence "agrees (gs_rows s) sid e" using assms(1) by (simp add: guests_ok_def)
  thus ?thesis using that by (auto simp: agrees_def)
qed

lemma drop_rows [simp]: "gs_rows (dropCache up sid s) = gs_rows s"
  by (simp add: dropCache_def)

lemma read_row_drop [simp]: "read_row cfg sid token now (dropCache up sid' s) = read_row cfg sid token now s"
  by (simp add: read_row_def)

lemma from_row_answer:
  "fst (from_row cfg up sid token now s)
    = map_option (\<lambda>r. \<lparr>gn_id = sid, gn_restaurant = gr_restaurant r, gn_table = gr_table r\<rparr>) (read_row cfg sid token now s)"
  by (simp add: from_row_def split: option.split)

lemma resolve_sound:
  assumes "guests_ok s" "fst (resolveGuestSession cfg reads writes (Some sid) token now s) = Some g"
  shows "\<exists>r \<in> set (gs_rows s). gr_id r = sid \<and> gr_hash r = gc_hash cfg token \<and> now < gr_expires r \<and>
    g = \<lparr>gn_id = sid, gn_restaurant = gr_restaurant r, gn_table = gr_table r\<rparr>"
proof -
  have row: "\<exists>r \<in> set (gs_rows s). gr_id r = sid \<and> gr_hash r = gc_hash cfg token \<and> now < gr_expires r \<and>
      g = \<lparr>gn_id = sid, gn_restaurant = gr_restaurant r, gn_table = gr_table r\<rparr>"
    if "fst (from_row cfg writes sid token now t) = Some g" "gs_rows t = gs_rows s" for t
    using that read_row_SomeD[of cfg sid token now t] by (auto simp: from_row_answer)
  show ?thesis
  proof (cases "readCache reads sid now s")
    case None
    thus ?thesis using assms(2) row[of s] by (simp add: resolveGuestSession_def split: if_splits)
  next
    case (Some e)
    obtain r where r: "r \<in> set (gs_rows s)" "gr_id r = sid" "gr_restaurant r = ge_restaurant e" "gr_table r = ge_table e"
        "gr_hash r = ge_hash e" "\<forall>a. ge_absolute e = Some a \<longrightarrow> a = gr_expires r"
      using cached_row[OF assms(1) Some] by blast
    show ?thesis
    proof (cases "ge_absolute e")
      case None
      thus ?thesis using assms(2) Some row[of "dropCache writes sid s"] by (simp add: resolveGuestSession_def split: if_splits)
    next
      case (Some a)
      hence "gr_hash r = gc_hash cfg token \<and> now < gr_expires r \<and> g = \<lparr>gn_id = sid, gn_restaurant = gr_restaurant r, gn_table = gr_table r\<rparr>"
        using assms(2) \<open>readCache reads sid now s = Some e\<close> r by (auto simp: resolveGuestSession_def split: if_splits)
      thus ?thesis using r(1,2) by blast
    qed
  qed
qed

lemma read_row_complete:
  assumes "keyed gr_id (gs_rows s)" "r \<in> set (gs_rows s)" "gr_revoked r = None" "now + 1000 \<le> gr_expires r"
    "gr_hash r = gc_hash cfg token" "0 < gc_session_ttl cfg"
  shows "read_row cfg (gr_id r) token now s = Some r"
proof -
  have "find_by (\<lambda>x. gr_id x = gr_id r \<and> gr_revoked x = None \<and> now < gr_expires x) (gs_rows s) = Some r"
    by (rule find_by_keyed[OF assms(1,2)]) (use assms(3,4) in auto)
  moreover have "0 < (gr_expires r - now) div 1000" using assms(4) by (simp add: pos_imp_zdiv_pos_iff)
  ultimately show ?thesis using assms(5,6) by (simp add: read_row_def cappedTtl_def Let_def)
qed

lemma resolve_complete:
  assumes "guests_ok s" "r \<in> set (gs_rows s)" "gr_revoked r = None" "now + 1000 \<le> gr_expires r"
    "gr_hash r = gc_hash cfg token" "token \<noteq> []" "0 < gc_session_ttl cfg"
  shows "fst (resolveGuestSession cfg reads writes (Some (gr_id r)) token now s)
    = Some \<lparr>gn_id = gr_id r, gn_restaurant = gr_restaurant r, gn_table = gr_table r\<rparr>"
proof -
  have keyed: "keyed gr_id (gs_rows s)" using assms(1) by (simp add: guests_ok_def)
  have from_db: "fst (from_row cfg writes (gr_id r) token now t) = Some \<lparr>gn_id = gr_id r, gn_restaurant = gr_restaurant r, gn_table = gr_table r\<rparr>"
    if "gs_rows t = gs_rows s" for t
    using read_row_complete[of t r now cfg token] keyed assms that by (simp add: from_row_answer)
  show ?thesis
  proof (cases "readCache reads (gr_id r) now s")
    case None
    thus ?thesis using from_db[of s] assms(6) by (simp add: resolveGuestSession_def)
  next
    case (Some e)
    obtain r' where r': "r' \<in> set (gs_rows s)" "gr_id r' = gr_id r" "gr_restaurant r' = ge_restaurant e" "gr_table r' = ge_table e"
        "gr_hash r' = ge_hash e" "\<forall>a. ge_absolute e = Some a \<longrightarrow> a = gr_expires r'"
      using cached_row[OF assms(1) Some] by blast
    have "r' = r" using keyed_unique[OF keyed r'(1) assms(2)] r'(2) by simp
    thus ?thesis using r' Some from_db[of "dropCache writes (gr_id r) s"] assms(4,5,6)
      by (cases "ge_absolute e") (auto simp: resolveGuestSession_def)
  qed
qed

text \<open>C16: Through any requests, outages of Redis, lost entries and overlapping requests, whoever
  is let in as a diner holds the token of a row with that identifier that has not reached
  its cap, and acts for that row's restaurant and table; and the token of a row that is not
  revoked and has a second left is let in whatever state Redis is in.\<close>

theorem guest_session_is_the_row:
  assumes "(overlapping cfg)\<^sup>*\<^sup>* \<lparr>gs_rows = [], gs_cache = (\<lambda>sid. None), gs_next = n\<rparr> s"
  shows "(fst (authenticateGuest cfg reads writes (Some (Some sid)) token now s) = Inr g \<longrightarrow>
            (\<exists>r \<in> set (gs_rows s). gr_id r = sid \<and> gr_hash r = gc_hash cfg token \<and> now < gr_expires r \<and>
               g = \<lparr>gn_id = sid, gn_restaurant = gr_restaurant r, gn_table = gr_table r\<rparr>))
       \<and> (\<forall>r \<in> set (gs_rows s). gr_id r = sid \<longrightarrow> gr_revoked r = None \<longrightarrow> now + 1000 \<le> gr_expires r \<longrightarrow>
            gr_hash r = gc_hash cfg token \<longrightarrow> token \<noteq> [] \<longrightarrow> 0 < gc_session_ttl cfg \<longrightarrow>
            fst (authenticateGuest cfg reads writes (Some (Some sid)) token now s)
              = Inr \<lparr>gn_id = sid, gn_restaurant = gr_restaurant r, gn_table = gr_table r\<rparr>)"
proof -
  have ok: "guests_ok s" by (rule overlaps_ok[OF assms]) (simp add: guests_ok_def)
  have "fst (authenticateGuest cfg reads writes (Some (Some sid)) token now s)
      = (if token = [] then Inl (Account_E Guest_Session_Missing)
         else case fst (resolveGuestSession cfg reads writes (Some sid) token now s) of
                None \<Rightarrow> Inl (Account_E Guest_Session_Invalid) | Some g \<Rightarrow> Inr g)"
    by (simp add: authenticateGuest_def split: option.split prod.split)
  thus ?thesis using resolve_sound[OF ok, of cfg reads writes sid token now g] resolve_complete[OF ok, of _ now cfg token reads writes]
    by (auto split: option.splits if_splits)
qed

section \<open>A closed session\<close>

definition closed :: "nat \<Rightarrow> guest_state \<Rightarrow> bool" where
  "closed sid s \<longleftrightarrow> sid < gs_next s \<and> (\<forall>r \<in> set (gs_rows s). gr_id r = sid \<longrightarrow> gr_revoked r \<noteq> None) \<and> gs_cache s sid = None"

lemma closed_read: "closed sid s \<Longrightarrow> read_row cfg sid token now s = None"
  using read_row_SomeD[of cfg sid token now s] by (cases "read_row cfg sid token now s") (auto simp: closed_def)

lemma closed_resolve:
  assumes "closed sid s"
  shows "resolveGuestSession cfg reads writes (Some sid) token now s = (None, s)"
proof -
  have "readCache reads sid now s = None" using assms by (simp add: readCache_def closed_def)
  thus ?thesis by (simp add: resolveGuestSession_def from_row_def closed_read[OF assms])
qed

lemma closed_entry: "closed sid s \<Longrightarrow> sid' \<noteq> sid \<Longrightarrow> closed sid (cache_entry up sid' e ttl now s)"
  by (simp add: closed_def cache_entry_def)

lemma closed_drop: "closed sid s \<Longrightarrow> closed sid (dropCache up sid' s)"
  by (simp add: closed_def dropCache_def)

lemma closed_slide: "closed sid s \<Longrightarrow> closed sid (slide cfg up sid' a now s)"
  by (auto simp: closed_def slide_def)

lemma closed_from_row:
  assumes "closed sid s" "sid' \<noteq> sid"
  shows "closed sid (snd (from_row cfg up sid' token now s))"
proof (cases "read_row cfg sid' token now s")
  case (Some r)
  hence "gr_id r \<noteq> sid" using read_row_SomeD[OF Some] assms(2) by simp
  thus ?thesis using Some closed_entry[OF assms(1)] by (simp add: from_row_def warm_def)
qed (simp add: from_row_def assms(1))

lemma closed_step:
  assumes "guest_step cfg s s'" "closed sid s"
  shows "closed sid s'"
  using assms
proof (induction rule: guest_step.induct)
  case (opened up rid tid token now s g s')
  let ?s1 = "s\<lparr>gs_rows := insert_row \<lparr>gr_id = gs_next s, gr_restaurant = rid, gr_table = tid, gr_hash = gc_hash cfg token,
     gr_expires = now + gc_max_age cfg * 1000, gr_revoked = None\<rparr> (gs_rows s), gs_next := Suc (gs_next s)\<rparr>"
  have "closed sid ?s1" "gs_next s \<noteq> sid" using opened.prems by (auto simp: closed_def)
  thus ?case using opened.hyps closed_entry[of sid ?s1 "gs_next s"] by (auto simp: createGuestSession_def Let_def split: if_splits)
next
  case (resolved s reads writes header token now)
  show ?case
  proof (cases "header = Some sid")
    case True
    thus ?thesis using closed_resolve[OF resolved.prems] resolved.prems by simp
  next
    case False
    hence other: "sid' \<noteq> sid" if "header = Some sid'" for sid' using that by blast
    note closed_from_row[OF resolved.prems other] closed_from_row[OF closed_drop[OF resolved.prems] other]
    thus ?thesis using resolved.prems
      by (simp add: resolveGuestSession_def closed_drop closed_slide split: option.split)
  qed
next
  case (ended s up header now)
  have "closed sid (s\<lparr>gs_rows := update_where P (\<lambda>r. r\<lparr>gr_revoked := Some now\<rparr>) (gs_rows s)\<rparr>)" for P
    using ended.prems by (auto simp: closed_def set_update_where)
  thus ?case by (simp add: destroyGuestSession_def closed_drop ended.prems split: option.split)
next
  case (forgotten s sid')
  thus ?case by (simp add: closed_def)
qed

text \<open>C17: A session closed while Redis answers is refused in every later state reached by
  requests that do not overlap, whatever they are.\<close>

theorem closed_session_stays_closed:
  assumes "guests_ok s" "r \<in> set (gs_rows s)" "(guest_step cfg)\<^sup>*\<^sup>* (destroyGuestSession True (Some (gr_id r)) now s) s'"
  shows "fst (authenticateGuest cfg reads writes (Some (Some (gr_id r))) token later s') = Inl (Account_E (if token = [] then Guest_Session_Missing else Guest_Session_Invalid))"
proof -
  have "closed (gr_id r) (destroyGuestSession True (Some (gr_id r)) now s)"
    using assms(1,2) by (auto simp: closed_def destroyGuestSession_def dropCache_def guests_ok_def set_update_where)
  with assms(3) have "closed (gr_id r) s'"
    by (induction rule: rtranclp_induct) (auto intro: closed_step)
  thus ?thesis by (simp add: authenticateGuest_def closed_resolve)
qed

text \<open>A session opened at table 3 of restaurant 7, for two hours of silence and twelve in all.\<close>

definition guest_demo :: guest_config where
  "guest_demo = \<lparr>gc_hash = rev, gc_session_ttl = 7200, gc_max_age = 43200\<rparr>"

definition no_guests :: guest_state where
  "no_guests = \<lparr>gs_rows = [], gs_cache = (\<lambda>sid. None), gs_next = 1\<rparr>"

definition one_guest :: guest_state where
  "one_guest = (case createGuestSession guest_demo True 7 3 ''secret'' 0 no_guests of Inl e \<Rightarrow> no_guests | Inr (g, s) \<Rightarrow> s)"

lemma one_guest_opened: "\<exists>g. createGuestSession guest_demo True 7 3 ''secret'' 0 no_guests = Inr (g, one_guest)"
proof -
  have "isr (createGuestSession guest_demo True 7 3 ''secret'' 0 no_guests)" by code_simp
  then obtain g s where r: "createGuestSession guest_demo True 7 3 ''secret'' 0 no_guests = Inr (g, s)" using isr_pair by blast
  thus ?thesis by (simp add: one_guest_def)
qed

lemma one_guest_ok: "guests_ok one_guest"
  using one_guest_opened create_ok[of no_guests] by (auto simp: no_guests_def guests_ok_def)

theorem guest_session_is_the_row_witness:
  "fst (authenticateGuest guest_demo False False (Some (Some 1)) ''secret'' 40000000 one_guest)
     = Inr \<lparr>gn_id = 1, gn_restaurant = 7, gn_table = 3\<rparr>"
proof -
  let ?r = "\<lparr>gr_id = 1, gr_restaurant = 7, gr_table = 3, gr_hash = rev ''secret'', gr_expires = 43200000, gr_revoked = None\<rparr>"
  have run: "(overlapping guest_demo)\<^sup>*\<^sup>* \<lparr>gs_rows = [], gs_cache = (\<lambda>sid. None), gs_next = 1\<rparr> one_guest"
    using one_guest_opened unfolding no_guests_def by (blast intro: r_into_rtranclp alone opened)
  have "gs_rows one_guest = [?r]" by code_simp
  hence row: "?r \<in> set (gs_rows one_guest)" by simp
  have "gr_id ?r = 1" "gr_revoked ?r = None" "40000000 + 1000 \<le> gr_expires ?r" "gr_hash ?r = gc_hash guest_demo ''secret''"
       "''secret'' \<noteq> []" "0 < gc_session_ttl guest_demo"
    by (simp_all add: guest_demo_def)
  from guest_session_is_the_row[OF run, THEN conjunct2, rule_format, OF row this]
  show ?thesis by simp
qed

theorem closed_session_stays_closed_witness:
  "fst (authenticateGuest guest_demo True True (Some (Some 1)) ''secret'' 90000 (destroyGuestSession True (Some 1) 60000 one_guest))
     = Inl (Account_E Guest_Session_Invalid)"
proof -
  have "\<exists>r \<in> set (gs_rows one_guest). gr_id r = 1" by code_simp
  then obtain r where r: "r \<in> set (gs_rows one_guest)" "gr_id r = 1" by blast
  show ?thesis
    using closed_session_stays_closed[OF one_guest_ok r(1), of guest_demo 60000] r(2) by fastforce
qed

text \<open>What the two properties do not promise.  A request that read its row before the session was
  closed warms the cache after it: the closed session answers again.\<close>

lemma late_warming_reopens:
  "(case read_row guest_demo 1 ''secret'' 50000 one_guest of
      None \<Rightarrow> False
    | Some r \<Rightarrow>
        (let closed_state = destroyGuestSession True (Some 1) 50001 one_guest;
             s = warm guest_demo True r 50002 closed_state
         in fst (resolveGuestSession guest_demo True True (Some 1) ''secret'' 60000 closed_state) = None \<and>
            fst (resolveGuestSession guest_demo True True (Some 1) ''secret'' 60000 s) \<noteq> None))"
  by code_simp

text \<open>A session closed while Redis does not answer keeps its entry, which every request renews: it is still
  answered three idle times later, and up to the cap.\<close>

definition visit :: "int \<Rightarrow> guest_state \<Rightarrow> guest_state" where
  "visit now s = snd (resolveGuestSession guest_demo True True (Some 1) ''secret'' now s)"

lemma missed_delete_lasts_to_the_cap:
  "fst (resolveGuestSession guest_demo True True (Some 1) ''secret'' 28000000
     (visit 21000000 (visit 14000000 (visit 7000000 (destroyGuestSession False (Some 1) 1000000 one_guest))))) \<noteq> None"
  by code_simp

text \<open>The idle time ends no session: after eleven hours of silence the row answers.\<close>

lemma silence_ends_nothing:
  "fst (resolveGuestSession guest_demo True True (Some 1) ''secret'' 39600000 one_guest) \<noteq> None"
  by code_simp

section \<open>Contacts\<close>

record guest_contact =
  co_restaurant :: nat
  co_email :: string
  co_name :: "string option"
  co_invoice_opt_in :: bool
  co_consent :: bool
  co_consent_at :: "int option"
  co_source :: "string option"
  co_withdrawn :: "int option"
  co_bill :: "nat option"
  co_created :: int

definition normalise_email :: "string \<Rightarrow> string" where
  "normalise_email email = map lower (trim email)"

text \<open>The two CHECKs of migration 042.\<close>

definition contact_checks :: "guest_contact \<Rightarrow> bool" where
  "contact_checks c \<longleftrightarrow> (\<not> co_consent c \<or> co_consent_at c \<noteq> None) \<and> (co_withdrawn c = None \<or> \<not> co_consent c)"

record contact_input =
  ci_restaurant :: nat
  ci_bill :: "nat option"
  ci_email :: string
  ci_name :: "string option"
  ci_consent :: "bool option"
  ci_source :: "string option"

definition new_contact :: "contact_input \<Rightarrow> int \<Rightarrow> guest_contact" where
  "new_contact i now =
     (let yes = (ci_consent i = Some True) in
      \<lparr>co_restaurant = ci_restaurant i, co_email = normalise_email (ci_email i), co_name = ci_name i, co_invoice_opt_in = True,
       co_consent = yes, co_consent_at = (if yes then Some now else None),
       co_source = Some (case ci_source i of None \<Rightarrow> ''GUEST_CHECKOUT'' | Some x \<Rightarrow> x),
       co_withdrawn = None, co_bill = ci_bill i, co_created = now\<rparr>)"

text \<open>The assignments of \<open>DO UPDATE SET\<close>; each reads the row as it was.\<close>

definition coalesce :: "'a option \<Rightarrow> 'a option \<Rightarrow> 'a option" where
  "coalesce a b = (case a of None \<Rightarrow> b | Some x \<Rightarrow> Some x)"

definition merge_contact :: "contact_input \<Rightarrow> int \<Rightarrow> guest_contact \<Rightarrow> guest_contact" where
  "merge_contact i now c =
     (let yes = (ci_consent i = Some True) in
      c\<lparr>co_name := coalesce (ci_name i) (co_name c),
        co_consent := (if co_withdrawn c \<noteq> None then False else if yes then True else co_consent c),
        co_consent_at := (if co_withdrawn c \<noteq> None then co_consent_at c else if yes \<and> \<not> co_consent c then Some now else co_consent_at c),
        co_source := (if co_withdrawn c = None \<and> yes \<and> \<not> co_consent c
                      then Some (case ci_source i of None \<Rightarrow> ''GUEST_CHECKOUT'' | Some x \<Rightarrow> x) else co_source c),
        co_bill := coalesce (ci_bill i) (co_bill c)\<rparr>)"

definition at_address :: "nat \<Rightarrow> string \<Rightarrow> guest_contact \<Rightarrow> bool" where
  "at_address rid address c \<longleftrightarrow> co_restaurant c = rid \<and> map lower (co_email c) = map lower address"

definition upsert_contact :: "contact_input \<Rightarrow> int \<Rightarrow> guest_contact table \<Rightarrow> error + guest_contact \<times> guest_contact table" where
  "upsert_contact i now t =
     (let here = at_address (ci_restaurant i) (normalise_email (ci_email i)) in
      case find_by here t of
        None \<Rightarrow>
          (let c = new_contact i now in
           if contact_checks c then Inr (c, insert_row c t) else Inl (General (Db_Check ''guest_contacts'')))
      | Some old \<Rightarrow>
          (let c = merge_contact i now old in
           if contact_checks c then Inr (c, update_where here (merge_contact i now) t)
           else Inl (General (Db_Check ''guest_contacts''))))"

definition withdraw_contact :: "nat \<Rightarrow> string \<Rightarrow> int \<Rightarrow> guest_contact table \<Rightarrow> guest_contact option \<times> guest_contact table" where
  "withdraw_contact rid email now t =
     (let here = at_address rid (normalise_email email);
          t' = update_where here (\<lambda>c. c\<lparr>co_consent := False, co_withdrawn := Some now\<rparr>) t
      in (find_by here t', t'))"

definition listConsented :: "nat \<Rightarrow> nat \<Rightarrow> nat \<Rightarrow> guest_contact table \<Rightarrow> guest_contact list" where
  "listConsented rid limit offset t =
     take limit (drop offset (sort_key (\<lambda>c. - co_created c)
       (filter (\<lambda>c. co_restaurant c = rid \<and> co_consent c \<and> co_withdrawn c = None) t)))"

section \<open>Consent\<close>

text \<open>What the policy of guestContacts.js promises about one address at one restaurant: saying nothing is not
  a yes, a yes is dated once, and a withdrawal is final.\<close>

datatype consent = Unknown | Silent | Consented int string | Withdrawn

datatype contact_event = Left_Contact contact_input int | Withdrew nat string int

fun consent_step :: "nat \<Rightarrow> string \<Rightarrow> consent \<Rightarrow> contact_event \<Rightarrow> consent" where
  "consent_step rid address c (Left_Contact i now) =
     (if ci_restaurant i \<noteq> rid \<or> normalise_email (ci_email i) \<noteq> address then c
      else case c of
             Withdrawn \<Rightarrow> Withdrawn
           | Consented at since \<Rightarrow> Consented at since
           | _ \<Rightarrow> if ci_consent i = Some True
                  then Consented now (case ci_source i of None \<Rightarrow> ''GUEST_CHECKOUT'' | Some x \<Rightarrow> x) else Silent)"
| "consent_step rid address c (Withdrew rid' email now) =
     (if rid' \<noteq> rid \<or> normalise_email email \<noteq> address \<or> c = Unknown then c else Withdrawn)"

fun contact_run :: "contact_event list \<Rightarrow> guest_contact table \<Rightarrow> error + guest_contact table" where
  "contact_run [] t = Inr t"
| "contact_run (Left_Contact i now # es) t = and_then (upsert_contact i now t) (\<lambda>(c, t'). contact_run es t')"
| "contact_run (Withdrew rid email now # es) t = contact_run es (snd (withdraw_contact rid email now t))"

definition consent_of :: "nat \<Rightarrow> string \<Rightarrow> guest_contact table \<Rightarrow> consent" where
  "consent_of rid address t =
     (case find_by (at_address rid address) t of
        None \<Rightarrow> Unknown
      | Some c \<Rightarrow> if co_withdrawn c \<noteq> None then Withdrawn
                  else if co_consent c then Consented (the (co_consent_at c)) (the (co_source c)) else Silent)"

lemma lower_lower [simp]: "lower (lower c) = lower c"
proof -
  have "of_char (char_of n :: char) = n" if "n < 256" for n :: nat using that by simp
  thus ?thesis by (simp add: lower_def Let_def)
qed

lemma lower_normalise [simp]: "map lower (normalise_email e) = normalise_email e"
  by (simp add: normalise_email_def)

definition contacts_ok :: "guest_contact table \<Rightarrow> bool" where
  "contacts_ok t \<longleftrightarrow> keyed (\<lambda>c. (co_restaurant c, co_email c)) t \<and>
     (\<forall>c \<in> set t. contact_checks c \<and> map lower (co_email c) = co_email c \<and> co_source c \<noteq> None)"

lemma at_normal:
  assumes "contacts_ok t" "c \<in> set t" "map lower address = address"
  shows "at_address rid address c \<longleftrightarrow> (co_restaurant c, co_email c) = (rid, address)"
  using assms by (auto simp: at_address_def contacts_ok_def)

lemma merge_keeps:
  assumes "contact_checks c" "co_source c \<noteq> None"
  shows "contact_checks (merge_contact i now c)" "co_source (merge_contact i now c) \<noteq> None"
    "co_restaurant (merge_contact i now c) = co_restaurant c" "co_email (merge_contact i now c) = co_email c"
    "co_withdrawn (merge_contact i now c) = co_withdrawn c"
  using assms by (auto simp: merge_contact_def contact_checks_def Let_def)

lemma contact_update_ok:
  assumes "contacts_ok t"
    and "\<And>c. contact_checks c \<Longrightarrow> co_source c \<noteq> None \<Longrightarrow> contact_checks (f c) \<and> co_source (f c) \<noteq> None"
    and "\<And>c. co_restaurant (f c) = co_restaurant c" "\<And>c. co_email (f c) = co_email c"
  shows "contacts_ok (update_where P f t)"
proof -
  have "keyed (\<lambda>c. (co_restaurant c, co_email c)) (update_where P f t)"
    by (rule keyed_update) (use assms in \<open>simp_all add: contacts_ok_def\<close>)
  moreover have "contact_checks c \<and> map lower (co_email c) = co_email c \<and> co_source c \<noteq> None" if mem: "c \<in> set (update_where P f t)" for c
  proof -
    obtain d where d: "d \<in> set t" "c = (if P d then f d else d)" using mem unfolding set_update_where by blast
    have "contact_checks d" "map lower (co_email d) = co_email d" "co_source d \<noteq> None" using assms(1) d(1) by (simp_all add: contacts_ok_def)
    thus ?thesis using d(2) assms(2)[of d] assms(4)[of d] by auto
  qed
  ultimately show ?thesis by (simp add: contacts_ok_def)
qed

lemma find_update:
  assumes "keyed k t" "\<And>c. k (f c) = k c" "\<And>c. c \<in> set t \<Longrightarrow> P c \<longleftrightarrow> k c = x" "\<And>c. c \<in> set t \<Longrightarrow> Q c \<longleftrightarrow> k c = y"
    "\<And>c. c \<in> set t \<Longrightarrow> Q (f c) \<longleftrightarrow> Q c"
  shows "find_by Q (update_where P f t) = (if x = y then map_option f (find_by Q t) else find_by Q t)"
  using assms(1,3,4,5)
proof (induction t)
  case (Cons c t)
  have "find_by Q (update_where P f t) = (if x = y then map_option f (find_by Q t) else find_by Q t)"
    by (rule Cons.IH) (use Cons.prems in \<open>auto simp: keyed_def\<close>)
  thus ?case using Cons.prems(2)[of c] Cons.prems(3)[of c] Cons.prems(4)[of c]
    by (auto simp: find_by_def update_where_def)
qed (simp add: find_by_def)

lemma consent_updated:
  assumes ok: "contacts_ok t" and a: "map lower a = a" and b: "map lower b = b"
    and f: "\<And>c. co_restaurant (f c) = co_restaurant c" "\<And>c. co_email (f c) = co_email c"
  shows "find_by (at_address rid a) (update_where (at_address rid' b) f t)
    = (if (rid', b) = (rid, a) then map_option f (find_by (at_address rid a) t) else find_by (at_address rid a) t)"
proof (rule find_update[of "\<lambda>c. (co_restaurant c, co_email c)"])
  show "at_address rid' b c \<longleftrightarrow> (co_restaurant c, co_email c) = (rid', b)" if "c \<in> set t" for c by (rule at_normal[OF ok that b])
  show "at_address rid a c \<longleftrightarrow> (co_restaurant c, co_email c) = (rid, a)" if "c \<in> set t" for c by (rule at_normal[OF ok that a])
qed (use ok f in \<open>simp_all add: contacts_ok_def at_address_def\<close>)

lemma found_contact:
  assumes "contacts_ok t" "find_by (at_address rid a) t = Some c"
  shows "contact_checks c \<and> co_source c \<noteq> None"
  using assms find_by_SomeD[OF assms(2)] by (simp add: contacts_ok_def)

lemma upsert_refines:
  assumes ok: "contacts_ok t"
  shows "\<exists>c t'. upsert_contact i now t = Inr (c, t') \<and> contacts_ok t' \<and>
    (\<forall>rid a. map lower a = a \<longrightarrow> consent_of rid a t' = consent_step rid a (consent_of rid a t) (Left_Contact i now))"
proof -
  let ?a = "normalise_email (ci_email i)"
  let ?here = "at_address (ci_restaurant i) ?a"
  show ?thesis
  proof (cases "find_by ?here t")
    case None
    let ?c = "new_contact i now"
    have "contact_checks ?c" by (simp add: new_contact_def contact_checks_def Let_def)
    have new: "(co_restaurant ?c, co_email ?c) = (ci_restaurant i, ?a)" by (simp add: new_contact_def Let_def)
    have "(co_restaurant ?c, co_email ?c) \<notin> (\<lambda>c. (co_restaurant c, co_email c)) ` set t"
      using None at_normal[OF ok, of _ ?a "ci_restaurant i"] unfolding new by (auto simp: find_by_None image_iff)
    hence "keyed (\<lambda>c. (co_restaurant c, co_email c)) (insert_row ?c t)" using ok by (simp add: contacts_ok_def keyed_insert)
    moreover have "map lower (co_email ?c) = co_email ?c" "co_source ?c \<noteq> None" by (simp_all add: new_contact_def Let_def)
    ultimately have "contacts_ok (insert_row ?c t)" using ok \<open>contact_checks ?c\<close> by (simp add: contacts_ok_def)
    moreover have "consent_of rid a (insert_row ?c t) = consent_step rid a (consent_of rid a t) (Left_Contact i now)"
      if a: "map lower a = a" for rid a
    proof -
      have here: "at_address rid a ?c \<longleftrightarrow> rid = ci_restaurant i \<and> a = ?a" using new a by (auto simp: at_address_def)
      show ?thesis
      proof (cases "rid = ci_restaurant i \<and> a = ?a")
        case True
        thus ?thesis using None here by (simp add: consent_of_def find_by_insert) (simp add: new_contact_def Let_def)
      next
        case False
        hence "find_by (at_address rid a) (insert_row ?c t) = find_by (at_address rid a) t"
          using here by (auto simp: find_by_insert split: option.split)
        thus ?thesis using False by (auto simp: consent_of_def)
      qed
    qed
    ultimately show ?thesis using None \<open>contact_checks ?c\<close> by (simp add: upsert_contact_def Let_def)
  next
    case (Some c)
    note c = found_contact[OF ok Some]
    have ok': "contacts_ok (update_where ?here (merge_contact i now) t)"
      by (rule contact_update_ok[OF ok]) (use merge_keeps in \<open>auto simp: merge_contact_def Let_def\<close>)
    have "consent_of rid a (update_where ?here (merge_contact i now) t) = consent_step rid a (consent_of rid a t) (Left_Contact i now)"
      if a: "map lower a = a" for rid a
    proof (cases "rid = ci_restaurant i \<and> a = ?a")
      case True
      hence "find_by (at_address rid a) (update_where ?here (merge_contact i now) t) = Some (merge_contact i now c)"
        using consent_updated[OF ok a lower_normalise, of "merge_contact i now" rid "ci_restaurant i" "ci_email i"] Some
        by (simp add: merge_contact_def Let_def)
      thus ?thesis using True Some c by (auto simp: consent_of_def merge_contact_def contact_checks_def Let_def)
    next
      case False
      hence "find_by (at_address rid a) (update_where ?here (merge_contact i now) t) = find_by (at_address rid a) t"
        using consent_updated[OF ok a lower_normalise, of "merge_contact i now" rid "ci_restaurant i" "ci_email i"]
        by (auto simp: merge_contact_def Let_def)
      thus ?thesis using False by (auto simp: consent_of_def)
    qed
    thus ?thesis using Some ok' merge_keeps(1)[of c] c by (simp add: upsert_contact_def Let_def)
  qed
qed

lemma withdraw_refines:
  assumes ok: "contacts_ok t"
  shows "contacts_ok (snd (withdraw_contact rid' e now t)) \<and>
    (\<forall>rid a. map lower a = a \<longrightarrow> consent_of rid a (snd (withdraw_contact rid' e now t))
       = consent_step rid a (consent_of rid a t) (Withdrew rid' e now))"
proof (intro conjI allI impI)
  let ?f = "\<lambda>c. c\<lparr>co_consent := False, co_withdrawn := Some now\<rparr>"
  let ?here = "at_address rid' (normalise_email e)"
  have t': "snd (withdraw_contact rid' e now t) = update_where ?here ?f t" by (simp add: withdraw_contact_def Let_def)
  show "contacts_ok (snd (withdraw_contact rid' e now t))"
    unfolding t' by (rule contact_update_ok[OF ok]) (simp_all add: contact_checks_def)
  fix rid a assume a: "map lower a = a"
  have f: "find_by (at_address rid a) (update_where ?here ?f t)
      = (if (rid', normalise_email e) = (rid, a) then map_option ?f (find_by (at_address rid a) t) else find_by (at_address rid a) t)"
    by (rule consent_updated[OF ok a lower_normalise]) simp_all
  show "consent_of rid a (snd (withdraw_contact rid' e now t)) = consent_step rid a (consent_of rid a t) (Withdrew rid' e now)"
    unfolding t' consent_of_def f by (auto split: option.split)
qed

lemma contact_run_refines:
  assumes "contacts_ok t"
  shows "\<exists>t'. contact_run es t = Inr t' \<and> contacts_ok t' \<and>
    (\<forall>rid a. map lower a = a \<longrightarrow> consent_of rid a t' = foldl (consent_step rid a) (consent_of rid a t) es)"
  using assms
proof (induction es arbitrary: t)
  case (Cons e es)
  show ?case
  proof (cases e)
    case (Left_Contact i now)
    obtain c t1 where t1: "upsert_contact i now t = Inr (c, t1)" "contacts_ok t1"
        "\<forall>rid a. map lower a = a \<longrightarrow> consent_of rid a t1 = consent_step rid a (consent_of rid a t) e"
      using upsert_refines[OF Cons.prems, of i now] Left_Contact by blast
    obtain t2 where "contact_run es t1 = Inr t2" "contacts_ok t2"
        "\<forall>rid a. map lower a = a \<longrightarrow> consent_of rid a t2 = foldl (consent_step rid a) (consent_of rid a t1) es"
      using Cons.IH[OF t1(2)] by blast
    thus ?thesis using t1(1,3) Left_Contact by simp
  next
    case (Withdrew rid' em now)
    let ?t1 = "snd (withdraw_contact rid' em now t)"
    have t1: "contacts_ok ?t1" "\<forall>rid a. map lower a = a \<longrightarrow> consent_of rid a ?t1 = consent_step rid a (consent_of rid a t) e"
      using withdraw_refines[OF Cons.prems, of rid' em now] Withdrew by blast+
    obtain t2 where "contact_run es ?t1 = Inr t2" "contacts_ok t2"
        "\<forall>rid a. map lower a = a \<longrightarrow> consent_of rid a t2 = foldl (consent_step rid a) (consent_of rid a ?t1) es"
      using Cons.IH[OF t1(1)] by blast
    thus ?thesis using t1(2) Withdrew by simp
  qed
qed simp

lemma listed_consented:
  assumes "contacts_ok t" "c \<in> set t"
  shows "c \<in> set (listConsented rid (length t) 0 t) \<longleftrightarrow>
    co_restaurant c = rid \<and> consent_of rid (co_email c) t = Consented (the (co_consent_at c)) (the (co_source c))"
proof -
  have keyed: "keyed (\<lambda>c. (co_restaurant c, co_email c)) t" and low: "map lower (co_email c) = co_email c"
    using assms by (simp_all add: contacts_ok_def)
  have found: "find_by (at_address (co_restaurant c) (co_email c)) t = Some c"
  proof -
    have here: "at_address (co_restaurant c) (co_email c) c" by (simp add: at_address_def)
    then obtain d where d: "find_by (at_address (co_restaurant c) (co_email c)) t = Some d"
      using assms(2) find_by_None[of _ t] by (cases "find_by (at_address (co_restaurant c) (co_email c)) t") auto
    hence "(co_restaurant d, co_email d) = (co_restaurant c, co_email c)"
      using find_by_SomeD[OF d] at_normal[OF assms(1) _ low] by blast
    thus ?thesis using keyed_unique[OF keyed _ assms(2), of d] find_by_SomeD[OF d] d by simp
  qed
  have "length (filter P t) \<le> length t" for P by simp
  hence listed: "set (listConsented rid (length t) 0 t) = {c \<in> set t. co_restaurant c = rid \<and> co_consent c \<and> co_withdrawn c = None}"
    by (simp add: listConsented_def)
  show ?thesis
  proof (cases "co_restaurant c = rid")
    case True
    have "consent_of rid (co_email c) t = (if co_withdrawn c \<noteq> None then Withdrawn
        else if co_consent c then Consented (the (co_consent_at c)) (the (co_source c)) else Silent)"
      using found unfolding True by (simp add: consent_of_def)
    thus ?thesis using True assms(2) unfolding listed by simp
  qed (simp add: listed)
qed

text \<open>C18: Contacts implement the policy of consent: after any sequence of addresses left and
  withdrawn, an address is on the restaurant's list, with the date and origin recorded,
  exactly when the policy says it consented then and there; no constraint of the table is
  ever violated.\<close>

theorem consent_needs_a_yes:
  "\<exists>t. contact_run events [] = Inr t \<and>
     (\<forall>rid email since source.
        (\<exists>c \<in> set (listConsented rid (length t) 0 t). co_email c = normalise_email email \<and> co_consent_at c = Some since \<and> co_source c = Some source)
          \<longleftrightarrow> foldl (consent_step rid (normalise_email email)) Unknown events = Consented since source)"
proof -
  have "contacts_ok []" by (simp add: contacts_ok_def)
  from contact_run_refines[OF this, of events] obtain t where t: "contact_run events [] = Inr t" "contacts_ok t"
      and abs: "\<forall>rid a. map lower a = a \<longrightarrow> consent_of rid a t = foldl (consent_step rid a) (consent_of rid a []) events" by blast
  have "(\<exists>c \<in> set (listConsented rid (length t) 0 t). co_email c = normalise_email email \<and> co_consent_at c = Some since \<and> co_source c = Some source)
      \<longleftrightarrow> consent_of rid (normalise_email email) t = Consented since source" (is "?l \<longleftrightarrow> ?r") for rid email since source
  proof
    assume ?l
    then obtain c where c: "c \<in> set (listConsented rid (length t) 0 t)" "co_email c = normalise_email email"
        "co_consent_at c = Some since" "co_source c = Some source" by blast
    have "c \<in> set t" using c(1) by (auto simp: listConsented_def dest!: in_set_takeD)
    thus ?r using listed_consented[OF t(2), of c rid] c by simp
  next
    assume r: ?r
    then obtain c where c: "find_by (at_address rid (normalise_email email)) t = Some c"
        "co_withdrawn c = None" "co_consent c" "the (co_consent_at c) = since" "the (co_source c) = source"
      by (auto simp: consent_of_def split: option.splits if_splits)
    have at: "c \<in> set t" "(co_restaurant c, co_email c) = (rid, normalise_email email)"
      using find_by_SomeD[OF c(1)] at_normal[OF t(2), of c "normalise_email email"] by auto
    have some: "co_consent_at c = Some since" "co_source c = Some source"
      using found_contact[OF t(2) c(1)] c by (auto simp: contact_checks_def)
    have "c \<in> set (listConsented rid (length t) 0 t)" using listed_consented[OF t(2) at(1), of rid] at(2) r some by simp
    thus ?l using at(2) some by auto
  qed
  moreover have "consent_of rid a [] = Unknown" for rid a by (simp add: consent_of_def find_by_def)
  ultimately show ?thesis using t(1) abs by (intro exI[of _ t]) simp
qed

text \<open>A diner who leaves the address twice, the second time with a yes, and one who withdrew it before.\<close>

lemma contact_example:
  "(case contact_run [Left_Contact \<lparr>ci_restaurant = 7, ci_bill = None, ci_email = '' Ana@X.com '', ci_name = None, ci_consent = None, ci_source = None\<rparr> 10,
       Left_Contact \<lparr>ci_restaurant = 7, ci_bill = None, ci_email = ''ana@x.com'', ci_name = None, ci_consent = Some True, ci_source = None\<rparr> 20,
       Left_Contact \<lparr>ci_restaurant = 7, ci_bill = None, ci_email = ''eva@x.com'', ci_name = None, ci_consent = Some True, ci_source = None\<rparr> 30,
       Withdrew 7 ''EVA@x.com'' 40,
       Left_Contact \<lparr>ci_restaurant = 7, ci_bill = None, ci_email = ''eva@x.com'', ci_name = None, ci_consent = Some True, ci_source = None\<rparr> 50] [] of
      Inl e \<Rightarrow> False
    | Inr t \<Rightarrow> map co_email (listConsented 7 10 0 t) = [''ana@x.com''])"
  by code_simp

end
