(* ===== verification/Menu.thy ===== *)
theory Menu
  imports Store
begin

text \<open>
  The menu a restaurant maintains (routes/menu.js): its sections, its products, their order, the
  currency and the charges, importing a menu that was read from a photograph, and the photographs.
  A row of \<open>menu_products\<close> is a \<open>dish\<close> here, with the columns the bills do not read; \<open>menu_of\<close> is
  what the bills see of it.  The bodies have passed the request schemas of middleware/schemas.js;
  what an operation relies on of them is a guard that answers \<open>Validation_Failed\<close>.
\<close>

section \<open>Rows\<close>

record category =
  ct_id :: nat
  ct_restaurant :: nat
  ct_name :: string
  ct_position :: int
  ct_active :: bool

record dish =
  di_id :: nat
  di_restaurant :: nat
  di_name :: string
  di_description :: "string option"
  di_price :: int
  di_currency :: string
  di_category :: "nat option"
  di_position :: int
  di_active :: bool
  di_tax :: tax_category
  di_vat :: "int option"

record photo =
  ph_dish :: nat
  ph_restaurant :: nat
  ph_bytes :: "8 word list"
  ph_type :: string
  ph_checksum :: string

record menu_state =
  me_restaurants :: "restaurant table"
  me_categories :: "category table"
  me_dishes :: "dish table"
  me_photos :: "photo table"
  me_next :: nat

definition product_of :: "dish \<Rightarrow> product" where
  "product_of d = \<lparr>prod_id = di_id d, prod_restaurant = di_restaurant d, prod_name = di_name d, price_minor_units = di_price d,
     prod_currency = di_currency d, prod_active = di_active d, prod_tax_category = Some (di_tax d), prod_vat_bps = di_vat d\<rparr>"

definition menu_of :: "menu_state \<Rightarrow> product table" where
  "menu_of s = map product_of (me_dishes s)"

text \<open>The CHECKs of migrations 005 and 038, in the order PostgreSQL reports the first of them.\<close>

definition dish_checks :: "dish \<Rightarrow> error + unit" where
  "dish_checks d =
     (if di_price d < 0 then Inl (General (Db_Check ''menu_products_price_minor_units_check''))
      else if di_currency d \<notin> {''VES'', ''USD'', ''EUR''} then Inl (General (Db_Check ''menu_products_currency_check''))
      else if (case di_vat d of None \<Rightarrow> False | Some v \<Rightarrow> v < 0 \<or> v > 10000) then Inl (General (Db_Check ''menu_products_vat_bps_range''))
      else if di_tax d \<noteq> TAXABLE \<and> di_vat d \<noteq> None then Inl (General (Db_Check ''menu_products_vat_only_when_taxable''))
      else Inr ())"

definition has_category :: "nat \<Rightarrow> nat option \<Rightarrow> category table \<Rightarrow> bool" where
  "has_category rid c t = (case c of None \<Rightarrow> True | Some cid \<Rightarrow> list_ex (\<lambda>x. ct_id x = cid \<and> ct_restaurant x = rid) t)"

section \<open>Order\<close>

text \<open>\<open>MENU_ORDER\<close>: by section, then by place, then by name; what has no section comes last.\<close>

fun string_le :: "string \<Rightarrow> string \<Rightarrow> bool" where
  "string_le [] t = True"
| "string_le (c # s) [] = False"
| "string_le (c # s) (d # t) = (if c = d then string_le s t else (of_char c :: nat) < of_char d)"

definition section_of :: "nat \<Rightarrow> nat option \<Rightarrow> menu_state \<Rightarrow> dish list" where
  "section_of rid c s = filter (\<lambda>d. di_restaurant d = rid \<and> di_category d = c) (me_dishes s)"

definition category_of :: "menu_state \<Rightarrow> dish \<Rightarrow> category option" where
  "category_of s d =
     (case di_category d of None \<Rightarrow> None
      | Some cid \<Rightarrow> find_by (\<lambda>c. ct_id c = cid \<and> ct_restaurant c = di_restaurant d) (me_categories s))"

definition place_le :: "int \<times> string \<Rightarrow> int \<times> string \<Rightarrow> bool" where
  "place_le a b \<longleftrightarrow> fst a < fst b \<or> fst a = fst b \<and> string_le (snd a) (snd b)"

definition menu_before :: "category option \<times> dish \<Rightarrow> category option \<times> dish \<Rightarrow> bool" where
  "menu_before x y =
     (case (fst x, fst y) of
        (None, None) \<Rightarrow> place_le (di_position (snd x), di_name (snd x)) (di_position (snd y), di_name (snd y))
      | (None, Some _) \<Rightarrow> False
      | (Some _, None) \<Rightarrow> True
      | (Some c, Some d) \<Rightarrow>
          if (ct_position c, ct_name c) = (ct_position d, ct_name d)
          then place_le (di_position (snd x), di_name (snd x)) (di_position (snd y), di_name (snd y))
          else place_le (ct_position c, ct_name c) (ct_position d, ct_name d))"

fun insort_by :: "('a \<Rightarrow> 'a \<Rightarrow> bool) \<Rightarrow> 'a \<Rightarrow> 'a list \<Rightarrow> 'a list" where
  "insort_by le x [] = [x]"
| "insort_by le x (y # ys) = (if le x y then x # y # ys else y # insort_by le x ys)"

definition sort_by :: "('a \<Rightarrow> 'a \<Rightarrow> bool) \<Rightarrow> 'a list \<Rightarrow> 'a list" where
  "sort_by le xs = foldr (insort_by le) xs []"

text \<open>\<open>GET /menu/products\<close>: the filter on \<open>categoryId\<close> is absent, \<open>'none'\<close> or a section.\<close>

definition listProducts :: "nat \<Rightarrow> bool option \<Rightarrow> nat option option \<Rightarrow> nat \<Rightarrow> nat \<Rightarrow> menu_state \<Rightarrow> dish list" where
  "listProducts rid active category limit offset s =
     take limit (drop offset (map snd (sort_by menu_before (map (\<lambda>d. (category_of s d, d))
       (filter (\<lambda>d. di_restaurant d = rid \<and> (case active of None \<Rightarrow> True | Some a \<Rightarrow> di_active d = a)
          \<and> (case category of None \<Rightarrow> True | Some c \<Rightarrow> di_category d = c)) (me_dishes s))))))"

text \<open>\<open>GET /menu/public/:restaurantId/products\<close>: a section that is off hides its dishes.\<close>

definition shown :: "menu_state \<Rightarrow> dish \<Rightarrow> category option" where
  "shown s d = (case category_of s d of None \<Rightarrow> None | Some c \<Rightarrow> if ct_active c then Some c else None)"

definition publicMenu :: "(nat \<Rightarrow> bool) \<Rightarrow> nat \<Rightarrow> menu_state \<Rightarrow> error + category list \<times> dish list" where
  "publicMenu open_for_business rid s =
     (if \<not> list_ex (\<lambda>r. rs_id r = rid \<and> open_for_business rid) (me_restaurants s) then Inl (General Restaurant_Not_Found)
      else Inr (sort_by (\<lambda>a b. place_le (ct_position a, ct_name a) (ct_position b, ct_name b))
                  (filter (\<lambda>c. ct_restaurant c = rid \<and> ct_active c) (me_categories s)),
                map snd (sort_by menu_before (map (\<lambda>d. (shown s d, d))
                  (filter (\<lambda>d. di_restaurant d = rid \<and> di_active d \<and> (di_category d = None \<or> shown s d \<noteq> None)) (me_dishes s))))))"

section \<open>Settings\<close>

text \<open>Counting the products that disagree and changing the currency are two statements.\<close>

definition mismatched :: "nat \<Rightarrow> string \<Rightarrow> menu_state \<Rightarrow> nat" where
  "mismatched rid currency s =
     length (filter (\<lambda>d. di_restaurant d = rid \<and> di_active d \<and> di_currency d \<noteq> currency) (me_dishes s))"

definition write_currency :: "nat \<Rightarrow> string \<Rightarrow> menu_state \<Rightarrow> error + menu_state" where
  "write_currency rid currency s =
     (if \<not> list_ex (\<lambda>r. rs_id r = rid) (me_restaurants s) then Inl (General Restaurant_Not_Found)
      else Inr (s\<lparr>me_restaurants := update_where (\<lambda>r. rs_id r = rid) (\<lambda>r. r\<lparr>rs_menu_currency := currency\<rparr>) (me_restaurants s)\<rparr>))"

definition setCurrency :: "nat \<Rightarrow> string \<Rightarrow> menu_state \<Rightarrow> error + menu_state" where
  "setCurrency rid currency s =
     (if mismatched rid currency s > 0 then Inl (Bill_E Menu_Currency_Mismatch) else write_currency rid currency s)"

definition setCharges :: "nat \<Rightarrow> int option \<Rightarrow> int option \<Rightarrow> menu_state \<Rightarrow> error + menu_state" where
  "setCharges rid vat service s =
     (if \<not> list_ex (\<lambda>r. rs_id r = rid) (me_restaurants s) then Inl (General Restaurant_Not_Found)
      else Inr (s\<lparr>me_restaurants := update_where (\<lambda>r. rs_id r = rid)
             (\<lambda>r. r\<lparr>rs_vat_bps := (case vat of None \<Rightarrow> rs_vat_bps r | Some v \<Rightarrow> v),
                    rs_service_bps := (case service of None \<Rightarrow> rs_service_bps r | Some v \<Rightarrow> v)\<rparr>) (me_restaurants s)\<rparr>))"

section \<open>Sections\<close>

text \<open>\<open>COALESCE(MAX(position), -1) + 1\<close>.\<close>

definition next_place :: "int list \<Rightarrow> int" where
  "next_place ps = foldr max ps (- 1) + 1"

definition name_taken :: "nat \<Rightarrow> string \<Rightarrow> category table \<Rightarrow> bool" where
  "name_taken rid name t = list_ex (\<lambda>c. ct_restaurant c = rid \<and> ct_name c = name) t"

definition end_of_menu :: "nat \<Rightarrow> menu_state \<Rightarrow> int" where
  "end_of_menu rid s = next_place (map ct_position (filter (\<lambda>c. ct_restaurant c = rid) (me_categories s)))"

definition createCategory :: "nat \<Rightarrow> string \<Rightarrow> int option \<Rightarrow> bool \<Rightarrow> menu_state \<Rightarrow> error + category \<times> menu_state" where
  "createCategory rid name position active s =
     (let place = (case position of None \<Rightarrow> end_of_menu rid s | Some p \<Rightarrow> p);
          c = \<lparr>ct_id = me_next s, ct_restaurant = rid, ct_name = name, ct_position = place, ct_active = active\<rparr>
      in if name_taken rid name (me_categories s) then Inl (Menu_E Category_Name_Taken)
         else Inr (c, s\<lparr>me_categories := insert_row c (me_categories s), me_next := Suc (me_next s)\<rparr>))"

definition updateCategory :: "nat \<Rightarrow> nat \<Rightarrow> string option \<Rightarrow> int option \<Rightarrow> bool option \<Rightarrow> menu_state \<Rightarrow> error + menu_state" where
  "updateCategory rid cid name position active s =
     (let hit = (\<lambda>c. ct_id c = cid \<and> ct_restaurant c = rid);
          upd = (\<lambda>c. c\<lparr>ct_name := (case name of None \<Rightarrow> ct_name c | Some n \<Rightarrow> n),
                       ct_position := (case position of None \<Rightarrow> ct_position c | Some p \<Rightarrow> p),
                       ct_active := (case active of None \<Rightarrow> ct_active c | Some a \<Rightarrow> a)\<rparr>)
      in case find_by hit (me_categories s) of
           None \<Rightarrow> Inl (Menu_E Category_Not_Found)
         | Some c \<Rightarrow>
             if list_ex (\<lambda>x. ct_id x \<noteq> cid \<and> ct_restaurant x = rid \<and> ct_name x = ct_name (upd c)) (me_categories s)
             then Inl (Menu_E Category_Name_Taken)
             else Inr (s\<lparr>me_categories := update_where hit upd (me_categories s)\<rparr>))"

text \<open>The index of an identifier in the list the client sent.\<close>

fun place_in :: "nat list \<Rightarrow> nat \<Rightarrow> int" where
  "place_in [] i = 0"
| "place_in (x # xs) i = (if x = i then 0 else 1 + place_in xs i)"

definition reorderCategories :: "nat \<Rightarrow> nat list \<Rightarrow> menu_state \<Rightarrow> error + menu_state" where
  "reorderCategories rid ids s =
     (let hit = (\<lambda>c. ct_id c \<in> set ids \<and> ct_restaurant c = rid)
      in if ids = [] \<or> \<not> distinct ids then Inl (General Validation_Failed)
         else if length (filter hit (me_categories s)) \<noteq> length ids then Inl (Menu_E Category_Not_Found)
         else Inr (s\<lparr>me_categories := update_where hit (\<lambda>c. c\<lparr>ct_position := place_in ids (ct_id c)\<rparr>) (me_categories s)\<rparr>))"

text \<open>\<open>ON DELETE SET NULL (category_id)\<close>.\<close>

definition deleteCategory :: "nat \<Rightarrow> nat \<Rightarrow> menu_state \<Rightarrow> error + menu_state" where
  "deleteCategory rid cid s =
     (let hit = (\<lambda>c. ct_id c = cid \<and> ct_restaurant c = rid)
      in if \<not> list_ex hit (me_categories s) then Inl (Menu_E Category_Not_Found)
         else Inr (s\<lparr>me_categories := delete_where hit (me_categories s),
                    me_dishes := update_where (\<lambda>d. di_category d = Some cid \<and> di_restaurant d = rid)
                      (\<lambda>d. d\<lparr>di_category := None\<rparr>) (me_dishes s)\<rparr>))"

definition categoriesList :: "nat \<Rightarrow> menu_state \<Rightarrow> (category \<times> nat) list \<times> nat" where
  "categoriesList rid s =
     (map (\<lambda>c. (c, length (section_of rid (Some (ct_id c)) s)))
        (sort_by (\<lambda>a b. place_le (ct_position a, ct_name a) (ct_position b, ct_name b))
           (filter (\<lambda>c. ct_restaurant c = rid) (me_categories s))),
      length (section_of rid None s))"

section \<open>Products\<close>

definition dish_taken :: "nat \<Rightarrow> string \<Rightarrow> dish table \<Rightarrow> bool" where
  "dish_taken rid name t = list_ex (\<lambda>d. di_restaurant d = rid \<and> di_name d = name) t"

definition end_of_section :: "nat \<Rightarrow> nat option \<Rightarrow> menu_state \<Rightarrow> int" where
  "end_of_section rid c s = next_place (map di_position (section_of rid c s))"

text \<open>An INSERT of a product: the CHECKs, then the unique name, then the section.\<close>

definition insert_dish :: "dish \<Rightarrow> menu_state \<Rightarrow> error + menu_state" where
  "insert_dish d s =
     and_then (dish_checks d) (\<lambda>_.
     if dish_taken (di_restaurant d) (di_name d) (me_dishes s) then Inl (General (Db_Unique ''menu_products_restaurant_id_name_key''))
     else if \<not> has_category (di_restaurant d) (di_category d) (me_categories s) then Inl (General (Db_Check ''menu_products_category_fk''))
     else Inr (s\<lparr>me_dishes := insert_row d (me_dishes s), me_next := Suc (me_next s)\<rparr>))"

definition as_product_error :: "error \<Rightarrow> error" where
  "as_product_error e =
     (if e = General (Db_Unique ''menu_products_restaurant_id_name_key'') then Menu_E Product_Name_Taken
      else if e = General (Db_Check ''menu_products_vat_only_when_taxable'') then Menu_E Product_Tax_Conflict
      else e)"

text \<open>An empty description is NULL.\<close>

definition or_null :: "string option \<Rightarrow> string option" where
  "or_null d = (if d = Some [] then None else d)"

record new_dish =
  nd_name :: string
  nd_description :: "string option"
  nd_price :: int
  nd_category :: "nat option"
  nd_active :: bool
  nd_tax :: tax_category
  nd_vat :: "int option"

text \<open>The currency is read before the INSERT.\<close>

definition read_currency :: "nat \<Rightarrow> menu_state \<Rightarrow> error + string" where
  "read_currency rid s =
     (case find_by (\<lambda>r. rs_id r = rid) (me_restaurants s) of
        None \<Rightarrow> Inl (General Restaurant_Not_Found) | Some r \<Rightarrow> Inr (rs_menu_currency r))"

definition insert_new_dish :: "nat \<Rightarrow> string \<Rightarrow> new_dish \<Rightarrow> menu_state \<Rightarrow> error + dish \<times> menu_state" where
  "insert_new_dish rid currency n s =
     (let d = \<lparr>di_id = me_next s, di_restaurant = rid, di_name = nd_name n, di_description = or_null (nd_description n),
                di_price = nd_price n, di_currency = currency, di_category = nd_category n,
                di_position = end_of_section rid (nd_category n) s, di_active = nd_active n, di_tax = nd_tax n, di_vat = nd_vat n\<rparr>
      in case insert_dish d s of
           Inl e \<Rightarrow> Inl (if e = General (Db_Unique ''menu_products_restaurant_id_name_key'') then Menu_E Product_Name_Taken else e)
         | Inr s' \<Rightarrow> Inr (d, s'))"

definition createProduct :: "nat \<Rightarrow> new_dish \<Rightarrow> menu_state \<Rightarrow> error + dish \<times> menu_state" where
  "createProduct rid n s = and_then (read_currency rid s) (\<lambda>currency. insert_new_dish rid currency n s)"

text \<open>A field that is absent is \<open>None\<close>; for the section and the rate, \<open>Some None\<close> is the value null.\<close>

record dish_patch =
  dp_name :: "string option"
  dp_description :: "string option"
  dp_price :: "int option"
  dp_active :: "bool option"
  dp_category :: "nat option option"
  dp_tax :: "tax_category option"
  dp_vat :: "int option option"

definition patched :: "nat \<Rightarrow> dish_patch \<Rightarrow> menu_state \<Rightarrow> dish \<Rightarrow> dish" where
  "patched rid p s d =
     (let tax = (case dp_tax p of None \<Rightarrow> di_tax d | Some t \<Rightarrow> t) in
      d\<lparr>di_name := (case dp_name p of None \<Rightarrow> di_name d | Some n \<Rightarrow> n),
        di_description := (case or_null (dp_description p) of None \<Rightarrow> di_description d | Some x \<Rightarrow> Some x),
        di_price := (case dp_price p of None \<Rightarrow> di_price d | Some x \<Rightarrow> x),
        di_active := (case dp_active p of None \<Rightarrow> di_active d | Some a \<Rightarrow> a),
        di_category := (case dp_category p of None \<Rightarrow> di_category d | Some c \<Rightarrow> c),
        di_position := (case dp_category p of None \<Rightarrow> di_position d
                        | Some c \<Rightarrow> if di_category d \<noteq> c then end_of_section rid c s else di_position d),
        di_tax := tax,
        di_vat := (case dp_vat p of Some v \<Rightarrow> v | None \<Rightarrow> if tax \<noteq> TAXABLE then None else di_vat d)\<rparr>)"

definition updateProduct :: "nat \<Rightarrow> nat \<Rightarrow> dish_patch \<Rightarrow> menu_state \<Rightarrow> error + dish \<times> menu_state" where
  "updateProduct rid pid p s =
     (let hit = (\<lambda>d. di_id d = pid \<and> di_restaurant d = rid) in
      case find_by hit (me_dishes s) of
        None \<Rightarrow> Inl (Bill_E Product_Not_Found)
      | Some d \<Rightarrow>
          (let d' = patched rid p s d in
           case dish_checks d' of
             Inl e \<Rightarrow> Inl (as_product_error e)
           | Inr _ \<Rightarrow>
               if list_ex (\<lambda>x. di_id x \<noteq> pid \<and> di_restaurant x = rid \<and> di_name x = di_name d') (me_dishes s)
               then Inl (Menu_E Product_Name_Taken)
               else if \<not> has_category rid (di_category d') (me_categories s) then Inl (General (Db_Check ''menu_products_category_fk''))
               else Inr (d', s\<lparr>me_dishes := update_where hit (\<lambda>x. d') (me_dishes s)\<rparr>)))"

definition reorderProducts :: "nat \<Rightarrow> nat option \<Rightarrow> nat list \<Rightarrow> menu_state \<Rightarrow> error + menu_state" where
  "reorderProducts rid category ids s =
     (let inSection = map di_id (section_of rid category s) in
      if ids = [] \<or> \<not> distinct ids then Inl (General Validation_Failed)
      else if length inSection \<noteq> length ids \<or> \<not> list_all (\<lambda>i. i \<in> set inSection) ids then Inl (Bill_E Product_Not_Found)
      else Inr (s\<lparr>me_dishes := update_where (\<lambda>d. di_id d \<in> set ids \<and> di_restaurant d = rid)
                    (\<lambda>d. d\<lparr>di_position := place_in ids (di_id d)\<rparr>) (me_dishes s)\<rparr>))"

text \<open>A product leaves the menu by being deactivated, or for good with its photograph.\<close>

definition deleteProduct :: "nat \<Rightarrow> nat \<Rightarrow> bool \<Rightarrow> menu_state \<Rightarrow> error + menu_state" where
  "deleteProduct rid pid permanent s =
     (let hit = (\<lambda>d. di_id d = pid \<and> di_restaurant d = rid) in
      if \<not> list_ex hit (me_dishes s) then Inl (Bill_E Product_Not_Found)
      else if permanent
      then Inr (s\<lparr>me_dishes := delete_where hit (me_dishes s), me_photos := delete_where (\<lambda>f. ph_dish f = pid) (me_photos s)\<rparr>)
      else Inr (s\<lparr>me_dishes := update_where hit (\<lambda>d. d\<lparr>di_active := False\<rparr>) (me_dishes s)\<rparr>))"

section \<open>Importing a menu\<close>

record ocr_item =
  oi_name :: string
  oi_description :: "string option"
  oi_price :: int
  oi_section :: "string option"

definition section_name :: "ocr_item \<Rightarrow> string" where
  "section_name i = trim (case oi_section i of None \<Rightarrow> [] | Some x \<Rightarrow> x)"

text \<open>The sections first, in the order they appear: \<open>categoryIds\<close>, \<open>nextPosition\<close> and the rows made.\<close>

fun import_sections :: "nat \<Rightarrow> ocr_item list \<Rightarrow> (string \<rightharpoonup> nat) \<Rightarrow> int \<Rightarrow> menu_state \<Rightarrow> (string \<rightharpoonup> nat) \<times> category list \<times> menu_state" where
  "import_sections rid [] ids position s = (ids, [], s)"
| "import_sections rid (i # is) ids position s =
     (let name = section_name i in
      if name = [] \<or> ids name \<noteq> None then import_sections rid is ids position s
      else case find_by (\<lambda>c. ct_restaurant c = rid \<and> ct_name c = name) (me_categories s) of
             Some c \<Rightarrow> import_sections rid is (ids(name \<mapsto> ct_id c)) position s
           | None \<Rightarrow>
               (let c = \<lparr>ct_id = me_next s, ct_restaurant = rid, ct_name = name, ct_position = position, ct_active = True\<rparr>;
                    s1 = s\<lparr>me_categories := insert_row c (me_categories s), me_next := Suc (me_next s)\<rparr>;
                    (ids', made, s2) = import_sections rid is (ids(name \<mapsto> ct_id c)) (position + 1) s1
                in (ids', c # made, s2)))"

definition imported_dish :: "nat \<Rightarrow> string \<Rightarrow> (string \<rightharpoonup> nat) \<Rightarrow> nat \<Rightarrow> ocr_item \<Rightarrow> menu_state \<Rightarrow> dish" where
  "imported_dish rid currency ids index i s =
     \<lparr>di_id = me_next s, di_restaurant = rid, di_name = oi_name i, di_description = or_null (oi_description i), di_price = oi_price i,
      di_currency = currency, di_category = ids (section_name i), di_position = int index, di_active = True,
      di_tax = TAXABLE, di_vat = None\<rparr>"

text \<open>Each item under its savepoint: a taken name is reported, any other error undoes the import.\<close>

fun import_items :: "nat \<Rightarrow> string \<Rightarrow> (string \<rightharpoonup> nat) \<Rightarrow> nat \<Rightarrow> ocr_item list \<Rightarrow> menu_state \<Rightarrow>
    error + dish list \<times> nat list \<times> menu_state" where
  "import_items rid currency ids index [] s = Inr ([], [], s)"
| "import_items rid currency ids index (i # is) s =
     (let d = imported_dish rid currency ids index i s in
      case insert_dish d s of
        Inr s1 \<Rightarrow> and_then (import_items rid currency ids (Suc index) is s1) (\<lambda>(ds, errs, s2). Inr (d # ds, errs, s2))
      | Inl e \<Rightarrow>
          if e = General (Db_Unique ''menu_products_restaurant_id_name_key'')
          then and_then (import_items rid currency ids (Suc index) is s) (\<lambda>(ds, errs, s2). Inr (ds, index # errs, s2))
          else Inl e)"

record import_result =
  im_items :: "dish list"
  im_errors :: "nat list"
  im_categories :: "category list"

definition ocrImport :: "nat \<Rightarrow> ocr_item list \<Rightarrow> menu_state \<Rightarrow> error + import_result \<times> menu_state" where
  "ocrImport rid its s =
     and_then (read_currency rid s) (\<lambda>currency.
     let (ids, made, s1) = import_sections rid its Map.empty (end_of_menu rid s) s in
     and_then (import_items rid currency ids 0 its s1) (\<lambda>(ds, errs, s2).
     Inr (\<lparr>im_items = ds, im_errors = errs, im_categories = made\<rparr>, s2)))"

section \<open>Photographs\<close>

definition starts_with :: "8 word list \<Rightarrow> nat \<Rightarrow> 8 word list \<Rightarrow> bool" where
  "starts_with sig from bytes = (take (length sig) (drop from bytes) = sig)"

text \<open>\<open>IMAGE_MEDIA\<close>: the signature each declared type must have.\<close>

definition looks_right :: "string \<Rightarrow> 8 word list \<Rightarrow> bool" where
  "looks_right declared bytes =
     (if declared = ''image/jpeg'' then starts_with [0xff, 0xd8, 0xff] 0 bytes
      else if declared = ''image/png'' then starts_with [0x89, 0x50, 0x4e, 0x47, 0x0d, 0x0a, 0x1a, 0x0a] 0 bytes
      else if declared = ''image/webp''
      then starts_with [0x52, 0x49, 0x46, 0x46] 0 bytes \<and> starts_with [0x57, 0x45, 0x42, 0x50] 8 bytes
      else False)"

definition declared_type :: "string \<Rightarrow> string" where
  "declared_type mimetype = map lower (trim (takeWhile (\<lambda>c. c \<noteq> CHR '';'') mimetype))"

definition uploadImage :: "(8 word list \<Rightarrow> string) \<Rightarrow> nat \<Rightarrow> nat \<Rightarrow> string \<Rightarrow> 8 word list \<Rightarrow> menu_state \<Rightarrow> error + menu_state" where
  "uploadImage sha256 rid pid mimetype bytes s =
     (let declared = declared_type mimetype in
      if \<not> looks_right declared bytes then Inl (Menu_E Product_Image_Unsupported_Media)
      else if \<not> list_ex (\<lambda>d. di_id d = pid \<and> di_restaurant d = rid) (me_dishes s) then Inl (Bill_E Product_Not_Found)
      else if \<not> (0 < length bytes \<and> length bytes \<le> 5242880) then Inl (General (Db_Check ''menu_product_images_size_sane''))
      else (let f = \<lparr>ph_dish = pid, ph_restaurant = rid, ph_bytes = bytes, ph_type = declared, ph_checksum = sha256 bytes\<rparr> in
            if list_ex (\<lambda>x. ph_dish x = pid) (me_photos s)
            then Inr (s\<lparr>me_photos := update_where (\<lambda>x. ph_dish x = pid)
                   (\<lambda>x. x\<lparr>ph_bytes := bytes, ph_type := declared, ph_checksum := sha256 bytes\<rparr>) (me_photos s)\<rparr>)
            else Inr (s\<lparr>me_photos := insert_row f (me_photos s)\<rparr>)))"

definition deleteImage :: "nat \<Rightarrow> nat \<Rightarrow> menu_state \<Rightarrow> error + menu_state" where
  "deleteImage rid pid s =
     (let hit = (\<lambda>f. ph_dish f = pid \<and> ph_restaurant f = rid) in
      if \<not> list_ex hit (me_photos s) then Inl (Menu_E Product_Image_Not_Found)
      else Inr (s\<lparr>me_photos := delete_where hit (me_photos s)\<rparr>))"

definition publicImage :: "(nat \<Rightarrow> bool) \<Rightarrow> nat \<Rightarrow> nat \<Rightarrow> menu_state \<Rightarrow> error + photo" where
  "publicImage open_for_business rid pid s =
     (case find_by (\<lambda>f. ph_dish f = pid \<and> ph_restaurant f = rid \<and>
                        list_ex (\<lambda>d. di_id d = pid \<and> di_restaurant d = rid \<and> di_active d) (me_dishes s) \<and>
                        list_ex (\<lambda>r. rs_id r = rid \<and> open_for_business rid) (me_restaurants s)) (me_photos s) of
        None \<Rightarrow> Inl (Menu_E Product_Image_Not_Found) | Some f \<Rightarrow> Inr f)"

section \<open>Every menu is well formed\<close>

inductive menu_step :: "menu_state \<Rightarrow> menu_state \<Rightarrow> bool" where
  currency_set: "setCurrency rid currency s = Inr s' \<Longrightarrow> menu_step s s'"
| currency_written: "write_currency rid currency s = Inr s' \<Longrightarrow> menu_step s s'"
| charges_set: "setCharges rid vat service s = Inr s' \<Longrightarrow> menu_step s s'"
| section_made: "createCategory rid name position active s = Inr (c, s') \<Longrightarrow> menu_step s s'"
| section_changed: "updateCategory rid cid name position active s = Inr s' \<Longrightarrow> menu_step s s'"
| sections_ordered: "reorderCategories rid ids s = Inr s' \<Longrightarrow> menu_step s s'"
| section_removed: "deleteCategory rid cid s = Inr s' \<Longrightarrow> menu_step s s'"
| dish_made: "insert_new_dish rid currency n s = Inr (d, s') \<Longrightarrow> menu_step s s'"
| dish_changed: "updateProduct rid pid p s = Inr (d, s') \<Longrightarrow> menu_step s s'"
| dishes_ordered: "reorderProducts rid category ids s = Inr s' \<Longrightarrow> menu_step s s'"
| dish_removed: "deleteProduct rid pid permanent s = Inr s' \<Longrightarrow> menu_step s s'"
| menu_imported: "ocrImport rid its s = Inr (r, s') \<Longrightarrow> menu_step s s'"
| image_stored: "uploadImage sha256 rid pid mimetype bytes s = Inr s' \<Longrightarrow> menu_step s s'"
| image_removed: "deleteImage rid pid s = Inr s' \<Longrightarrow> menu_step s s'"

definition categories_ok :: "nat \<Rightarrow> category table \<Rightarrow> bool" where
  "categories_ok n t \<longleftrightarrow> keyed ct_id t \<and> keyed (\<lambda>c. (ct_restaurant c, ct_name c)) t \<and> (\<forall>c \<in> set t. ct_id c < n)"

definition dishes_ok :: "nat \<Rightarrow> category table \<Rightarrow> dish table \<Rightarrow> bool" where
  "dishes_ok n cs t \<longleftrightarrow> keyed di_id t \<and> keyed (\<lambda>d. (di_restaurant d, di_name d)) t \<and>
     (\<forall>d \<in> set t. di_id d < n \<and> dish_checks d = Inr () \<and> has_category (di_restaurant d) (di_category d) cs)"

definition photos_ok :: "dish table \<Rightarrow> photo table \<Rightarrow> bool" where
  "photos_ok ds t \<longleftrightarrow> keyed ph_dish t \<and>
     (\<forall>f \<in> set t. (\<exists>d \<in> set ds. di_id d = ph_dish f \<and> di_restaurant d = ph_restaurant f) \<and> looks_right (ph_type f) (ph_bytes f))"

definition menu_ok :: "menu_state \<Rightarrow> bool" where
  "menu_ok s \<longleftrightarrow> categories_ok (me_next s) (me_categories s) \<and> dishes_ok (me_next s) (me_categories s) (me_dishes s) \<and>
     photos_ok (me_dishes s) (me_photos s)"

lemma keyed_update_one:
  fixes t :: "'r table"
  assumes "keyed k t" "keyed key t" "\<And>x. x \<in> set t \<Longrightarrow> P x \<Longrightarrow> key x = i"
    and "\<And>x y. x \<in> set t \<Longrightarrow> P x \<Longrightarrow> y \<in> set t \<Longrightarrow> key y \<noteq> i \<Longrightarrow> k y \<noteq> k (f x)"
  shows "keyed k (update_where P f t)"
  using assms
proof (induction t)
  case (Cons x t)
  have keys: "k x \<notin> k ` set t" "key x \<notin> key ` set t" "keyed k t" "keyed key t" using Cons.prems(1,2) by (auto simp: keyed_def)
  have rest: "keyed k (update_where P f t)"
    by (rule Cons.IH) (use keys Cons.prems(3,4) in auto)
  show ?case
  proof (cases "P x")
    case True
    hence "\<not> P y" if "y \<in> set t" for y using Cons.prems(3)[of x] Cons.prems(3)[of y] keys(2) that by (auto simp: image_iff)
    hence same: "update_where P f t = t" by (simp add: update_where_def map_idI)
    have "k y \<noteq> k (f x)" if "y \<in> set t" for y
      using Cons.prems(4)[of x y] Cons.prems(3)[of x] True that keys(2) by (auto simp: image_iff)
    hence "k (f x) \<notin> k ` set t" by force
    hence "keyed k (f x # update_where P f t)" using same keys(3) by (simp add: keyed_def)
    thus ?thesis using True by (simp add: update_where_def)
  next
    case False
    have "k x \<noteq> k z" if z: "z \<in> set (update_where P f t)" for z
    proof -
      obtain y where y: "y \<in> set t" "z = (if P y then f y else y)" using z unfolding set_update_where by blast
      show ?thesis
      proof (cases "P y")
        case True
        hence "key y = i" using Cons.prems(3)[of y] y(1) by simp
        hence "key x \<noteq> i" using keys(2) y(1) by auto
        thus ?thesis using Cons.prems(4)[of y x] True y by simp
      qed (use y keys(1) in auto)
    qed
    hence "k x \<notin> k ` set (update_where P f t)" by force
    hence "keyed k (x # update_where P f t)" using rest by (simp add: keyed_def)
    thus ?thesis using False by (simp add: update_where_def)
  qed
qed simp

lemma has_category_mono:
  assumes "has_category rid c t" "\<And>x. x \<in> set t \<Longrightarrow> \<exists>y \<in> set t'. ct_id y = ct_id x \<and> ct_restaurant y = ct_restaurant x"
  shows "has_category rid c t'"
proof (cases c)
  case (Some cid)
  then obtain x where x: "x \<in> set t" "ct_id x = cid" "ct_restaurant x = rid" using assms(1) by (auto simp: has_category_def list_ex_iff)
  obtain y where "y \<in> set t'" "ct_id y = cid" "ct_restaurant y = rid" using assms(2)[OF x(1)] x(2,3) by auto
  thus ?thesis using Some by (auto simp: has_category_def list_ex_iff)
qed (simp add: has_category_def)

lemma dishes_ok_mono:
  assumes "dishes_ok n cs t" "n \<le> n'" "\<And>x. x \<in> set cs \<Longrightarrow> \<exists>y \<in> set cs'. ct_id y = ct_id x \<and> ct_restaurant y = ct_restaurant x"
  shows "dishes_ok n' cs' t"
  using assms has_category_mono[of _ _ cs cs'] unfolding dishes_ok_def by (meson order_less_le_trans)

lemma photos_ok_mono:
  assumes "photos_ok ds t" "\<And>x. x \<in> set ds \<Longrightarrow> \<exists>y \<in> set ds'. di_id y = di_id x \<and> di_restaurant y = di_restaurant x"
  shows "photos_ok ds' t"
  unfolding photos_ok_def
proof (intro conjI ballI)
  fix f assume f: "f \<in> set t"
  then obtain d where d: "d \<in> set ds" "di_id d = ph_dish f" "di_restaurant d = ph_restaurant f" using assms(1) by (auto simp: photos_ok_def)
  show "\<exists>d \<in> set ds'. di_id d = ph_dish f \<and> di_restaurant d = ph_restaurant f" using assms(2)[OF d(1)] d(2,3) by auto
qed (use assms(1) in \<open>simp_all add: photos_ok_def\<close>)

lemma same_dishes:
  assumes "\<And>d :: dish. di_id (f d) = di_id d" "\<And>d. di_restaurant (f d) = di_restaurant d" "x \<in> set t"
  shows "\<exists>y \<in> set (update_where P f t). di_id y = di_id x \<and> di_restaurant y = di_restaurant x"
  using assms by (intro bexI[of _ "if P x then f x else x"]) (auto simp: set_update_where)

lemma same_categories:
  assumes "\<And>c :: category. ct_id (f c) = ct_id c" "\<And>c. ct_restaurant (f c) = ct_restaurant c" "x \<in> set t"
  shows "\<exists>y \<in> set (update_where P f t). ct_id y = ct_id x \<and> ct_restaurant y = ct_restaurant x"
  using assms by (intro bexI[of _ "if P x then f x else x"]) (auto simp: set_update_where)

lemma dishes_same_name_ok:
  assumes "dishes_ok n cs t" "\<And>d. di_id (f d) = di_id d" "\<And>d. di_restaurant (f d) = di_restaurant d" "\<And>d. di_name (f d) = di_name d"
    and "\<And>d. d \<in> set t \<Longrightarrow> P d \<Longrightarrow> dish_checks (f d) = Inr () \<and> has_category (di_restaurant d) (di_category (f d)) cs"
  shows "dishes_ok n cs (update_where P f t)"
proof -
  have "keyed di_id (update_where P f t)" "keyed (\<lambda>d. (di_restaurant d, di_name d)) (update_where P f t)"
    using assms(1-4) by (auto simp: dishes_ok_def intro!: keyed_update)
  moreover have "di_id d < n \<and> dish_checks d = Inr () \<and> has_category (di_restaurant d) (di_category d) cs"
    if mem: "d \<in> set (update_where P f t)" for d
  proof -
    obtain e where e: "e \<in> set t" "d = (if P e then f e else e)" using mem unfolding set_update_where by blast
    hence "di_id e < n" "dish_checks e = Inr ()" "has_category (di_restaurant e) (di_category e) cs" using assms(1) by (auto simp: dishes_ok_def)
    thus ?thesis using e assms(2,3,5) by auto
  qed
  ultimately show ?thesis by (simp add: dishes_ok_def)
qed

lemma dish_insert_ok:
  assumes "menu_ok s" "insert_dish d s = Inr s'" "di_id d = me_next s"
  shows "menu_ok s'"
proof -
  have s': "s' = s\<lparr>me_dishes := insert_row d (me_dishes s), me_next := Suc (me_next s)\<rparr>" "dish_checks d = Inr ()"
      "\<not> dish_taken (di_restaurant d) (di_name d) (me_dishes s)" "has_category (di_restaurant d) (di_category d) (me_categories s)"
    using assms(2) by (auto simp: insert_dish_def result_simps split: if_splits)
  have old: "categories_ok (me_next s) (me_categories s)" "dishes_ok (me_next s) (me_categories s) (me_dishes s)"
      "photos_ok (me_dishes s) (me_photos s)" using assms(1) by (simp_all add: menu_ok_def)
  have "di_id d \<notin> di_id ` set (me_dishes s)" using old(2) assms(3) by (auto simp: dishes_ok_def)
  moreover have "(di_restaurant d, di_name d) \<notin> (\<lambda>d. (di_restaurant d, di_name d)) ` set (me_dishes s)"
    using s'(3) by (auto simp: dish_taken_def list_ex_iff)
  ultimately have "dishes_ok (Suc (me_next s)) (me_categories s) (insert_row d (me_dishes s))"
    using old(2) s'(2,4) assms(3) by (auto simp: dishes_ok_def keyed_insert)
  moreover have "categories_ok (Suc (me_next s)) (me_categories s)" using old(1) by (auto simp: categories_ok_def)
  moreover have "photos_ok (insert_row d (me_dishes s)) (me_photos s)" by (rule photos_ok_mono[OF old(3)]) auto
  ultimately show ?thesis by (simp add: menu_ok_def s'(1))
qed

lemma category_insert_ok:
  assumes "menu_ok s" "\<not> name_taken rid name (me_categories s)"
  shows "menu_ok (s\<lparr>me_categories := insert_row \<lparr>ct_id = me_next s, ct_restaurant = rid, ct_name = name, ct_position = p, ct_active = a\<rparr> (me_categories s),
    me_next := Suc (me_next s)\<rparr>)"
proof -
  let ?c = "\<lparr>ct_id = me_next s, ct_restaurant = rid, ct_name = name, ct_position = p, ct_active = a\<rparr>"
  have old: "categories_ok (me_next s) (me_categories s)" "dishes_ok (me_next s) (me_categories s) (me_dishes s)"
      "photos_ok (me_dishes s) (me_photos s)" using assms(1) by (simp_all add: menu_ok_def)
  have "ct_id ?c \<notin> ct_id ` set (me_categories s)" using old(1) by (auto simp: categories_ok_def)
  moreover have "(ct_restaurant ?c, ct_name ?c) \<notin> (\<lambda>c. (ct_restaurant c, ct_name c)) ` set (me_categories s)"
    using assms(2) by (auto simp: name_taken_def list_ex_iff)
  ultimately have "categories_ok (Suc (me_next s)) (insert_row ?c (me_categories s))"
    using old(1) keyed_insert[of ct_id _ ?c] keyed_insert[of "\<lambda>c. (ct_restaurant c, ct_name c)" _ ?c] by (auto simp: categories_ok_def)
  moreover have "dishes_ok (Suc (me_next s)) (insert_row ?c (me_categories s)) (me_dishes s)"
    by (rule dishes_ok_mono[OF old(2)]) auto
  ultimately show ?thesis using old(3) by (simp add: menu_ok_def)
qed

lemma menu_parts:
  assumes "menu_ok s"
  shows "categories_ok (me_next s) (me_categories s)" "dishes_ok (me_next s) (me_categories s) (me_dishes s)"
    "photos_ok (me_dishes s) (me_photos s)"
  using assms by (simp_all add: menu_ok_def)

lemma updateCategory_ok:
  assumes "menu_ok s" "updateCategory rid cid name position active s = Inr s'"
  shows "menu_ok s'"
proof -
  let ?hit = "\<lambda>c. ct_id c = cid \<and> ct_restaurant c = rid"
  let ?upd = "\<lambda>c. c\<lparr>ct_name := (case name of None \<Rightarrow> ct_name c | Some n \<Rightarrow> n),
                       ct_position := (case position of None \<Rightarrow> ct_position c | Some p \<Rightarrow> p),
                       ct_active := (case active of None \<Rightarrow> ct_active c | Some a \<Rightarrow> a)\<rparr>"
  note old = menu_parts[OF assms(1)]
  obtain c where c: "find_by ?hit (me_categories s) = Some c"
      "\<not> list_ex (\<lambda>x. ct_id x \<noteq> cid \<and> ct_restaurant x = rid \<and> ct_name x = ct_name (?upd c)) (me_categories s)"
      "s' = s\<lparr>me_categories := update_where ?hit ?upd (me_categories s)\<rparr>"
    using assms(2) by (auto simp: updateCategory_def Let_def split: option.splits if_splits)
  have only: "x = c" if "x \<in> set (me_categories s)" "?hit x" for x
    using keyed_unique[of ct_id "me_categories s" x c] find_by_SomeD[OF c(1)] old(1) that by (simp add: categories_ok_def)
  have "keyed ct_id (update_where ?hit ?upd (me_categories s))"
    by (rule keyed_update) (use old(1) in \<open>simp_all add: categories_ok_def\<close>)
  moreover have "keyed (\<lambda>c. (ct_restaurant c, ct_name c)) (update_where ?hit ?upd (me_categories s))"
  proof (rule keyed_update_one[where key = ct_id and i = cid])
    fix x y assume x: "x \<in> set (me_categories s)" "?hit x" and y: "y \<in> set (me_categories s)" "ct_id y \<noteq> cid"
    have "x = c" by (rule only[OF x])
    hence "\<not> (ct_restaurant y = rid \<and> ct_name y = ct_name (?upd x))" using c(2) y by (auto simp: list_ex_iff)
    thus "(ct_restaurant y, ct_name y) \<noteq> (ct_restaurant (?upd x), ct_name (?upd x))" using x(2) by auto
  qed (use old(1) in \<open>simp_all add: categories_ok_def\<close>)
  ultimately have "categories_ok (me_next s) (update_where ?hit ?upd (me_categories s))"
    using old(1) by (auto simp: categories_ok_def set_update_where)
  moreover have "dishes_ok (me_next s) (update_where ?hit ?upd (me_categories s)) (me_dishes s)"
    by (rule dishes_ok_mono[OF old(2)]) (simp, rule same_categories, simp_all)
  ultimately show ?thesis using old(3) c(3) by (simp add: menu_ok_def)
qed

lemma reorderCategories_ok:
  assumes "menu_ok s" "reorderCategories rid ids s = Inr s'"
  shows "menu_ok s'"
proof -
  let ?f = "\<lambda>c. c\<lparr>ct_position := place_in ids (ct_id c)\<rparr>"
  let ?hit = "\<lambda>c. ct_id c \<in> set ids \<and> ct_restaurant c = rid"
  note old = menu_parts[OF assms(1)]
  have s': "s' = s\<lparr>me_categories := update_where ?hit ?f (me_categories s)\<rparr>"
    using assms(2) by (auto simp: reorderCategories_def Let_def split: if_splits)
  have "categories_ok (me_next s) (update_where ?hit ?f (me_categories s))"
    using old(1) by (auto simp: categories_ok_def set_update_where intro!: keyed_update)
  moreover have "dishes_ok (me_next s) (update_where ?hit ?f (me_categories s)) (me_dishes s)"
    by (rule dishes_ok_mono[OF old(2)]) (simp, rule same_categories, simp_all)
  ultimately show ?thesis using old(3) s' by (simp add: menu_ok_def)
qed

lemma deleteCategory_ok:
  assumes "menu_ok s" "deleteCategory rid cid s = Inr s'"
  shows "menu_ok s'"
proof -
  let ?cs = "delete_where (\<lambda>c. ct_id c = cid \<and> ct_restaurant c = rid) (me_categories s)"
  let ?P = "\<lambda>d. di_category d = Some cid \<and> di_restaurant d = rid"
  let ?f = "\<lambda>d. d\<lparr>di_category := None\<rparr>"
  note old = menu_parts[OF assms(1)]
  have s': "s' = s\<lparr>me_categories := ?cs, me_dishes := update_where ?P ?f (me_dishes s)\<rparr>"
    using assms(2) by (auto simp: deleteCategory_def Let_def split: if_splits)
  have checks: "dish_checks (?f d) = dish_checks d" for d by (simp add: dish_checks_def)
  have "dishes_ok (me_next s) (me_categories s) (update_where ?P ?f (me_dishes s))"
    by (rule dishes_same_name_ok[OF old(2)]) (use old(2) in \<open>auto simp: dishes_ok_def checks has_category_def\<close>)
  hence new: "keyed di_id (update_where ?P ?f (me_dishes s))" "keyed (\<lambda>d. (di_restaurant d, di_name d)) (update_where ?P ?f (me_dishes s))"
      "\<forall>d \<in> set (update_where ?P ?f (me_dishes s)). di_id d < me_next s \<and> dish_checks d = Inr () \<and>
          has_category (di_restaurant d) (di_category d) (me_categories s)"
    by (simp_all add: dishes_ok_def)
  have "has_category (di_restaurant d) (di_category d) ?cs" if d: "d \<in> set (update_where ?P ?f (me_dishes s))" for d
  proof -
    obtain e where "d = (if ?P e then ?f e else e)" using d unfolding set_update_where by blast
    hence "\<not> ?P d" by (cases "?P e") auto
    moreover have "has_category (di_restaurant d) (di_category d) (me_categories s)" using new(3) d by blast
    ultimately show ?thesis by (auto simp: has_category_def list_ex_iff split: option.splits)
  qed
  hence "dishes_ok (me_next s) ?cs (update_where ?P ?f (me_dishes s))" using new by (simp add: dishes_ok_def)
  moreover have "categories_ok (me_next s) ?cs" using old(1) by (simp add: categories_ok_def keyed_delete)
  moreover have "photos_ok (update_where ?P ?f (me_dishes s)) (me_photos s)"
    by (rule photos_ok_mono[OF old(3)]) (rule same_dishes, simp_all)
  ultimately show ?thesis using s' by (simp add: menu_ok_def)
qed

lemma updateProduct_ok:
  assumes "menu_ok s" "updateProduct rid pid p s = Inr (d', s')"
  shows "menu_ok s'"
proof -
  let ?hit = "\<lambda>d. di_id d = pid \<and> di_restaurant d = rid"
  note old = menu_parts[OF assms(1)]
  obtain d where d: "find_by ?hit (me_dishes s) = Some d" "d' = patched rid p s d" "dish_checks d' = Inr ()"
      "\<not> list_ex (\<lambda>x. di_id x \<noteq> pid \<and> di_restaurant x = rid \<and> di_name x = di_name d') (me_dishes s)"
      "has_category rid (di_category d') (me_categories s)" "s' = s\<lparr>me_dishes := update_where ?hit (\<lambda>x. d') (me_dishes s)\<rparr>"
    using assms(2) by (auto simp: updateProduct_def Let_def split: option.splits if_splits sum.splits)
  have mem: "d \<in> set (me_dishes s)" "di_id d = pid" "di_restaurant d = rid" using find_by_SomeD[OF d(1)] by auto
  have id: "di_id d' = pid" "di_restaurant d' = rid" using mem d(2) by (simp_all add: patched_def Let_def)
  have "keyed di_id (update_where ?hit (\<lambda>x. d') (me_dishes s))"
    by (rule keyed_update_one[where key = di_id and i = pid]) (use old(2) id in \<open>auto simp: dishes_ok_def\<close>)
  moreover have "keyed (\<lambda>d. (di_restaurant d, di_name d)) (update_where ?hit (\<lambda>x. d') (me_dishes s))"
    by (rule keyed_update_one[where key = di_id and i = pid]) (use old(2) id d(4) in \<open>auto simp: dishes_ok_def list_ex_iff\<close>)
  moreover have "di_id x < me_next s \<and> dish_checks x = Inr () \<and> has_category (di_restaurant x) (di_category x) (me_categories s)"
    if "x \<in> set (update_where ?hit (\<lambda>x. d') (me_dishes s))" for x
    using that old(2) mem(1,2) id d(3,5) by (auto simp: set_update_where dishes_ok_def)
  ultimately have "dishes_ok (me_next s) (me_categories s) (update_where ?hit (\<lambda>x. d') (me_dishes s))" by (simp add: dishes_ok_def)
  moreover have "photos_ok (update_where ?hit (\<lambda>x. d') (me_dishes s)) (me_photos s)"
  proof (rule photos_ok_mono[OF old(3)])
    fix x assume "x \<in> set (me_dishes s)"
    thus "\<exists>y \<in> set (update_where ?hit (\<lambda>x. d') (me_dishes s)). di_id y = di_id x \<and> di_restaurant y = di_restaurant x"
      using id by (intro bexI[of _ "if ?hit x then d' else x"]) (auto simp: set_update_where)
  qed
  ultimately show ?thesis using old(1) d(6) by (simp add: menu_ok_def)
qed

lemma reorderProducts_ok:
  assumes "menu_ok s" "reorderProducts rid category ids s = Inr s'"
  shows "menu_ok s'"
proof -
  let ?f = "\<lambda>d. d\<lparr>di_position := place_in ids (di_id d)\<rparr>"
  let ?P = "\<lambda>d. di_id d \<in> set ids \<and> di_restaurant d = rid"
  note old = menu_parts[OF assms(1)]
  have s': "s' = s\<lparr>me_dishes := update_where ?P ?f (me_dishes s)\<rparr>"
    using assms(2) by (auto simp: reorderProducts_def Let_def split: if_splits)
  have checks: "dish_checks (?f d) = dish_checks d" for d by (simp add: dish_checks_def)
  have "dishes_ok (me_next s) (me_categories s) (update_where ?P ?f (me_dishes s))"
    by (rule dishes_same_name_ok[OF old(2)]) (use old(2) in \<open>auto simp: dishes_ok_def checks\<close>)
  moreover have "photos_ok (update_where ?P ?f (me_dishes s)) (me_photos s)"
    by (rule photos_ok_mono[OF old(3)]) (rule same_dishes, simp_all)
  ultimately show ?thesis using s' old(1) by (simp add: menu_ok_def)
qed

lemma deleteProduct_ok:
  assumes "menu_ok s" "deleteProduct rid pid permanent s = Inr s'"
  shows "menu_ok s'"
proof -
  let ?hit = "\<lambda>d. di_id d = pid \<and> di_restaurant d = rid"
  let ?f = "\<lambda>d. d\<lparr>di_active := False\<rparr>"
  note old = menu_parts[OF assms(1)]
  show ?thesis
  proof (cases permanent)
    case True
    have s': "s' = s\<lparr>me_dishes := delete_where ?hit (me_dishes s), me_photos := delete_where (\<lambda>f. ph_dish f = pid) (me_photos s)\<rparr>"
      using assms(2) True by (auto simp: deleteProduct_def Let_def split: if_splits)
    have "dishes_ok (me_next s) (me_categories s) (delete_where ?hit (me_dishes s))"
      using old(2) by (simp add: dishes_ok_def keyed_delete)
    moreover have "photos_ok (delete_where ?hit (me_dishes s)) (delete_where (\<lambda>f. ph_dish f = pid) (me_photos s))"
      using old(3) unfolding photos_ok_def by (auto simp: keyed_delete) metis
    ultimately show ?thesis using old(1) by (simp add: s' menu_ok_def)
  next
    case False
    have s': "s' = s\<lparr>me_dishes := update_where ?hit ?f (me_dishes s)\<rparr>"
      using assms(2) False by (auto simp: deleteProduct_def Let_def split: if_splits)
    have checks: "dish_checks (?f d) = dish_checks d" for d by (simp add: dish_checks_def)
    have "dishes_ok (me_next s) (me_categories s) (update_where ?hit ?f (me_dishes s))"
      by (rule dishes_same_name_ok[OF old(2)]) (use old(2) in \<open>auto simp: dishes_ok_def checks\<close>)
    moreover have "photos_ok (update_where ?hit ?f (me_dishes s)) (me_photos s)"
      by (rule photos_ok_mono[OF old(3)]) (rule same_dishes, simp_all)
    ultimately show ?thesis using old(1) by (simp add: s' menu_ok_def)
  qed
qed

lemma uploadImage_ok:
  assumes "menu_ok s" "uploadImage sha256 rid pid mimetype bytes s = Inr s'"
  shows "menu_ok s'"
proof -
  note old = menu_parts[OF assms(1)]
  let ?t = "declared_type mimetype"
  let ?new = "\<lparr>ph_dish = pid, ph_restaurant = rid, ph_bytes = bytes, ph_type = ?t, ph_checksum = sha256 bytes\<rparr>"
  let ?f = "\<lambda>x. x\<lparr>ph_bytes := bytes, ph_type := ?t, ph_checksum := sha256 bytes\<rparr>"
  have ok: "looks_right ?t bytes" "list_ex (\<lambda>d. di_id d = pid \<and> di_restaurant d = rid) (me_dishes s)"
    and s': "s' = (if list_ex (\<lambda>x. ph_dish x = pid) (me_photos s) then s\<lparr>me_photos := update_where (\<lambda>x. ph_dish x = pid) ?f (me_photos s)\<rparr>
        else s\<lparr>me_photos := insert_row ?new (me_photos s)\<rparr>)"
    using assms(2) by (auto simp: uploadImage_def Let_def split: if_splits)
  show ?thesis
  proof (cases "list_ex (\<lambda>x. ph_dish x = pid) (me_photos s)")
    case True
    have "keyed ph_dish (update_where (\<lambda>x. ph_dish x = pid) ?f (me_photos s))"
      by (rule keyed_update) (use old(3) in \<open>simp_all add: photos_ok_def\<close>)
    hence "photos_ok (me_dishes s) (update_where (\<lambda>x. ph_dish x = pid) ?f (me_photos s))"
      using old(3) ok(1) by (auto simp: photos_ok_def set_update_where)
    thus ?thesis using old(1,2) True s' by (simp add: menu_ok_def)
  next
    case False
    hence "ph_dish ?new \<notin> ph_dish ` set (me_photos s)" by (auto simp: list_ex_iff)
    hence "keyed ph_dish (insert_row ?new (me_photos s))" using old(3) keyed_insert[of ph_dish _ ?new] by (simp add: photos_ok_def)
    hence "photos_ok (me_dishes s) (insert_row ?new (me_photos s))"
      using old(3) ok by (auto simp: photos_ok_def list_ex_iff)
    thus ?thesis using old(1,2) False s' by (simp add: menu_ok_def)
  qed
qed

lemma import_sections_ok: "menu_ok s \<Longrightarrow> import_sections rid its ids p s = (ids', made, s') \<Longrightarrow> menu_ok s'"
proof (induction rid its ids p s arbitrary: ids' made s' rule: import_sections.induct)
  case (2 rid i "is" ids position s)
  let ?name = "section_name i"
  show ?case
  proof (cases "?name = [] \<or> ids ?name \<noteq> None")
    case True
    thus ?thesis using 2 by (simp add: Let_def)
  next
    case False
    show ?thesis
    proof (cases "find_by (\<lambda>c. ct_restaurant c = rid \<and> ct_name c = ?name) (me_categories s)")
      case (Some c)
      have "import_sections rid is (ids(?name \<mapsto> ct_id c)) position s = (ids', made, s')"
        using "2.prems"(2) False Some by (simp add: Let_def)
      thus ?thesis by (rule "2.IH"(3)[OF refl False Some "2.prems"(1)])
    next
      case None
      hence "\<not> name_taken rid ?name (me_categories s)" by (auto simp: find_by_None name_taken_def list_ex_iff)
      note ok = category_insert_ok[OF "2.prems"(1) this, of position True]
      let ?c = "\<lparr>ct_id = me_next s, ct_restaurant = rid, ct_name = ?name, ct_position = position, ct_active = True\<rparr>"
      obtain ids1 made1 s1 where rest: "import_sections rid is (ids(?name \<mapsto> ct_id ?c)) (position + 1)
          (s\<lparr>me_categories := insert_row ?c (me_categories s), me_next := Suc (me_next s)\<rparr>) = (ids1, made1, s1)" by (rule prod_cases3)
      have "menu_ok s1" by (rule "2.IH"(2)[OF refl False None refl refl ok rest])
      thus ?thesis using "2.prems"(2) False None rest by (simp add: Let_def)
    qed
  qed
qed simp

lemma import_items_ok:
  "menu_ok s \<Longrightarrow> import_items rid currency ids k its s = Inr (ds, errs, s') \<Longrightarrow> menu_ok s'"
proof (induction rid currency ids k its s arbitrary: ds errs s' rule: import_items.induct)
  case (2 rid currency ids index i "is" s)
  let ?d = "imported_dish rid currency ids index i s"
  show ?case
  proof (cases "insert_dish ?d s")
    case (Inr s1)
    have "menu_ok s1" by (rule dish_insert_ok[OF "2.prems"(1) Inr]) (simp add: imported_dish_def)
    thus ?thesis using 2 Inr by (auto simp: Let_def result_simps)
  next
    case (Inl e)
    thus ?thesis using 2 Inl by (auto simp: Let_def result_simps split: if_splits)
  qed
qed simp

lemma restaurants_ok: "menu_ok s \<Longrightarrow> menu_ok (s\<lparr>me_restaurants := rs\<rparr>)"
  by (simp add: menu_ok_def)

lemma menu_step_ok:
  assumes "menu_step s s'" "menu_ok s"
  shows "menu_ok s'"
  using assms
proof (induction rule: menu_step.induct)
  case (section_made rid name position active s c s')
  thus ?case using category_insert_ok[OF section_made.prems] by (auto simp: createCategory_def Let_def split: if_splits)
next
  case (dish_made rid currency n s d s')
  obtain d0 where "insert_dish d0 s = Inr s'" "di_id d0 = me_next s"
    using dish_made.hyps by (auto simp: insert_new_dish_def Let_def split: sum.splits if_splits)
  thus ?case by (rule dish_insert_ok[OF dish_made.prems])
next
  case (menu_imported rid its s r s')
  obtain ids made s1 where sec: "import_sections rid its Map.empty (end_of_menu rid s) s = (ids, made, s1)" by (rule prod_cases3)
  then obtain currency ds errs where "import_items rid currency ids 0 its s1 = Inr (ds, errs, s')"
    using menu_imported.hyps by (auto simp: ocrImport_def Let_def result_simps)
  thus ?case using import_items_ok import_sections_ok[OF menu_imported.prems sec] by blast
next
  case (image_removed rid pid s s')
  thus ?case by (auto simp: deleteImage_def Let_def menu_ok_def photos_ok_def keyed_delete split: if_splits)
next
  case (currency_set rid currency s s')
  thus ?case by (auto simp: setCurrency_def write_currency_def restaurants_ok split: if_splits)
next
  case (currency_written rid currency s s')
  thus ?case by (auto simp: write_currency_def restaurants_ok split: if_splits)
next
  case (charges_set rid vat service s s')
  thus ?case by (auto simp: setCharges_def restaurants_ok split: if_splits)
next
  case section_changed
  thus ?case by (rule updateCategory_ok[rotated])
next
  case sections_ordered
  thus ?case by (rule reorderCategories_ok[rotated])
next
  case section_removed
  thus ?case by (rule deleteCategory_ok[rotated])
next
  case dish_changed
  thus ?case by (rule updateProduct_ok[rotated])
next
  case dishes_ordered
  thus ?case by (rule reorderProducts_ok[rotated])
next
  case dish_removed
  thus ?case by (rule deleteProduct_ok[rotated])
next
  case image_stored
  thus ?case by (rule uploadImage_ok[rotated])
qed

lemma menu_steps_ok: "menu_step\<^sup>*\<^sup>* s s' \<Longrightarrow> menu_ok s \<Longrightarrow> menu_ok s'"
  by (induction rule: rtranclp_induct) (auto intro: menu_step_ok)

definition empty_menu :: "restaurant table \<Rightarrow> menu_state" where
  "empty_menu rs = \<lparr>me_restaurants = rs, me_categories = [], me_dishes = [], me_photos = [], me_next = 1\<rparr>"

lemma menu_ok_empty: "menu_ok (empty_menu rs)"
  by (simp add: menu_ok_def empty_menu_def) (simp add: categories_ok_def dishes_ok_def photos_ok_def)

lemma reached_ok: "menu_step\<^sup>*\<^sup>* (empty_menu rs) s \<Longrightarrow> menu_ok s"
  by (erule menu_steps_ok) (rule menu_ok_empty)

end
