(* ===== verification/Menu_Order.thy ===== *)
theory Menu_Order
  imports Menu
begin

text \<open>
  What the operations of \<open>Menu\<close> do to what is read: the order of a section after a reordering, a creation or
  a move, the menu a diner sees, what an import writes, and where the routes fall short of their comments.
\<close>

section \<open>Sorting\<close>

lemma set_insort_by [simp]: "set (insort_by le x ys) = insert x (set ys)"
  by (induction ys) auto

lemma set_sort_by [simp]: "set (sort_by le xs) = set xs"
  by (induction xs) (auto simp: sort_by_def)

lemma length_insort_by [simp]: "length (insort_by le x ys) = Suc (length ys)"
  by (induction ys) auto

lemma length_sort_by [simp]: "length (sort_by le xs) = length xs"
  by (induction xs) (auto simp: sort_by_def)

lemma insort_by_map: "insort_by le (g x) (map g ys) = map g (insort_by (\<lambda>x y. le (g x) (g y)) x ys)"
  by (induction ys) auto

lemma sort_by_map: "sort_by le (map g xs) = map g (sort_by (\<lambda>x y. le (g x) (g y)) xs)"
  by (induction xs) (auto simp: sort_by_def insort_by_map)

lemma insort_by_key:
  "(\<And>y. y \<in> set ys \<Longrightarrow> le x y \<longleftrightarrow> (key x :: int) \<le> key y) \<Longrightarrow> insort_by le x ys = insort_key key x ys"
  by (induction ys) auto

lemma sort_by_key:
  fixes key :: "'a \<Rightarrow> int"
  assumes "\<And>x y. key x \<noteq> key y \<Longrightarrow> le x y \<longleftrightarrow> key x \<le> key y" "distinct (map key xs)"
  shows "sort_by le xs = sort_key key xs"
  using assms(2)
proof (induction xs)
  case (Cons x xs)
  have "le x y \<longleftrightarrow> key x \<le> key y" if "y \<in> set (sort_key key xs)" for y
    using assms(1)[of x y] Cons.prems that by auto
  hence "insort_by le x (sort_key key xs) = insort_key key x (sort_key key xs)" by (rule insort_by_key)
  thus ?case using Cons by (simp add: sort_by_def)
qed (simp add: sort_by_def)

lemma insort_by_before: "le x d \<Longrightarrow> insort_by le x (ys @ [d]) = insort_by le x ys @ [d]"
  by (induction ys) auto

lemma insort_by_end: "\<forall>y \<in> set ys. \<not> le d y \<Longrightarrow> insort_by le d ys = ys @ [d]"
  by (induction ys) auto

lemma sort_by_last:
  assumes "\<And>x. x \<in> set us \<union> set vs \<Longrightarrow> le x d \<and> \<not> le d x"
  shows "sort_by le (us @ d # vs) = sort_by le (us @ vs) @ [d]"
  using assms
proof (induction us)
  case Nil
  hence "\<forall>y \<in> set (sort_by le vs). \<not> le d y" by simp
  thus ?case by (simp add: sort_by_def) (simp add: sort_by_def[symmetric] insort_by_end)
next
  case (Cons x us)
  thus ?case by (simp add: sort_by_def) (simp add: sort_by_def[symmetric] insort_by_before)
qed

lemma sorted_insort_by:
  assumes "\<And>x y. le x y \<or> le y x" "\<And>x y z. le x y \<Longrightarrow> le y z \<Longrightarrow> le x z" "sorted_wrt le ys"
  shows "sorted_wrt le (insort_by le x ys)"
  using assms(3)
proof (induction ys)
  case (Cons y ys)
  show ?case
  proof (cases "le x y")
    case True
    thus ?thesis using Cons.prems assms(2)[OF True] by auto
  next
    case False
    hence "le y x" using assms(1)[of x y] by blast
    thus ?thesis using Cons False by auto
  qed
qed simp

lemma sorted_sort_by:
  assumes "\<And>x y. le x y \<or> le y x" "\<And>x y z. le x y \<Longrightarrow> le y z \<Longrightarrow> le x z"
  shows "sorted_wrt le (sort_by le xs)"
  using assms by (induction xs) (auto simp: sort_by_def sorted_insort_by)

section \<open>The order of the menu\<close>

lemma string_le_total: "string_le s t \<or> string_le t s"
  by (induction s t rule: string_le.induct) (auto, metis linorder_neqE_nat of_char_eq_iff)

lemma string_le_trans: "string_le s t \<Longrightarrow> string_le t u \<Longrightarrow> string_le s u"
proof (induction s t arbitrary: u rule: string_le.induct)
  case (3 c s d t)
  thus ?case by (cases u) (auto split: if_splits)
qed auto

lemma place_le_total: "place_le a b \<or> place_le b a"
  using string_le_total by (auto simp: place_le_def)

lemma place_le_trans: "place_le a b \<Longrightarrow> place_le b c \<Longrightarrow> place_le a c"
  using string_le_trans by (auto simp: place_le_def)

definition dish_le :: "dish \<Rightarrow> dish \<Rightarrow> bool" where
  "dish_le d e = place_le (di_position d, di_name d) (di_position e, di_name e)"

lemma menu_before_same [simp]: "menu_before (c, d) (c, e) = dish_le d e"
  by (simp add: menu_before_def dish_le_def split: option.split)

lemma section_listing:
  "listProducts rid None (Some c) (length (me_dishes s)) 0 s = sort_by dish_le (section_of rid c s)"
proof -
  let ?xs = "section_of rid c s"
  obtain c0 where c0: "\<forall>d \<in> set ?xs. category_of s d = c0"
  proof
    show "\<forall>d \<in> set ?xs. category_of s d = (case c of None \<Rightarrow> None
        | Some cid \<Rightarrow> find_by (\<lambda>x. ct_id x = cid \<and> ct_restaurant x = rid) (me_categories s))"
      by (auto simp: section_of_def category_of_def split: option.split)
  qed
  have pairs: "map (\<lambda>d. (category_of s d, d)) ?xs = map (Pair c0) ?xs" using c0 by simp
  have "map snd (sort_by menu_before (map (\<lambda>d. (category_of s d, d)) ?xs)) = sort_by dish_le ?xs"
    unfolding pairs sort_by_map by (simp add: o_def)
  moreover have "length ?xs \<le> length (me_dishes s)" by (simp add: section_of_def)
  ultimately show ?thesis by (simp add: listProducts_def section_of_def o_def)
qed

lemma place_in_nonneg: "0 \<le> place_in ids i"
  by (induction ids) auto

lemma place_in_inj: "inj_on (place_in ids) (set ids)"
proof (induction ids)
  case (Cons x xs)
  have "1 + place_in xs y \<noteq> 0" for y using place_in_nonneg[of xs y] by simp
  thus ?case using Cons by (auto simp: inj_on_def)
qed simp

lemma place_in_sorted: "distinct ids \<Longrightarrow> sorted (map (place_in ids) ids)"
proof (induction ids)
  case (Cons x xs)
  have "map (place_in (x # xs)) xs = map (\<lambda>i. 1 + place_in xs i) xs" using Cons.prems by auto
  moreover have "sorted (map (\<lambda>i. 1 + place_in xs i) xs)" using Cons by (simp add: sorted_wrt_map)
  ultimately have "sorted (map (place_in (x # xs)) xs)" by (simp only:)
  moreover have "place_in (x # xs) x = 0" by simp
  ultimately show ?case using place_in_nonneg[of "x # xs"] by (simp del: place_in.simps)
qed simp

lemma insort_key_map: "insort_key k (g x) (map g ys) = map g (insort_key (\<lambda>x. k (g x)) x ys)"
  by (induction ys) auto

lemma sort_key_map: "sort_key k (map g xs) = map g (sort_key (\<lambda>x. k (g x)) xs)"
  by (induction xs) (simp_all add: insort_key_map)

lemma sorted_by_place:
  assumes "mset (map di_id es) = mset ids" "distinct ids" "\<And>d. f d = d\<lparr>di_position := place_in ids (di_id d)\<rparr>"
  shows "map di_id (sort_by dish_le (map f es)) = ids"
proof -
  have ids: "set (map di_id es) = set ids" "distinct (map di_id es)"
    using assms(1,2) mset_eq_setD mset_eq_imp_distinct_iff by blast+
  have "inj_on (place_in ids) (set (map di_id es))" using place_in_inj ids(1) by simp
  hence "distinct (map (place_in ids) (map di_id es))" using ids(2) by (simp only: distinct_map)
  hence "distinct (map di_position (map f es))" by (simp add: assms(3) o_def)
  hence "sort_by dish_le (map f es) = sort_key di_position (map f es)"
    by (intro sort_by_key) (auto simp: dish_le_def place_le_def)
  also have "\<dots> = map f (sort_key (\<lambda>d. place_in ids (di_id d)) es)" by (simp add: sort_key_map assms(3))
  finally have "map di_id (sort_by dish_le (map f es)) = map di_id (sort_key (\<lambda>d. place_in ids (di_id d)) es)"
    by (simp add: assms(3) o_def)
  also have "\<dots> = sort_key (place_in ids) (map di_id es)" by (simp add: sort_key_map)
  also have "\<dots> = ids" by (rule sort_key_inj_key_eq[OF assms(1)]) (use place_in_inj ids(1) place_in_sorted[OF assms(2)] in auto)
  finally show ?thesis .
qed

lemma section_ids:
  assumes "menu_ok s"
  shows "distinct (map di_id (section_of rid c s))"
  using menu_parts(2)[OF assms] by (simp add: dishes_ok_def keyed_def section_of_def distinct_map_filter)

lemma reorder_accepts:
  assumes "menu_ok s"
  shows "(\<exists>s'. reorderProducts rid c ids s = Inr s') \<longleftrightarrow> ids \<noteq> [] \<and> mset ids = mset (map di_id (section_of rid c s))"
proof -
  let ?xs = "map di_id (section_of rid c s)"
  note d = section_ids[OF assms, of rid c]
  have "distinct ids \<and> length ?xs = length ids \<and> set ids \<subseteq> set ?xs \<longleftrightarrow> mset ids = mset ?xs"
  proof
    assume a: "distinct ids \<and> length ?xs = length ids \<and> set ids \<subseteq> set ?xs"
    hence "card (set ids) = card (set ?xs)" using distinct_card[OF d] distinct_card[of ids] by simp
    hence "set ids = set ?xs" using a by (simp add: card_subset_eq)
    thus "mset ids = mset ?xs" using set_eq_iff_mset_eq_distinct[of ids ?xs] d a by blast
  next
    assume m: "mset ids = mset ?xs"
    show "distinct ids \<and> length ?xs = length ids \<and> set ids \<subseteq> set ?xs"
      using mset_eq_imp_distinct_iff[OF m] d mset_eq_length[OF m] mset_eq_setD[OF m] by simp
  qed
  thus ?thesis by (auto simp: reorderProducts_def Let_def list_all_iff)
qed

lemma reorder_result:
  assumes "menu_ok s" "reorderProducts rid c ids s = Inr s'"
  shows "map di_id (listProducts rid None (Some c) (length (me_dishes s')) 0 s') = ids"
    and "d \<in> set (me_dishes s) \<Longrightarrow> (di_restaurant d, di_category d) \<noteq> (rid, c) \<Longrightarrow> d \<in> set (me_dishes s')"
proof -
  let ?f = "\<lambda>d. d\<lparr>di_position := place_in ids (di_id d)\<rparr>"
  let ?P = "\<lambda>d. di_id d \<in> set ids \<and> di_restaurant d = rid"
  have s': "s' = s\<lparr>me_dishes := update_where ?P ?f (me_dishes s)\<rparr>"
    using assms(2) by (auto simp: reorderProducts_def Let_def split: if_splits)
  have m: "mset ids = mset (map di_id (section_of rid c s))" using reorder_accepts[OF assms(1), of rid c ids] assms(2) by blast
  have di: "distinct ids" using mset_eq_imp_distinct_iff[OF m] section_ids[OF assms(1)] by simp
  have "section_of rid c s' = filter (\<lambda>d. di_restaurant d = rid \<and> di_category d = c) (map (\<lambda>d. if ?P d then ?f d else d) (me_dishes s))"
    by (simp add: section_of_def s' update_where_def)
  also have "\<dots> = map (\<lambda>d. if ?P d then ?f d else d) (section_of rid c s)"
    unfolding section_of_def filter_map by (intro arg_cong[of _ _ "map (\<lambda>d. if ?P d then ?f d else d)"] filter_cong) auto
  also have "\<dots> = map ?f (section_of rid c s)"
    using mset_eq_setD[OF m] by (intro map_cong) (auto simp: section_of_def)
  finally have sec: "section_of rid c s' = map ?f (section_of rid c s)" .
  show "map di_id (listProducts rid None (Some c) (length (me_dishes s')) 0 s') = ids"
    unfolding section_listing sec by (rule sorted_by_place[OF m[symmetric] di refl])
  assume d: "d \<in> set (me_dishes s)" "(di_restaurant d, di_category d) \<noteq> (rid, c)"
  have "\<not> ?P d"
  proof
    assume p: "?P d"
    then obtain e where e: "e \<in> set (section_of rid c s)" "di_id e = di_id d" using mset_eq_setD[OF m] by auto
    have "e = d" using keyed_unique[of di_id "me_dishes s" e d] menu_parts(2)[OF assms(1)] e d(1) by (simp add: dishes_ok_def section_of_def)
    thus False using e(1) d(2) by (simp add: section_of_def)
  qed
  thus "d \<in> set (me_dishes s')" using d(1) by (simp add: s' set_update_where)
qed


section \<open>New and moved dishes come last\<close>

lemma next_place_above: "p \<in> set ps \<Longrightarrow> p < next_place ps"
proof -
  have "p \<in> set ps \<Longrightarrow> p \<le> foldr max ps (- 1)" for ps by (induction ps) auto
  thus "p \<in> set ps \<Longrightarrow> p < next_place ps" by (fastforce simp: next_place_def)
qed

lemma last_in_section:
  assumes "me_dishes s = us @ vs" "me_dishes s' = us @ d # vs" "di_restaurant d = rid" "di_category d = c"
    and "\<And>x. x \<in> set (section_of rid c s) \<Longrightarrow> di_position x < di_position d"
  shows "listProducts rid None (Some c) (length (me_dishes s')) 0 s' = listProducts rid None (Some c) (length (me_dishes s)) 0 s @ [d]"
proof -
  let ?S = "\<lambda>d. di_restaurant d = rid \<and> di_category d = c"
  have "section_of rid c s' = filter ?S us @ d # filter ?S vs" "section_of rid c s = filter ?S us @ filter ?S vs"
    using assms(1-4) by (simp_all add: section_of_def)
  moreover have "sort_by dish_le (filter ?S us @ d # filter ?S vs) = sort_by dish_le (filter ?S us @ filter ?S vs) @ [d]"
  proof (rule sort_by_last)
    fix x assume "x \<in> set (filter ?S us) \<union> set (filter ?S vs)"
    thus "dish_le x d \<and> \<not> dish_le d x"
      using assms(5)[of x] \<open>section_of rid c s = _\<close> by (auto simp: dish_le_def place_le_def)
  qed
  ultimately show ?thesis unfolding section_listing by simp
qed

lemma created_last:
  assumes "createProduct rid n s = Inr (d, s')"
  shows "listProducts rid None (Some (nd_category n)) (length (me_dishes s')) 0 s'
    = listProducts rid None (Some (nd_category n)) (length (me_dishes s)) 0 s @ [d]"
proof -
  obtain currency where "insert_new_dish rid currency n s = Inr (d, s')" using assms by (auto simp: createProduct_def result_simps)
  hence "me_dishes s' = me_dishes s @ [d]" "di_restaurant d = rid" "di_category d = nd_category n"
      "di_position d = end_of_section rid (nd_category n) s"
    by (auto simp: insert_new_dish_def insert_dish_def insert_row_def Let_def result_simps split: sum.splits if_splits)
  thus ?thesis using next_place_above[of _ "map di_position (section_of rid (nd_category n) s)"]
    by (intro last_in_section[of s "me_dishes s" "[]"]) (auto simp: end_of_section_def)
qed

lemma update_one_row:
  assumes "keyed k t" "r \<in> set t" "P r" "\<And>x. P x \<Longrightarrow> k x = k r"
  obtains us vs where "t = us @ r # vs" "update_where P f t = us @ f r # vs"
proof -
  obtain us vs where t: "t = us @ r # vs" using split_list[OF assms(2)] by blast
  have "\<not> P x" if "x \<in> set us \<union> set vs" for x
  proof
    assume "P x"
    hence "k x = k r" by (rule assms(4))
    thus False using that assms(1) unfolding t by (auto simp: keyed_def image_iff)
  qed
  hence "update_where P f us = us" "update_where P f vs = vs" by (auto simp: update_where_def intro!: map_idI)
  hence "update_where P f t = us @ f r # vs" using assms(3) by (simp add: t update_where_def)
  thus ?thesis using t that by blast
qed

lemma moved_last:
  assumes "menu_ok s" "updateProduct rid pid p s = Inr (d, s')" "dp_category p = Some c"
    and "old \<in> set (me_dishes s)" "di_id old = pid" "di_category old \<noteq> c"
  shows "listProducts rid None (Some c) (length (me_dishes s')) 0 s' = listProducts rid None (Some c) (length (me_dishes s)) 0 s @ [d]"
proof -
  let ?hit = "\<lambda>d. di_id d = pid \<and> di_restaurant d = rid"
  have keyed: "keyed di_id (me_dishes s)" using menu_parts(2)[OF assms(1)] by (simp add: dishes_ok_def)
  obtain d0 where d0: "find_by ?hit (me_dishes s) = Some d0" "d = patched rid p s d0"
      "me_dishes s' = update_where ?hit (\<lambda>x. d) (me_dishes s)" "me_categories s' = me_categories s"
    using assms(2) by (auto simp: updateProduct_def Let_def split: option.splits if_splits sum.splits)
  have "d0 = old" using keyed_unique[OF keyed] find_by_SomeD[OF d0(1)] assms(4,5) by blast
  hence old: "old \<in> set (me_dishes s)" "?hit old" "d = patched rid p s old" using find_by_SomeD[OF d0(1)] d0(2) by auto
  obtain us vs where t: "me_dishes s = us @ old # vs" "me_dishes s' = us @ d # vs"
    using update_one_row[OF keyed old(1), of ?hit "\<lambda>x. d"] old(2) d0(3) by auto
  have d: "di_restaurant d = rid" "di_category d = c" "di_position d = end_of_section rid c s"
    using old(2,3) assms(3,6) by (simp_all add: patched_def Let_def)
  let ?s0 = "s\<lparr>me_dishes := us @ vs\<rparr>"
  have same: "section_of rid c ?s0 = section_of rid c s" using t(1) assms(6) by (simp add: section_of_def)
  have "listProducts rid None (Some c) (length (me_dishes s')) 0 s'
      = listProducts rid None (Some c) (length (me_dishes ?s0)) 0 ?s0 @ [d]"
    by (rule last_in_section[where us = us and vs = vs])
      (use t(2) d same next_place_above[of _ "map di_position (section_of rid c s)"] in \<open>auto simp: end_of_section_def\<close>)
  thus ?thesis unfolding section_listing same by simp
qed

theorem dish_comes_last:
  assumes "menu_step\<^sup>*\<^sup>* (empty_menu rs) s"
  shows "(createProduct rid n s = Inr (d, s') \<longrightarrow>
            listProducts rid None (Some (nd_category n)) (length (me_dishes s')) 0 s'
              = listProducts rid None (Some (nd_category n)) (length (me_dishes s)) 0 s @ [d])
       \<and> (\<forall>old \<in> set (me_dishes s). updateProduct rid (di_id old) p s = Inr (d, s') \<longrightarrow> dp_category p = Some c \<longrightarrow> di_category old \<noteq> c \<longrightarrow>
            listProducts rid None (Some c) (length (me_dishes s')) 0 s' = listProducts rid None (Some c) (length (me_dishes s)) 0 s @ [d])"
  using created_last[of rid n s d s'] moved_last[OF reached_ok[OF assms], of rid _ p d s' c] by blast

section \<open>What a diner sees\<close>

lemma string_le_antisym: "string_le s t \<Longrightarrow> string_le t s \<Longrightarrow> s = t"
proof (induction s t rule: string_le.induct)
  case (1 t)
  thus ?case by (cases t) auto
qed (auto split: if_splits)

lemma place_le_antisym: "place_le a b \<Longrightarrow> place_le b a \<Longrightarrow> a = b"
  using string_le_antisym by (auto simp: place_le_def prod_eq_iff)

lemma menu_before_total: "menu_before x y \<or> menu_before y x"
proof -
  obtain a d b e where xy: "x = (a, d)" "y = (b, e)" by (cases x, cases y)
  show ?thesis
    using place_le_total[of "(di_position d, di_name d)" "(di_position e, di_name e)"]
      place_le_total[of "(ct_position (the a), ct_name (the a))" "(ct_position (the b), ct_name (the b))"]
    unfolding xy by (cases a; cases b) (auto simp: menu_before_def)
qed

lemma menu_before_trans:
  assumes "menu_before x y" "menu_before y z"
  shows "menu_before x z"
proof -
  obtain a d b e c f where xyz: "x = (a, d)" "y = (b, e)" "z = (c, f)" by (cases x, cases y, cases z)
  let ?k = "\<lambda>a. (ct_position (the a), ct_name (the a))"
  let ?m = "\<lambda>d. (di_position d, di_name d)"
  have dishes: "place_le (?m d) (?m e) \<Longrightarrow> place_le (?m e) (?m f) \<Longrightarrow> place_le (?m d) (?m f)" by (rule place_le_trans)
  have sections: "place_le (?k a) (?k b) \<Longrightarrow> place_le (?k b) (?k c) \<Longrightarrow> place_le (?k a) (?k c)" by (rule place_le_trans)
  have apart: "place_le (?k a) (?k b) \<Longrightarrow> place_le (?k b) (?k a) \<Longrightarrow> ?k a = ?k b" by (rule place_le_antisym)
  show ?thesis
  proof (cases "a = None \<or> b = None \<or> c = None")
    case True
    thus ?thesis using assms dishes unfolding xyz by (auto simp: menu_before_def split: option.splits)
  next
    case False
    then obtain a' b' c' where abc: "a = Some a'" "b = Some b'" "c = Some c'" by auto
    have unf: "menu_before (Some u, v) (Some w, q) \<longleftrightarrow>
        (if ?k (Some u) = ?k (Some w) then place_le (?m v) (?m q) else place_le (?k (Some u)) (?k (Some w)))" for u v w q
      by (simp add: menu_before_def)
    show ?thesis
      using assms dishes sections apart unfolding xyz abc unf
      by (cases "?k a = ?k b"; cases "?k b = ?k c"; cases "?k a = ?k c") (simp_all only: abc if_True if_False, metis+)
  qed
qed

theorem public_menu_is_what_is_on:
  assumes "publicMenu open_for_business rid s = Inr (cs, ds)"
  shows "set cs = {c \<in> set (me_categories s). ct_restaurant c = rid \<and> ct_active c}
     \<and> (\<forall>d. d \<in> set ds \<longleftrightarrow> d \<in> set (me_dishes s) \<and> di_restaurant d = rid \<and> di_active d \<and>
            (di_category d = None \<or> (\<exists>c. category_of s d = Some c \<and> c \<in> set cs)))
     \<and> sorted_wrt menu_before (map (\<lambda>d. (category_of s d, d)) ds)"
proof -
  let ?seen = "filter (\<lambda>d. di_restaurant d = rid \<and> di_active d \<and> (di_category d = None \<or> shown s d \<noteq> None)) (me_dishes s)"
  let ?L = "sort_by menu_before (map (\<lambda>d. (shown s d, d)) ?seen)"
  have cs: "set cs = {c \<in> set (me_categories s). ct_restaurant c = rid \<and> ct_active c}" and ds: "ds = map snd ?L"
    using assms by (auto simp: publicMenu_def split: if_splits)
  have seen: "set ds = set ?seen" by (simp add: ds image_image)
  have on: "shown s d \<noteq> None \<longleftrightarrow> (\<exists>c. category_of s d = Some c \<and> c \<in> set cs)" if "di_restaurant d = rid" for d
    using that by (auto simp: shown_def cs category_of_def split: option.splits dest!: find_by_SomeD)
  have same: "shown s d = category_of s d" if "d \<in> set ?seen" for d
    using that by (auto simp: shown_def category_of_def split: option.splits)
  have L: "?L = map (\<lambda>d. (category_of s d, d)) ds"
  proof -
    have "\<forall>x \<in> set ?L. x = (category_of s (snd x), snd x)" using same by auto
    hence "map (\<lambda>x. (category_of s (snd x), snd x)) ?L = ?L" by (intro map_idI) auto
    thus ?thesis by (simp add: ds o_def)
  qed
  have "sorted_wrt menu_before ?L" by (rule sorted_sort_by) (rule menu_before_total, rule menu_before_trans)
  thus ?thesis using cs seen on unfolding L by auto
qed

section \<open>What an import writes\<close>

fun first_seen :: "'a set \<Rightarrow> 'a list \<Rightarrow> 'a list" where
  "first_seen taken [] = []"
| "first_seen taken (x # xs) = (if x \<in> taken then first_seen taken xs else x # first_seen (insert x taken) xs)"

definition section_known :: "nat \<Rightarrow> (string \<rightharpoonup> nat) \<Rightarrow> category table \<Rightarrow> string \<Rightarrow> bool" where
  "section_known rid ids t name \<longleftrightarrow> (\<exists>c \<in> set t. ct_restaurant c = rid \<and> ct_name c = name \<and> ids name = Some (ct_id c))"

definition names_in :: "nat \<Rightarrow> category table \<Rightarrow> string set" where
  "names_in rid t = ct_name ` {c \<in> set t. ct_restaurant c = rid}"

lemma names_inI: "c \<in> set t \<Longrightarrow> ct_restaurant c = rid \<Longrightarrow> ct_name c \<in> names_in rid t"
  by (auto simp: names_in_def)

lemma names_in_insert: "ct_restaurant c = rid \<Longrightarrow> names_in rid (insert_row c t) = insert (ct_name c) (names_in rid t)"
  by (auto simp: names_in_def)

lemma known_name: "section_known rid ids t n \<Longrightarrow> n \<in> names_in rid t"
  unfolding section_known_def names_in_def by blast

lemma import_sections_writes:
  assumes "import_sections rid its ids p s = (ids', made, s')" "ids [] = None"
    "\<And>n. ids n \<noteq> None \<Longrightarrow> section_known rid ids (me_categories s) n"
  shows "me_categories s' = me_categories s @ made \<and> me_dishes s' = me_dishes s \<and> me_restaurants s' = me_restaurants s \<and>
    map ct_name made = first_seen (insert [] (names_in rid (me_categories s))) (map section_name its) \<and>
    map ct_position made = map (\<lambda>k. p + int k) [0..<length made] \<and> ids' [] = None \<and>
    (\<forall>n. ids' n \<noteq> None \<longrightarrow> section_known rid ids' (me_categories s') n) \<and>
    (\<forall>i \<in> set its. section_name i \<noteq> [] \<longrightarrow> ids' (section_name i) \<noteq> None) \<and>
    (\<forall>n. ids n \<noteq> None \<longrightarrow> ids' n = ids n)"
  using assms
proof (induction rid its ids p s arbitrary: ids' made s' rule: import_sections.induct)
  case (2 rid i "is" ids position s)
  let ?name = "section_name i"
  show ?case
  proof (cases "?name = [] \<or> ids ?name \<noteq> None")
    case True
    have rest: "import_sections rid is ids position s = (ids', made, s')" using "2.prems"(1) True by (simp add: Let_def)
    note IH = "2.IH"(1)[OF refl True rest "2.prems"(2,3)]
    have "?name \<in> insert [] (names_in rid (me_categories s))"
      using True known_name[OF "2.prems"(3)[of ?name]] by blast
    thus ?thesis using IH True by auto
  next
    case False
    show ?thesis
    proof (cases "find_by (\<lambda>c. ct_restaurant c = rid \<and> ct_name c = ?name) (me_categories s)")
      case (Some c)
      have c: "c \<in> set (me_categories s)" "ct_restaurant c = rid" "ct_name c = ?name" using find_by_SomeD[OF Some] by auto
      have rest: "import_sections rid is (ids(?name \<mapsto> ct_id c)) position s = (ids', made, s')"
        using "2.prems"(1) False Some by (simp add: Let_def)
      have known: "section_known rid (ids(?name \<mapsto> ct_id c)) (me_categories s) n" if "(ids(?name \<mapsto> ct_id c)) n \<noteq> None" for n
        using that c "2.prems"(3)[of n] by (cases "n = ?name") (auto simp: section_known_def)
      have nil: "(ids(?name \<mapsto> ct_id c)) [] = None" using False "2.prems"(2) by auto
      note IH = "2.IH"(3)[OF refl False Some rest nil known]
      have "?name \<in> insert [] (names_in rid (me_categories s))" using names_inI[OF c(1,2)] c(3) by simp
      moreover have "ids' ?name = Some (ct_id c)" using IH by auto
      moreover have "ids' n = ids n" if "ids n \<noteq> None" for n using IH that False by (cases "n = ?name") auto
      ultimately show ?thesis using IH by auto
    next
      case None
      let ?c = "\<lparr>ct_id = me_next s, ct_restaurant = rid, ct_name = ?name, ct_position = position, ct_active = True\<rparr>"
      let ?s1 = "s\<lparr>me_categories := insert_row ?c (me_categories s), me_next := Suc (me_next s)\<rparr>"
      let ?ids = "ids(?name \<mapsto> ct_id ?c)"
      obtain ids1 made1 s2 where rest: "import_sections rid is ?ids (position + 1) ?s1 = (ids1, made1, s2)" by (rule prod_cases3)
      have eqs: "ids' = ids1" "made = ?c # made1" "s' = s2" using "2.prems"(1) False None rest by (simp_all add: Let_def)
      have known: "section_known rid ?ids (me_categories ?s1) n" if "?ids n \<noteq> None" for n
        using that "2.prems"(3)[of n] by (cases "n = ?name") (auto simp: section_known_def)
      have nil: "?ids [] = None" using False "2.prems"(2) by auto
      note IH = "2.IH"(2)[OF refl False None refl refl rest nil known]
      have new: "?name \<notin> insert [] (names_in rid (me_categories s))" using False None by (auto simp: names_in_def find_by_None)
      have "map ct_name made = first_seen (insert [] (names_in rid (me_categories s))) (map section_name (i # is))"
        using IH new by (simp add: eqs names_in_insert insert_commute)
      moreover have "map ct_position made = map (\<lambda>k. position + int k) [0..<length made]"
        using IH by (simp add: eqs upt_conv_Cons map_Suc_upt[symmetric] o_def add.assoc del: upt_Suc)
      moreover have "ids' n = ids n" if "ids n \<noteq> None" for n using IH that False by (cases "n = ?name") (auto simp: eqs)
      moreover have "ids' ?name \<noteq> None" using IH by (auto simp: eqs)
      ultimately show ?thesis using IH by (auto simp: eqs insert_row_def)
    qed
  qed
qed auto

definition dish_names :: "nat \<Rightarrow> dish table \<Rightarrow> string set" where
  "dish_names rid t = di_name ` {d \<in> set t. di_restaurant d = rid}"

lemma dish_names_insert: "di_restaurant d = rid \<Longrightarrow> dish_names rid (insert_row d t) = insert (di_name d) (dish_names rid t)"
  by (auto simp: dish_names_def)

lemma dish_taken_names: "dish_taken rid name t \<longleftrightarrow> name \<in> dish_names rid t"
  by (auto simp: dish_taken_def dish_names_def list_ex_iff)

definition placed :: "nat \<Rightarrow> string \<Rightarrow> category table \<Rightarrow> ocr_item list \<Rightarrow> dish \<Rightarrow> bool" where
  "placed rid currency t its d \<longleftrightarrow> (\<exists>i \<in> set its. di_name d = oi_name i \<and> di_price d = oi_price i \<and> di_currency d = currency \<and>
     di_restaurant d = rid \<and> di_active d \<and>
     (if section_name i = [] then di_category d = None
      else \<exists>c \<in> set t. ct_restaurant c = rid \<and> ct_name c = section_name i \<and> di_category d = Some (ct_id c)))"

lemma placed_mono: "placed rid currency t its d \<Longrightarrow> set its \<subseteq> set its' \<Longrightarrow> placed rid currency t its' d"
  unfolding placed_def by blast

lemma imported_placed:
  assumes "ids [] = None" "\<And>n. ids n \<noteq> None \<Longrightarrow> section_known rid ids t n" "section_name i \<noteq> [] \<Longrightarrow> ids (section_name i) \<noteq> None"
  shows "placed rid currency t [i] (imported_dish rid currency ids k i s)" "has_category rid (ids (section_name i)) t"
proof -
  show "placed rid currency t [i] (imported_dish rid currency ids k i s)"
    using assms(1) assms(2)[of "section_name i"] assms(3)
    by (cases "section_name i = []") (auto simp: placed_def imported_dish_def section_known_def)
  show "has_category rid (ids (section_name i)) t"
    using assms(2)[of "section_name i"] by (auto simp: has_category_def section_known_def list_ex_iff split: option.split)
qed

lemma import_items_writes:
  assumes "ids [] = None" "\<And>n. ids n \<noteq> None \<Longrightarrow> section_known rid ids (me_categories s) n"
    and "\<And>i. i \<in> set its \<Longrightarrow> (section_name i \<noteq> [] \<longrightarrow> ids (section_name i) \<noteq> None) \<and> 0 \<le> oi_price i"
    and "currency \<in> {''VES'', ''USD'', ''EUR''}"
  shows "\<exists>ds errs s'. import_items rid currency ids k its s = Inr (ds, errs, s') \<and> me_categories s' = me_categories s \<and>
    me_dishes s' = me_dishes s @ ds \<and> map di_name ds = first_seen (dish_names rid (me_dishes s)) (map oi_name its) \<and>
    length ds + length errs = length its \<and> (\<forall>d \<in> set ds. placed rid currency (me_categories s) its d)"
  using assms
proof (induction its arbitrary: k s)
  case (Cons i its)
  let ?d = "imported_dish rid currency ids k i s"
  have pl: "placed rid currency (me_categories s) [i] ?d" and has: "has_category rid (ids (section_name i)) (me_categories s)"
    using imported_placed[OF Cons.prems(1,2)] Cons.prems(3)[of i] by simp_all
  have fields: "di_name ?d = oi_name i" "di_restaurant ?d = rid" "di_category ?d = ids (section_name i)" by (simp_all add: imported_dish_def)
  have checks: "dish_checks ?d = Inr ()" using Cons.prems(3)[of i] Cons.prems(4) by (auto simp: dish_checks_def imported_dish_def)
  show ?case
  proof (cases "oi_name i \<in> dish_names rid (me_dishes s)")
    case True
    have ins: "insert_dish ?d s = Inl (General (Db_Unique ''menu_products_restaurant_id_name_key''))"
      using True checks by (simp add: insert_dish_def fields dish_taken_names)
    obtain ds errs s' where IH: "import_items rid currency ids (Suc k) its s = Inr (ds, errs, s')" "me_categories s' = me_categories s"
        "me_dishes s' = me_dishes s @ ds" "map di_name ds = first_seen (dish_names rid (me_dishes s)) (map oi_name its)"
        "length ds + length errs = length its" "\<forall>d \<in> set ds. placed rid currency (me_categories s) its d"
      using Cons.IH[OF Cons.prems(1,2) _ Cons.prems(4), of "Suc k"] Cons.prems(3) by auto
    have "import_items rid currency ids k (i # its) s = Inr (ds, k # errs, s')" using ins IH(1) by (simp add: Let_def)
    thus ?thesis using IH True placed_mono[of rid currency _ its _ "i # its"] by (intro exI[of _ ds] exI[of _ "k # errs"] exI[of _ s']) auto
  next
    case False
    let ?s1 = "s\<lparr>me_dishes := insert_row ?d (me_dishes s), me_next := Suc (me_next s)\<rparr>"
    have ins: "insert_dish ?d s = Inr ?s1" using False checks has by (simp add: insert_dish_def fields dish_taken_names)
    have names: "dish_names rid (me_dishes ?s1) = insert (oi_name i) (dish_names rid (me_dishes s))"
      using dish_names_insert[of ?d rid "me_dishes s"] fields(1,2) by simp
    have known: "section_known rid ids (me_categories ?s1) n" if "ids n \<noteq> None" for n using Cons.prems(2)[OF that] by simp
    obtain ds errs s' where IH: "import_items rid currency ids (Suc k) its ?s1 = Inr (ds, errs, s')" "me_categories s' = me_categories s"
        "me_dishes s' = me_dishes ?s1 @ ds" "map di_name ds = first_seen (insert (oi_name i) (dish_names rid (me_dishes s))) (map oi_name its)"
        "length ds + length errs = length its" "\<forall>d \<in> set ds. placed rid currency (me_categories s) its d"
      using Cons.IH[OF Cons.prems(1) known _ Cons.prems(4), of "Suc k"] Cons.prems(3) unfolding names by auto
    have "import_items rid currency ids k (i # its) s = Inr (?d # ds, errs, s')" using ins IH(1) by (simp add: Let_def)
    moreover have "me_dishes s' = me_dishes s @ ?d # ds" using IH(3) by (simp add: insert_row_def)
    moreover have "\<forall>d \<in> set (?d # ds). placed rid currency (me_categories s) (i # its) d"
      using IH(6) pl placed_mono[of rid currency _ its _ "i # its"] placed_mono[of rid currency _ "[i]" _ "i # its"] by auto
    ultimately show ?thesis using IH(2,4,5) False fields(1) by (intro exI[of _ "?d # ds"] exI[of _ errs] exI[of _ s']) simp
  qed
qed simp

theorem import_writes_the_new_names:
  assumes "read_currency rid s = Inr currency" "currency \<in> {''VES'', ''USD'', ''EUR''}" "\<forall>i \<in> set its. 0 \<le> oi_price i"
  shows "\<exists>r s'. ocrImport rid its s = Inr (r, s') \<and> me_dishes s' = me_dishes s @ im_items r \<and> me_categories s' = me_categories s @ im_categories r \<and>
     map di_name (im_items r) = first_seen (di_name ` {d \<in> set (me_dishes s). di_restaurant d = rid}) (map oi_name its) \<and>
     map ct_name (im_categories r)
       = first_seen (insert [] (ct_name ` {c \<in> set (me_categories s). ct_restaurant c = rid})) (map section_name its) \<and>
     map ct_position (im_categories r) = map (\<lambda>k. end_of_menu rid s + int k) [0..<length (im_categories r)] \<and>
     length (im_items r) + length (im_errors r) = length its \<and>
     (\<forall>d \<in> set (im_items r). \<exists>i \<in> set its. di_name d = oi_name i \<and> di_price d = oi_price i \<and> di_currency d = currency \<and>
        di_restaurant d = rid \<and> di_active d \<and>
        (if section_name i = [] then di_category d = None
         else \<exists>c \<in> set (me_categories s'). ct_restaurant c = rid \<and> ct_name c = section_name i \<and> di_category d = Some (ct_id c)))"
proof -
  obtain ids made s1 where sec: "import_sections rid its Map.empty (end_of_menu rid s) s = (ids, made, s1)" by (rule prod_cases3)
  have S: "me_categories s1 = me_categories s @ made" "me_dishes s1 = me_dishes s"
      "map ct_name made = first_seen (insert [] (names_in rid (me_categories s))) (map section_name its)"
      "map ct_position made = map (\<lambda>k. end_of_menu rid s + int k) [0..<length made]" "ids [] = None"
      "\<And>n. ids n \<noteq> None \<Longrightarrow> section_known rid ids (me_categories s1) n" "\<And>i. i \<in> set its \<Longrightarrow> section_name i \<noteq> [] \<longrightarrow> ids (section_name i) \<noteq> None"
    using import_sections_writes[OF sec] by auto
  obtain ds errs s' where I: "import_items rid currency ids 0 its s1 = Inr (ds, errs, s')" "me_categories s' = me_categories s1"
      "me_dishes s' = me_dishes s1 @ ds" "map di_name ds = first_seen (dish_names rid (me_dishes s1)) (map oi_name its)"
      "length ds + length errs = length its" "\<forall>d \<in> set ds. placed rid currency (me_categories s1) its d"
    using import_items_writes[OF S(5,6) _ assms(2), of its 0] S(7) assms(3) by auto
  let ?r = "\<lparr>im_items = ds, im_errors = errs, im_categories = made\<rparr>"
  have "ocrImport rid its s = Inr (?r, s')" using assms(1) sec I(1) by (simp add: ocrImport_def)
  moreover have "map di_name ds = first_seen (di_name ` {d \<in> set (me_dishes s). di_restaurant d = rid}) (map oi_name its)"
    using I(4) by (simp add: S(2) dish_names_def)
  moreover have "map ct_name made = first_seen (insert [] (ct_name ` {c \<in> set (me_categories s). ct_restaurant c = rid})) (map section_name its)"
    using S(3) by (simp add: names_in_def)
  moreover have "\<forall>d \<in> set ds. placed rid currency (me_categories s') its d" using I(2,6) by simp
  moreover have "me_dishes s' = me_dishes s @ ds" "me_categories s' = me_categories s @ made" using S(1,2) I(2,3) by simp_all
  ultimately show ?thesis using S(4) I(5) unfolding placed_def
    by (intro exI[of _ ?r] exI[of _ s'] conjI) (simp_all only: import_result.simps)
qed

section \<open>Well formed, in words\<close>

lemma checked_dish:
  assumes "dish_checks d = Inr ()"
  shows "0 \<le> di_price d \<and> di_currency d \<in> {''VES'', ''USD'', ''EUR''} \<and> (di_vat d \<noteq> None \<longrightarrow> di_tax d = TAXABLE)"
  using assms by (auto simp: dish_checks_def split: if_splits)


section \<open>A menu\<close>

definition bare_menu :: menu_state where
  "bare_menu = empty_menu [\<lparr>rs_id = 7, rs_menu_currency = ''USD'', rs_vat_bps = 1600, rs_service_bps = 1000, rs_subscription = None\<rparr>]"

definition plain_dish :: "string \<Rightarrow> nat option \<Rightarrow> new_dish" where
  "plain_dish name c = \<lparr>nd_name = name, nd_description = Some ''rico'', nd_price = 500, nd_category = c, nd_active = True, nd_tax = TAXABLE, nd_vat = None\<rparr>"

definition no_change :: dish_patch where
  "no_change = \<lparr>dp_name = None, dp_description = None, dp_price = None, dp_active = None, dp_category = None, dp_tax = None, dp_vat = None\<rparr>"

text \<open>Section 1 with the dishes 2 and 3, and 4 in no section.\<close>

definition demo_run :: "error + menu_state" where
  "demo_run =
     and_then (createCategory 7 ''Postres'' None True bare_menu) (\<lambda>(c, s1).
     and_then (createProduct 7 (plain_dish ''Flan'' (Some 1)) s1) (\<lambda>(d, s2).
     and_then (createProduct 7 (plain_dish ''Torta'' (Some 1)) s2) (\<lambda>(d, s3).
     and_then (createProduct 7 (plain_dish ''Agua'' None) s3) (\<lambda>(d, s4). Inr s4))))"

definition demo_menu :: menu_state where
  "demo_menu = (case demo_run of Inl e \<Rightarrow> bare_menu | Inr s \<Rightarrow> s)"

lemma created_step: "createProduct rid n s = Inr (d, s') \<Longrightarrow> menu_step s s'"
  by (auto simp: createProduct_def result_simps intro: dish_made)

lemma demo_reached: "menu_step\<^sup>*\<^sup>* bare_menu demo_menu"
proof -
  have "isr demo_run" by code_simp
  then obtain s4 where s4: "demo_run = Inr s4" by (auto simp: isr_def split: sum.splits)
  then obtain c s1 d2 s2 d3 s3 d4 where "createCategory 7 ''Postres'' None True bare_menu = Inr (c, s1)"
      "createProduct 7 (plain_dish ''Flan'' (Some 1)) s1 = Inr (d2, s2)" "createProduct 7 (plain_dish ''Torta'' (Some 1)) s2 = Inr (d3, s3)"
      "createProduct 7 (plain_dish ''Agua'' None) s3 = Inr (d4, s4)"
    unfolding demo_run_def by (auto simp: result_simps)
  hence "menu_step bare_menu s1" "menu_step s1 s2" "menu_step s2 s3" "menu_step s3 s4" using section_made created_step by blast+
  hence "menu_step\<^sup>*\<^sup>* bare_menu s4" by (meson converse_rtranclp_into_rtranclp rtranclp.rtrancl_refl)
  thus ?thesis by (simp add: demo_menu_def s4)
qed



theorem dish_comes_last_witness:
  "\<exists>d s'. createProduct 7 (plain_dish ''Arroz'' (Some 1)) demo_menu = Inr (d, s') \<and>
     listProducts 7 None (Some (Some 1)) (length (me_dishes s')) 0 s'
       = listProducts 7 None (Some (Some 1)) (length (me_dishes demo_menu)) 0 demo_menu @ [d]"
proof -
  have "isr (createProduct 7 (plain_dish ''Arroz'' (Some 1)) demo_menu)" by code_simp
  then obtain d s' where r: "createProduct 7 (plain_dish ''Arroz'' (Some 1)) demo_menu = Inr (d, s')" using isr_pair by blast
  have "nd_category (plain_dish ''Arroz'' (Some 1)) = Some 1" by (simp add: plain_dish_def)
  thus ?thesis
    using dish_comes_last[OF demo_reached[unfolded bare_menu_def], THEN conjunct1, rule_format, OF r] r by auto
qed

theorem public_menu_is_what_is_on_witness:
  "\<exists>cs ds. publicMenu (\<lambda>r. True) 7 demo_menu = Inr (cs, ds) \<and> map di_id ds = [2, 3, 4] \<and> sorted_wrt menu_before (map (\<lambda>d. (category_of demo_menu d, d)) ds)"
proof -
  have "(case publicMenu (\<lambda>r. True) 7 demo_menu of Inl e \<Rightarrow> False | Inr (cs, ds) \<Rightarrow> map di_id ds = [2, 3, 4])" by code_simp
  then obtain cs ds where r: "publicMenu (\<lambda>r. True) 7 demo_menu = Inr (cs, ds)" "map di_id ds = [2, 3, 4]" by (auto split: sum.splits)
  show ?thesis using public_menu_is_what_is_on[OF r(1)] r by (intro exI[of _ cs] exI[of _ ds]) simp
qed

theorem import_writes_the_new_names_witness:
  "\<exists>r s'. ocrImport 7 [\<lparr>oi_name = ''Flan'', oi_description = None, oi_price = 300, oi_section = None\<rparr>,
        \<lparr>oi_name = ''Sopa'', oi_description = None, oi_price = 300, oi_section = Some '' Entradas ''\<rparr>] demo_menu = Inr (r, s')
     \<and> map di_name (im_items r) = [''Sopa''] \<and> length (im_errors r) = 1"
proof -
  let ?its = "[\<lparr>oi_name = ''Flan'', oi_description = None, oi_price = 300, oi_section = None\<rparr>,
        \<lparr>oi_name = ''Sopa'', oi_description = None, oi_price = 300, oi_section = Some '' Entradas ''\<rparr>]"
  have cur: "read_currency 7 demo_menu = Inr ''USD''" by code_simp
  have names: "map di_name (filter (\<lambda>d. di_restaurant d = 7) (me_dishes demo_menu)) = [''Flan'', ''Torta'', ''Agua'']" by code_simp
  have set_names: "di_name ` {d \<in> set (me_dishes demo_menu). di_restaurant d = 7} = set [''Flan'', ''Torta'', ''Agua'']"
    unfolding names[symmetric] by simp
  have "\<forall>i \<in> set ?its. 0 \<le> oi_price i" by simp
  from import_writes_the_new_names[OF cur _ this] obtain r s' where r: "ocrImport 7 ?its demo_menu = Inr (r, s')"
      "map di_name (im_items r) = first_seen (di_name ` {d \<in> set (me_dishes demo_menu). di_restaurant d = 7}) (map oi_name ?its)"
      "length (im_items r) + length (im_errors r) = length ?its" by auto
  have "map di_name (im_items r) = [''Sopa'']" using r(2) unfolding set_names by simp
  thus ?thesis using r(1,3) by (intro exI[of _ r] exI[of _ s']) (auto dest: arg_cong[of _ _ length])
qed

text \<open>What the routes do not keep.  A product that was switched off before the currency changed comes back
  in the old one: an active menu in two currencies, which \<open>setCurrency\<close> exists to prevent.\<close>

lemma reactivated_dish_keeps_its_currency:
  "(case and_then (deleteProduct 7 2 False demo_menu) (\<lambda>s1. and_then (deleteProduct 7 3 False s1) (\<lambda>s2. and_then (deleteProduct 7 4 False s2) (\<lambda>s3.
       and_then (setCurrency 7 ''VES'' s3) (\<lambda>s4. and_then (updateProduct 7 2 (no_change\<lparr>dp_active := Some True\<rparr>) s4) (\<lambda>(d, s5).
       Inr (s5, publicMenu (\<lambda>r. True) 7 s5)))))) of
      Inr (s5, Inr (cs, ds)) \<Rightarrow> read_currency 7 s5 = Inr ''VES'' \<and> map di_currency ds = [''USD'']
    | _ \<Rightarrow> False)"
  by code_simp

text \<open>The same, crossed with the creation of a product that read the currency before.\<close>

lemma crossed_currency:
  "(case and_then (read_currency 7 bare_menu) (\<lambda>currency. and_then (setCurrency 7 ''VES'' bare_menu) (\<lambda>s1.
       and_then (insert_new_dish 7 currency (plain_dish ''Flan'' None) s1) (\<lambda>(d, s2). Inr (s2, d)))) of
      Inr (s2, d) \<Rightarrow> read_currency 7 s2 = Inr ''VES'' \<and> di_currency d = ''USD'' \<and> di_active d
    | _ \<Rightarrow> False)"
  by code_simp

text \<open>An empty description is accepted and keeps the old one.\<close>

lemma description_is_not_cleared:
  "(case updateProduct 7 2 (no_change\<lparr>dp_description := Some []\<rparr>) demo_menu of Inr (d, s) \<Rightarrow> di_description d = Some ''rico'' | _ \<Rightarrow> False)"
  by code_simp

text \<open>An imported dish is filed by its place on the photograph, among dishes that were ordered by hand.\<close>

lemma import_files_among_the_ordered:
  "(case ocrImport 7 [\<lparr>oi_name = ''Quesillo'', oi_description = None, oi_price = 300, oi_section = Some ''Postres''\<rparr>] demo_menu of
      Inr (r, s) \<Rightarrow> map di_name (listProducts 7 None (Some (Some 1)) 10 0 s) = [''Flan'', ''Quesillo'', ''Torta'']
    | _ \<Rightarrow> False)"
  by code_simp

text \<open>A section that does not exist reaches the foreign key, an error no route translates.\<close>

lemma unknown_section_is_a_raw_error:
  "createProduct 7 (plain_dish ''Arroz'' (Some 99)) demo_menu = Inl (General (Db_Check ''menu_products_category_fk''))"
proof -
  have "(case createProduct 7 (plain_dish ''Arroz'' (Some 99)) demo_menu of Inl e \<Rightarrow> e = General (Db_Check ''menu_products_category_fk'') | _ \<Rightarrow> False)"
    by code_simp
  thus ?thesis by (auto split: sum.splits)
qed

end
