(* ===== verification/Menu_Price.thy ===== *)
theory Menu_Price
  imports Prelude
begin

text \<open>
  Reading a price off a menu (services/menuPrice.js).  Strings are 8-bit characters: the euro sign,
  which is none, is dropped with every other character that is no digit and no separator.
\<close>

section \<open>Definitions\<close>

text \<open>\<open>CURRENCY_NOISE\<close>, removed wherever it occurs.  \<open>bs\<close> comes before \<open>bss\<close> in the pattern, so it is
  the one that matches.\<close>

function strip_noise :: "string \<Rightarrow> string" where
  "strip_noise s =
     (case s of
        [] \<Rightarrow> []
      | c # cs \<Rightarrow>
          if map lower (take 2 s) = ''bs'' then strip_noise (if take 1 (drop 2 s) = ''.'' then drop 3 s else drop 2 s)
          else if map lower (take 3 s) \<in> {''ves'', ''usd'', ''eur''} then strip_noise (drop 3 s)
          else if c = CHR ''$'' \<or> c = CHR 0xA3 then strip_noise cs
          else c # strip_noise cs)"
  by pat_completeness auto
termination by (relation "measure length") auto

definition price_char :: "char \<Rightarrow> bool" where
  "price_char c \<longleftrightarrow> is_digit c \<or> c = CHR ''.'' \<or> c = CHR '',''"

definition first_index :: "char \<Rightarrow> string \<Rightarrow> int" where
  "first_index c s = (if c \<in> set s then int (length (takeWhile (\<lambda>x. x \<noteq> c) s)) else - 1)"

definition last_index :: "char \<Rightarrow> string \<Rightarrow> int" where
  "last_index c s = (if c \<in> set s then int (length s) - 1 - int (length (takeWhile (\<lambda>x. x \<noteq> c) (rev s))) else - 1)"

definition remove_all :: "char \<Rightarrow> string \<Rightarrow> string" where
  "remove_all c s = filter (\<lambda>x. x \<noteq> c) s"

definition swap_first :: "char \<Rightarrow> char \<Rightarrow> string \<Rightarrow> string" where
  "swap_first c d s = (if c \<in> set s then takeWhile (\<lambda>x. x \<noteq> c) s @ d # tl (dropWhile (\<lambda>x. x \<noteq> c) s) else s)"

definition normalise_price :: "string \<Rightarrow> string option" where
  "normalise_price t =
     (let lastDot = last_index (CHR ''.'') t; lastComma = last_index (CHR '','') t in
      if lastDot \<noteq> - 1 \<and> lastComma \<noteq> - 1
      then Some (if lastComma > lastDot then swap_first (CHR '','') (CHR ''.'') (remove_all (CHR ''.'') t)
                 else remove_all (CHR '','') t)
      else if lastComma \<noteq> - 1
      then (let after = int (length t) - lastComma - 1 in
            if first_index (CHR '','') t \<noteq> lastComma then Some (remove_all (CHR '','') t)
            else if after = 3 then Some (remove_all (CHR '','') t)
            else if after = 1 \<or> after = 2 then Some (swap_first (CHR '','') (CHR ''.'') t)
            else None)
      else if lastDot \<noteq> - 1
      then (let after = int (length t) - lastDot - 1 in
            if first_index (CHR ''.'') t \<noteq> lastDot then Some (remove_all (CHR ''.'') t)
            else if after = 3 then Some (remove_all (CHR ''.'') t)
            else if after = 1 \<or> after = 2 then Some t
            else None)
      else Some t)"

text \<open>\<open>^\d+(\.\d{1,2})?$\<close>, and the amount in minor units.\<close>

definition price_of :: "string \<Rightarrow> int option" where
  "price_of s =
     (let whole = takeWhile (\<lambda>c. c \<noteq> CHR ''.'') s; rest = dropWhile (\<lambda>c. c \<noteq> CHR ''.'') s in
      if \<not> digits_only whole then None
      else case rest of
             [] \<Rightarrow> Some (int (read_nat whole) * 100)
           | d # fraction \<Rightarrow>
               if digits_only fraction \<and> length fraction \<le> 2
               then Some (int (read_nat whole) * 100 + int (read_nat (fraction @ replicate (2 - length fraction) (CHR ''0''))))
               else None)"

definition parseMenuPrice :: "string option \<Rightarrow> string option" where
  "parseMenuPrice raw =
     (case raw of
        None \<Rightarrow> None
      | Some r \<Rightarrow>
          (let text = filter price_char (trim (strip_noise (trim r))) in
           if text = [] then None
           else case normalise_price text of None \<Rightarrow> None | Some n \<Rightarrow> map_option show_int (price_of n)))"

declare strip_noise.simps [simp del]

section \<open>A written price is read back\<close>

text \<open>A number with its thousands apart, and two decimals.\<close>

definition three :: "nat \<Rightarrow> string" where
  "three m = [digit_char (m div 100), digit_char (m div 10 mod 10), digit_char (m mod 10)]"

definition two :: "nat \<Rightarrow> string" where
  "two m = [digit_char (m div 10), digit_char (m mod 10)]"

fun grouped :: "char \<Rightarrow> nat \<Rightarrow> string" where
  "grouped sep n = (if n < 1000 then show_nat n else grouped sep (n div 1000) @ sep # three (n mod 1000))"

declare grouped.simps [simp del]

lemma show_nat_thousands:
  assumes "1000 \<le> n"
  shows "show_nat n = show_nat (n div 1000) @ three (n mod 1000)"
proof -
  have m1: "n mod 1000 = 10 * (n div 10 mod 100) + n mod 10" using mod_mult2_eq[of n 10 100] by simp
  have m2: "n div 10 mod 100 = 10 * (n div 100 mod 10) + n div 10 mod 10"
    using mod_mult2_eq[of "n div 10" 10 10] by (simp add: div_mult2_eq[symmetric])
  have tens: "n mod 1000 div 10 = n div 10 mod 100" unfolding m1 by simp
  have d: "n mod 1000 mod 10 = n mod 10" "n mod 1000 div 10 mod 10 = n div 10 mod 10" "n mod 1000 div 100 = n div 100 mod 10"
    unfolding tens by (simp_all add: m1) (simp_all add: m2)
  have s: "show_nat n = show_nat (n div 10) @ [digit_char (n mod 10)]" using assms by (subst show_nat.simps) simp
  have s1: "show_nat (n div 10) = show_nat (n div 10 div 10) @ [digit_char (n div 10 mod 10)]" using assms by (subst show_nat.simps) simp
  have s2: "show_nat (n div 10 div 10) = show_nat (n div 10 div 10 div 10) @ [digit_char (n div 10 div 10 mod 10)]"
    using assms by (subst show_nat.simps) simp
  show ?thesis using s s1 s2 d by (simp add: three_def div_mult2_eq[symmetric])
qed

lemma separators [simp]:
  "\<not> is_digit (CHR ''.'')" "\<not> is_digit (CHR '','')"
  by (simp_all add: is_digit_def)

lemma digit_not_sep: "is_digit c \<Longrightarrow> c \<noteq> CHR ''.'' \<and> c \<noteq> CHR '',''"
  using separators by blast

lemma digits_three: "m < 1000 \<Longrightarrow> list_all is_digit (three m)"
  by (simp add: three_def)

lemma digits_two: "m < 100 \<Longrightarrow> list_all is_digit (two m)"
  by (simp add: two_def)

lemma read_two: "m < 100 \<Longrightarrow> read_nat (two m) = m"
  by (simp add: two_def read_nat_def)

lemma remove_digits:
  assumes "list_all is_digit s" "\<not> is_digit c"
  shows "remove_all c s = s"
proof -
  have "x \<noteq> c" if "x \<in> set s" for x using assms that unfolding list_all_iff by metis
  thus ?thesis unfolding remove_all_def by (rule filter_True[OF ballI])
qed

lemma remove_append [simp]: "remove_all c (s @ t) = remove_all c s @ remove_all c t"
  by (simp add: remove_all_def)

lemma remove_Cons [simp]: "remove_all c (x # t) = (if x = c then remove_all c t else x # remove_all c t)"
  by (simp add: remove_all_def)

lemma remove_Nil [simp]: "remove_all c [] = []"
  by (simp add: remove_all_def)

lemma ungroup: "\<not> is_digit sep \<Longrightarrow> remove_all sep (grouped sep n) = show_nat n"
proof (induction n rule: less_induct)
  case (less n)
  show ?case
  proof (cases "n < 1000")
    case True
    thus ?thesis using less.prems by (subst grouped.simps) (simp add: remove_digits)
  next
    case False
    have "remove_all sep (grouped sep n) = show_nat (n div 1000) @ three (n mod 1000)"
      using less False by (subst grouped.simps) (simp add: remove_digits digits_three)
    thus ?thesis using False by (simp add: show_nat_thousands)
  qed
qed

lemma grouped_chars: "set (grouped sep n) \<subseteq> {c. is_digit c} \<union> {sep}"
proof (induction n rule: less_induct)
  case (less n)
  show ?case
    by (subst grouped.simps) (use less[of "n div 1000"] show_nat_digits[of n] digits_three[of "n mod 1000"] in \<open>auto simp: list_all_iff\<close>)
qed

lemma grouped_not_Nil [simp]: "grouped sep n \<noteq> []"
  by (subst grouped.simps) simp

lemma takeWhile_other: "c \<notin> set F \<Longrightarrow> takeWhile (\<lambda>x. x \<noteq> c) (F @ c # W) = F"
  by (induction F) auto

lemma dropWhile_other: "c \<notin> set F \<Longrightarrow> dropWhile (\<lambda>x. x \<noteq> c) (F @ c # W) = c # W"
  by (induction F) auto

lemma last_index_at: "c \<notin> set F \<Longrightarrow> last_index c (W @ c # F) = int (length W)"
  using takeWhile_other[of c "rev F" "rev W"] by (simp add: last_index_def)

lemma first_index_at: "c \<notin> set W \<Longrightarrow> first_index c (W @ c # F) = int (length W)"
  by (simp add: first_index_def takeWhile_other)

lemma no_index [simp]: "c \<notin> set s \<Longrightarrow> last_index c s = - 1"
  by (simp add: last_index_def)

lemma last_index_bound: "last_index c s < int (length s)"
  by (simp add: last_index_def)

lemma last_index_front:
  assumes "c \<in> set W" "c \<notin> set F"
  shows "last_index c (W @ F) = last_index c W"
proof -
  have "takeWhile (\<lambda>x. x \<noteq> c) (rev F @ rev W) = rev F @ takeWhile (\<lambda>x. x \<noteq> c) (rev W)"
    by (rule takeWhile_append2) (use assms(2) in auto)
  thus ?thesis using assms by (simp add: last_index_def)
qed

lemma last_index_nonneg:
  assumes "c \<in> set s"
  shows "0 \<le> last_index c s"
proof -
  obtain W F where "s = W @ c # F" "c \<notin> set F" using split_list_last[OF assms] by blast
  thus ?thesis by (simp add: last_index_at)
qed

lemma price_of_decimal:
  assumes "digits_only w" "m < 100"
  shows "price_of (w @ CHR ''.'' # two m) = Some (int (100 * read_nat w + m))"
proof -
  have "CHR ''.'' \<notin> set w" using assms(1) digit_not_sep by (auto simp: digits_only_def list_all_iff)
  thus ?thesis using assms digits_two[OF assms(2)] read_two[OF assms(2)]
    by (simp add: price_of_def takeWhile_other dropWhile_other Let_def digits_only_def two_def)
qed

lemma price_of_whole:
  assumes "digits_only w"
  shows "price_of w = Some (int (100 * read_nat w))"
proof -
  have "\<forall>c \<in> set w. c \<noteq> CHR ''.''" using assms digit_not_sep by (auto simp: digits_only_def list_all_iff)
  hence parts: "takeWhile (\<lambda>c. c \<noteq> CHR ''.'') w = w" "dropWhile (\<lambda>c. c \<noteq> CHR ''.'') w = []"
    unfolding takeWhile_eq_all_conv dropWhile_eq_Nil_conv by blast+
  show ?thesis unfolding price_of_def Let_def parts using assms by simp
qed

lemma replace_at: "c \<notin> set F \<Longrightarrow> swap_first c d (F @ c # W) = F @ d # W"
  by (simp add: swap_first_def takeWhile_other dropWhile_other)

text \<open>Both conventions of writing a price with its decimals.\<close>

lemma normalise_decimal:
  assumes sep: "(sep, dec) = (CHR ''.'', CHR '','') \<or> (sep, dec) = (CHR '','', CHR ''.'')" and m: "m < 100"
  shows "normalise_price (grouped sep n @ dec # two m) = Some (show_nat n @ CHR ''.'' # two m)"
proof -
  let ?W = "grouped sep n"
  let ?t = "?W @ dec # two m"
  have nd: "\<not> is_digit sep" "\<not> is_digit dec" "sep \<noteq> dec" using sep by auto
  have W: "dec \<notin> set ?W" using grouped_chars[of sep n] nd by auto
  have F: "sep \<notin> set (two m)" "dec \<notin> set (two m)" using digits_two[OF m] nd by (auto simp: list_all_iff)
  have len: "length (two m) = 2" by (simp add: two_def)
  have dec_at: "last_index dec ?t = int (length ?W)" by (rule last_index_at[OF F(2)])
  have sep_at: "last_index sep ?t = (if sep \<in> set ?W then last_index sep ?W else - 1)"
    using last_index_front[of sep ?W "dec # two m"] F(1) nd(3) by auto
  have before: "last_index sep ?t < last_index dec ?t" unfolding sep_at dec_at using last_index_bound[of sep ?W] by auto
  have gone: "remove_all sep ?t = show_nat n @ dec # two m"
    using nd remove_digits[OF digits_two[OF m] nd(1)] by (simp add: ungroup)
  have dec_show: "dec \<notin> set (show_nat n)" using show_nat_digits[of n] nd by (auto simp: list_all_iff)
  show ?thesis
  proof (cases "sep \<in> set ?W")
    case True
    have there: "last_index sep ?t \<noteq> - 1" "last_index dec ?t \<noteq> - 1"
      using last_index_nonneg[OF True] True unfolding sep_at dec_at by auto
    from sep show ?thesis
    proof
      assume "(sep, dec) = (CHR ''.'', CHR '','')"
      hence eqs: "sep = CHR ''.''" "dec = CHR '',''" by simp_all
      show ?thesis using there before gone replace_at[OF dec_show, of "CHR ''.''" "two m"]
        unfolding normalise_price_def Let_def eqs by simp
    next
      assume "(sep, dec) = (CHR '','', CHR ''.'')"
      hence eqs: "sep = CHR '',''" "dec = CHR ''.''" by simp_all
      show ?thesis using there before gone unfolding normalise_price_def Let_def eqs by simp
    qed
  next
    case False
    hence none: "last_index sep ?t = - 1" by (simp add: sep_at)
    have plain: "?W = show_nat n" 
    proof -
      have "x \<noteq> sep" if "x \<in> set ?W" for x using False that by metis
      hence "remove_all sep ?W = ?W" unfolding remove_all_def by (rule filter_True[OF ballI])
      thus ?thesis using ungroup[OF nd(1), of n] by simp
    qed
    have first: "first_index dec ?t = int (length ?W)" by (rule first_index_at[OF W])
    have gap: "int (length ?t) - int (length ?W) - 1 = 2" using len by simp
    from sep show ?thesis
    proof
      assume "(sep, dec) = (CHR ''.'', CHR '','')"
      hence eqs: "sep = CHR ''.''" "dec = CHR '',''" by simp_all
      show ?thesis using none first dec_at gap replace_at[OF dec_show, of "CHR ''.''" "two m"]
        unfolding normalise_price_def Let_def eqs plain[unfolded eqs] by simp
    next
      assume "(sep, dec) = (CHR '','', CHR ''.'')"
      hence eqs: "sep = CHR '',''" "dec = CHR ''.''" by simp_all
      show ?thesis using none first dec_at gap
        unfolding normalise_price_def Let_def eqs plain[unfolded eqs] by simp
    qed
  qed
qed

lemma normalise_grouped:
  assumes "sep = CHR ''.'' \<or> sep = CHR '',''"
  shows "normalise_price (grouped sep n) = Some (show_nat n)"
proof -
  let ?W = "grouped sep n"
  have nd: "\<not> is_digit sep" using assms by auto
  have gone: "remove_all sep ?W = show_nat n" by (rule ungroup[OF nd])
  have other: "c \<notin> set ?W" if "c \<noteq> sep" "\<not> is_digit c" for c using grouped_chars[of sep n] that by auto
  show ?thesis
  proof (cases "n < 1000")
    case True
    hence W: "?W = show_nat n" by (subst grouped.simps) simp
    have "CHR ''.'' \<notin> set (show_nat n)" "CHR '','' \<notin> set (show_nat n)"
      using show_nat_digits[of n] separators unfolding list_all_iff by blast+
    thus ?thesis by (simp add: W normalise_price_def Let_def)
  next
    case False
    hence W: "?W = grouped sep (n div 1000) @ sep # three (n mod 1000)" by (subst grouped.simps) simp
    have no3: "sep \<notin> set (three (n mod 1000))" using digits_three[of "n mod 1000"] nd unfolding list_all_iff by auto
    have at: "last_index sep ?W = int (length (grouped sep (n div 1000)))" unfolding W by (rule last_index_at[OF no3])
    hence gap: "int (length ?W) - last_index sep ?W - 1 = 3" "last_index sep ?W \<noteq> - 1" by (simp_all add: W three_def)
    from assms show ?thesis
    proof
      assume e: "sep = CHR ''.''"
      have "last_index (CHR '','') ?W = - 1" by (rule no_index[OF other]) (simp_all add: e)
      thus ?thesis using gap gone unfolding normalise_price_def Let_def e by simp
    next
      assume e: "sep = CHR '',''"
      have "last_index (CHR ''.'') ?W = - 1" by (rule no_index[OF other]) (simp_all add: e)
      thus ?thesis using gap gone unfolding normalise_price_def Let_def e by simp
    qed
  qed
qed

lemma price_char_plain:
  assumes "price_char c"
  shows "lower c = c" "\<not> is_space c" "c \<notin> {CHR ''b'', CHR ''v'', CHR ''u'', CHR ''e'', CHR ''$'', CHR 0xA3}"
proof -
  have c: "(of_char c :: nat) \<in> {44, 46} \<union> {48..57}" using assms by (auto simp: price_char_def is_digit_def)
  show "lower c = c" using c by (auto simp: lower_def Let_def)
  show "\<not> is_space c" using c by (auto simp: is_space_def)
  show "c \<notin> {CHR ''b'', CHR ''v'', CHR ''u'', CHR ''e'', CHR ''$'', CHR 0xA3}" using c by auto
qed

lemma strip_plain:
  assumes "list_all price_char t"
  shows "strip_noise t = t"
  using assms
proof (induction t)
  case (Cons c t)
  have c: "price_char c" using Cons.prems by simp
  have "map lower (take 2 (c # t)) \<noteq> ''bs''" "map lower (take 3 (c # t)) \<notin> {''ves'', ''usd'', ''eur''}"
    using price_char_plain[OF c] by auto
  moreover have "c \<noteq> CHR ''$''" "c \<noteq> CHR 0xA3" using price_char_plain(3)[OF c] by auto
  ultimately have "strip_noise (c # t) = c # strip_noise t" by (subst strip_noise.simps) (simp only: list.case if_False HOL.simp_thms)
  thus ?case using Cons by simp
qed (simp add: strip_noise.simps)

lemma strip_bolivar:
  assumes "list_all price_char t"
  shows "strip_noise (''Bs. '' @ t) = CHR '' '' # t"
proof -
  have low: "lower (CHR ''B'') = CHR ''b''" "lower (CHR ''s'') = CHR ''s''" "lower (CHR '' '') = CHR '' ''" by code_simp+
  have "strip_noise (''Bs. '' @ t) = strip_noise (CHR '' '' # t)" by (subst strip_noise.simps) (simp add: low)
  also have "\<dots> = CHR '' '' # strip_noise t" by (subst strip_noise.simps) (simp add: low)
  finally show ?thesis by (simp add: strip_plain[OF assms])
qed

lemma plain_text:
  assumes "list_all price_char t" "t \<noteq> []"
  shows "filter price_char (trim (strip_noise (trim t))) = t"
    "filter price_char (trim (strip_noise (trim (''Bs. '' @ t)))) = t"
proof -
  have spaces: "list_all (\<lambda>c. \<not> is_space c) t" using assms(1) price_char_plain(2) unfolding list_all_iff by blast
  have all: "filter price_char t = t" using assms(1) unfolding list_all_iff by (rule filter_True)
  show "filter price_char (trim (strip_noise (trim t))) = t" using all by (simp add: trim_id[OF spaces] strip_plain[OF assms(1)])
  obtain c cs where rt: "rev t = c # cs" using assms(2) by (cases "rev t") auto
  have "c \<in> set t" using rt by (metis list.set_intros(1) set_rev)
  hence c: "\<not> is_space c" using spaces unfolding list_all_iff by blast
  have "\<not> is_space (CHR ''B'')" by (simp add: is_space_def)
  hence "trim (''Bs. '' @ t) = ''Bs. '' @ t" using c rt by (simp add: trim_def)
  moreover have "trim (CHR '' '' # t) = t" using trim_id[OF spaces] by (simp add: trim_def is_space_def)
  ultimately show "filter price_char (trim (strip_noise (trim (''Bs. '' @ t)))) = t" using all strip_bolivar[OF assms(1)] by simp
qed

lemma read_price:
  assumes "list_all price_char t" "t \<noteq> []" "normalise_price t = Some s" "price_of s = Some (int v)"
  shows "parseMenuPrice (Some t) = Some (show_nat v)" "parseMenuPrice (Some (''Bs. '' @ t)) = Some (show_nat v)"
  unfolding parseMenuPrice_def option.case Let_def plain_text[OF assms(1,2)] using assms(2-4) by (simp_all add: show_int_def)

text \<open>C21: A price written in either convention, its thousands grouped and its cents after the
  other separator, with or without the bolivar's sign, is read as exactly that number of
  cents; a whole price likewise.\<close>

theorem menu_price_round_trip:
  assumes "(thousands, decimal) = (CHR ''.'', CHR '','') \<or> (thousands, decimal) = (CHR '','', CHR ''.'')" and "cents < 100"
  shows "parseMenuPrice (Some (grouped thousands n @ decimal # two cents)) = Some (show_nat (100 * n + cents))
     \<and> parseMenuPrice (Some (''Bs. '' @ grouped thousands n @ decimal # two cents)) = Some (show_nat (100 * n + cents))
     \<and> parseMenuPrice (Some (grouped thousands n)) = Some (show_nat (100 * n))"
proof -
  have chars: "list_all price_char (grouped thousands n)" "list_all price_char (decimal # two cents)"
    using grouped_chars[of thousands n] digits_two[OF assms(2)] assms(1) by (auto simp: list_all_iff price_char_def)
  hence t: "list_all price_char (grouped thousands n @ decimal # two cents)" by simp
  have v: "price_of (show_nat n @ CHR ''.'' # two cents) = Some (int (100 * n + cents))"
    using price_of_decimal[OF digits_only_show_nat assms(2), of n] by simp
  have w: "price_of (show_nat n) = Some (int (100 * n))" using price_of_whole[OF digits_only_show_nat, of n] by simp
  have sep: "thousands = CHR ''.'' \<or> thousands = CHR '',''" using assms(1) by auto
  show ?thesis
    using read_price[OF t _ normalise_decimal[OF assms] v] read_price(1)[OF chars(1) _ normalise_grouped[OF sep] w] by simp
qed


lemma digit_chars: "map digit_char [0, 1, 2, 3, 4, 5, 6] = ''0123456''"
  by code_simp

theorem menu_price_round_trip_witness:
  "parseMenuPrice (Some ''Bs. 1.234,56'') = Some (show_nat 123456)"
proof -
  have "grouped (CHR ''.'') 1234 = ''1.234''" "two 56 = ''56''"
    using digit_chars by (simp_all add: grouped.simps show_nat.simps three_def two_def)
  thus ?thesis using menu_price_round_trip[of "CHR ''.''" "CHR '',''" 56 1234] by simp
qed

definition cleaned :: "string \<Rightarrow> string" where
  "cleaned r = filter price_char (trim (strip_noise (trim r)))"

lemma priced:
  assumes "cleaned r \<noteq> []" "normalise_price (cleaned r) = Some s" "price_of s = Some v"
  shows "parseMenuPrice (Some r) = Some (show_int v)"
  using assms by (simp add: parseMenuPrice_def cleaned_def Let_def)

text \<open>A separator left at the end, or the dots of an abbreviation, make all of them thousands: a price a
  hundred times too high.\<close>

lemma stray_separator_multiplies:
  "parseMenuPrice (Some ''2.50.'') = Some (show_int 25000)"
  "parseMenuPrice (Some ''2,50, c/u'') = Some (show_int 25000)"
  "parseMenuPrice (Some ''Bs.S. 2.50'') = Some (show_int 25000)"
proof -
  have p: "price_of ''250'' = Some 25000" by code_simp
  show "parseMenuPrice (Some ''2.50.'') = Some (show_int 25000)" by (rule priced[OF _ _ p]) code_simp+
  show "parseMenuPrice (Some ''2,50, c/u'') = Some (show_int 25000)" by (rule priced[OF _ _ p]) code_simp+
  show "parseMenuPrice (Some ''Bs.S. 2.50'') = Some (show_int 25000)" by (rule priced[OF _ _ p]) code_simp+
qed

text \<open>\<open>bss\<close> is never matched, so its dot stays and the price is not read.\<close>

lemma bss_is_unreadable: "parseMenuPrice (Some ''Bss. 25'') = None"
proof -
  have "normalise_price (cleaned ''Bss. 25'') = Some ''.25''" "price_of ''.25'' = None" by code_simp+
  thus ?thesis by (simp add: parseMenuPrice_def cleaned_def[symmetric] Let_def)
qed

end
