(* ===== verification/Bcv.thy ===== *)
theory Bcv
  imports Menu_Price Complex_Main
begin

text \<open>
  Reading the official rates off the central bank's home page (connectors/bcv.js).  The two regular
  expressions are functions on characters: \<open>match_strong\<close> and \<open>match_content\<close> try the end of the pattern
  at one place, \<open>lazy_gap\<close> is the lazy gap of bounded length before it, \<open>scan\<close> is \<open>exec\<close>, which tries
  every place of the page.  A number is a \<open>rat\<close>; the code has the nearest double.
\<close>

section \<open>Definitions\<close>

fun prefix_ci :: "string \<Rightarrow> string \<Rightarrow> bool" where
  "prefix_ci [] s = True"
| "prefix_ci (c # w) [] = False"
| "prefix_ci (c # w) (d # s) = (if lower d = c then prefix_ci w s else False)"

text \<open>\<open>[\s\S]{0,n}?\<close> before what \<open>f\<close> matches: the shortest gap wins.\<close>

fun lazy_gap :: "nat \<Rightarrow> (string \<Rightarrow> 'a option) \<Rightarrow> string \<Rightarrow> 'a option" where
  "lazy_gap n f s =
     (case f s of
        Some x \<Rightarrow> Some x
      | None \<Rightarrow> (case (n, s) of (Suc m, c # cs) \<Rightarrow> lazy_gap m f cs | _ \<Rightarrow> None))"

declare lazy_gap.simps [simp del]

fun scan :: "(string \<Rightarrow> 'a option) \<Rightarrow> string \<Rightarrow> 'a option" where
  "scan f [] = f []"
| "scan f (c # cs) = (case f (c # cs) of Some x \<Rightarrow> Some x | None \<Rightarrow> scan f cs)"

text \<open>\<open><strong[^>]*>\s*([\d.,]+)\s*<\/strong>\<close>\<close>

definition match_strong :: "string \<Rightarrow> string option" where
  "match_strong s =
     (if \<not> prefix_ci ''<strong'' s then None
      else case dropWhile (\<lambda>c. c \<noteq> CHR ''>'') (drop 7 s) of
             [] \<Rightarrow> None
           | _ # rest \<Rightarrow>
               (let inner = dropWhile is_space rest; figure = takeWhile price_char inner in
                if figure \<noteq> [] \<and> prefix_ci ''</strong>'' (dropWhile is_space (dropWhile price_char inner)) then Some figure else None))"

text \<open>\<open>Number\<close> of the digits and separators that are left: an empty text is 0, a comma is no number.\<close>

definition js_number :: "string \<Rightarrow> rat option" where
  "js_number s =
     (let whole = takeWhile (\<lambda>c. c \<noteq> CHR ''.'') s; rest = dropWhile (\<lambda>c. c \<noteq> CHR ''.'') s; fraction = tl rest in
      if \<not> list_all is_digit whole \<or> \<not> list_all is_digit fraction then None
      else if whole = [] \<and> rest \<noteq> [] \<and> fraction = [] then None
      else Some (of_nat (read_nat whole) + of_nat (read_nat fraction) / 10 ^ length fraction))"

definition parseVenezuelanDecimal :: "string \<Rightarrow> rat option" where
  "parseVenezuelanDecimal text = js_number (swap_first (CHR '','') (CHR ''.'') (remove_all (CHR ''.'') (trim text)))"

definition block_start :: "string \<Rightarrow> string \<Rightarrow> string option" where
  "block_start block s =
     (let key = ''id='' @ [CHR 0x22] @ block @ [CHR 0x22] in
      if prefix_ci key s then lazy_gap 2000 match_strong (drop (length key) s) else None)"

definition extractRate :: "string \<Rightarrow> string \<Rightarrow> rat option" where
  "extractRate html block = (case scan (block_start block) html of None \<Rightarrow> None | Some figure \<Rightarrow> parseVenezuelanDecimal figure)"

text \<open>\<open>Fecha\s+Valor:[\s\S]{0,400}?content="(\d{4}-\d{2}-\d{2})\<close>\<close>

definition match_content :: "string \<Rightarrow> string option" where
  "match_content s =
     (let key = ''content='' @ [CHR 0x22]; date = take 10 (drop (length key) s); dash = (\<lambda>i. date ! i = CHR ''-'') in
      if prefix_ci key s \<and> length date = 10 \<and> dash 4 \<and> dash 7 \<and>
         list_all is_digit (take 4 date) \<and> list_all is_digit (take 2 (drop 5 date)) \<and> list_all is_digit (drop 8 date)
      then Some date else None)"

definition value_date_start :: "string \<Rightarrow> string option" where
  "value_date_start s =
     (let gap = drop 5 s; rest = dropWhile is_space gap in
      if prefix_ci ''fecha'' s \<and> rest \<noteq> gap \<and> prefix_ci ''valor:'' rest then lazy_gap 400 match_content (drop 6 rest) else None)"

definition CURRENCY_BLOCKS :: "(string \<times> string) list" where
  "CURRENCY_BLOCKS = [(''USD'', ''dolar''), (''EUR'', ''euro'')]"

definition parseBcvPage :: "string \<Rightarrow> ((string \<times> rat) list \<times> string option) option" where
  "parseBcvPage html =
     (let rates = List.map_filter (\<lambda>(currency, block). map_option (Pair currency) (extractRate html block)) CURRENCY_BLOCKS in
      if rates = [] then None else Some (rates, scan value_date_start html))"

text \<open>The request is a parameter: the page, or nothing when it failed.\<close>

definition fetchRates :: "string option \<Rightarrow> ((string \<times> rat) list \<times> string option) option" where
  "fetchRates page = (case page of None \<Rightarrow> None | Some html \<Rightarrow> parseBcvPage html)"

section \<open>A figure is read as it is printed\<close>

lemma prefix_ci_eq: "prefix_ci w s \<longleftrightarrow> map lower (take (length w) s) = w"
  by (induction w s rule: prefix_ci.induct) auto

declare prefix_ci.simps [simp del]

definition figure_text :: "nat \<Rightarrow> string \<Rightarrow> string" where
  "figure_text whole fraction = grouped (CHR ''.'') whole @ CHR '','' # fraction"

lemma js_number_decimal:
  assumes "list_all is_digit w" "w \<noteq> []" "list_all is_digit f"
  shows "js_number (w @ CHR ''.'' # f) = Some (of_nat (read_nat w) + of_nat (read_nat f) / 10 ^ length f)"
proof -
  have "CHR ''.'' \<notin> set w" using assms(1) digit_not_sep by (auto simp: list_all_iff)
  thus ?thesis using assms by (simp add: js_number_def takeWhile_other dropWhile_other Let_def)
qed

lemma figure_is_read:
  assumes "list_all is_digit fraction"
  shows "parseVenezuelanDecimal (figure_text whole fraction) = Some (of_nat whole + of_nat (read_nat fraction) / 10 ^ length fraction)"
proof -
  let ?t = "figure_text whole fraction"
  have chars: "list_all price_char ?t"
    using grouped_chars[of "CHR ''.''" whole] assms by (auto simp: figure_text_def list_all_iff price_char_def)
  hence "list_all (\<lambda>c. \<not> is_space c) ?t" using price_char_plain(2) unfolding list_all_iff by blast
  hence "trim ?t = ?t" by (rule trim_id)
  moreover have "remove_all (CHR ''.'') ?t = show_nat whole @ CHR '','' # fraction"
    using remove_digits[OF assms separators(1)] by (simp add: figure_text_def ungroup)
  moreover have "CHR '','' \<notin> set (show_nat whole)" using show_nat_digits[of whole] separators unfolding list_all_iff by blast
  ultimately show ?thesis
    unfolding parseVenezuelanDecimal_def by (simp add: replace_at js_number_decimal[OF show_nat_digits _ assms])
qed

lemma lazy_gap_hit: "f s = Some x \<Longrightarrow> lazy_gap n f s = Some x"
  by (subst lazy_gap.simps) simp

lemma lazy_gap_skip:
  "(\<And>i. i < length gap \<Longrightarrow> f (drop i gap @ s) = None) \<Longrightarrow> length gap \<le> n \<Longrightarrow> f s = Some x \<Longrightarrow> lazy_gap n f (gap @ s) = Some x"
proof (induction gap arbitrary: n)
  case (Cons c gap)
  obtain m where m: "n = Suc m" using Cons.prems(2) by (cases n) auto
  have "f (c # gap @ s) = None" using Cons.prems(1)[of 0] by simp
  moreover have "lazy_gap m f (gap @ s) = Some x"
    by (rule Cons.IH) (use Cons.prems(1)[of "Suc _"] Cons.prems(2,3) m in auto)
  ultimately show ?case by (subst lazy_gap.simps) (simp add: m)
qed (simp add: lazy_gap_hit)

lemma scan_skip: "(\<And>i. i < length pre \<Longrightarrow> f (drop i pre @ s) = None) \<Longrightarrow> f s = Some x \<Longrightarrow> scan f (pre @ s) = Some x"
proof (induction pre)
  case Nil
  thus ?case by (cases s) auto
next
  case (Cons c pre)
  have "f (c # pre @ s) = None" using Cons.prems(1)[of 0] by simp
  moreover have "scan f (pre @ s) = Some x" by (rule Cons.IH) (use Cons.prems(1)[of "Suc _"] Cons.prems(2) in auto)
  ultimately show ?case by simp
qed

lemma figure_then_stop:
  assumes "\<forall>c \<in> set w. P c" "\<not> P (hd r)"
  shows "takeWhile P (w @ r) = w \<and> dropWhile P (w @ r) = r"
proof -
  have "takeWhile P r = []" "dropWhile P r = r" using assms(2) by (cases r; simp)+
  thus ?thesis using assms(1) by (simp add: takeWhile_append2 dropWhile_append2)
qed

lemma match_strong_figure:
  assumes "list_all is_space gap1" "list_all is_space gap2" "figure \<noteq> []" "list_all price_char figure"
  shows "match_strong (''<strong>'' @ gap1 @ figure @ gap2 @ ''</strong>'' @ post) = Some figure"
proof -
  have low: "map lower ''<strong'' = ''<strong''" "map lower ''</strong>'' = ''</strong>''" by code_simp+
  have plain: "\<forall>c \<in> set figure. \<not> is_space c \<and> price_char c" using assms(4) price_char_plain(2) by (auto simp: list_all_iff)
  obtain c cs where f: "figure = c # cs" using assms(3) by (cases figure) auto
  have c: "\<not> is_space c" "price_char c" using plain f by auto
  have lt: "\<not> is_space (CHR ''<'')" "\<not> price_char (CHR ''<'')" by (simp_all add: is_space_def price_char_def is_digit_def)
  have sp: "\<not> price_char x" if "is_space x" for x using price_char_plain(2)[of x] that by blast
  have inner: "dropWhile is_space (gap1 @ figure @ gap2 @ ''</strong>'' @ post) = figure @ gap2 @ ''</strong>'' @ post"
    using assms(1) c by (simp add: dropWhile_append list_all_iff f)
  let ?rest = "gap2 @ ''</strong>'' @ post"
  have hd: "\<not> price_char (hd ?rest)" "?rest \<noteq> []" using assms(2) sp lt by (cases gap2; simp)+
  have all: "\<forall>c \<in> set figure. price_char c" using plain by blast
  have tw: "takeWhile price_char (figure @ ?rest) = figure" "dropWhile price_char (figure @ ?rest) = ?rest"
    using figure_then_stop[OF all hd(1)] by blast+
  have end_: "dropWhile is_space ?rest = ''</strong>'' @ post" using assms(2) lt by (simp add: dropWhile_append list_all_iff)
  have start: "prefix_ci ''<strong'' (''<strong>'' @ gap1 @ figure @ ?rest)" using low(1) by (simp add: prefix_ci_eq)
  have close: "prefix_ci ''</strong>'' (''</strong>'' @ post)" using low(2) by (simp add: prefix_ci_eq)
  have drop: "dropWhile (\<lambda>c. c \<noteq> CHR ''>'') (drop 7 (''<strong>'' @ gap1 @ figure @ ?rest)) = CHR ''>'' # gap1 @ figure @ ?rest" by simp
  show ?thesis unfolding match_strong_def drop using start close inner tw end_ assms(3) by (simp add: Let_def)
qed

definition block_key :: "string \<Rightarrow> string" where
  "block_key block = ''id='' @ [CHR 0x22] @ block @ [CHR 0x22]"

definition strong_figure :: "string \<Rightarrow> string \<Rightarrow> string \<Rightarrow> string" where
  "strong_figure gap1 figure gap2 = ''<strong>'' @ gap1 @ figure @ gap2 @ ''</strong>''"

lemma match_strong_start: "match_strong s = Some x \<Longrightarrow> prefix_ci ''<strong'' s"
  by (simp add: match_strong_def split: if_splits)

lemma block_is_read:
  assumes block: "map lower block = block"
    and first: "\<forall>i < length pre. \<not> prefix_ci (block_key block) (drop i pre @ block_key block @ mid @ tail)"
    and gap: "length mid \<le> 2000" "\<forall>i < length mid. \<not> prefix_ci ''<strong'' (drop i mid @ tail)"
    and tail: "match_strong tail = Some figure"
  shows "extractRate (pre @ block_key block @ mid @ tail) block = parseVenezuelanDecimal figure"
proof -
  let ?key = "block_key block"
  have low: "map lower ''id='' = ''id=''" "lower (CHR 0x22) = CHR 0x22" by code_simp+
  have key: "prefix_ci ?key (?key @ mid @ tail)" using low block by (simp add: prefix_ci_eq block_key_def)
  have start: "block_start block s = (if prefix_ci ?key s then lazy_gap 2000 match_strong (drop (length ?key) s) else None)" for s
    by (simp add: block_start_def block_key_def Let_def)
  have "match_strong (drop i mid @ tail) = None" if "i < length mid" for i
    using gap(2) that match_strong_start[of "drop i mid @ tail"] by (cases "match_strong (drop i mid @ tail)") auto
  hence "lazy_gap 2000 match_strong (mid @ tail) = Some figure" by (intro lazy_gap_skip gap(1) tail)
  hence here: "block_start block (?key @ mid @ tail) = Some figure" using key by (simp add: start)
  have "scan (block_start block) (pre @ ?key @ mid @ tail) = Some figure"
  proof (rule scan_skip)
    show "block_start block (drop i pre @ ?key @ mid @ tail) = None" if "i < length pre" for i using first that by (simp add: start)
  qed (rule here)
  thus ?thesis by (simp add: extractRate_def)
qed

theorem published_rate_is_read:
  assumes "block \<in> {''dolar'', ''euro''}" and "list_all is_digit fraction" and "list_all is_space gap1" "list_all is_space gap2"
    and "tail = strong_figure gap1 (figure_text whole fraction) gap2 @ post" and "length mid \<le> 2000"
    and "\<forall>i < length pre. \<not> prefix_ci (block_key block) (drop i pre @ block_key block @ mid @ tail)"
    and "\<forall>i < length mid. \<not> prefix_ci ''<strong'' (drop i mid @ tail)"
  shows "extractRate (pre @ block_key block @ mid @ tail) block = Some (of_nat whole + of_nat (read_nat fraction) / 10 ^ length fraction)"
proof -
  have "map lower ''dolar'' = ''dolar''" "map lower ''euro'' = ''euro''" by code_simp+
  hence block: "map lower block = block" using assms(1) by auto
  have chars: "list_all price_char (figure_text whole fraction)" "figure_text whole fraction \<noteq> []"
    using grouped_chars[of "CHR ''.''" whole] assms(2) by (auto simp: figure_text_def list_all_iff price_char_def)
  have "match_strong tail = Some (figure_text whole fraction)"
    using match_strong_figure[OF assms(3,4) chars(2,1), of post] by (simp add: assms(5) strong_figure_def)
  from block_is_read[OF block assms(7,6,8) this] show ?thesis by (simp add: figure_is_read[OF assms(2)])
qed

theorem published_rate_is_read_witness:
  "extractRate (''<div '' @ block_key ''dolar'' @ ''> USD '' @ strong_figure '' '' (figure_text 1757 ''5406'') '' '' @ ''</div>'') ''dolar'' = Some (17575406 / 10000)"
proof -
  let ?tail = "strong_figure '' '' (figure_text 1757 ''5406'') '' '' @ ''</div>''"
  have pre: "\<forall>i < length ''<div ''. \<not> prefix_ci (block_key ''dolar'') (drop i ''<div '' @ block_key ''dolar'' @ ''> USD '' @ ?tail)" by code_simp
  have mid: "\<forall>i < length ''> USD ''. \<not> prefix_ci ''<strong'' (drop i ''> USD '' @ ?tail)" by code_simp
  have n: "read_nat ''5406'' = 5406" by code_simp
  have sp: "list_all is_space '' ''" by (simp add: is_space_def)
  have dg: "list_all is_digit ''5406''" by code_simp
  have short: "length ''> USD '' \<le> 2000" by simp
  show ?thesis using published_rate_is_read[OF _ dg sp sp refl short pre mid] n by simp
qed

text \<open>A dollar block that has lost its figure takes the euro's, when that one is near enough.\<close>

lemma next_currency_is_latched:
  defines "mid \<equiv> ''> USD </div><div '' @ block_key ''euro'' @ ''> EUR ''"
    and "tail \<equiv> strong_figure '' '' (figure_text 860 ''12'') '' ''"
  shows "extractRate (block_key ''dolar'' @ mid @ tail) ''dolar'' = Some (86012 / 100)"
proof -
  have gap: "\<forall>i < length mid. \<not> prefix_ci ''<strong'' (drop i mid @ tail)" unfolding mid_def tail_def by code_simp
  have "length mid \<le> 2000" by (simp add: mid_def block_key_def)
  moreover have n: "read_nat ''12'' = 12" "list_all is_digit ''12''" by code_simp+
  moreover have "list_all is_space '' ''" by (simp add: is_space_def)
  ultimately have t: "match_strong tail = Some (figure_text 860 ''12'')"
    using match_strong_figure[of "'' ''" "'' ''" "figure_text 860 ''12''" "[]"] grouped_chars[of "CHR ''.''" 860]
    by (auto simp: tail_def strong_figure_def figure_text_def list_all_iff price_char_def)
  have "map lower ''dolar'' = ''dolar''" by code_simp
  from block_is_read[OF this _ \<open>length mid \<le> 2000\<close> gap t, of "[]"] show ?thesis
    using figure_is_read[OF n(2), of 860] n(1) by simp
qed

end
