(* ===== verification/Fx.thy ===== *)
theory Fx
  imports Bcv
begin

text \<open>
  The official rate a bill is opened at (services/fx.js).  The process keeps a cache per currency and
  the last rate it accepted; \<open>fx_rates\<close> is the table.  What a call meets is a \<open>fx_call\<close>: the clock, the
  page of the central bank or a failed request, and whether each query of the database answers.  A value
  date is the number of its day, which the calendar \<open>fc_day\<close> gives for a date as text; instants are
  milliseconds.  A rate is a \<open>rat\<close> where the code has a double.
\<close>

section \<open>Definitions\<close>

record quote =
  qt_rate :: rat
  qt_source :: string
  qt_value_date :: "int option"
  qt_fetched :: int

record fx_row =
  fr_source :: string
  fr_base :: string
  fr_rate :: rat
  fr_value_date :: int

record fx_state =
  fx_caches :: "string \<Rightarrow> quote option"
  fx_last_good :: "string \<Rightarrow> rat option"
  fx_baseline_loaded :: bool
  fx_rates :: "fx_row table"

record fx_config =
  fc_enabled :: bool
  fc_source :: string
  fc_ttl :: int
  fc_min :: rat
  fc_max :: rat
  fc_deviation :: rat
  fc_max_age :: int
  fc_day :: "string \<Rightarrow> int"

record fx_call =
  cl_now :: int
  cl_page :: "string option"
  cl_reads_baseline :: bool
  cl_writes :: "string \<Rightarrow> bool"
  cl_reads_history :: bool

definition SUPPORTED :: "string list" where
  "SUPPORTED = [''USD'', ''EUR'']"

definition withinAbsoluteBounds :: "fx_config \<Rightarrow> rat \<Rightarrow> bool" where
  "withinAbsoluteBounds cfg rate \<longleftrightarrow> rate \<ge> fc_min cfg \<and> rate \<le> fc_max cfg"

definition withinDeviationBand :: "fx_config \<Rightarrow> fx_state \<Rightarrow> string \<Rightarrow> rat \<Rightarrow> bool" where
  "withinDeviationBand cfg s currency rate =
     (case fx_last_good s currency of
        None \<Rightarrow> True
      | Some baseline \<Rightarrow> \<bar>rate - baseline\<bar> / baseline * 100 \<le> fc_deviation cfg)"

text \<open>\<open>ORDER BY value_date DESC\<close>, the first row of each.\<close>

fun newest :: "fx_row list \<Rightarrow> fx_row option" where
  "newest [] = None"
| "newest (r # rs) = (case newest rs of None \<Rightarrow> Some r | Some x \<Rightarrow> Some (if fr_value_date x > fr_value_date r then x else r))"

definition loadBaselines :: "bool \<Rightarrow> fx_state \<Rightarrow> fx_state" where
  "loadBaselines up s =
     (if fx_baseline_loaded s then s
      else if \<not> up then s\<lparr>fx_baseline_loaded := True\<rparr>
      else s\<lparr>fx_baseline_loaded := True, fx_last_good := (\<lambda>c. case newest (filter (\<lambda>r. fr_base r = c) (fx_rates s)) of
               None \<Rightarrow> fx_last_good s c | Some r \<Rightarrow> Some (fr_rate r))\<rparr>)"

text \<open>A \<open>NUMERIC(20,8)\<close> column, with its CHECK; \<open>value_date\<close> is NOT NULL, so a rate without one is not stored.\<close>

definition rate_column :: "rat \<Rightarrow> rat" where
  "rate_column r = of_int \<lfloor>r * 10 ^ 8 + 1 / 2\<rfloor> / 10 ^ 8"

definition persist :: "bool \<Rightarrow> string \<Rightarrow> rat \<Rightarrow> string \<Rightarrow> int option \<Rightarrow> fx_row table \<Rightarrow> fx_row table" where
  "persist up currency rate source valueDate t =
     (case valueDate of
        None \<Rightarrow> t
      | Some d \<Rightarrow>
          if \<not> up \<or> \<not> 0 < rate_column rate then t
          else (let hit = (\<lambda>r. fr_source r = source \<and> fr_base r = currency \<and> fr_value_date r = d)
                in if list_ex hit t then update_where hit (\<lambda>r. r\<lparr>fr_rate := rate_column rate\<rparr>) t
                   else insert_row \<lparr>fr_source = source, fr_base = currency, fr_rate = rate_column rate, fr_value_date = d\<rparr> t))"

text \<open>Venezuela is four hours behind UTC all year round.\<close>

definition caracasToday :: "int \<Rightarrow> int" where
  "caracasToday now = (now - 14400000) div 86400000"

definition isInForce :: "int option \<Rightarrow> int \<Rightarrow> bool" where
  "isInForce valueDate now = (case valueDate of None \<Rightarrow> True | Some d \<Rightarrow> d \<le> caracasToday now)"

text \<open>The outer \<open>None\<close> is a query that failed.\<close>

definition inForceFromHistory :: "fx_call \<Rightarrow> string \<Rightarrow> fx_state \<Rightarrow> quote option option" where
  "inForceFromHistory w currency s =
     (if \<not> cl_reads_history w then None
      else Some (map_option (\<lambda>r. \<lparr>qt_rate = fr_rate r, qt_source = fr_source r, qt_value_date = Some (fr_value_date r), qt_fetched = cl_now w\<rparr>)
             (newest (filter (\<lambda>r. fr_base r = currency \<and> fr_value_date r \<le> caracasToday (cl_now w)) (fx_rates s)))))"

definition lastInForce :: "fx_config \<Rightarrow> fx_call \<Rightarrow> string \<Rightarrow> fx_state \<Rightarrow> quote option" where
  "lastInForce cfg w currency s =
     (case inForceFromHistory w currency s of
        Some (Some q) \<Rightarrow>
          (let ageDays = caracasToday (cl_now w) - (case qt_value_date q of None \<Rightarrow> 0 | Some d \<Rightarrow> d)
           in if ageDays > fc_max_age cfg then None
              else Some (q\<lparr>qt_source := take 40 (qt_source q @ ''_LAST_IN_FORCE'')\<rparr>))
      | _ \<Rightarrow> None)"

text \<open>Each published rate in turn: accepted, or skipped with what it had before.\<close>

fun accept_rates :: "fx_config \<Rightarrow> fx_call \<Rightarrow> int option \<Rightarrow> (string \<times> rat) list \<Rightarrow> fx_state \<Rightarrow> (string \<times> quote) list \<times> fx_state" where
  "accept_rates cfg w valueDate [] s = ([], s)"
| "accept_rates cfg w valueDate ((currency, rate) # rates) s =
     (if currency \<notin> set SUPPORTED \<or> \<not> withinAbsoluteBounds cfg rate \<or> \<not> withinDeviationBand cfg s currency rate
      then accept_rates cfg w valueDate rates s
      else (let s1 = s\<lparr>fx_last_good := (fx_last_good s)(currency \<mapsto> rate),
                       fx_rates := persist (cl_writes w currency) currency rate (fc_source cfg) valueDate (fx_rates s)\<rparr>;
                q = \<lparr>qt_rate = rate, qt_source = fc_source cfg, qt_value_date = valueDate, qt_fetched = cl_now w\<rparr>;
                (accepted, s2) = accept_rates cfg w valueDate rates s1
            in ((currency, q) # accepted, s2)))"

definition refreshAll :: "fx_config \<Rightarrow> fx_call \<Rightarrow> fx_state \<Rightarrow> (string \<times> quote) list option \<times> fx_state" where
  "refreshAll cfg w s =
     (case fetchRates (cl_page w) of
        None \<Rightarrow> (None, s)
      | Some (rates, date) \<Rightarrow>
          (let (accepted, s1) = accept_rates cfg w (map_option (fc_day cfg) date) rates s
           in (if accepted = [] then None else Some accepted, s1)))"

text \<open>The request in flight that every caller waits for: whether it succeeded, and what it left.\<close>

definition in_flight_fetch :: "fx_config \<Rightarrow> fx_call \<Rightarrow> fx_state \<Rightarrow> bool \<times> fx_state" where
  "in_flight_fetch cfg w s =
     (case refreshAll cfg w (loadBaselines (cl_reads_baseline w) s) of
        (None, s1) \<Rightarrow> (False, s1)
      | (Some accepted, s1) \<Rightarrow> (True, s1\<lparr>fx_caches := foldl (\<lambda>m (code, q). m(code \<mapsto> q)) (fx_caches s1) accepted\<rparr>))"

definition fresh_cache :: "fx_config \<Rightarrow> fx_call \<Rightarrow> string \<Rightarrow> fx_state \<Rightarrow> quote option" where
  "fresh_cache cfg w currency s =
     (case fx_caches s currency of
        None \<Rightarrow> None | Some q \<Rightarrow> if cl_now w - qt_fetched q < fc_ttl cfg then Some q else None)"

text \<open>What a caller answers once the request has ended.\<close>

definition after_fetch :: "fx_config \<Rightarrow> fx_call \<Rightarrow> string \<Rightarrow> bool \<Rightarrow> fx_state \<Rightarrow> quote option" where
  "after_fetch cfg w currency ok s =
     (if \<not> ok then lastInForce cfg w currency s
      else case fx_caches s currency of
             None \<Rightarrow> lastInForce cfg w currency s
           | Some fresh \<Rightarrow>
               if isInForce (qt_value_date fresh) (cl_now w) then Some fresh
               else (case inForceFromHistory w currency s of Some (Some current) \<Rightarrow> Some current | _ \<Rightarrow> None))"

definition getRateFor :: "fx_config \<Rightarrow> fx_call \<Rightarrow> string \<Rightarrow> fx_state \<Rightarrow> quote option \<times> fx_state" where
  "getRateFor cfg w currency s =
     (if currency = ''VES'' then (Some \<lparr>qt_rate = 1, qt_source = ''IDENTITY'', qt_value_date = None, qt_fetched = cl_now w\<rparr>, s)
      else if \<not> fc_enabled cfg \<or> currency \<notin> set SUPPORTED then (None, s)
      else case fresh_cache cfg w currency s of
             Some cached \<Rightarrow> (Some cached, s)
           | None \<Rightarrow> (let (ok, s1) = in_flight_fetch cfg w s in (after_fetch cfg w currency ok s1, s1)))"

text \<open>Both currencies at once: what is cached is answered, the others share one request.\<close>

definition getRates :: "fx_config \<Rightarrow> fx_call \<Rightarrow> fx_state \<Rightarrow> (string \<times> quote) list \<times> fx_state" where
  "getRates cfg w s =
     (if \<not> fc_enabled cfg then ([], s)
      else (let stale = list_ex (\<lambda>c. fresh_cache cfg w c s = None) SUPPORTED;
                (ok, s1) = (if stale then in_flight_fetch cfg w s else (True, s));
                answer = (\<lambda>c. case fresh_cache cfg w c s of Some q \<Rightarrow> Some q | None \<Rightarrow> after_fetch cfg w c ok s1)
            in (List.map_filter (\<lambda>c. map_option (Pair c) (answer c)) SUPPORTED, s1)))"

definition exchangeRate :: "fx_config \<Rightarrow> fx_call \<Rightarrow> fx_state \<Rightarrow> (string \<times> quote) list option \<times> fx_state" where
  "exchangeRate cfg w s = (let (rates, s1) = getRates cfg w s in (if rates = [] then None else Some rates, s1))"

section \<open>Where a rate comes from\<close>

text \<open>A process from an empty table: calls, restarts, and the clean-up of old rows.\<close>

definition fx_empty :: "fx_row table \<Rightarrow> fx_state" where
  "fx_empty t = \<lparr>fx_caches = (\<lambda>c. None), fx_last_good = (\<lambda>c. None), fx_baseline_loaded = False, fx_rates = t\<rparr>"

inductive fx_run :: "fx_config \<Rightarrow> fx_call list \<Rightarrow> fx_state \<Rightarrow> bool" for cfg where
  deployed: "fx_run cfg [] (fx_empty [])"
| asked: "fx_run cfg ws s \<Longrightarrow> fx_run cfg (w # ws) (snd (getRateFor cfg w currency s))"
| listed: "fx_run cfg ws s \<Longrightarrow> fx_run cfg (w # ws) (snd (getRates cfg w s))"
| restarted: "fx_run cfg ws s \<Longrightarrow> fx_run cfg ws (fx_empty (fx_rates s))"
| purged: "fx_run cfg ws s \<Longrightarrow> fx_run cfg ws (s\<lparr>fx_rates := delete_where P (fx_rates s)\<rparr>)"

text \<open>The page of call \<open>w\<close> said, for that currency and that day, a rate inside the bounds.\<close>

definition published :: "fx_config \<Rightarrow> fx_call \<Rightarrow> string \<Rightarrow> rat \<Rightarrow> int option \<Rightarrow> bool" where
  "published cfg w currency rate d =
     (case fetchRates (cl_page w) of
        None \<Rightarrow> False
      | Some (rates, date) \<Rightarrow> (currency, rate) \<in> set rates \<and> d = map_option (fc_day cfg) date \<and> withinAbsoluteBounds cfg rate)"

definition quote_from :: "fx_config \<Rightarrow> fx_call set \<Rightarrow> string \<Rightarrow> quote \<Rightarrow> bool" where
  "quote_from cfg W currency q \<longleftrightarrow> (\<exists>w \<in> W. \<exists>rate. published cfg w currency rate (qt_value_date q) \<and> qt_rate q \<in> {rate, rate_column rate})"

definition row_from :: "fx_config \<Rightarrow> fx_call set \<Rightarrow> fx_row \<Rightarrow> bool" where
  "row_from cfg W r \<longleftrightarrow> (\<exists>w \<in> W. \<exists>rate. published cfg w (fr_base r) rate (Some (fr_value_date r)) \<and> fr_rate r = rate_column rate)"

definition fx_ok :: "fx_config \<Rightarrow> fx_call set \<Rightarrow> fx_state \<Rightarrow> bool" where
  "fx_ok cfg W s \<longleftrightarrow> (\<forall>c q. fx_caches s c = Some q \<longrightarrow> quote_from cfg W c q) \<and> (\<forall>r \<in> set (fx_rates s). row_from cfg W r)"

lemma quote_from_mono: "quote_from cfg W c q \<Longrightarrow> W \<subseteq> W' \<Longrightarrow> quote_from cfg W' c q"
  unfolding quote_from_def by blast

lemma row_from_mono: "row_from cfg W r \<Longrightarrow> W \<subseteq> W' \<Longrightarrow> row_from cfg W' r"
  unfolding row_from_def by blast

lemma fx_ok_mono: "fx_ok cfg W s \<Longrightarrow> W \<subseteq> W' \<Longrightarrow> fx_ok cfg W' s"
  unfolding fx_ok_def using quote_from_mono row_from_mono by blast

lemma newest_in: "newest rs = Some r \<Longrightarrow> r \<in> set rs"
  by (induction rs arbitrary: r) (auto split: option.splits if_splits)

lemma newest_max: "newest rs = Some r \<Longrightarrow> x \<in> set rs \<Longrightarrow> fr_value_date x \<le> fr_value_date r"
proof (induction rs arbitrary: r x)
  case (Cons a rs)
  show ?case
  proof (cases "newest rs")
    case None
    hence "rs = []" by (cases rs) (auto split: option.splits)
    thus ?thesis using Cons.prems by simp
  next
    case (Some y)
    have "fr_value_date x \<le> fr_value_date y" if "x \<in> set rs" using Cons.IH[OF Some that] .
    thus ?thesis using Cons.prems Some by (auto split: if_splits)
  qed
qed simp

lemma newest_None: "newest rs = None \<longleftrightarrow> rs = []"
  by (cases rs) (auto split: option.splits)

lemma persist_from:
  assumes "r \<in> set (persist up c rate source d t)"
  shows "r \<in> set t \<or> fr_base r = c \<and> d = Some (fr_value_date r) \<and> fr_rate r = rate_column rate"
  using assms by (auto simp: persist_def Let_def set_update_where split: option.splits if_splits)

lemma accept_rates_ok:
  assumes "accept_rates cfg w d rates s = (accepted, s')" "fx_ok cfg W s" "w \<in> W"
    and "\<And>c r. (c, r) \<in> set rates \<Longrightarrow> withinAbsoluteBounds cfg r \<Longrightarrow> published cfg w c r d"
  shows "fx_ok cfg W s' \<and> fx_caches s' = fx_caches s \<and>
    (\<forall>(c, q) \<in> set accepted. (c, qt_rate q) \<in> set rates \<and> published cfg w c (qt_rate q) d \<and> qt_value_date q = d \<and> qt_fetched q = cl_now w)"
  using assms
proof (induction cfg w d rates s arbitrary: accepted s' rule: accept_rates.induct)
  case (2 cfg w d currency rate rates s)
  let ?skip = "currency \<notin> set SUPPORTED \<or> \<not> withinAbsoluteBounds cfg rate \<or> \<not> withinDeviationBand cfg s currency rate"
  let ?s1 = "s\<lparr>fx_last_good := (fx_last_good s)(currency \<mapsto> rate),
               fx_rates := persist (cl_writes w currency) currency rate (fc_source cfg) d (fx_rates s)\<rparr>"
  let ?q = "\<lparr>qt_rate = rate, qt_source = fc_source cfg, qt_value_date = d, qt_fetched = cl_now w\<rparr>"
  show ?case
  proof (cases ?skip)
    case True
    have r: "accept_rates cfg w d rates s = (accepted, s')" using "2.prems"(1) True by simp
    have p: "published cfg w c r d" if "(c, r) \<in> set rates" "withinAbsoluteBounds cfg r" for c r
      using "2.prems"(4)[of c r] that by simp
    note ih = "2.IH"(1)[OF True r "2.prems"(2,3) p]
    have "(c, qt_rate q) \<in> set ((currency, rate) # rates) \<and> published cfg w c (qt_rate q) d \<and> qt_value_date q = d \<and> qt_fetched q = cl_now w"
      if "(c, q) \<in> set accepted" for c q using ih that by auto
    thus ?thesis using ih by blast
  next
    case False
    obtain acc where r: "accept_rates cfg w d rates ?s1 = (acc, s')" "accepted = (currency, ?q) # acc"
      using "2.prems"(1) False by (auto simp: Let_def split: prod.splits)
    have here: "published cfg w currency rate d" using "2.prems"(4)[of currency rate] False by simp
    have "row_from cfg W r" if mem: "r \<in> set (fx_rates ?s1)" for r
    proof -
      have "r \<in> set (fx_rates s) \<or> fr_base r = currency \<and> d = Some (fr_value_date r) \<and> fr_rate r = rate_column rate"
        using mem by (intro persist_from) simp
      thus ?thesis
      proof
        assume "r \<in> set (fx_rates s)"
        thus ?thesis using "2.prems"(2) by (simp add: fx_ok_def)
      next
        assume r: "fr_base r = currency \<and> d = Some (fr_value_date r) \<and> fr_rate r = rate_column rate"
        hence "published cfg w (fr_base r) rate (Some (fr_value_date r))" using here by simp
        thus ?thesis using r "2.prems"(3) unfolding row_from_def by blast
      qed
    qed
    hence ok: "fx_ok cfg W ?s1" using "2.prems"(2) by (simp add: fx_ok_def)
    have p: "published cfg w c r d" if "(c, r) \<in> set rates" "withinAbsoluteBounds cfg r" for c r
      using "2.prems"(4)[of c r] that by simp
    note ih = "2.IH"(2)[OF False refl refl r(1) ok "2.prems"(3) p]
    have "(c, qt_rate q) \<in> set ((currency, rate) # rates) \<and> published cfg w c (qt_rate q) d \<and> qt_value_date q = d \<and> qt_fetched q = cl_now w"
      if "(c, q) \<in> set accepted" for c q using ih that here r(2) by auto
    moreover have "fx_ok cfg W s'" "fx_caches s' = fx_caches s" using ih by auto
    ultimately show ?thesis by blast
  qed
qed simp

lemma fold_cache: "foldl (\<lambda>m (code, q). m(code \<mapsto> q)) m xs c = Some q \<Longrightarrow> m c = Some q \<or> (c, q) \<in> set xs"
proof (induction xs arbitrary: m)
  case (Cons x xs)
  obtain d p where x: "x = (d, p)" by (rule prod.exhaust)
  have "(m(d \<mapsto> p)) c = Some q \<or> (c, q) \<in> set xs" by (rule Cons.IH) (use Cons.prems x in simp)
  thus ?case by (cases "c = d") (auto simp: x)
qed simp

lemma loadBaselines_ok: "fx_ok cfg W (loadBaselines up s) \<longleftrightarrow> fx_ok cfg W s"
  by (simp add: loadBaselines_def fx_ok_def)

lemma loadBaselines_same [simp]: "fx_rates (loadBaselines up s) = fx_rates s" "fx_caches (loadBaselines up s) = fx_caches s"
  by (simp_all add: loadBaselines_def)

lemma in_flight_ok:
  assumes "in_flight_fetch cfg w s = (ok, s')" "fx_ok cfg W s" "w \<in> W"
  shows "fx_ok cfg W s'"
proof (cases "fetchRates (cl_page w)")
  case None
  thus ?thesis using assms by (auto simp: in_flight_fetch_def refreshAll_def loadBaselines_ok)
next
  case (Some page)
  obtain rates date where page: "page = (rates, date)" by (cases page)
  obtain accepted s1 where r: "accept_rates cfg w (map_option (fc_day cfg) date) rates (loadBaselines (cl_reads_baseline w) s) = (accepted, s1)"
    by (rule prod.exhaust)
  have "fx_ok cfg W (loadBaselines (cl_reads_baseline w) s)" using assms(2) by (simp add: loadBaselines_ok)
  note a = accept_rates_ok[OF r this assms(3)]
  have "published cfg w c x (map_option (fc_day cfg) date)" if "(c, x) \<in> set rates" "withinAbsoluteBounds cfg x" for c x
    using that by (simp add: published_def Some page)
  note a = a[OF this]
  show ?thesis
  proof (cases "accepted = []")
    case True
    thus ?thesis using assms(1) a Some page r by (simp add: in_flight_fetch_def refreshAll_def)
  next
    case False
    have "quote_from cfg W c q" if "(c, q) \<in> set accepted" for c q
      using a that assms(3) unfolding quote_from_def by fastforce
    moreover have s': "s' = s1\<lparr>fx_caches := foldl (\<lambda>m (code, q). m(code \<mapsto> q)) (fx_caches s1) accepted\<rparr>"
      using assms(1) False Some page r by (simp add: in_flight_fetch_def refreshAll_def)
    ultimately have "quote_from cfg W c q" if "fx_caches s' c = Some q" for c q
      using fold_cache[of "fx_caches s1" accepted c q] that a by (auto simp: fx_ok_def)
    thus ?thesis using a s' by (simp add: fx_ok_def)
  qed
qed

lemma getRateFor_ok: "fx_ok cfg W s \<Longrightarrow> w \<in> W \<Longrightarrow> fx_ok cfg W (snd (getRateFor cfg w c s))"
  using in_flight_ok[of cfg w s _ _ W] by (auto simp: getRateFor_def Let_def split: option.splits prod.splits)

lemma getRates_ok: "fx_ok cfg W s \<Longrightarrow> w \<in> W \<Longrightarrow> fx_ok cfg W (snd (getRates cfg w s))"
  using in_flight_ok[of cfg w s _ _ W] by (auto simp: getRates_def Let_def split: prod.splits if_splits)

lemma fx_run_ok: "fx_run cfg ws s \<Longrightarrow> fx_ok cfg (set ws) s"
proof (induction rule: fx_run.induct)
  case (asked ws s w currency)
  thus ?case by (intro getRateFor_ok fx_ok_mono[OF asked.IH]) auto
next
  case (listed ws s w)
  thus ?case by (intro getRates_ok fx_ok_mono[OF listed.IH]) auto
qed (auto simp: fx_ok_def fx_empty_def)

lemma history_from:
  assumes "inForceFromHistory w c s = Some (Some q)" "fx_ok cfg W s"
  shows "quote_from cfg W c q" "isInForce (qt_value_date q) (cl_now w)" "\<exists>d. qt_value_date q = Some d"
proof -
  obtain r where r: "newest (filter (\<lambda>r. fr_base r = c \<and> fr_value_date r \<le> caracasToday (cl_now w)) (fx_rates s)) = Some r"
      "q = \<lparr>qt_rate = fr_rate r, qt_source = fr_source r, qt_value_date = Some (fr_value_date r), qt_fetched = cl_now w\<rparr>"
    using assms(1) by (auto simp: inForceFromHistory_def split: if_splits)
  have mem: "r \<in> set (fx_rates s)" "fr_base r = c" "fr_value_date r \<le> caracasToday (cl_now w)" using newest_in[OF r(1)] by auto
  have "row_from cfg W r" using mem(1) assms(2) by (simp add: fx_ok_def)
  thus "quote_from cfg W c q" "isInForce (qt_value_date q) (cl_now w)" "\<exists>d. qt_value_date q = Some d"
    using mem r(2) by (auto simp: row_from_def quote_from_def isInForce_def)
qed

lemma lastInForce_from:
  assumes "lastInForce cfg w c s = Some q" "fx_ok cfg W s"
  shows "quote_from cfg W c q" "\<exists>d. qt_value_date q = Some d \<and> d \<le> caracasToday (cl_now w) \<and> caracasToday (cl_now w) - d \<le> fc_max_age cfg"
proof -
  obtain q0 where q0: "inForceFromHistory w c s = Some (Some q0)" "q = q0\<lparr>qt_source := take 40 (qt_source q0 @ ''_LAST_IN_FORCE'')\<rparr>"
      "\<not> caracasToday (cl_now w) - (case qt_value_date q0 of None \<Rightarrow> 0 | Some d \<Rightarrow> d) > fc_max_age cfg"
    using assms(1) by (auto simp: lastInForce_def Let_def split: option.splits if_splits)
  note h = history_from[OF q0(1) assms(2)]
  show "quote_from cfg W c q" using h(1) by (simp add: q0(2) quote_from_def)
  show "\<exists>d. qt_value_date q = Some d \<and> d \<le> caracasToday (cl_now w) \<and> caracasToday (cl_now w) - d \<le> fc_max_age cfg"
    using h(2,3) q0(2,3) by (auto simp: isInForce_def)
qed

section \<open>Every rate served was published\<close>

lemma in_flight_failed: "cl_page w = None \<Longrightarrow> in_flight_fetch cfg w s = (False, loadBaselines (cl_reads_baseline w) s)"
  by (simp add: in_flight_fetch_def refreshAll_def fetchRates_def)

text \<open>C4: Through any calls, failed requests, failed queries, restarts and clean-ups, a rate
  served for a foreign currency was read off the bank's page for that very currency and
  value date, inside the bounds (to the eight decimals of the column); if it does not come
  from a fresh cache entry it is in force today, and while the page is out of reach it is no
  older than the limit.\<close>

theorem served_rate_was_published:
  assumes "fx_run cfg ws s" and "getRateFor cfg w currency s = (Some q, s')" and "currency \<noteq> ''VES''"
  shows "(\<exists>w' \<in> set (w # ws). \<exists>rate. published cfg w' currency rate (qt_value_date q) \<and> qt_rate q \<in> {rate, rate_column rate})
     \<and> (fresh_cache cfg w currency s = Some q \<or> isInForce (qt_value_date q) (cl_now w))
     \<and> (cl_page w = None \<longrightarrow> fresh_cache cfg w currency s = Some q \<or>
          (\<exists>d. qt_value_date q = Some d \<and> d \<le> caracasToday (cl_now w) \<and> caracasToday (cl_now w) - d \<le> fc_max_age cfg))"
proof (cases "fresh_cache cfg w currency s")
  case (Some c)
  hence q: "c = q" using assms(2,3) by (auto simp: getRateFor_def split: if_splits)
  have "fx_caches s currency = Some q" using Some q by (auto simp: fresh_cache_def split: option.splits if_splits)
  hence "quote_from cfg (set ws) currency q" using fx_run_ok[OF assms(1)] by (simp add: fx_ok_def)
  thus ?thesis using Some q unfolding quote_from_def by auto
next
  case None
  obtain ok s1 where r: "in_flight_fetch cfg w s = (ok, s1)" by (rule prod.exhaust)
  have q: "after_fetch cfg w currency ok s1 = Some q" using assms(2,3) None r by (auto simp: getRateFor_def split: if_splits)
  have inv: "fx_ok cfg (set (w # ws)) s1" by (rule in_flight_ok[OF r fx_ok_mono[OF fx_run_ok[OF assms(1)]]]) auto
  have down: "\<not> ok" if "cl_page w = None" using in_flight_failed[OF that] r by simp
  show ?thesis
  proof (cases "ok \<and> lastInForce cfg w currency s1 \<noteq> Some q")
    case True
    then obtain fresh where fresh: "fx_caches s1 currency = Some fresh" using q by (auto simp: after_fetch_def split: option.splits)
    have "quote_from cfg (set (w # ws)) currency q \<and> isInForce (qt_value_date q) (cl_now w)"
    proof (cases "isInForce (qt_value_date fresh) (cl_now w)")
      case here: True
      thus ?thesis using q fresh inv True by (auto simp: after_fetch_def fx_ok_def)
    next
      case later: False
      hence "inForceFromHistory w currency s1 = Some (Some q)" using q fresh True by (auto simp: after_fetch_def split: option.splits)
      thus ?thesis using history_from[OF _ inv] by blast
    qed
    thus ?thesis using down True unfolding quote_from_def by auto
  next
    case False
    hence "lastInForce cfg w currency s1 = Some q" using q by (auto simp: after_fetch_def split: if_splits)
    note l = lastInForce_from[OF this inv]
    then show ?thesis unfolding quote_from_def isInForce_def by auto
  qed
qed

text \<open>With the bank's page out of reach and nothing fresh in the cache, a rate is served exactly when one in force
  is on record and recent enough, and it is the newest of them.\<close>

lemma outage_serves_the_newest:
  assumes "fc_enabled cfg" "currency \<in> set SUPPORTED" "fresh_cache cfg w currency s = None" "cl_page w = None" "cl_reads_history w"
  shows "fst (getRateFor cfg w currency s) =
     (case newest (filter (\<lambda>r. fr_base r = currency \<and> fr_value_date r \<le> caracasToday (cl_now w)) (fx_rates s)) of
        None \<Rightarrow> None
      | Some r \<Rightarrow> if caracasToday (cl_now w) - fr_value_date r > fc_max_age cfg then None
          else Some \<lparr>qt_rate = fr_rate r, qt_source = take 40 (fr_source r @ ''_LAST_IN_FORCE''), qt_value_date = Some (fr_value_date r),
                     qt_fetched = cl_now w\<rparr>)"
proof -
  have "currency \<noteq> ''VES''" using assms(2) by (auto simp: SUPPORTED_def)
  thus ?thesis using assms in_flight_failed[OF assms(4), of cfg s]
    by (simp add: getRateFor_def after_fetch_def lastInForce_def inForceFromHistory_def split: option.split)
qed

section \<open>Concrete calls\<close>

definition demo_page :: "string \<Rightarrow> string \<Rightarrow> string \<Rightarrow> string" where
  "demo_page usd eur date = block_key ''dolar'' @ ''<strong>'' @ usd @ ''</strong>'' @ block_key ''euro'' @ ''<strong>'' @ eur @ ''</strong>''
     @ ''Fecha Valor:content='' @ [CHR 0x22] @ date"

definition demo_fx :: fx_config where
  "demo_fx = \<lparr>fc_enabled = True, fc_source = ''BCV'', fc_ttl = 900000, fc_min = 1, fc_max = 1000, fc_deviation = 5, fc_max_age = 5,
     fc_day = (\<lambda>t. if t = ''2026-09-03'' then 3 else if t = ''2026-09-04'' then 4 else 30)\<rparr>"

text \<open>A call on a day of September at an hour of Caracas.\<close>

definition demo_call :: "int \<Rightarrow> int \<Rightarrow> string option \<Rightarrow> fx_call" where
  "demo_call day minutes page = \<lparr>cl_now = day * 86400000 + 14400000 + minutes * 60000, cl_page = page, cl_reads_baseline = True,
     cl_writes = (\<lambda>c. True), cl_reads_history = True\<rparr>"

definition first_page :: string where
  "first_page = demo_page ''100,00'' ''110,00'' ''2026-09-03''"

definition morning :: fx_call where
  "morning = demo_call 3 600 (Some first_page)"

definition seen_once :: fx_state where
  "seen_once = snd (getRateFor demo_fx morning ''USD'' (fx_empty []))"

lemma first_page_read: "fetchRates (Some first_page) = Some ([(''USD'', 100), (''EUR'', 110)], Some ''2026-09-03'')"
  by code_simp

theorem served_rate_was_published_witness:
  "\<exists>q s'. getRateFor demo_fx (demo_call 4 600 None) ''USD'' seen_once = (Some q, s') \<and> isInForce (qt_value_date q) (cl_now (demo_call 4 600 None))"
proof -
  have run: "fx_run demo_fx [morning] seen_once" unfolding seen_once_def by (intro fx_run.asked fx_run.deployed)
  have "(case getRateFor demo_fx (demo_call 4 600 None) ''USD'' seen_once of (Some q, s') \<Rightarrow> True | _ \<Rightarrow> False)
     \<and> fresh_cache demo_fx (demo_call 4 600 None) ''USD'' seen_once = None" by code_simp
  then obtain q s' where r: "getRateFor demo_fx (demo_call 4 600 None) ''USD'' seen_once = (Some q, s')"
      "fresh_cache demo_fx (demo_call 4 600 None) ''USD'' seen_once = None" by (auto split: prod.splits option.splits)
  have "''USD'' \<noteq> ''VES''" by simp
  from served_rate_was_published[OF run r(1) this] show ?thesis using r by auto
qed

text \<open>The rate of tomorrow, published this afternoon, is withheld by the call that fetches it and served by the next
  one, from the cache, whose entry is not checked.\<close>

lemma tomorrows_rate_is_served:
  "(let afternoon = demo_call 3 1000 (Some (demo_page ''103,00'' ''112,00'' ''2026-09-04''));
        (q1, s1) = getRateFor demo_fx afternoon ''USD'' seen_once; w = demo_call 3 1005 None;
        (q2, s2) = getRateFor demo_fx w ''USD'' s1
    in map_option qt_rate q1 = Some 100 \<and> map_option qt_rate q2 = Some 103 \<and> \<not> isInForce (qt_value_date (the q2)) (cl_now w))"
  by code_simp

text \<open>When the guard rejects a currency but not the other, the old entry of the cache is served whatever its age.\<close>

lemma stale_rate_is_served:
  "(let w = demo_call 30 600 (Some (demo_page ''200,00'' ''111,00'' ''2026-09-30'')); (q, s) = getRateFor demo_fx w ''USD'' seen_once
    in map_option qt_rate q = Some 100 \<and> map_option qt_source q = Some ''BCV'' \<and>
       caracasToday (cl_now w) - the (qt_value_date (the q)) > fc_max_age demo_fx)"
  by code_simp

text \<open>The baselines are read once per process, also when that fails: the first page is then accepted unguarded.\<close>

definition restarted :: fx_state where
  "restarted = fx_empty [\<lparr>fr_source = ''BCV'', fr_base = ''USD'', fr_rate = 100, fr_value_date = 3\<rparr>]"

definition doubled :: "bool \<Rightarrow> fx_call" where
  "doubled db = (demo_call 4 600 (Some (demo_page ''200,00'' ''220,00'' ''2026-09-04'')))\<lparr>cl_reads_baseline := db\<rparr>"

lemma baseline_is_read: "map_option qt_rate (fst (getRateFor demo_fx (doubled True) ''USD'' restarted)) = Some 100"
  by code_simp

lemma baseline_is_not_retried:
  "(let (q, s) = getRateFor demo_fx (doubled False) ''USD'' restarted in map_option qt_rate q = Some 200 \<and> fx_baseline_loaded s)"
  by code_simp

end
