(* ===== verification/Rif.thy ===== *)
theory Rif
  imports Prelude
begin

text \<open>
  The Venezuelan tax number (utils/rif.js): its normal form, its shape, its check digit, and what the
  check digit is good for.
\<close>

section \<open>Definitions\<close>

definition TYPE_VALUES :: "char \<Rightarrow> nat option" where
  "TYPE_VALUES = map_of [(CHR ''V'', 1), (CHR ''E'', 2), (CHR ''J'', 3), (CHR ''P'', 4), (CHR ''G'', 5)]"

definition TYPE_MULTIPLIER :: nat where "TYPE_MULTIPLIER = 4"

definition DIGIT_WEIGHTS :: "nat list" where "DIGIT_WEIGHTS = [3, 2, 7, 6, 5, 4, 3, 2]"

definition alphanumeric :: "char \<Rightarrow> bool" where
  "alphanumeric c \<longleftrightarrow> is_digit c \<or> 65 \<le> (of_char c :: nat) \<and> (of_char c :: nat) \<le> 90"

definition normaliseRif :: "string option \<Rightarrow> string" where
  "normaliseRif input = filter alphanumeric (map upper (case input of None \<Rightarrow> [] | Some s \<Rightarrow> s))"

text \<open>\<open>^([VEJPG])(\d{8})(\d)$\<close>\<close>

definition hasRifShape :: "string \<Rightarrow> bool" where
  "hasRifShape s \<longleftrightarrow> length s = 10 \<and> TYPE_VALUES (hd s) \<noteq> None \<and> list_all is_digit (tl s)"

fun weighted :: "nat list \<Rightarrow> nat list \<Rightarrow> nat" where
  "weighted (w # ws) (d # ds) = d * w + weighted ws ds"
| "weighted _ _ = 0"

definition rifCheckDigit :: "string \<Rightarrow> nat option" where
  "rifCheckDigit s =
     (if \<not> hasRifShape s then None
      else (let total = the (TYPE_VALUES (hd s)) * TYPE_MULTIPLIER + weighted DIGIT_WEIGHTS (map digit_val (take 8 (tl s)));
                candidate = 11 - total mod 11
            in Some (if candidate > 9 then 0 else candidate)))"

definition isValidRif :: "string option \<Rightarrow> bool" where
  "isValidRif input =
     (let normalised = normaliseRif input in
      case rifCheckDigit normalised of None \<Rightarrow> False | Some expected \<Rightarrow> digit_val (normalised ! 9) = expected)"

definition formatRif :: "string option \<Rightarrow> string" where
  "formatRif input =
     (let s = normaliseRif input in
      if \<not> hasRifShape s then s else [hd s] @ ''-'' @ take 8 (drop 1 s) @ ''-'' @ [s ! 9])"

section \<open>Spellings\<close>

lemma upper_digit: "is_digit c \<Longrightarrow> upper c = c"
  by (auto simp: upper_def is_digit_def Let_def)

lemma upper_letter: "alphanumeric c \<Longrightarrow> upper c = c"
  by (auto simp: upper_def alphanumeric_def is_digit_def Let_def)

lemma normal_chars: "list_all alphanumeric (normaliseRif input)"
  by (simp add: normaliseRif_def list_all_iff)

lemma normalise_normal: "list_all alphanumeric s \<Longrightarrow> normaliseRif (Some s) = s"
  using upper_letter by (simp add: normaliseRif_def list_all_iff map_idI)

lemma type_letter: "TYPE_VALUES c = Some v \<Longrightarrow> 1 \<le> v \<and> v \<le> 5 \<and> alphanumeric c"
  by (auto simp: TYPE_VALUES_def alphanumeric_def split: if_splits)

lemma shape_normal:
  assumes "hasRifShape s"
  shows "list_all alphanumeric s"
proof -
  obtain c cs where s: "s = c # cs" using assms by (cases s) (auto simp: hasRifShape_def)
  thus ?thesis using assms type_letter[of c] by (auto simp: hasRifShape_def list_all_iff alphanumeric_def)
qed

lemma format_same: "normaliseRif (Some (formatRif input)) = normaliseRif input"
proof -
  let ?s = "normaliseRif input"
  note n = normalise_normal[OF normal_chars]
  show ?thesis
  proof (cases "hasRifShape ?s")
    case True
    obtain c cs where s: "?s = c # cs" using True by (cases ?s) (auto simp: hasRifShape_def)
    have len: "length cs = 9" using True s by (simp add: hasRifShape_def)
    have dash: "upper (CHR ''-'') = CHR ''-''" "\<not> alphanumeric (CHR ''-'')" by code_simp+
    have parts: "take 8 cs @ [cs ! 8] = cs" using take_Suc_conv_app_nth[of 8 cs] len by simp
    have norm: "normaliseRif (Some (u @ ''-'' @ v)) = normaliseRif (Some (u @ v))" for u v
      using dash by (simp add: normaliseRif_def)
    have "normaliseRif (Some (formatRif input)) = normaliseRif (Some ([c] @ ''-'' @ (take 8 cs @ ''-'' @ [cs ! 8])))"
      using True s by (simp add: formatRif_def)
    also have "\<dots> = normaliseRif (Some (([c] @ take 8 cs) @ ''-'' @ [cs ! 8]))" by (simp only: norm append_assoc)
    also have "\<dots> = normaliseRif (Some (c # cs))" by (simp only: norm) (simp add: parts)
    finally show ?thesis using n s by metis
  qed (simp add: formatRif_def n)
qed

section \<open>What the check digit catches\<close>

lemma weighted_update:
  "i < length ds \<Longrightarrow> length ds = length ws \<Longrightarrow> weighted ws (ds[i := d]) + ds ! i * ws ! i = weighted ws ds + d * ws ! i"
proof (induction ws ds arbitrary: i rule: weighted.induct)
  case (1 w ws x ds)
  thus ?case by (cases i) auto
qed auto

lemma digit_val_digit: "is_digit c \<Longrightarrow> digit_val c < 10"
  by (auto simp: is_digit_def digit_val_def)

lemma digit_val_inj: "is_digit c \<Longrightarrow> is_digit d \<Longrightarrow> digit_val c = digit_val d \<Longrightarrow> c = d"
  by (auto simp: is_digit_def digit_val_def) (metis eq_diff_iff of_char_eq_iff)

text \<open>Multiplying by a weight loses nothing modulo 11.\<close>

lemma mod11_cancel:
  fixes x y z w :: nat
  assumes "0 < w" "w < 11" "x < 11" "y < 11" "(z + x * w) mod 11 = (z + y * w) mod 11"
  shows "x = y"
proof -
  have "(11 :: int) dvd int w * (int x - int y)"
  proof -
    have "(int z + int x * int w) mod 11 = (int z + int y * int w) mod 11" using assms(5) by (metis of_nat_add of_nat_mod of_nat_mult of_nat_numeral)
    hence "(11 :: int) dvd (int z + int x * int w) - (int z + int y * int w)" by (simp only: mod_eq_dvd_iff)
    thus ?thesis by (simp add: algebra_simps)
  qed
  moreover have "coprime (11 :: int) (int w)"
  proof -
    have "w \<in> {1, 2, 3, 4, 5, 6, 7, 8, 9, 10}" unfolding insert_iff empty_iff using assms(1,2) by presburger
    thus ?thesis by (elim insertE emptyE) (simp_all add: coprime_iff_gcd_eq_1 gcd_non_0_int)
  qed
  ultimately have "(11 :: int) dvd int x - int y" by (simp add: coprime_dvd_mult_right_iff)
  note d = this
  show ?thesis
  proof (rule ccontr)
    assume "x \<noteq> y"
    hence "int x - int y \<noteq> 0" by simp
    from dvd_imp_le_int[OF this d] show False using assms(3,4) by simp
  qed
qed

text \<open>The ten characters as numbers: the type's value and the digits.\<close>

definition rif_values :: "string \<Rightarrow> nat list" where
  "rif_values s = the (TYPE_VALUES (hd s)) # map digit_val (take 8 (tl s))"

definition rif_total :: "string \<Rightarrow> nat" where
  "rif_total s = weighted (TYPE_MULTIPLIER # DIGIT_WEIGHTS) (rif_values s)"

lemma check_digit_total:
  assumes "hasRifShape s"
  shows "rifCheckDigit s = Some (if rif_total s mod 11 < 2 then 0 else 11 - rif_total s mod 11)"
proof -
  have "rif_total s = the (TYPE_VALUES (hd s)) * TYPE_MULTIPLIER + weighted DIGIT_WEIGHTS (map digit_val (take 8 (tl s)))"
    by (simp add: rif_total_def rif_values_def)
  thus ?thesis using assms by (auto simp: rifCheckDigit_def Let_def)
qed

lemma same_check_digit:
  assumes "hasRifShape s" "hasRifShape t" "rifCheckDigit s = Some k" "rifCheckDigit t = Some k" "k \<noteq> 0"
  shows "rif_total s mod 11 = rif_total t mod 11"
proof -
  have "rif_total s mod 11 < 11" "rif_total t mod 11 < 11" by simp_all
  thus ?thesis using assms by (auto simp: check_digit_total split: if_splits)
qed

lemma mod11_swap:
  fixes a b u v z :: nat
  assumes "(z + b * u + a * v) mod 11 = (z + a * u + b * v) mod 11" "u \<noteq> v" "u < 11" "v < 11" "a < 11" "b < 11"
  shows "a = b"
proof (cases "v < u")
  case True
  define d where "d = u - v"
  have d: "u = v + d" "0 < d" "d < 11" using True assms(3) by (simp_all add: d_def)
  have "(z + a * v + b * v + b * d) mod 11 = (z + a * v + b * v + a * d) mod 11"
    using assms(1) by (simp add: d(1) algebra_simps)
  thus ?thesis using mod11_cancel[OF d(2,3) assms(6,5)] by metis
next
  case False
  define d where "d = v - u"
  have d: "v = u + d" "0 < d" "d < 11" using False assms(2,4) by (simp_all add: d_def)
  have "(z + a * u + b * u + a * d) mod 11 = (z + a * u + b * u + b * d) mod 11"
    using assms(1) by (simp add: d(1) algebra_simps)
  thus ?thesis using mod11_cancel[OF d(2,3) assms(5,6)] by metis
qed

lemma weights: "i < 9 \<Longrightarrow> 0 < (TYPE_MULTIPLIER # DIGIT_WEIGHTS) ! i \<and> (TYPE_MULTIPLIER # DIGIT_WEIGHTS) ! i < 11"
proof -
  have "list_all (\<lambda>w. 0 < w \<and> w < 11) (TYPE_MULTIPLIER # DIGIT_WEIGHTS) \<and> length (TYPE_MULTIPLIER # DIGIT_WEIGHTS) = 9" by code_simp
  thus "i < 9 \<Longrightarrow> ?thesis" by (simp add: list_all_length)
qed

lemma next_weight: "1 \<le> i \<Longrightarrow> i < 8 \<Longrightarrow> (TYPE_MULTIPLIER # DIGIT_WEIGHTS) ! i \<noteq> (TYPE_MULTIPLIER # DIGIT_WEIGHTS) ! Suc i"
proof -
  have "list_all (\<lambda>i. (TYPE_MULTIPLIER # DIGIT_WEIGHTS) ! i \<noteq> (TYPE_MULTIPLIER # DIGIT_WEIGHTS) ! Suc i) [1..<8]" by code_simp
  thus "1 \<le> i \<Longrightarrow> i < 8 \<Longrightarrow> ?thesis" by (auto simp: list_all_iff)
qed

definition value_at :: "nat \<Rightarrow> char \<Rightarrow> nat" where
  "value_at i c = (if i = 0 then the (TYPE_VALUES c) else digit_val c)"

lemma rif_values_length: "hasRifShape s \<Longrightarrow> length (rif_values s) = 9"
  by (simp add: rif_values_def hasRifShape_def)

lemma rif_values_at: "hasRifShape s \<Longrightarrow> i < 9 \<Longrightarrow> rif_values s ! i = value_at i (s ! i)"
  by (cases s; cases i) (auto simp: rif_values_def hasRifShape_def value_at_def)

lemma rif_values_update: "length s = 10 \<Longrightarrow> i < 9 \<Longrightarrow> rif_values (s[i := c]) = (rif_values s)[i := value_at i c]"
  by (cases s; cases i) (auto simp: rif_values_def value_at_def take_update_swap map_update)

lemma type_value_inj: "TYPE_VALUES c = Some v \<Longrightarrow> TYPE_VALUES d = Some v \<Longrightarrow> c = d"
  by (auto simp: TYPE_VALUES_def split: if_splits)

lemma shape_at: "hasRifShape s \<Longrightarrow> 1 \<le> i \<Longrightarrow> i < 10 \<Longrightarrow> is_digit (s ! i)"
  by (cases s; cases i) (auto simp: hasRifShape_def list_all_length)

lemma value_at_less: "hasRifShape s \<Longrightarrow> i < 9 \<Longrightarrow> value_at i (s ! i) < 11"
proof (cases i)
  case 0
  assume s: "hasRifShape s"
  then obtain v where "TYPE_VALUES (s ! 0) = Some v" by (cases s) (auto simp: hasRifShape_def)
  thus ?thesis using type_letter 0 by (fastforce simp: value_at_def)
next
  case (Suc j)
  assume "hasRifShape s" "i < 9"
  hence "is_digit (s ! i)" using shape_at[of s i] Suc by simp
  thus ?thesis using digit_val_digit[of "s ! i"] Suc by (simp add: value_at_def)
qed

lemma value_at_inj:
  assumes "hasRifShape s" "hasRifShape t" "i < 9" "value_at i (s ! i) = value_at i (t ! i)"
  shows "s ! i = t ! i"
proof (cases i)
  case 0
  obtain v w where "TYPE_VALUES (s ! 0) = Some v" "TYPE_VALUES (t ! 0) = Some w"
    using assms(1,2) by (cases s; cases t) (auto simp: hasRifShape_def)
  thus ?thesis using assms(4) 0 type_value_inj by (simp add: value_at_def)
next
  case (Suc j)
  hence "is_digit (s ! i)" "is_digit (t ! i)" using assms(1-3) shape_at by simp_all
  thus ?thesis using assms(4) Suc digit_val_inj by (simp add: value_at_def)
qed

lemma valid_check: "hasRifShape s \<Longrightarrow> isValidRif (Some s) \<longleftrightarrow> rifCheckDigit s = Some (digit_val (s ! 9))"
  by (auto simp: isValidRif_def Let_def normalise_normal[OF shape_normal] rifCheckDigit_def)

lemma slip_total:
  assumes "hasRifShape s" "hasRifShape (s[i := c])" "i < 9" "rif_total s mod 11 = rif_total (s[i := c]) mod 11"
  shows "c = s ! i"
proof -
  let ?ws = "TYPE_MULTIPLIER # DIGIT_WEIGHTS"
  let ?t = "s[i := c]"
  have len: "length s = 10" using assms(1) by (simp add: hasRifShape_def)
  have lens: "i < length (rif_values s)" "length (rif_values s) = length ?ws" using rif_values_length[OF assms(1)] assms(3) by (simp_all add: DIGIT_WEIGHTS_def)
  have c: "?t ! i = c" using assms(3) len by simp
  have "rif_total ?t + value_at i (s ! i) * ?ws ! i = rif_total s + value_at i c * ?ws ! i"
    using weighted_update[OF lens, of "value_at i c"]
    by (simp only: rif_total_def rif_values_update[OF len assms(3)] rif_values_at[OF assms(1,3)])
  hence "(rif_total s + value_at i c * ?ws ! i) mod 11 = (rif_total s + value_at i (s ! i) * ?ws ! i) mod 11"
    using assms(4) by (metis mod_add_left_eq)
  hence "value_at i c = value_at i (s ! i)"
    using mod11_cancel[of "?ws ! i"] weights[OF assms(3)] value_at_less[OF assms(2,3)] value_at_less[OF assms(1,3)] c by metis
  thus ?thesis using value_at_inj[OF assms(2,1,3)] c by simp
qed

lemma swap_total:
  assumes "hasRifShape s" "1 \<le> i" "i < 8" "t = s[i := s ! Suc i, Suc i := s ! i]" "rif_total s mod 11 = rif_total t mod 11"
  shows "s ! i = s ! Suc i"
proof -
  let ?ws = "TYPE_MULTIPLIER # DIGIT_WEIGHTS"
  let ?a = "digit_val (s ! i)"
  let ?b = "digit_val (s ! Suc i)"
  have len: "length s = 10" using assms(1) by (simp add: hasRifShape_def)
  have lens: "i < length (rif_values s)" "Suc i < length ((rif_values s)[i := ?b])" "length (rif_values s) = length ?ws"
      "length ((rif_values s)[i := ?b]) = length ?ws"
    using rif_values_length[OF assms(1)] assms(3) by (simp_all add: DIGIT_WEIGHTS_def)
  have vals: "rif_values t = (rif_values s)[i := ?b, Suc i := ?a]"
    using len assms(2-4) rif_values_update[of s i] rif_values_update[of "s[i := s ! Suc i]" "Suc i"] by (simp add: value_at_def)
  have at: "rif_values s ! i = ?a" "(rif_values s)[i := ?b] ! Suc i = ?b"
    using rif_values_at[OF assms(1)] assms(2,3) by (simp_all add: value_at_def)
  have "rif_total t + ?b * ?ws ! Suc i + ?a * ?ws ! i = rif_total s + ?a * ?ws ! Suc i + ?b * ?ws ! i"
    using weighted_update[OF lens(1,3), of ?b] weighted_update[OF lens(2,4), of ?a] unfolding at rif_total_def vals by linarith
  hence "rif_total t + (?a * ?ws ! i + ?b * ?ws ! Suc i) = rif_total s + ?b * ?ws ! i + ?a * ?ws ! Suc i" by linarith
  moreover have "(rif_total t + (?a * ?ws ! i + ?b * ?ws ! Suc i)) mod 11 = (rif_total s + (?a * ?ws ! i + ?b * ?ws ! Suc i)) mod 11"
    by (rule mod_add_cong) (simp_all only: assms(5))
  ultimately have "(rif_total s + ?b * ?ws ! i + ?a * ?ws ! Suc i) mod 11 = (rif_total s + ?a * ?ws ! i + ?b * ?ws ! Suc i) mod 11"
    by (simp only: add.assoc)
  moreover have d: "is_digit (s ! i)" "is_digit (s ! Suc i)" using shape_at[OF assms(1)] assms(2,3) by simp_all
  ultimately have "?a = ?b"
    using mod11_swap[of "rif_total s" ?b "?ws ! i" ?a "?ws ! Suc i"] next_weight[OF assms(2,3)] weights[of i] weights[of "Suc i"] assms(3)
      digit_val_digit[OF d(1)] digit_val_digit[OF d(2)] by simp
  thus ?thesis using digit_val_inj[OF d] by simp
qed



text \<open>A check digit of zero stands for two remainders, so there a slip may pass.\<close>

lemma zero_hides_a_slip: "isValidRif (Some ''J000000000'') \<and> isValidRif (Some ''J000000050'')"
  by code_simp

end
