(* ===== verification/Onboarding.thy ===== *)
theory Onboarding
  imports Account_Books Plans Rif
begin

text \<open>
  How a restaurant comes to exist (services/onboarding.js): the public form, the invitation a person
  sends after reading it, and the link that creates the restaurant with its owner.  The state is the
  account tables with the leads and the tenants beside them.  What an operation writes it writes in one
  statement or in one transaction, so an error leaves the state alone.  Random tokens, the clock
  and Argon2 are arguments; the mails and the audit rows are left out.
\<close>

section \<open>Definitions\<close>

datatype lead_status = LEAD_NEW | LEAD_CONTACTED | LEAD_INVITED | LEAD_ONBOARDED | LEAD_REJECTED

record lead =
  ld_id :: nat
  ld_name :: string
  ld_rif :: string
  ld_checksum_ok :: bool
  ld_email :: string
  ld_phone :: string
  ld_menu_currency :: "string option"
  ld_status :: lead_status
  ld_token :: "string option"
  ld_expires :: "int option"
  ld_invited :: "int option"
  ld_contacted :: "int option"
  ld_notes :: "string option"
  ld_consumed :: "int option"
  ld_restaurant :: "nat option"

record tenant =
  tn_id :: nat
  tn_name :: string
  tn_rif :: string
  tn_menu_currency :: string
  tn_vat_bps :: int
  tn_service_bps :: int
  tn_plan :: tier
  tn_trial_ends :: int

record onboarding =
  ob_accounts :: accounts
  ob_leads :: "lead table"
  ob_tenants :: "tenant table"
  ob_next :: nat

record onboarding_config =
  oc_token_ttl :: int
  oc_trial_days :: int

definition DEFAULT_VAT_BPS :: int where "DEFAULT_VAT_BPS = 1600"

definition DEFAULT_SERVICE_CHARGE_BPS :: int where "DEFAULT_SERVICE_CHARGE_BPS = 1000"

definition existingTenant :: "string \<Rightarrow> string \<Rightarrow> onboarding \<Rightarrow> bool \<times> bool" where
  "existingTenant email rif s =
     (list_ex (\<lambda>u. map lower (us_email u) = map lower email) (ac_users (ob_accounts s)),
      list_ex (\<lambda>t. tn_rif t = rif) (ob_tenants s))"

record signup_input =
  si_name :: string
  si_rif :: string
  si_email :: string
  si_phone :: string
  si_menu_currency :: "string option"

definition submitLead :: "signup_input \<Rightarrow> onboarding \<Rightarrow> lead \<times> (bool \<times> bool) \<times> onboarding" where
  "submitLead i s =
     (let rif = normaliseRif (Some (si_rif i)); email = map lower (si_email i);
          duplicate = existingTenant email rif s;
          l = \<lparr>ld_id = ob_next s, ld_name = si_name i, ld_rif = rif, ld_checksum_ok = isValidRif (Some rif), ld_email = email,
                ld_phone = si_phone i, ld_menu_currency = si_menu_currency i, ld_status = LEAD_NEW, ld_token = None, ld_expires = None,
                ld_invited = None, ld_contacted = None, ld_notes = None, ld_consumed = None, ld_restaurant = None\<rparr>
      in (l, duplicate, s\<lparr>ob_leads := insert_row l (ob_leads s), ob_next := Suc (ob_next s)\<rparr>))"

definition inviteLead :: "onboarding_config \<Rightarrow> (string \<Rightarrow> string) \<Rightarrow> nat \<Rightarrow> string \<Rightarrow> int \<Rightarrow> onboarding \<Rightarrow> error + lead \<times> onboarding" where
  "inviteLead cfg hash lid token now s =
     (case find_by (\<lambda>l. ld_id l = lid) (ob_leads s) of
        None \<Rightarrow> Inl (General Not_Found)
      | Some l \<Rightarrow>
          if ld_consumed l \<noteq> None then Inl (General Not_Found)
          else (let (emailTaken, rifTaken) = existingTenant (ld_email l) (ld_rif l) s in
                if emailTaken then Inl (Account_E Email_Already_Registered)
                else if rifTaken then Inl (Account_E Rif_Already_Registered)
                else if list_ex (\<lambda>x. ld_id x \<noteq> lid \<and> ld_token x = Some (hash token)) (ob_leads s)
                then Inl (General (Db_Unique ''restaurant_signups_token_hash_key''))
                else Inr (l, s\<lparr>ob_leads := update_where (\<lambda>x. ld_id x = lid)
                       (\<lambda>x. x\<lparr>ld_token := Some (hash token), ld_expires := Some (now + oc_token_ttl cfg * 1000),
                              ld_status := LEAD_INVITED, ld_invited := Some now\<rparr>) (ob_leads s)\<rparr>)))"

definition new_tenant :: "onboarding_config \<Rightarrow> lead \<Rightarrow> int \<Rightarrow> nat \<Rightarrow> tenant" where
  "new_tenant cfg l now k =
     \<lparr>tn_id = k, tn_name = ld_name l, tn_rif = ld_rif l,
      tn_menu_currency = (case ld_menu_currency l of None \<Rightarrow> ''VES'' | Some c \<Rightarrow> if c = [] then ''VES'' else c),
      tn_vat_bps = DEFAULT_VAT_BPS, tn_service_bps = DEFAULT_SERVICE_CHARGE_BPS, tn_plan = TRIAL,
      tn_trial_ends = now + oc_trial_days cfg * 86400000\<rparr>"

definition live_link :: "(string \<Rightarrow> string) \<Rightarrow> string \<Rightarrow> int \<Rightarrow> lead \<Rightarrow> bool" where
  "live_link hash token now l \<longleftrightarrow> ld_token l = Some (hash token) \<and> ld_consumed l = None \<and>
     (case ld_expires l of None \<Rightarrow> False | Some e \<Rightarrow> e > now)"

text \<open>The unique violations that can still happen, translated after the rollback.\<close>

definition as_signup_error :: "error \<Rightarrow> error" where
  "as_signup_error e =
     (if e = General (Db_Unique ''restaurants_rif_unique_idx'') then Account_E Rif_Already_Registered
      else if unique_violation e then Account_E Email_Already_Registered else e)"

definition verify_tx :: "onboarding_config \<Rightarrow> runtime \<Rightarrow> string \<Rightarrow> string \<Rightarrow> int \<Rightarrow> onboarding \<Rightarrow> error + (tenant \<times> issued) \<times> onboarding" where
  "verify_tx cfg rt token password now s =
     (case find_by (\<lambda>l. ld_token l = Some (rt_hash rt token)) (ob_leads s) of
        None \<Rightarrow> Inl (Account_E Onboarding_Token_Invalid)
      | Some l \<Rightarrow>
          if \<not> live_link (rt_hash rt) token now l then Inl (Account_E Onboarding_Token_Invalid)
          else
            (let t = new_tenant cfg l now (ob_next s);
                 u = new_user (ac_next (ob_accounts s)) (tn_id t) (ld_email l) (rt_password_hash rt password) OWNER None
             in if list_ex (\<lambda>x. tn_rif x = tn_rif t) (ob_tenants s) then Inl (General (Db_Unique ''restaurants_rif_unique_idx''))
                else case insert_user u (ob_accounts s) of
                       Inl e \<Rightarrow> Inl e
                     | Inr a \<Rightarrow>
                         (case issueSession rt u now a of
                            (Inl e, _) \<Rightarrow> Inl e
                          | (Inr session, a') \<Rightarrow>
                              Inr ((t, session), s\<lparr>ob_accounts := a', ob_tenants := insert_row t (ob_tenants s), ob_next := Suc (ob_next s),
                                 ob_leads := update_where (\<lambda>x. ld_id x = ld_id l)
                                   (\<lambda>x. x\<lparr>ld_consumed := Some now, ld_restaurant := Some (tn_id t), ld_status := LEAD_ONBOARDED\<rparr>) (ob_leads s)\<rparr>))))"

definition verifySignup :: "onboarding_config \<Rightarrow> runtime \<Rightarrow> string \<Rightarrow> string \<Rightarrow> int \<Rightarrow> onboarding \<Rightarrow> error + (tenant \<times> issued) \<times> onboarding" where
  "verifySignup cfg rt token password now s =
     (case verify_tx cfg rt token password now s of Inl e \<Rightarrow> Inl (as_signup_error e) | Inr r \<Rightarrow> Inr r)"

definition listLeads :: "lead_status option \<Rightarrow> nat \<Rightarrow> onboarding \<Rightarrow> lead list" where
  "listLeads status limit s =
     take limit (filter (\<lambda>l. case status of None \<Rightarrow> True | Some x \<Rightarrow> ld_status l = x) (ob_leads s))"

definition markLead :: "nat \<Rightarrow> lead_status \<Rightarrow> string option \<Rightarrow> int \<Rightarrow> onboarding \<Rightarrow> error + onboarding" where
  "markLead lid status notes now s =
     (if \<not> list_ex (\<lambda>l. ld_id l = lid) (ob_leads s) then Inl (General Not_Found)
      else Inr (s\<lparr>ob_leads := update_where (\<lambda>l. ld_id l = lid)
             (\<lambda>l. l\<lparr>ld_status := status, ld_notes := (case notes of None \<Rightarrow> ld_notes l | Some n \<Rightarrow> Some n),
                    ld_contacted := (if status = LEAD_CONTACTED then Some now else ld_contacted l)\<rparr>) (ob_leads s)\<rparr>))"

section \<open>What every operation keeps\<close>

text \<open>Any change of the accounts may come in between; a tenant's number is only looked up, so other writes to
  restaurants are outside.\<close>

inductive lead_step :: "onboarding \<Rightarrow> onboarding \<Rightarrow> bool" where
  submitted: "submitLead i s = (l, d, s') \<Longrightarrow> lead_step s s'"
| invited: "inviteLead cfg hash lid token now s = Inr (l, s') \<Longrightarrow> lead_step s s'"
| verified: "verifySignup cfg rt token password now s = Inr (r, s') \<Longrightarrow> lead_step s s'"
| marked: "markLead lid status notes now s = Inr s' \<Longrightarrow> lead_step s s'"
| accounts_moved: "lead_step s (s\<lparr>ob_accounts := a\<rparr>)"

definition no_onboarding :: "accounts \<Rightarrow> onboarding" where
  "no_onboarding a = \<lparr>ob_accounts = a, ob_leads = [], ob_tenants = [], ob_next = 1\<rparr>"

definition leads_ok :: "onboarding \<Rightarrow> bool" where
  "leads_ok s \<longleftrightarrow> keyed ld_id (ob_leads s) \<and> keyed tn_id (ob_tenants s) \<and> keyed tn_rif (ob_tenants s)
     \<and> (\<forall>l \<in> set (ob_leads s). ld_id l < ob_next s \<and> list_all alphanumeric (ld_rif l) \<and>
          (ld_consumed l \<noteq> None \<longrightarrow> (\<exists>t \<in> set (ob_tenants s). ld_restaurant l = Some (tn_id t) \<and> tn_rif t = ld_rif l)))
     \<and> (\<forall>t \<in> set (ob_tenants s). tn_id t < ob_next s \<and> list_all alphanumeric (tn_rif t))
     \<and> (\<forall>l \<in> set (ob_leads s). \<forall>m \<in> set (ob_leads s). ld_token l \<noteq> None \<longrightarrow> ld_token l = ld_token m \<longrightarrow> l = m)"

lemma verify_result:
  assumes "verifySignup cfg rt token password now s = Inr ((t, session), s')"
  obtains l a where "l \<in> set (ob_leads s)" "find_by (\<lambda>l. ld_token l = Some (rt_hash rt token)) (ob_leads s) = Some l"
    "live_link (rt_hash rt) token now l" "t = new_tenant cfg l now (ob_next s)"
    "\<forall>x \<in> set (ob_tenants s). tn_rif x \<noteq> ld_rif l"
    "ac_users a = insert_row (new_user (ac_next (ob_accounts s)) (tn_id t) (ld_email l) (rt_password_hash rt password) OWNER None) (ac_users (ob_accounts s))"
    "s' = s\<lparr>ob_accounts := a, ob_tenants := insert_row t (ob_tenants s), ob_next := Suc (ob_next s),
        ob_leads := update_where (\<lambda>x. ld_id x = ld_id l)
          (\<lambda>x. x\<lparr>ld_consumed := Some now, ld_restaurant := Some (tn_id t), ld_status := LEAD_ONBOARDED\<rparr>) (ob_leads s)\<rparr>"
proof -
  have "verify_tx cfg rt token password now s = Inr ((t, session), s')" using assms by (auto simp: verifySignup_def split: sum.splits)
  then obtain l where l: "find_by (\<lambda>l. ld_token l = Some (rt_hash rt token)) (ob_leads s) = Some l"
      "live_link (rt_hash rt) token now l" "t = new_tenant cfg l now (ob_next s)" "\<not> list_ex (\<lambda>x. tn_rif x = tn_rif t) (ob_tenants s)"
    and rest: "(case insert_user (new_user (ac_next (ob_accounts s)) (tn_id t) (ld_email l) (rt_password_hash rt password) OWNER None) (ob_accounts s) of
        Inl e \<Rightarrow> Inl e
      | Inr a \<Rightarrow> (case issueSession rt (new_user (ac_next (ob_accounts s)) (tn_id t) (ld_email l) (rt_password_hash rt password) OWNER None) now a of
            (Inl e, _) \<Rightarrow> Inl e
          | (Inr session, a') \<Rightarrow> Inr ((t, session), s\<lparr>ob_accounts := a', ob_tenants := insert_row t (ob_tenants s), ob_next := Suc (ob_next s),
              ob_leads := update_where (\<lambda>x. ld_id x = ld_id l)
                (\<lambda>x. x\<lparr>ld_consumed := Some now, ld_restaurant := Some (tn_id t), ld_status := LEAD_ONBOARDED\<rparr>) (ob_leads s)\<rparr>))) = Inr ((t, session), s')"
    by (auto simp: verify_tx_def Let_def split: option.splits if_splits sum.splits prod.splits)
  let ?u = "new_user (ac_next (ob_accounts s)) (tn_id t) (ld_email l) (rt_password_hash rt password) OWNER None"
  obtain a where a: "insert_user ?u (ob_accounts s) = Inr a" using rest by (auto split: sum.splits)
  obtain a' where a': "issueSession rt ?u now a = (Inr session, a')"
      "s' = s\<lparr>ob_accounts := a', ob_tenants := insert_row t (ob_tenants s), ob_next := Suc (ob_next s),
        ob_leads := update_where (\<lambda>x. ld_id x = ld_id l)
          (\<lambda>x. x\<lparr>ld_consumed := Some now, ld_restaurant := Some (tn_id t), ld_status := LEAD_ONBOARDED\<rparr>) (ob_leads s)\<rparr>"
    using rest a by (auto split: sum.splits prod.splits)
  have "ac_users a' = ac_users a"
    using a'(1) by (auto simp: issueSession_def act_then_def insert_session_def give_def Let_def split: if_splits)
  hence "ac_users a' = insert_row ?u (ac_users (ob_accounts s))" using a by (auto simp: insert_user_def split: if_splits)
  moreover have "l \<in> set (ob_leads s)" using find_by_SomeD[OF l(1)] by simp
  moreover have "\<forall>x \<in> set (ob_tenants s). tn_rif x \<noteq> ld_rif l" using l(3,4) by (auto simp: list_ex_iff new_tenant_def)
  ultimately show thesis using that l(1-3) a'(2) by blast
qed

definition lead_ok :: "onboarding \<Rightarrow> lead \<Rightarrow> bool" where
  "lead_ok s l \<longleftrightarrow> ld_id l < ob_next s \<and> list_all alphanumeric (ld_rif l) \<and>
     (ld_consumed l \<noteq> None \<longrightarrow> (\<exists>t \<in> set (ob_tenants s). ld_restaurant l = Some (tn_id t) \<and> tn_rif t = ld_rif l))"

lemma leads_parts:
  assumes "leads_ok s"
  shows "keyed ld_id (ob_leads s)" "keyed tn_id (ob_tenants s)" "keyed tn_rif (ob_tenants s)"
    "l \<in> set (ob_leads s) \<Longrightarrow> lead_ok s l"
    "t \<in> set (ob_tenants s) \<Longrightarrow> tn_id t < ob_next s \<and> list_all alphanumeric (tn_rif t)"
    "l \<in> set (ob_leads s) \<Longrightarrow> m \<in> set (ob_leads s) \<Longrightarrow> ld_token l \<noteq> None \<Longrightarrow> ld_token l = ld_token m \<Longrightarrow> l = m"
  using assms unfolding leads_ok_def lead_ok_def by blast+

lemma leads_okI:
  assumes "keyed ld_id (ob_leads s)" "keyed tn_id (ob_tenants s)" "keyed tn_rif (ob_tenants s)"
    "\<And>l. l \<in> set (ob_leads s) \<Longrightarrow> lead_ok s l"
    "\<And>t. t \<in> set (ob_tenants s) \<Longrightarrow> tn_id t < ob_next s \<and> list_all alphanumeric (tn_rif t)"
    "\<And>l m. l \<in> set (ob_leads s) \<Longrightarrow> m \<in> set (ob_leads s) \<Longrightarrow> ld_token l \<noteq> None \<Longrightarrow> ld_token l = ld_token m \<Longrightarrow> l = m"
  shows "leads_ok s"
  using assms unfolding leads_ok_def lead_ok_def by blast

lemma submitLead_ok:
  assumes "leads_ok s" "submitLead i s = (l, d, s')"
  shows "leads_ok s'"
proof -
  note old = leads_parts[OF assms(1)]
  have s': "s' = s\<lparr>ob_leads := insert_row l (ob_leads s), ob_next := Suc (ob_next s)\<rparr>"
    and l: "ld_id l = ob_next s" "ld_token l = None" "ld_consumed l = None" "list_all alphanumeric (ld_rif l)"
    using assms(2) normal_chars[of "Some (si_rif i)"] by (auto simp: submitLead_def Let_def)
  have fresh: "ld_id l \<notin> ld_id ` set (ob_leads s)"
  proof
    assume "ld_id l \<in> ld_id ` set (ob_leads s)"
    then obtain x where "x \<in> set (ob_leads s)" "ld_id x = ob_next s" using l(1) by auto
    thus False using old(4)[of x] by (simp add: lead_ok_def)
  qed
  show ?thesis
  proof (rule leads_okI)
    show "keyed ld_id (ob_leads s')" using keyed_insert[OF old(1) fresh] by (simp add: s')
    show "lead_ok s' x" if "x \<in> set (ob_leads s')" for x
      using that old(4)[of x] l by (auto simp: s' lead_ok_def)
    show "tn_id t < ob_next s' \<and> list_all alphanumeric (tn_rif t)" if "t \<in> set (ob_tenants s')" for t
      using that old(5)[of t] by (simp add: s' less_SucI)
    show "x = m" if "x \<in> set (ob_leads s')" "m \<in> set (ob_leads s')" "ld_token x \<noteq> None" "ld_token x = ld_token m" for x m
      using that old(6)[of x m] l(2) by (auto simp: s')
  qed (use old in \<open>simp_all add: s'\<close>)
qed

lemma inviteLead_result:
  assumes "inviteLead cfg hash lid token now s = Inr (l, s')"
  obtains "l \<in> set (ob_leads s)" "ld_id l = lid" "ld_consumed l = None"
    "\<forall>x \<in> set (ob_leads s). ld_id x \<noteq> lid \<longrightarrow> ld_token x \<noteq> Some (hash token)"
    "s' = s\<lparr>ob_leads := update_where (\<lambda>x. ld_id x = lid)
       (\<lambda>x. x\<lparr>ld_token := Some (hash token), ld_expires := Some (now + oc_token_ttl cfg * 1000), ld_status := LEAD_INVITED, ld_invited := Some now\<rparr>) (ob_leads s)\<rparr>"
proof -
  have l: "find_by (\<lambda>l. ld_id l = lid) (ob_leads s) = Some l" "ld_consumed l = None"
      "\<forall>x \<in> set (ob_leads s). ld_id x \<noteq> lid \<longrightarrow> ld_token x \<noteq> Some (hash token)"
    and s': "s' = s\<lparr>ob_leads := update_where (\<lambda>x. ld_id x = lid)
       (\<lambda>x. x\<lparr>ld_token := Some (hash token), ld_expires := Some (now + oc_token_ttl cfg * 1000), ld_status := LEAD_INVITED, ld_invited := Some now\<rparr>) (ob_leads s)\<rparr>"
    using assms by (auto simp: inviteLead_def list_ex_iff split: option.splits if_splits prod.splits)
  show thesis using that find_by_SomeD[OF l(1)] l(2,3) s' by blast
qed

lemma updated_lead: "x \<in> set (update_where P f t) \<Longrightarrow> \<exists>y \<in> set t. x = (if P y then f y else y)"
  unfolding set_update_where by blast

lemma inviteLead_ok:
  assumes "leads_ok s" "inviteLead cfg hash lid token now s = Inr (l, s')"
  shows "leads_ok s'"
proof -
  note old = leads_parts[OF assms(1)]
  let ?P = "\<lambda>x. ld_id x = lid"
  let ?f = "\<lambda>x. x\<lparr>ld_token := Some (hash token), ld_expires := Some (now + oc_token_ttl cfg * 1000), ld_status := LEAD_INVITED, ld_invited := Some now\<rparr>"
  obtain r where r: "\<forall>x \<in> set (ob_leads s). ld_id x \<noteq> lid \<longrightarrow> ld_token x \<noteq> Some (hash token)" "s' = s\<lparr>ob_leads := update_where ?P ?f (ob_leads s)\<rparr>"
    by (rule inviteLead_result[OF assms(2)])
  have mem: "\<exists>y \<in> set (ob_leads s). x = (if ?P y then ?f y else y)" if x: "x \<in> set (ob_leads s')" for x
  proof -
    have "x \<in> set (update_where ?P ?f (ob_leads s))" using x by (simp add: r(2))
    thus ?thesis by (rule updated_lead)
  qed
  show ?thesis
  proof (rule leads_okI)
    show "keyed ld_id (ob_leads s')" using keyed_update[OF old(1), of ?f] by (simp add: r(2))
    show "lead_ok s' x" if x: "x \<in> set (ob_leads s')" for x
    proof -
      obtain y where "y \<in> set (ob_leads s)" "x = (if ?P y then ?f y else y)" using mem[OF x] by blast
      thus ?thesis using old(4)[of y] by (auto simp: lead_ok_def r(2))
    qed
    show "tn_id t < ob_next s' \<and> list_all alphanumeric (tn_rif t)" if "t \<in> set (ob_tenants s')" for t
      using that old(5)[of t] by (simp add: r(2))
    show "x = m" if a: "x \<in> set (ob_leads s')" "m \<in> set (ob_leads s')" "ld_token x \<noteq> None" "ld_token x = ld_token m" for x m
    proof -
      obtain y z where y: "y \<in> set (ob_leads s)" "x = (if ?P y then ?f y else y)" and z: "z \<in> set (ob_leads s)" "m = (if ?P z then ?f z else z)"
        using mem[OF a(1)] mem[OF a(2)] by blast
      consider "?P y" "?P z" | "?P y" "\<not> ?P z" | "\<not> ?P y" "?P z" | "\<not> ?P y" "\<not> ?P z" by blast
      thus ?thesis
      proof cases
        case 1
        thus ?thesis using keyed_unique[OF old(1) y(1) z(1)] y(2) z(2) by simp
      qed (use a(3,4) y z r(1) old(6)[OF y(1) z(1)] in auto)
    qed
  qed (use old in \<open>simp_all add: r(2)\<close>)
qed

lemma verifySignup_ok:
  assumes "leads_ok s" "verifySignup cfg rt token password now s = Inr ((t, session), s')"
  shows "leads_ok s'"
proof -
  note old = leads_parts[OF assms(1)]
  obtain l a where r: "l \<in> set (ob_leads s)" "live_link (rt_hash rt) token now l" "t = new_tenant cfg l now (ob_next s)"
      "\<forall>x \<in> set (ob_tenants s). tn_rif x \<noteq> ld_rif l"
      "s' = s\<lparr>ob_accounts := a, ob_tenants := insert_row t (ob_tenants s), ob_next := Suc (ob_next s),
        ob_leads := update_where (\<lambda>x. ld_id x = ld_id l)
          (\<lambda>x. x\<lparr>ld_consumed := Some now, ld_restaurant := Some (tn_id t), ld_status := LEAD_ONBOARDED\<rparr>) (ob_leads s)\<rparr>"
    by (rule verify_result[OF assms(2)]) blast
  let ?P = "\<lambda>x. ld_id x = ld_id l"
  let ?f = "\<lambda>x. x\<lparr>ld_consumed := Some now, ld_restaurant := Some (tn_id t), ld_status := LEAD_ONBOARDED\<rparr>"
  have t: "tn_id t = ob_next s" "tn_rif t = ld_rif l" by (simp_all add: r(3) new_tenant_def)
  have mem: "\<exists>y \<in> set (ob_leads s). x = (if ?P y then ?f y else y)" if x: "x \<in> set (ob_leads s')" for x
  proof -
    have "x \<in> set (update_where ?P ?f (ob_leads s))" using x by (simp add: r(5))
    thus ?thesis by (rule updated_lead)
  qed
  show ?thesis
  proof (rule leads_okI)
    show "keyed ld_id (ob_leads s')" using keyed_update[OF old(1), of ?f] by (simp add: r(5))
    have "tn_id t \<notin> tn_id ` set (ob_tenants s)" using old(5) t(1) by fastforce
    thus "keyed tn_id (ob_tenants s')" using keyed_insert[OF old(2)] by (simp add: r(5))
    have "tn_rif t \<notin> tn_rif ` set (ob_tenants s)" using r(4) t(2) by auto
    thus "keyed tn_rif (ob_tenants s')" using keyed_insert[OF old(3)] by (simp add: r(5))
    show "lead_ok s' x" if x: "x \<in> set (ob_leads s')" for x
    proof -
      obtain y where y: "y \<in> set (ob_leads s)" "x = (if ?P y then ?f y else y)" using mem[OF x] by blast
      show ?thesis
      proof (cases "?P y")
        case True
        hence "y = l" using keyed_unique[OF old(1) y(1) r(1)] by simp
        thus ?thesis using old(4)[OF r(1)] y(2) t by (auto simp: lead_ok_def r(5))
      next
        case False
        thus ?thesis using old(4)[OF y(1)] y(2) by (auto simp: lead_ok_def r(5))
      qed
    qed
    show "tn_id u < ob_next s' \<and> list_all alphanumeric (tn_rif u)" if "u \<in> set (ob_tenants s')" for u
      using that old(5)[of u] old(4)[OF r(1)] t by (auto simp: r(5) lead_ok_def)
    show "x = m" if a: "x \<in> set (ob_leads s')" "m \<in> set (ob_leads s')" "ld_token x \<noteq> None" "ld_token x = ld_token m" for x m
    proof -
      obtain y z where y: "y \<in> set (ob_leads s)" "x = (if ?P y then ?f y else y)" and z: "z \<in> set (ob_leads s)" "m = (if ?P z then ?f z else z)"
        using mem[OF a(1)] mem[OF a(2)] by blast
      have "ld_token y = ld_token x" "ld_token z = ld_token m" using y(2) z(2) by (simp_all split: if_splits)
      hence "y = z" using old(6)[OF y(1) z(1)] a(3,4) by simp
      thus ?thesis by (simp only: y(2) z(2))
    qed
  qed
qed

lemma markLead_ok:
  assumes "leads_ok s" "markLead lid status notes now s = Inr s'"
  shows "leads_ok s'"
proof -
  note old = leads_parts[OF assms(1)]
  let ?P = "\<lambda>l. ld_id l = lid"
  let ?f = "\<lambda>l. l\<lparr>ld_status := status, ld_notes := (case notes of None \<Rightarrow> ld_notes l | Some n \<Rightarrow> Some n),
                 ld_contacted := (if status = LEAD_CONTACTED then Some now else ld_contacted l)\<rparr>"
  have s': "s' = s\<lparr>ob_leads := update_where ?P ?f (ob_leads s)\<rparr>" using assms(2) by (auto simp: markLead_def split: if_splits)
  have mem: "\<exists>y \<in> set (ob_leads s). x = (if ?P y then ?f y else y)" if x: "x \<in> set (ob_leads s')" for x
  proof -
    have "x \<in> set (update_where ?P ?f (ob_leads s))" using x by (simp add: s')
    thus ?thesis by (rule updated_lead)
  qed
  show ?thesis
  proof (rule leads_okI)
    show "keyed ld_id (ob_leads s')" using keyed_update[OF old(1), of ?f] by (simp add: s')
    show "lead_ok s' x" if x: "x \<in> set (ob_leads s')" for x
    proof -
      obtain y where y: "y \<in> set (ob_leads s)" "x = (if ?P y then ?f y else y)" using mem[OF x] by blast
      thus ?thesis using old(4)[OF y(1)] by (auto simp: lead_ok_def s')
    qed
    show "tn_id u < ob_next s' \<and> list_all alphanumeric (tn_rif u)" if "u \<in> set (ob_tenants s')" for u
      using that old(5)[of u] by (simp add: s')
    show "x = m" if a: "x \<in> set (ob_leads s')" "m \<in> set (ob_leads s')" "ld_token x \<noteq> None" "ld_token x = ld_token m" for x m
    proof -
      obtain y z where y: "y \<in> set (ob_leads s)" "x = (if ?P y then ?f y else y)" and z: "z \<in> set (ob_leads s)" "m = (if ?P z then ?f z else z)"
        using mem[OF a(1)] mem[OF a(2)] by blast
      have "ld_token y = ld_token x" "ld_token z = ld_token m" using y(2) z(2) by (simp_all split: if_splits)
      hence "y = z" using old(6)[OF y(1) z(1)] a(3,4) by simp
      thus ?thesis by (simp only: y(2) z(2))
    qed
  qed (use old in \<open>simp_all add: s'\<close>)
qed

lemma lead_step_ok: "lead_step s s' \<Longrightarrow> leads_ok s \<Longrightarrow> leads_ok s'"
proof (induction rule: lead_step.induct)
  case (verified cfg rt token password now s r s')
  obtain t session where "r = (t, session)" by (rule prod.exhaust)
  thus ?case using verifySignup_ok verified by blast
next
  case (accounts_moved s a)
  have "leads_ok (s\<lparr>ob_accounts := a\<rparr>) = leads_ok s" by (simp add: leads_ok_def)
  thus ?case using accounts_moved by simp
qed (blast intro: submitLead_ok inviteLead_ok markLead_ok)+

lemma no_onboarding_ok: "leads_ok (no_onboarding a)"
  by (simp add: leads_ok_def no_onboarding_def)

lemma lead_steps_ok: "lead_step\<^sup>*\<^sup>* s s' \<Longrightarrow> leads_ok s \<Longrightarrow> leads_ok s'"
  by (induction rule: rtranclp_induct) (auto intro: lead_step_ok)

text \<open>What a lead that became a restaurant keeps.\<close>

definition spent :: "nat \<Rightarrow> string \<Rightarrow> onboarding \<Rightarrow> bool" where
  "spent lid h s \<longleftrightarrow> (\<exists>l \<in> set (ob_leads s). ld_id l = lid \<and> ld_token l = Some h \<and> ld_consumed l \<noteq> None)"

lemma spent_update:
  assumes "spent lid h s" "ob_leads s' = update_where P f (ob_leads s)"
    and "\<And>l. l \<in> set (ob_leads s) \<Longrightarrow> P l \<Longrightarrow> ld_consumed l \<noteq> None \<Longrightarrow> ld_id (f l) = ld_id l \<and> ld_token (f l) = ld_token l \<and> ld_consumed (f l) \<noteq> None"
  shows "spent lid h s'"
proof -
  obtain l where l: "l \<in> set (ob_leads s)" "ld_id l = lid" "ld_token l = Some h" "ld_consumed l \<noteq> None" using assms(1) by (auto simp: spent_def)
  have "(if P l then f l else l) \<in> set (ob_leads s')" using l(1) by (simp add: assms(2) set_update_where)
  moreover have "ld_id (if P l then f l else l) = lid" "ld_token (if P l then f l else l) = Some h" "ld_consumed (if P l then f l else l) \<noteq> None"
    using l assms(3)[OF l(1)] by simp_all
  ultimately show ?thesis unfolding spent_def by blast
qed

lemma lead_step_spent:
  assumes "lead_step s s'" "leads_ok s" "spent lid h s"
  shows "spent lid h s' \<and> set (ob_tenants s) \<subseteq> set (ob_tenants s')"
  using assms
proof (induction rule: lead_step.induct)
  case (submitted i s l d s')
  thus ?case by (auto simp: submitLead_def Let_def spent_def)
next
  case (invited cfg hash lid' token now s l s')
  obtain r: "l \<in> set (ob_leads s)" "ld_id l = lid'" "ld_consumed l = None"
     "s' = s\<lparr>ob_leads := update_where (\<lambda>x. ld_id x = lid')
       (\<lambda>x. x\<lparr>ld_token := Some (hash token), ld_expires := Some (now + oc_token_ttl cfg * 1000), ld_status := LEAD_INVITED, ld_invited := Some now\<rparr>) (ob_leads s)\<rparr>"
    by (rule inviteLead_result[OF invited.hyps])
  have "x = l" if "x \<in> set (ob_leads s)" "ld_id x = lid'" for x
    using keyed_unique[OF leads_parts(1)[OF invited.prems(1)] that(1) r(1)] that(2) r(2) by simp
  hence no: "ld_consumed x = None" if "x \<in> set (ob_leads s)" "ld_id x = lid'" for x using r(3) that by simp
  have "spent lid h s'" by (rule spent_update[OF invited.prems(2)]) (simp add: r(4), use no in simp)
  thus ?case by (simp add: r(4))
next
  case (verified cfg rt token password now s r s')
  obtain t session where r: "r = (t, session)" by (rule prod.exhaust)
  obtain l :: lead and a where e: "s' = s\<lparr>ob_accounts := a, ob_tenants := insert_row t (ob_tenants s), ob_next := Suc (ob_next s),
        ob_leads := update_where (\<lambda>x. ld_id x = ld_id l)
          (\<lambda>x. x\<lparr>ld_consumed := Some now, ld_restaurant := Some (tn_id t), ld_status := LEAD_ONBOARDED\<rparr>) (ob_leads s)\<rparr>"
    by (rule verify_result[OF verified.hyps[unfolded r]]) blast
  have "spent lid h s'" by (rule spent_update[OF verified.prems(2)]) (simp add: e, simp)
  thus ?case by (auto simp: e)
next
  case (marked lid' status remark now s s')
  hence e: "s' = s\<lparr>ob_leads := update_where (\<lambda>l. ld_id l = lid')
      (\<lambda>l. l\<lparr>ld_status := status, ld_notes := (case remark of None \<Rightarrow> ld_notes l | Some n \<Rightarrow> Some n),
             ld_contacted := (if status = LEAD_CONTACTED then Some now else ld_contacted l)\<rparr>) (ob_leads s)\<rparr>"
    by (auto simp: markLead_def split: if_splits)
  have "spent lid h s'" by (rule spent_update[OF marked.prems(2)]) (simp add: e, simp)
  thus ?case by (simp add: e)
next
  case (accounts_moved s a)
  thus ?case by (simp add: spent_def)
qed

lemma lead_steps_spent:
  "lead_step\<^sup>*\<^sup>* s s' \<Longrightarrow> leads_ok s \<Longrightarrow> spent lid h s \<Longrightarrow> spent lid h s' \<and> set (ob_tenants s) \<subseteq> set (ob_tenants s')"
proof (induction rule: rtranclp_induct)
  case (step y z)
  thus ?case using lead_step_spent[OF step.hyps(2) lead_steps_ok[OF step.hyps(1)]] by blast
qed simp

lemma spent_refuses:
  assumes "leads_ok s" "spent lid (rt_hash rt token) s"
  shows "verifySignup cfg rt token password now s = Inl (Account_E Onboarding_Token_Invalid)"
    and "inviteLead cfg hash lid token' now s = Inl (General Not_Found)"
proof -
  obtain l where l: "l \<in> set (ob_leads s)" "ld_id l = lid" "ld_token l = Some (rt_hash rt token)" "ld_consumed l \<noteq> None"
    using assms(2) by (auto simp: spent_def)
  obtain m where m: "find_by (\<lambda>l. ld_token l = Some (rt_hash rt token)) (ob_leads s) = Some m"
    using l by (cases "find_by (\<lambda>l. ld_token l = Some (rt_hash rt token)) (ob_leads s)") (auto simp: find_by_None)
  have "m = l" using leads_parts(6)[OF assms(1), of m l] find_by_SomeD[OF m] l by simp
  thus "verifySignup cfg rt token password now s = Inl (Account_E Onboarding_Token_Invalid)"
    using m l(4) by (simp add: verifySignup_def verify_tx_def live_link_def as_signup_error_def)
  obtain k where k: "find_by (\<lambda>l. ld_id l = lid) (ob_leads s) = Some k"
    using l by (cases "find_by (\<lambda>l. ld_id l = lid) (ob_leads s)") (auto simp: find_by_None)
  have "k = l" using keyed_unique[OF leads_parts(1)[OF assms(1)], of k l] find_by_SomeD[OF k] l by simp
  thus "inviteLead cfg hash lid token' now s = Inl (General Not_Found)" using k l(4) by (simp add: inviteLead_def)
qed

section \<open>One link, one restaurant\<close>


definition demo_signup :: signup_input where
  "demo_signup = \<lparr>si_name = ''Casa'', si_rif = ''j-12345678-4'', si_email = ''Ana@casa.ve'', si_phone = ''0414'', si_menu_currency = Some ''USD''\<rparr>"

definition demo_onboarding :: onboarding_config where
  "demo_onboarding = \<lparr>oc_token_ttl = 3600, oc_trial_days = 30\<rparr>"

definition no_accounts :: accounts where
  "no_accounts = \<lparr>ac_users = [], ac_sessions = [], ac_codes = [], ac_invitations = [], ac_failures = [], ac_next = 1\<rparr>"

definition applied_lead :: onboarding where
  "applied_lead = snd (snd (submitLead demo_signup (no_onboarding no_accounts)))"

definition let_in :: onboarding where
  "let_in = (case inviteLead demo_onboarding (rt_hash plain_runtime) 1 ''tok'' 0 applied_lead of Inr (l, s) \<Rightarrow> s | Inl e \<Rightarrow> applied_lead)"

lemma let_in_reached: "lead_step\<^sup>*\<^sup>* (no_onboarding no_accounts) let_in"
proof -
  have "lead_step (no_onboarding no_accounts) applied_lead"
    by (rule lead_step.submitted[of demo_signup _ "fst (submitLead demo_signup (no_onboarding no_accounts))"
          "fst (snd (submitLead demo_signup (no_onboarding no_accounts)))"]) (simp add: applied_lead_def)
  moreover have "isr (inviteLead demo_onboarding (rt_hash plain_runtime) 1 ''tok'' 0 applied_lead)" by code_simp
  then obtain l s where "inviteLead demo_onboarding (rt_hash plain_runtime) 1 ''tok'' 0 applied_lead = Inr (l, s)" using isr_pair by blast
  hence "lead_step applied_lead let_in" by (simp add: let_in_def lead_step.invited)
  ultimately show ?thesis by (meson rtranclp.rtrancl_into_rtrancl rtranclp.rtrancl_refl)
qed


text \<open>Rejecting a lead does not withdraw its invitation, and marking one that is a restaurant takes its status away.\<close>

lemma rejected_lead_signs_up:
  "(case markLead 1 LEAD_REJECTED None 5 let_in of
      Inr s \<Rightarrow> (case verifySignup demo_onboarding plain_runtime ''tok'' ''pw'' 10 s of
          Inr (r, s') \<Rightarrow> map ld_status (ob_leads s') = [LEAD_ONBOARDED] \<and> map tn_rif (ob_tenants s') = [''J123456784''] | Inl e \<Rightarrow> False)
    | Inl e \<Rightarrow> False)"
  by code_simp

lemma onboarded_lead_is_marked_again:
  "(case verifySignup demo_onboarding plain_runtime ''tok'' ''pw'' 10 let_in of
      Inr (r, s) \<Rightarrow> (case markLead 1 LEAD_CONTACTED None 20 s of
          Inr s' \<Rightarrow> map ld_status (listLeads (Some LEAD_CONTACTED) 50 s') = [LEAD_CONTACTED] \<and> map tn_id (ob_tenants s') = [2] | Inl e \<Rightarrow> False)
    | Inl e \<Rightarrow> False)"
  by code_simp

end
