(* ===== verification/Spec2Isabelle.thy ===== *)
theory Spec2Isabelle
  imports Claims C2p Webhooks Bill_Lifecycle Idempotency Fiscal_Documents Subscription_Books Session_Books Tips Guests Menu_Order Fx Onboarding
begin

text \<open>
  \<^bold>\<open>What this is.\<close>  splite-backend lets the diners of a restaurant see their bill, divide it and pay
  it in bolivars.  This development models the services that move money or decide who owes it, as
  HOL functions read off the JavaScript, with the database as an explicit \<open>store\<close> record.  One call of
  a function is one committed transaction: it returns the answer and the new store, or \<open>Inl\<close> an error
  and no store at all, which is the rollback.  Concurrency enters as the order of transactions, and
  where a route reads before its transaction the read and the transaction are separate functions; where
  a statement reads an older snapshot than the row it locks (\<open>lockCharge\<close>), the snapshot is an argument.

  \<^bold>\<open>Map of the theories\<close> (paths under src/src/services unless another is given).
    \<^item> \<open>Prelude\<close>: errors, \<open>and_then\<close>, folds that may fail, keyed rows, sums, list and digit lemmas.
    \<^item> \<open>Money\<close> (money.js): minor units, eight-decimal rates, rounding, the BIGINT range.
    \<^item> \<open>Allocate\<close> (split.js): largest-remainder allocation.
    \<^item> \<open>Split_Engine\<close> (splitEngine.js): the four ways of dividing a bill, and the preview.
    \<^item> \<open>Store\<close> (migrations/): the rows, the CHECKs and unique indexes as guards of the writes, the drift
      views, the invariant \<open>store_inv\<close>.
    \<^item> \<open>Bill_Items\<close> (billItems.js): lines, VAT per rate, totals, the edits of an open bill.
    \<^item> \<open>Bill_Splits\<close> (splits.js): agreeing, replacing, voiding a division; crediting a share.
    \<^item> \<open>Payment_Ledger\<close> (payments.js): the status machine, the history, \<open>recordPayment\<close> and
      \<open>transitionPayment\<close>; the locales \<open>state_machine\<close>, \<open>rail\<close> and their laws.
    \<^item> \<open>Settlement\<close> (locks.js): \<open>applyToBill\<close> and the till payment; its abstract account.
    \<^item> \<open>Bank_Match\<close> (payments/validation/match.js, bankMovementNormalizer.js, the decision of
      bankReconciliation.js): comparing a claim with bank movements; reading amounts.
    \<^item> \<open>Claims\<close> (paymentClaims.js, bankReconciliation.js, invoiceIntents.js): declared transfers.
    \<^item> \<open>C2p\<close> (mercantilC2P.js, c2pMatcher.js, payments/providers/mercantil/c2p.js): the diner's bank,
      the in-doubt state and its resolution.
    \<^item> \<open>Webhooks\<close> (webhooks.js, middleware/webhookSignature.js): signed events, replay, settlement.
    \<^item> \<open>Bill_Lifecycle\<close> (routes/bills.js, billOpen.js, guestOrders.js, subscriptionGate.js).
    \<^item> \<open>Idempotency\<close> (idempotency.js and its use in routes/bills.js).
    \<^item> \<open>Fiscal_Allocation\<close> (fiscalAllocation.js), \<open>Fiscal_Numbering\<close> (fiscalNumbering.js): what each
      invoice declares, and the numbers it carries.
    \<^item> \<open>Fiscal_Draft\<close> (fiscalInvoiceBuilder.js), \<open>Fiscal_Documents\<close> (fiscalInvoicing.js,
      fiscal/providers/index.js, \<open>scheduleDelivery\<close> of fiscalMail.js): the lines of an invoice, asking
      for it, the printer's answers, the doubts.  The books \<open>fiscal_books\<close> are a state of their own beside
      the store; \<open>fiscal_step\<close> is their step relation.
    \<^item> \<open>Calendar\<close> (the date arithmetic of platformBilling.js), \<open>Plans\<close> (entitlements.js, plans.js,
      middleware/plan.js): what a plan includes and what a change of plan takes away.
    \<^item> \<open>Subscriptions\<close> (platformBilling.js, subscriptionNotices.js, billingRun.js), \<open>Subscription_Books\<close>:
      what the platform charges each restaurant, over the state \<open>platform\<close>; \<open>platform_step\<close> has one
      rule per operation, and the second theory holds what is true after any run of them.
    \<^item> \<open>Totp\<close> (totp.js): base32 and one-time codes on 32-bit words.
    \<^item> \<open>Accounts\<close> (auth.js, mfa.js, loginThrottle.js, connectors/base.js), \<open>Staff\<close> (staff.js,
      staffInvitations.js): signing in, sessions, the second factor, who may act on whom, invitations,
      over the state \<open>accounts\<close>.  Here an operation returns the state it left even when it throws,
      because what is written outside a transaction stays.  \<open>Account_Contract\<close> proves once, in a locale,
      what every operation keeps; \<open>Account_Books\<close> and \<open>Session_Books\<close> hold the step relation
      \<open>request_step\<close> and what is true after any run of it.
    \<^item> \<open>Tips\<close> (tips.js): what is owed to the staff, read from the transitions that settled a payment.
    \<^item> \<open>Guests\<close> (guest.js, guestContacts.js): the diner's session in PostgreSQL and Redis, where any call
      of Redis may fail, and the contact a diner leaves; \<open>guest_step\<close>, \<open>overlapping\<close> and the policy
      \<open>consent_step\<close> are their specifications.
    \<^item> \<open>Menu\<close>, \<open>Menu_Order\<close> (routes/menu.js): the menu a restaurant keeps, over the state \<open>menu_state\<close>
      with the step relation \<open>menu_step\<close>; \<open>Menu_Price\<close> (menuPrice.js): reading a printed price.
    \<^item> \<open>Bcv\<close> (connectors/bcv.js), \<open>Fx\<close> (fx.js, routes/exchangeRate.js): the official rate, off the bank's page,
      through the guards, the cache and the table; \<open>fx_run\<close> is any history of calls, restarts and clean-ups.
    \<^item> \<open>Rif\<close> (utils/rif.js), \<open>Onboarding\<close> (onboarding.js): the tax number; a lead, its invitation and the
      restaurant it becomes, with the accounts of \<open>Accounts\<close> beside it; \<open>lead_step\<close> is any run.
    \<^item> This theory composes them: \<open>commits\<close> has one rule per operation above, \<open>reachable\<close> is its
      closure, and the properties at the end hold in every reachable state.

  \<^bold>\<open>State.\<close>  \<open>store\<close> holds the tables the services share, each a list of rows in insertion order; an
  identifier is the number of the row (\<open>next_id\<close> stands for the uuid generator).  A JavaScript BigInt
  and a NUMERIC(20,0) column are \<open>int\<close>, with the CHECKs and the BIGINT range written as guards.  A string
  is a \<open>char list\<close>; instants are milliseconds.

  \<^bold>\<open>Interfaces.\<close>  A \<open>rail\<close> is anything that turns one sound store into another by moving payments and
  bills forward; the till, the claims, C2P, the webhooks, the line edits and the splits interpret it.
  An \<open>opener\<close> may also add bills.  The laws of both are what \<open>reachable_kept\<close> uses, so each new route
  needs one interpretation and one rule of \<open>commits\<close>.

  \<^bold>\<open>Parameters.\<close>  What is not under src/ is an argument: the bank's HTTP answers, the MAC and number
  parser of the webhook check, the exchange-rate source, the invoice issuer, the clock, the hash of a
  request, and, in the record \<open>runtime\<close>, Argon2, HMAC, SHA-256, the signed tokens, the sealed box and
  whether Redis answers.  No theorem assumes anything about them unless its statement says so.

  \<^bold>\<open>Termination and fuel.\<close>  Every loop of the code is a structural or measured recursion, so each
  definition is total.  The loop of \<open>allocateCapped\<close> has a guard in the code, which gives up after
  two rounds more than there are parts; \<open>capped_allocation_converges\<close> shows that it is never reached.  The attempts of \<open>begin_claim\<close> are
  bounded by the code's own constant.

  \<^bold>\<open>Not modelled.\<close>  HTTP wiring, request schemas, response shapes, audit rows, logging, mail, PDF and
  image output have no state the properties are about.  Sealed credentials and the inbound bank feeds
  reach the model through the rows they write.  PROJECT.json lists every component with its status.
\<close>

section \<open>The system as a step relation\<close>

text \<open>One committed transaction of the backend.  What lies outside src/ (the exchange-rate
  source, the invoice issuer, the bank, the clock) is an argument of each operation and
  arbitrary here.  \<open>elsewhere\<close> is a transaction of the components that do not touch bills,
  lines, payments, splits or shares: the menu, the staff, the configuration, the bank feed.\<close>

inductive commits :: "store \<Rightarrow> store \<Rightarrow> bool" where
  item_added: "addItem rid bid pid q st = Inr (r, st') \<Longrightarrow> commits st st'"
| item_changed: "updateQuantity rid bid iid q st = Inr (r, st') \<Longrightarrow> commits st st'"
| item_removed: "removeItem rid bid iid st = Inr (r, st') \<Longrightarrow> commits st st'"
| split_made: "createSplit rid b its req creator st = Inr (spid, st') \<Longrightarrow> commits st st'"
| split_voided: "voidSplit rid bid spid st = Inr (r, st') \<Longrightarrow> commits st st'"
| share_named: "nameShare rid bid ref name st = Inr (r, st') \<Longrightarrow> commits st st'"
| till_paid: "processSplitPayment rid pay st = Inr (rc, st') \<Longrightarrow> commits st st'"
| claim_declared: "declareClaim issue rid d now st = Inr (p, st') \<Longrightarrow> commits st st'"
| claim_confirmed: "confirmClaim issue rid cid via mid st = Inr (cf, st') \<Longrightarrow> commits st st'"
| claim_rejected: "rejectClaim rid cid st = Inr (m, st') \<Longrightarrow> commits st st'"
| claims_reconciled: "commits st (reconcile issue rid now st)"
| c2p_charged: "createC2PPayment uuid enabled post rid cr now st = (out, st') \<Longrightarrow> commits st st'"
| c2p_resolved: "resolveC2PPayment enabled search rid pid actor now st = Inr (res, st') \<Longrightarrow> commits st st'"
| webhook_delivered: "handleDelivery provider refused body st = (reply, st') \<Longrightarrow> commits st st'"
| bill_opened: "createBill rateFor rid user table tot st = Inr (b, st') \<Longrightarrow> commits st st'"
| order_taken: "takeOrder rateFor rid user table ls st = Inr (o1, st') \<Longrightarrow> commits st st'"
| order_placed: "placeOrder rateFor rid table ls now st = Inr (o2, st') \<Longrightarrow> commits st st'"
| order_acknowledged: "acknowledge rid oid user now st = Inr (a, st') \<Longrightarrow> commits st st'"
| server_set: "setServer on_staff rid bid role user served st = Inr (b, st') \<Longrightarrow> commits st st'"
| bill_settled: "settleBill rid bid reason user st = Inr (s, st') \<Longrightarrow> commits st st'"
| bill_voided: "voidBill rid bid st = Inr (b, st') \<Longrightarrow> commits st st'"
| elsewhere: "bills st' = bills st \<Longrightarrow> items st' = items st \<Longrightarrow> payments st' = payments st
    \<Longrightarrow> shares st' = shares st \<Longrightarrow> splits st' = splits st \<Longrightarrow> transitions st' = transitions st
    \<Longrightarrow> next_id st \<le> next_id st' \<Longrightarrow> commits st st'"

inductive reachable :: "store \<Rightarrow> store \<Rightarrow> bool" where
  start: "reachable st st"
| further: "reachable st st1 \<Longrightarrow> commits st1 st2 \<Longrightarrow> reachable st st2"

inductive_cases commitsE: "commits st st'"

definition kept :: "store \<Rightarrow> store \<Rightarrow> bool" where
  "kept st st' \<longleftrightarrow> sound st' \<and> grows st st' \<and> (one_open st \<longrightarrow> one_open st')"

lemma kept_opener:
  assumes "opener step" "sound st" "step st = Inr (r, st')"
  shows "kept st st'"
  using opener.opens_sound[OF assms] opener.only_grows[OF assms] opener.keeps_one_open[OF assms(1,2) _ assms(3)]
  by (simp add: kept_def)

lemma kept_rail: "sound st' \<and> advances st st' \<Longrightarrow> kept st st'"
  by (auto simp: kept_def intro: advances_grows advances_one_open)

lemma kept_by_rail:
  assumes "rail step" "sound st" "step st = Inr (r, st')"
  shows "kept st st'"
  using rail.keeps_sound[OF assms] rail.only_advances[OF assms] by (intro kept_rail) blast

lemmas kept_steps =
  kept_by_rail[OF add_item.rail_axioms]
  kept_by_rail[OF set_quantity.rail_axioms]
  kept_by_rail[OF remove_item.rail_axioms]
  kept_by_rail[OF create_split.rail_axioms]
  kept_by_rail[OF void_split.rail_axioms]
  kept_by_rail[OF name_share.rail_axioms]
  kept_by_rail[OF till.rail_axioms]
  kept_by_rail[OF announce.rail_axioms]
  kept_by_rail[OF confirm.rail_axioms]
  kept_by_rail[OF reject.rail_axioms]
  kept_by_rail[OF resolve.rail_axioms]
  kept_by_rail[OF acknowledge_order.rail_axioms]
  kept_by_rail[OF set_server.rail_axioms]
  kept_by_rail[OF settle_bill.rail_axioms]
  kept_by_rail[OF void_bill.rail_axioms]
  kept_opener[OF create_bill.opener_axioms]
  kept_opener[OF take_order.opener_axioms]
  kept_opener[OF place_order.opener_axioms]

lemma commits_kept:
  assumes "commits st st'" "sound st"
  shows "kept st st'"
  using assms
proof (induction rule: commits.induct)
  case (claims_reconciled st issue rid now)
  thus ?case by (intro kept_rail reconcile_sound)
next
  case (elsewhere st' st)
  have "store_inv st'" using elsewhere.prems inv_cong[OF elsewhere.hyps(1,3,5,4,7)] by (simp add: sound_def)
  thus ?case
    using sound_same_ledger[OF elsewhere.prems _ elsewhere.hyps(1,2,3,6,7)] by (intro kept_rail) blast
next
  case (c2p_charged uuid enabled post rid cr now st out st')
  thus ?case by (intro kept_by_rail[OF charge.rail_axioms]) auto
next
  case (webhook_delivered provider refused body st reply st')
  thus ?case by (intro kept_by_rail[OF delivery.rail_axioms]) auto
qed (erule kept_steps[rotated], assumption)+

lemma reachable_kept:
  assumes "reachable st st'" "sound st"
  shows "kept st st'"
  using assms
proof (induction rule: reachable.induct)
  case (further st st1 st2)
  have "sound st1" using further by (simp add: kept_def)
  hence "kept st1 st2" using further.hyps(2) by (rule commits_kept[rotated])
  thus ?case using further by (auto simp: kept_def intro: grows_trans)
qed (simp add: kept_def grows_def, rule exI[of _ "[]"], simp add: list_all2_refl)


text \<open>A deployment before its first bill: configured, with empty ledger tables.\<close>

definition installed :: "store \<Rightarrow> bool" where
  "installed st \<longleftrightarrow> bills st = [] \<and> items st = [] \<and> payments st = [] \<and> transitions st = [] \<and> splits st = [] \<and> shares st = []"

lemma installed_kept:
  assumes "installed st0" "reachable st0 st"
  shows "sound st" "one_open st"
proof -
  have "sound st0" "one_open st0"
    using assms(1) by (simp_all add: installed_def sound_def store_inv_def inv_parts payment_ledger_drift_def
        bill_split_share_drift_def one_active_def inv_log_def items_agree_def one_open_def)
  thus "sound st" "one_open st" using reachable_kept[OF assms(2)] by (simp_all add: kept_def)
qed

section \<open>What holds in every reachable state\<close>


definition configured_store :: store where
  "configured_store = dinner_store\<lparr>bills := [], items := []\<rparr>"

lemma one_dinner:
  "\<exists>st. reachable configured_store st \<and> map bill_state (bills st) = [BillClosed] \<and> map pay_status (payments st) = [Succeeded]"
proof -
  let ?pay = "\<lambda>b. (cash 500 0)\<lparr>tp_bill := bill_id b\<rparr>"
  have c: "(case createBill (\<lambda>c. None) 7 8 3 500 configured_store of Inl e \<Rightarrow> False | Inr (b, st1) \<Rightarrow>
      (case processSplitPayment 7 (?pay b) st1 of Inl e \<Rightarrow> False | Inr (rc, st2) \<Rightarrow>
         map bill_state (bills st2) = [BillClosed] \<and> map pay_status (payments st2) = [Succeeded]))"
    by code_simp
  then obtain b st1 where r1: "createBill (\<lambda>c. None) 7 8 3 500 configured_store = Inr (b, st1)"
    and c1: "(case processSplitPayment 7 (?pay b) st1 of Inl e \<Rightarrow> False | Inr (rc, st2) \<Rightarrow>
         map bill_state (bills st2) = [BillClosed] \<and> map pay_status (payments st2) = [Succeeded])"
    by (cases "createBill (\<lambda>c. None) 7 8 3 500 configured_store") (auto split: prod.splits)
  obtain rc st2 where r2: "processSplitPayment 7 (?pay b) st1 = Inr (rc, st2)"
    and e: "map bill_state (bills st2) = [BillClosed]" "map pay_status (payments st2) = [Succeeded]"
    using c1 by (cases "processSplitPayment 7 (?pay b) st1") (auto split: prod.splits)
  have "reachable configured_store st2"
    by (rule further[OF further[OF start bill_opened[OF r1]] till_paid[OF r2]])
  thus ?thesis using e by (intro exI[of _ st2] conjI)
qed

lemma installed_configured: "installed configured_store"
  by (simp add: installed_def configured_store_def dinner_store_def empty_store_def)


text \<open>C2: In every reachable state no bill is paid beyond its total, no share beyond its amount, a
  void bill has taken no money, every payment is positive with a tip that is not negative,
  and the shares of every division add up to the amount it divided.\<close>

lemma amounts_stay_bounded:
  assumes "installed st0" "reachable st0 st"
  shows "(\<forall>b \<in> set (bills st). 0 \<le> amount_paid_ves b \<and> amount_paid_ves b \<le> total_due_ves b
            \<and> (bill_state b = BillVoid \<longrightarrow> amount_paid_ves b = 0))
     \<and> (\<forall>s \<in> set (shares st). 0 \<le> share_paid_ves s \<and> share_paid_ves s \<le> share_amount_ves s)
     \<and> (\<forall>p \<in> set (payments st). 0 < amount_ves p \<and> 0 \<le> tip_ves p)
     \<and> (\<forall>s \<in> set (splits st). share_total (split_id s) st = basis_ves s)"
  using installed_kept(1)[OF assms]
  by (auto simp: sound_def store_inv_def inv_bills_def inv_shares_def inv_payments_def inv_splits_def bill_checks_def
      share_checks_def payment_checks_def)

lemma amounts_stay_bounded_witness:
  "\<exists>st. reachable configured_store st \<and> bills st \<noteq> [] \<and> (\<forall>b \<in> set (bills st). 0 \<le> amount_paid_ves b \<and> amount_paid_ves b \<le> total_due_ves b)"
proof -
  obtain st where st: "reachable configured_store st" "map bill_state (bills st) = [BillClosed]" using one_dinner by (elim exE conjE)
  have "bills st \<noteq> []" using st(2) by auto
  thus ?thesis using amounts_stay_bounded[OF installed_configured st(1)] st(1) by (intro exI[of _ st] conjI) simp_all
qed

text \<open>C3: In every reachable state two open bills of the same table of the same restaurant are the
  same bill, although three routes open bills.\<close>

lemma one_open_bill_per_table:
  assumes "installed st0" "reachable st0 st"
    and "b \<in> set (bills st)" "c \<in> set (bills st)" "bill_state b = BillOpen" "bill_state c = BillOpen"
    and "bill_restaurant b = bill_restaurant c" "bill_table b = bill_table c"
  shows "b = c"
proof (rule keyed_unique)
  show "keyed (\<lambda>b. (bill_restaurant b, bill_table b)) (filter (\<lambda>b. bill_state b = BillOpen) (bills st))"
    using installed_kept(2)[OF assms(1,2)] by (simp add: one_open_def)
qed (use assms in auto)

lemma one_open_bill_per_table_witness:
  "\<exists>st b. reachable configured_store st \<and> b \<in> set (bills st) \<and> bill_state b = BillOpen
     \<and> (\<forall>c \<in> set (bills st). bill_state c = BillOpen \<longrightarrow> bill_restaurant b = bill_restaurant c \<longrightarrow> bill_table b = bill_table c \<longrightarrow> b = c)"
proof -
  have "(case createBill (\<lambda>c. None) 7 8 3 500 configured_store of Inl e \<Rightarrow> False
      | Inr (b, st1) \<Rightarrow> map bill_state (bills st1) = [BillOpen])" by code_simp
  then obtain b st1 where r: "createBill (\<lambda>c. None) 7 8 3 500 configured_store = Inr (b, st1)" "map bill_state (bills st1) = [BillOpen]"
    by (auto split: sum.splits)
  have re: "reachable configured_store st1" by (rule further[OF start bill_opened[OF r(1)]])
  obtain x where x: "bills st1 = [x]" "bill_state x = BillOpen" using r(2) by auto
  show ?thesis using one_open_bill_per_table[OF installed_configured re, of x] re x by auto
qed



text \<open>C6: In every reachable state the transition rows of a payment, replayed against the table of
  allowed transitions, end in the payment's current status; a payment that was ever settled
  is still in a status where money moved, and one that failed or was cancelled is still in a
  status where none did.\<close>

lemma every_history_is_legal:
  assumes "installed st0" "reachable st0 st" "p \<in> set (payments st)"
  shows "replay None (history (pay_id p) st) = Some (Some (pay_status p))
     \<and> ((\<exists>t \<in> set (history (pay_id p) st). tr_to t = Succeeded) \<longrightarrow> money_moved (pay_status p))
     \<and> ((\<exists>t \<in> set (history (pay_id p) st). tr_to t \<in> {Failed, Cancelled}) \<longrightarrow> nothing_moved (pay_status p))"
proof -
  have r: "replay None (history (pay_id p) st) = Some (Some (pay_status p))"
    using installed_kept(1)[OF assms(1,2)] assms(3) by (simp add: sound_def inv_log_def)
  have after: "settled.reach (tr_to t) (pay_status p)" if t: "t \<in> set (history (pay_id p) st)" for t
  proof -
    obtain ts us where "history (pay_id p) st = ts @ t # us" using split_list[OF t] by blast
    then obtain c where "replay c (t # us) = Some (Some (pay_status p))"
      using r by (auto simp: replay_append simp del: replay.simps split: option.splits)
    hence "replay (Some (tr_to t)) us = Some (Some (pay_status p))" by (simp split: if_splits)
    thus ?thesis by (rule replay_reach)
  qed
  have "money_moved (pay_status p)" if "t \<in> set (history (pay_id p) st)" "tr_to t = Succeeded" for t
    using settled.family_absorbs[OF after[OF that(1)]] that(2) by (simp add: money_moved_def)
  moreover have "nothing_moved (pay_status p)" if "t \<in> set (history (pay_id p) st)" "tr_to t \<in> {Failed, Cancelled}" for t
    using settled.terminal_stays[OF after[OF that(1)]] that(2) by (auto simp: nothing_moved_def)
  ultimately show ?thesis using r by blast
qed

lemma every_history_is_legal_witness:
  "\<exists>st p. reachable configured_store st \<and> p \<in> set (payments st) \<and> replay None (history (pay_id p) st) = Some (Some Succeeded)"
proof -
  obtain st where st: "reachable configured_store st" "map pay_status (payments st) = [Succeeded]" using one_dinner by (elim exE conjE)
  then obtain p where p: "p \<in> set (payments st)" "pay_status p = Succeeded" by auto
  have "replay None (history (pay_id p) st) = Some (Some Succeeded)"
    using every_history_is_legal[OF installed_configured st(1) p(1)] p(2) by simp
  thus ?thesis using st(1) p(1) by (intro exI[of _ st] exI[of _ p] conjI)
qed

text \<open>C7: In every reachable state two consecutive reports of tips add up to the report of both
  periods, and a report of a period in which every transition lies counts the tip of each
  settled payment of the restaurant exactly once.\<close>

theorem tips_counted_once:
  assumes "installed st0" "reachable st0 st" "a \<le> b" "b \<le> c"
  shows "rp_total_ves (tipsReport clock rid a b st) + rp_total_ves (tipsReport clock rid b c st) = rp_total_ves (tipsReport clock rid a c st)
     \<and> ((\<forall>i < length (transitions st). a \<le> clock i \<and> clock i < c) \<longrightarrow>
          rp_total_ves (tipsReport clock rid a c st)
            = sum_over (\<lambda>p. pay_restaurant p = rid \<and> pay_status p = Succeeded) tip_ves (payments st))"
proof (intro conjI impI)
  have sound: "sound st" using installed_kept(1)[OF assms(1,2)] .
  show "rp_total_ves (tipsReport clock rid a b st) + rp_total_ves (tipsReport clock rid b c st) = rp_total_ves (tipsReport clock rid a c st)"
    by (rule tips_window[OF sound assms(3,4)])
  assume all: "\<forall>i < length (transitions st). a \<le> clock i \<and> clock i < c"
  have "a \<le> settled_at clock st p \<and> settled_at clock st p < c" if p: "p \<in> set (payments st)" "pay_status p = Succeeded" for p
  proof -
    have "inv_log st" using sound by (simp add: sound_def)
    then obtain i t where it: "settled_rows st p = [(i, t)]" using one_settled_row p by blast
    hence "(i, t) \<in> set (settled_rows st p)" by simp
    hence "i < length (transitions st)" by (auto simp: settled_rows_def in_set_enumerate_eq)
    thus ?thesis using all it by (simp add: settled_at_def)
  qed
  thus "rp_total_ves (tipsReport clock rid a c st)
      = sum_over (\<lambda>p. pay_restaurant p = rid \<and> pay_status p = Succeeded) tip_ves (payments st)"
    unfolding report_total[OF sound] sum_over_def by (intro arg_cong[of _ _ "\<lambda>f. sum_list (map tip_ves f)"] filter_cong) auto
qed

lemma tips_counted_once_witness:
  "\<exists>st. reachable configured_store st \<and> map pay_status (payments st) = [Succeeded] \<and>
     rp_total_ves (tipsReport (\<lambda>i. 5) 7 0 5 st) + rp_total_ves (tipsReport (\<lambda>i. 5) 7 5 9 st) = sum_over (\<lambda>p. pay_restaurant p = 7 \<and> pay_status p = Succeeded) tip_ves (payments st)"
proof -
  obtain st where st: "reachable configured_store st" "map pay_status (payments st) = [Succeeded]" using one_dinner by (elim exE conjE)
  show ?thesis
    using tips_counted_once[OF installed_configured st(1), of 0 5 9 "\<lambda>i. 5" 7] st by (intro exI[of _ st] conjI) simp_all
qed

end
